(* ===== verification/Prelude.thy ===== *)
theory Prelude
  imports Main "HOL-Library.Word"
begin

text \<open>
  The generic part of the library: bytes and little-endian integers, the locale of
  fixed-width codecs with its interpretations at the widths the program uses, decimal
  printing and the parsing of \<^verbatim>\<open>atoi\<close>/\<^verbatim>\<open>atol\<close>, and the list lemmas that the components
  share.

  A byte is a value of type \<open>char\<close> (eight bits), so that a run of bytes is a \<open>string\<close>
  and the string literals of the C source are string literals here. The integer types
  are those of the x86-64 System V ABI the program is built for: \<open>short\<close> has 2 bytes,
  \<open>int\<close> and \<open>unsigned\<close> 4, \<open>long\<close>, \<open>size_t\<close> and pointers 8, all little-endian.
\<close>

named_theorems bytes_simps \<open>lengths and round trips of byte encodings\<close>

abbreviation NUL :: char where "NUL \<equiv> CHR 0x00"

type_synonym u8 = "8 word"
type_synonym u16 = "16 word"
type_synonym u32 = "32 word"
type_synonym u64 = "64 word"

section \<open>Lists\<close>

text \<open>Overwriting a run of cells in place.\<close>

definition overwrite :: "nat \<Rightarrow> 'a list \<Rightarrow> 'a list \<Rightarrow> 'a list" where
  "overwrite i new xs = take i xs @ new @ drop (i + length new) xs"

lemma length_overwrite [simp]:
  "i + length new \<le> length xs \<Longrightarrow> length (overwrite i new xs) = length xs"
  by (simp add: overwrite_def)

lemma overwrite_nil [simp]: "overwrite i [] xs = xs"
  by (simp add: overwrite_def)

lemma overwrite_prefix:
  "length pre = i \<Longrightarrow> overwrite i new (pre @ rest) = pre @ new @ drop (length new) rest"
  by (simp add: overwrite_def)

lemma overwrite_zero: "overwrite 0 new xs = new @ drop (length new) xs"
  by (simp add: overwrite_def)

lemma take_overwrite_before:
  "j \<le> i \<Longrightarrow> i \<le> length xs \<Longrightarrow> take j (overwrite i new xs) = take j xs"
  by (simp add: overwrite_def min_def)

lemma drop_overwrite_at:
  "i \<le> length xs \<Longrightarrow> drop i (overwrite i new xs) = new @ drop (i + length new) xs"
  by (simp add: overwrite_def)

lemma takeWhile_append_notin:
  "(\<forall>x \<in> set xs. P x) \<Longrightarrow> takeWhile P (xs @ ys) = xs @ takeWhile P ys"
  by simp

lemma drop_all_but_last: "xs \<noteq> [] \<Longrightarrow> drop (length xs - 1) xs = [last xs]"
  by (cases xs rule: rev_cases) simp_all

text \<open>The index of the first element with a property.\<close>

fun first_idx :: "('a \<Rightarrow> bool) \<Rightarrow> 'a list \<Rightarrow> nat option" where
  "first_idx p [] = None"
| "first_idx p (x # xs) = (if p x then Some 0 else map_option Suc (first_idx p xs))"

lemma first_idx_None: "first_idx p xs = None \<longleftrightarrow> (\<forall>x \<in> set xs. \<not> p x)"
  by (induction xs) auto

lemma first_idx_Some:
  "first_idx p xs = Some i \<Longrightarrow> i < length xs \<and> p (xs ! i) \<and> (\<forall>j < i. \<not> p (xs ! j))"
proof (induction xs arbitrary: i)
  case Nil
  then show ?case by simp
next
  case (Cons x xs)
  then show ?case by (auto split: if_splits simp: less_Suc_eq_0_disj)
qed

lemma first_idx_find: "map_option (\<lambda>i. xs ! i) (first_idx p xs) = find p xs"
  by (induction xs) (auto simp: option.map_comp comp_def)

lemma find_append:
  "find p (xs @ ys) = (case find p xs of None \<Rightarrow> find p ys | Some y \<Rightarrow> Some y)"
  by (induction xs) auto

text \<open>The list without the element at one index.\<close>

definition remove_nth :: "nat \<Rightarrow> 'a list \<Rightarrow> 'a list" where
  "remove_nth i xs = take i xs @ drop (Suc i) xs"

lemma length_remove_nth [simp]: "i < length xs \<Longrightarrow> length (remove_nth i xs) = length xs - 1"
  by (simp add: remove_nth_def)

lemma set_remove_nth_subset: "set (remove_nth i xs) \<subseteq> set xs"
  by (auto simp: remove_nth_def dest: in_set_takeD in_set_dropD)

section \<open>Little-endian integers\<close>

fun le_bytes :: "nat \<Rightarrow> nat \<Rightarrow> string" where
  "le_bytes 0 v = []"
| "le_bytes (Suc n) v = char_of v # le_bytes n (v div 256)"

fun le_val :: "string \<Rightarrow> nat" where
  "le_val [] = 0"
| "le_val (c # cs) = of_char c + 256 * le_val cs"

lemma le_bytes_numeral [simp]:
  "le_bytes (numeral n) v = char_of v # le_bytes (pred_numeral n) (v div 256)"
  unfolding numeral_eq_Suc [of n] by (rule le_bytes.simps(2))

lemma length_le_bytes [simp, bytes_simps]: "length (le_bytes n v) = n"
  by (induction n arbitrary: v) auto

lemma le_val_le_bytes: "le_val (le_bytes n v) = v mod 256 ^ n"
proof (induction n arbitrary: v)
  case 0
  then show ?case by simp
next
  case (Suc n)
  have "v mod (256 * 256 ^ n) = 256 * (v div 256 mod 256 ^ n) + v mod 256"
    by (rule mod_mult2_eq)
  then show ?case using Suc.IH by simp
qed

lemma char_of_low: "char_of (of_char c + 256 * v :: nat) = c"
proof -
  have "char_of (of_char c + 256 * v :: nat) = char_of ((of_char c + 256 * v :: nat) mod 256)"
    by (simp only: char_of_mod_256)
  also have "\<dots> = c" by (simp add: char_of_quasi_inj)
  finally show ?thesis .
qed

lemma le_bytes_le_val: "le_bytes (length cs) (le_val cs) = cs"
  by (induction cs) (simp_all add: char_of_low)

lemma le_val_less: "le_val cs < 256 ^ length cs"
proof (induction cs)
  case Nil
  then show ?case by simp
next
  case (Cons c cs)
  have "of_char c < (256 :: nat)" by (rule nat_of_char_less_256)
  moreover have "256 * le_val cs + 256 \<le> 256 * 256 ^ length cs"
    using Cons.IH by (simp flip: mult_Suc_right)
  ultimately show ?case by (simp add: order_less_le_trans [where y = "256 * le_val cs + 256"])
qed

section \<open>Fixed-width codecs\<close>

text \<open>
  What the code relies on wherever it copies an integer into a message and out again
  with \<^verbatim>\<open>memcpy\<close>: the encoding has the width of the type, and reading that many bytes
  gives the value back. The lemmas are proved once here and used at the widths below.
\<close>

locale codec =
  fixes enc :: "'w \<Rightarrow> string" and dec :: "string \<Rightarrow> 'w" and width :: nat
  assumes length_enc: "length (enc w) = width"
    and dec_enc: "dec (enc w) = w"
    and enc_dec: "length bs = width \<Longrightarrow> enc (dec bs) = bs"
begin

lemma take_enc: "take width (enc w @ rest) = enc w"
  by (simp add: length_enc)

lemma drop_enc: "drop width (enc w @ rest) = rest"
  by (simp add: length_enc)

lemma dec_take_enc: "dec (take width (enc w @ rest)) = w"
  by (simp add: length_enc dec_enc)

lemma enc_inject: "enc v @ r = enc w @ r' \<longleftrightarrow> v = w \<and> r = r'"
proof
  assume "enc v @ r = enc w @ r'"
  then have "enc v = enc w \<and> r = r'" by (simp add: length_enc)
  then show "v = w \<and> r = r'" by (metis dec_enc)
qed simp

lemma split_enc:
  assumes "width \<le> length bs"
  shows "bs = enc (dec (take width bs)) @ drop width bs"
  using assms by (simp add: enc_dec)

end

definition enc_word :: "nat \<Rightarrow> 'a::len word \<Rightarrow> string" where
  "enc_word n w = le_bytes n (unat w)"

definition dec_word :: "string \<Rightarrow> 'a::len word" where
  "dec_word cs = word_of_nat (le_val cs)"

lemma codec_word:
  assumes n: "LENGTH('a::len) = 8 * n"
  shows "codec (enc_word n :: 'a word \<Rightarrow> string) dec_word n"
proof
  have pow: "(256::nat) ^ n = 2 ^ LENGTH('a)" by (simp add: n power_mult)
  show "length (enc_word n w) = n" for w :: "'a word"
    by (simp add: enc_word_def)
  show "dec_word (enc_word n w) = w" for w :: "'a word"
    by (simp add: enc_word_def dec_word_def le_val_le_bytes pow)
  show "enc_word n (dec_word bs :: 'a word) = bs" if "length bs = n" for bs
    using le_val_less [of bs] le_bytes_le_val [of bs] that
    by (simp add: enc_word_def dec_word_def pow unsigned_of_nat take_bit_nat_eq_self)
qed

abbreviation enc16 :: "u16 \<Rightarrow> string" where "enc16 \<equiv> enc_word 2"
abbreviation enc32 :: "u32 \<Rightarrow> string" where "enc32 \<equiv> enc_word 4"
abbreviation enc64 :: "u64 \<Rightarrow> string" where "enc64 \<equiv> enc_word 8"

interpretation c8: codec "enc_word 1 :: u8 \<Rightarrow> string" dec_word 1
  by (rule codec_word) simp

interpretation c16: codec enc16 dec_word 2
  by (rule codec_word) simp

interpretation c32: codec enc32 dec_word 4
  by (rule codec_word) simp

interpretation c64: codec enc64 dec_word 8
  by (rule codec_word) simp

lemmas enc_lengths [simp, bytes_simps] =
  c8.length_enc c16.length_enc c32.length_enc c64.length_enc

lemmas dec_encs [simp, bytes_simps] = c8.dec_enc c16.dec_enc c32.dec_enc c64.dec_enc

lemmas enc8_simps [simp, bytes_simps] = c8.length_enc [unfolded One_nat_def]
  c8.dec_enc [unfolded One_nat_def]

section \<open>Decimal numbers\<close>

text \<open>\<^verbatim>\<open>%d\<close> and \<^verbatim>\<open>%ld\<close> of \<^verbatim>\<open>sprintf\<close>.\<close>

definition digit :: "nat \<Rightarrow> char" where
  "digit d = char_of (48 + d)"

fun show_nat :: "nat \<Rightarrow> string" where
  "show_nat n = (if n < 10 then [digit n] else show_nat (n div 10) @ [digit (n mod 10)])"

declare show_nat.simps [simp del]

definition show_int :: "int \<Rightarrow> string" where
  "show_int i = (if i < 0 then CHR ''-'' # show_nat (nat (- i)) else show_nat (nat i))"

text \<open>
  \<^verbatim>\<open>strtol\<close> with base 10, as glibc has it: white space, one optional sign, digits, the
  value clamped to the range of \<^verbatim>\<open>long\<close>; \<^verbatim>\<open>atoi\<close> is the result converted to \<^verbatim>\<open>int\<close>.
\<close>

definition is_digit :: "char \<Rightarrow> bool" where
  "is_digit c \<longleftrightarrow> 48 \<le> (of_char c :: nat) \<and> (of_char c :: nat) \<le> 57"

definition is_space :: "char \<Rightarrow> bool" where
  "is_space c \<longleftrightarrow> (of_char c :: nat) = 32 \<or> (9 \<le> (of_char c :: nat) \<and> (of_char c :: nat) \<le> 13)"

text \<open>The characters of \<^verbatim>\<open>%[0-9.]\<close> in a \<^verbatim>\<open>scanf\<close> format.\<close>

definition ip_char :: "char \<Rightarrow> bool" where
  "ip_char c \<longleftrightarrow> is_digit c \<or> c = CHR ''.''"

fun digits_val :: "nat \<Rightarrow> string \<Rightarrow> nat" where
  "digits_val acc [] = acc"
| "digits_val acc (c # cs) =
     (if is_digit c then digits_val (10 * acc + (of_char c - 48)) cs else acc)"

fun signed_val :: "string \<Rightarrow> int" where
  "signed_val [] = 0"
| "signed_val (c # cs) =
     (if c = CHR ''-'' then - int (digits_val 0 cs)
      else if c = CHR ''+'' then int (digits_val 0 cs)
      else int (digits_val 0 (c # cs)))"

definition atol :: "string \<Rightarrow> int" where
  "atol s = max (- (2 ^ 63)) (min (2 ^ 63 - 1) (signed_val (dropWhile is_space s)))"

definition atoi :: "string \<Rightarrow> int" where
  "atoi s = sint (word_of_int (atol s) :: u32)"

lemma of_char_digit: "d < 10 \<Longrightarrow> (of_char (digit d) :: nat) = 48 + d"
  by (simp add: digit_def)

lemma is_digit_digit [simp]: "d < 10 \<Longrightarrow> is_digit (digit d)"
  by (simp add: is_digit_def of_char_digit)

lemma digits_val_show_nat:
  "digits_val acc (show_nat n @ rest) = digits_val (acc * 10 ^ length (show_nat n) + n) rest"
proof (induction n arbitrary: acc rest rule: show_nat.induct)
  case (1 n)
  show ?case
  proof (cases "n < 10")
    case True
    then show ?thesis by (simp add: show_nat.simps [of n] of_char_digit mult.commute)
  next
    case False
    have m: "n mod 10 < 10" by simp
    have "digits_val acc (show_nat n @ rest) =
        digits_val (acc * 10 ^ length (show_nat (n div 10)) + n div 10) (digit (n mod 10) # rest)"
      using False "1.IH" [of acc "digit (n mod 10) # rest"] by (simp add: show_nat.simps [of n])
    also have "\<dots> = digits_val (acc * 10 ^ Suc (length (show_nat (n div 10))) + n) rest"
      using m by (simp add: of_char_digit algebra_simps)
    finally show ?thesis using False by (simp add: show_nat.simps [of n])
  qed
qed

lemma show_nat_nonempty: "show_nat n \<noteq> []"
  by (subst show_nat.simps) simp

lemma show_nat_digits: "c \<in> set (show_nat n) \<Longrightarrow> is_digit c"
proof (induction n rule: show_nat.induct)
  case (1 n)
  then show ?case by (subst (asm) show_nat.simps) (auto split: if_splits)
qed

definition stops_digits :: "string \<Rightarrow> bool" where
  "stops_digits rest \<longleftrightarrow> (rest = [] \<or> \<not> is_digit (hd rest))"

lemma digits_val_stop: "stops_digits rest \<Longrightarrow> digits_val acc rest = acc"
  by (cases rest) (auto simp: stops_digits_def)

lemma digit_not_special: "is_digit c \<Longrightarrow> c \<noteq> CHR ''-'' \<and> c \<noteq> CHR ''+'' \<and> \<not> is_space c \<and> c \<noteq> NUL"
  by (auto simp: is_digit_def is_space_def)

lemma signed_val_show_int:
  assumes "stops_digits rest"
  shows "signed_val (dropWhile is_space (show_int i @ rest)) = i"
proof (cases "i < 0")
  case True
  have "digits_val 0 (show_nat (nat (- i)) @ rest) = nat (- i)"
    using assms by (simp add: digits_val_show_nat digits_val_stop)
  then show ?thesis using True by (simp add: show_int_def is_space_def)
next
  case False
  obtain c cs where c: "show_nat (nat i) = c # cs"
    using show_nat_nonempty by (meson neq_Nil_conv)
  then have d: "is_digit c" using show_nat_digits [of c "nat i"] by simp
  have "digits_val 0 (show_nat (nat i) @ rest) = nat i"
    using assms by (simp add: digits_val_show_nat digits_val_stop)
  then show ?thesis using False c digit_not_special [OF d]
    by (simp add: show_int_def)
qed

lemma atol_show_int:
  assumes "stops_digits rest" and "- (2 ^ 63) \<le> i" and "i < 2 ^ 63"
  shows "atol (show_int i @ rest) = i"
  using assms by (simp add: atol_def signed_val_show_int)

lemma atoi_show_int:
  assumes "stops_digits rest" and "- (2 ^ 31) \<le> i" and "i < 2 ^ 31"
  shows "atoi (show_int i @ rest) = i"
proof -
  have "atol (show_int i @ rest) = i" using assms by (intro atol_show_int) auto
  then show ?thesis using assms by (simp add: atoi_def sint_sbintrunc' signed_take_bit_int_eq_self)
qed

lemma show_int_no_nul: "NUL \<notin> set (show_int i)"
  using show_nat_digits digit_not_special by (auto simp: show_int_def)

text \<open>How many characters a number takes.\<close>

lemma length_show_nat: "n < 10 ^ Suc k \<Longrightarrow> length (show_nat n) \<le> Suc k"
proof (induction k arbitrary: n)
  case 0
  then show ?case by (simp add: show_nat.simps)
next
  case (Suc k)
  show ?case
  proof (cases "n < 10")
    case True
    then show ?thesis by (simp add: show_nat.simps)
  next
    case False
    have "n div 10 < 10 ^ Suc k" using Suc.prems by (simp add: less_mult_imp_div_less)
    then show ?thesis using Suc.IH False by (subst show_nat.simps) simp
  qed
qed

lemma length_show_int32: "length (show_int (sint (w :: u32))) \<le> 11"
proof -
  have "- (2 ^ 31) \<le> sint w" "sint w < 2 ^ 31"
    using sint_ge [of w] sint_lt [of w] by simp_all
  then have "nat (sint w) < 10 ^ Suc 9" "nat (- sint w) < 10 ^ Suc 9" by simp_all
  then show ?thesis using length_show_nat [of "nat (sint w)" 9] length_show_nat [of "nat (- sint w)" 9]
    by (simp add: show_int_def)
qed

lemma length_show_port: "length (show_int (int (unat (w :: u16)))) \<le> 5"
proof -
  have "unat w < 2 ^ LENGTH(16)" by (rule unsigned_less)
  then have "unat w < 10 ^ Suc 4" by simp
  then show ?thesis using length_show_nat [of "unat w" 4] by (simp add: show_int_def)
qed

end
