(* ===== verification/C_Command.thy ===== *)
theory C_Command
  imports Prelude
begin

text \<open>
  Commands: the statements of the C source as functions from a state to a fault or to a
  value and the next state, with the weakest-precondition calculus the proofs use. A
  fault is a behaviour the C code must not have (an access outside a block, a second
  free, a self-deadlock, an endless loop); a command has no value after one.
\<close>

section \<open>Commands that may fault\<close>

datatype fault =
    NullDeref       \<comment> \<open>access through a null pointer\<close>
  | UseAfterFree    \<comment> \<open>access to a block that is not live\<close>
  | ReadOutside     \<comment> \<open>read beyond mapped memory\<close>
  | Overflow        \<comment> \<open>write beyond the bytes of a block\<close>
  | BadFree         \<comment> \<open>free of a pointer that is no live heap block, e.g. a second free\<close>
  | Deadlock        \<comment> \<open>a thread locks a mutex that it holds\<close>
  | Diverges        \<comment> \<open>a loop that never ends\<close>
  | DivByZero       \<comment> \<open>integer division by zero\<close>

type_synonym ('a, 's) cmd = "'s \<Rightarrow> fault + 'a \<times> 's"

definition cret :: "'a \<Rightarrow> ('a, 's) cmd" where
  "cret x s = Inr (x, s)"

definition cfail :: "fault \<Rightarrow> ('a, 's) cmd" where
  "cfail e s = Inl e"

definition cbind :: "('a, 's) cmd \<Rightarrow> ('a \<Rightarrow> ('b, 's) cmd) \<Rightarrow> ('b, 's) cmd" where
  "cbind m f s = (case m s of Inl e \<Rightarrow> Inl e | Inr (x, t) \<Rightarrow> f x t)"

definition cseq :: "('a, 's) cmd \<Rightarrow> ('b, 's) cmd \<Rightarrow> ('b, 's) cmd" where
  "cseq m n = cbind m (\<lambda>_. n)"

definition cskip :: "(unit, 's) cmd" where
  "cskip = cret ()"

definition cwhen :: "bool \<Rightarrow> (unit, 's) cmd \<Rightarrow> (unit, 's) cmd" where
  "cwhen b m = (if b then m else cskip)"

definition cget :: "('s \<Rightarrow> 'a) \<Rightarrow> ('a, 's) cmd" where
  "cget f s = Inr (f s, s)"

definition cmodify :: "('s \<Rightarrow> 's) \<Rightarrow> (unit, 's) cmd" where
  "cmodify f s = Inr ((), f s)"

text \<open>The statements of a block, in order.\<close>

fun cblock :: "(unit, 's) cmd list \<Rightarrow> (unit, 's) cmd" where
  "cblock [] = cskip"
| "cblock (m # ms) = cseq m (cblock ms)"

text \<open>
  A loop: the body either goes on with new loop variables (\<open>Inl\<close>) or leaves the loop
  (\<open>Inr\<close>). The first argument bounds the number of rounds; a loop that uses it up is
  one that never ends, so each use says why its bound is enough.
\<close>

fun cloop :: "nat \<Rightarrow> ('x \<Rightarrow> ('x + 'r, 's) cmd) \<Rightarrow> 'x \<Rightarrow> ('r, 's) cmd" where
  "cloop 0 body x = cfail Diverges"
| "cloop (Suc n) body x =
     cbind (body x) (\<lambda>r. case r of Inl x' \<Rightarrow> cloop n body x' | Inr y \<Rightarrow> cret y)"

section \<open>Weakest preconditions\<close>

text \<open>\<open>wp m Q s\<close>: from \<open>s\<close>, \<open>m\<close> runs without a fault and ends with \<open>Q\<close>.\<close>

definition wp :: "('a, 's) cmd \<Rightarrow> ('a \<Rightarrow> 's \<Rightarrow> bool) \<Rightarrow> 's \<Rightarrow> bool" where
  "wp m Q s = (case m s of Inl e \<Rightarrow> False | Inr (x, t) \<Rightarrow> Q x t)"

named_theorems wp_simps \<open>equations that compute a weakest precondition\<close>

lemma wp_cret [wp_simps]: "wp (cret x) Q s = Q x s"
  by (simp add: wp_def cret_def)

lemma wp_cfail [wp_simps]: "wp (cfail e) Q s = False"
  by (simp add: wp_def cfail_def)

lemma wp_cbind [wp_simps]: "wp (cbind m f) Q s = wp m (\<lambda>x. wp (f x) Q) s"
  by (simp add: wp_def cbind_def split: sum.split)

lemma wp_cseq [wp_simps]: "wp (cseq m n) Q s = wp m (\<lambda>_. wp n Q) s"
  by (simp add: cseq_def wp_cbind)

lemma wp_cseq_fun: "wp (cseq m n) Q = wp m (\<lambda>_. wp n Q)"
  by (simp add: fun_eq_iff wp_cseq)

lemma wp_cskip [wp_simps]: "wp cskip Q s = Q () s"
  by (simp add: cskip_def wp_cret)

lemma wp_cwhen [wp_simps]: "wp (cwhen b m) Q s = (if b then wp m Q s else Q () s)"
  by (simp add: cwhen_def wp_cskip)

lemma wp_cget [wp_simps]: "wp (cget f) Q s = Q (f s) s"
  by (simp add: wp_def cget_def)

lemma wp_cmodify [wp_simps]: "wp (cmodify f) Q s = Q () (f s)"
  by (simp add: wp_def cmodify_def)

lemma wp_if [wp_simps]: "wp (if b then m else n) Q s = (if b then wp m Q s else wp n Q s)"
  by simp

text \<open>The same as equations between predicates on states.\<close>

lemma wp_cbind_fun: "wp (cbind m f) Q = wp m (\<lambda>x. wp (f x) Q)"
  by (simp add: fun_eq_iff wp_cbind)

lemma wp_cret_fun: "wp (cret x) Q = Q x"
  by (simp add: fun_eq_iff wp_cret)

lemma wp_if_fun: "wp (if b then m else n) Q = (\<lambda>s. if b then wp m Q s else wp n Q s)"
  by simp

lemma wp_cskip_fun: "wp cskip Q = Q ()"
  by (simp add: fun_eq_iff wp_cskip)

lemmas wp_funs = wp_cbind_fun wp_cseq_fun wp_cret_fun wp_if_fun wp_cskip_fun

lemma wp_cblock_Nil [wp_simps]: "wp (cblock []) Q s = Q () s"
  by (simp add: wp_cskip cblock.simps)

lemma wp_cblock_Cons [wp_simps]: "wp (cblock (m # ms)) Q s = wp m (\<lambda>_. wp (cblock ms) Q) s"
  by (simp add: wp_cseq cblock.simps)

declare cblock.simps [simp del]

lemma wp_cloop_Suc:
  "wp (cloop (Suc n) body x) Q s =
     wp (body x) (\<lambda>r t. case r of Inl x' \<Rightarrow> wp (cloop n body x') Q t | Inr y \<Rightarrow> Q y t) s"
  by (simp add: wp_def cbind_def cret_def split: sum.split)

declare cloop.simps [simp del]

lemma wp_mono: "wp m Q s \<Longrightarrow> (\<And>x t. Q x t \<Longrightarrow> R x t) \<Longrightarrow> wp m R s"
  by (auto simp: wp_def split: sum.splits)

lemma wp_conj: "wp m Q s \<Longrightarrow> wp m R s \<Longrightarrow> wp m (\<lambda>x t. Q x t \<and> R x t) s"
  by (auto simp: wp_def split: sum.splits)

lemma wp_runs: "wp m Q s \<longleftrightarrow> (\<exists>x t. m s = Inr (x, t) \<and> Q x t)"
  by (auto simp: wp_def split: sum.splits)

lemma wp_eq: "m s = Inr (x, t) \<Longrightarrow> wp m Q s = Q x t"
  by (simp add: wp_def)

lemma runs_wp: "m s = Inr (x, t) \<longleftrightarrow> wp m (\<lambda>y u. y = x \<and> u = t) s"
  by (auto simp: wp_runs)

text \<open>
  The rule for loops: an invariant with a measure that every further round decreases
  and that is below the bound at the start.
\<close>

lemma wp_cloop:
  assumes "I x s" and "\<mu> x < n"
    and step: "\<And>x s. I x s \<Longrightarrow>
      wp (body x) (\<lambda>r t. case r of Inl x' \<Rightarrow> I x' t \<and> \<mu> x' < \<mu> x | Inr y \<Rightarrow> Q y t) s"
  shows "wp (cloop n body x) Q s"
  using assms(1,2)
proof (induction n arbitrary: x s)
  case 0
  then show ?case by simp
next
  case (Suc n)
  show ?case unfolding wp_cloop_Suc
  proof (rule wp_mono [OF step [OF Suc.prems(1)]])
    fix r t
    assume r: "case r of Inl x' \<Rightarrow> I x' t \<and> \<mu> x' < \<mu> x | Inr y \<Rightarrow> Q y t"
    then show "case r of Inl x' \<Rightarrow> wp (cloop n body x') Q t | Inr y \<Rightarrow> Q y t"
      using Suc.prems(2) Suc.IH by (cases r) auto
  qed
qed

text \<open>Faults propagate: a command faults when its first part does.\<close>

named_theorems run_simps \<open>equations that run a command on a state\<close>

lemma run_cret [run_simps]: "cret x s = Inr (x, s)"
  by (simp add: cret_def)

lemma run_cfail [run_simps]: "cfail e s = Inl e"
  by (simp add: cfail_def)

lemma run_cbind_fault: "m s = Inl e \<Longrightarrow> cbind m f s = Inl e"
  by (simp add: cbind_def)

lemma run_cbind_ok: "m s = Inr (x, t) \<Longrightarrow> cbind m f s = f x t"
  by (simp add: cbind_def)

lemma run_cseq_fault: "m s = Inl e \<Longrightarrow> cseq m n s = Inl e"
  by (simp add: cseq_def cbind_def)

lemma run_cseq_ok: "m s = Inr (x, t) \<Longrightarrow> cseq m n s = n t"
  by (simp add: cseq_def cbind_def)

lemma run_cskip [run_simps]: "cskip s = Inr ((), s)"
  by (simp add: cskip_def cret_def)

lemma run_cget [run_simps]: "cget f s = Inr (f s, s)"
  by (simp add: cget_def)

lemma run_cmodify [run_simps]: "cmodify f s = Inr ((), f s)"
  by (simp add: cmodify_def)

lemma run_cwhen [run_simps]: "cwhen b m s = (if b then m s else Inr ((), s))"
  by (simp add: cwhen_def run_cskip)

text \<open>A command that runs, followed by one that faults.\<close>

lemma wp_fault: "wp m (\<lambda>x t. f x t = Inl e) s \<Longrightarrow> cbind m f s = Inl e"
  by (auto simp: wp_def cbind_def split: sum.splits)

lemma wp_fault_seq: "wp m (\<lambda>x t. n t = Inl e) s \<Longrightarrow> cseq m n s = Inl e"
  unfolding cseq_def by (rule wp_fault)

text \<open>The laws of sequencing.\<close>

lemma cbind_cret: "cbind m cret = m" "cbind (cret x) f = f x"
  by (simp_all add: fun_eq_iff cbind_def cret_def split: sum.split)

lemma cbind_assoc: "cbind (cbind m f) g = cbind m (\<lambda>x. cbind (f x) g)"
  by (simp add: fun_eq_iff cbind_def split: sum.split)

lemma cbind_run: "m s = Inr (x, t) \<Longrightarrow> cbind m f s = f x t"
  by (simp add: cbind_def)

lemma cbind_runs:
  assumes "cbind m f s = Inr (y, u)"
  obtains x t where "m s = Inr (x, t)" "f x t = Inr (y, u)"
  using assms by (auto simp: cbind_def split: sum.splits)

lemma cseq_runs:
  assumes "cseq m n s = Inr (y, u)"
  obtains x t where "m s = Inr (x, t)" "n t = Inr (y, u)"
  using assms unfolding cseq_def by (rule cbind_runs)

lemmas run_steps = run_cbind_fault run_cbind_ok run_cseq_fault run_cseq_ok

end
