(* ===== verification/C_Memory.thy ===== *)
theory C_Memory
  imports C_Command
begin

text \<open>
  The memory the components run on: blocks with explicit bounds, and the functions of
  the C library the source uses (\<^verbatim>\<open>malloc\<close>, \<^verbatim>\<open>free\<close>, \<^verbatim>\<open>realloc\<close>, \<^verbatim>\<open>memcpy\<close>, \<^verbatim>\<open>strlen\<close>,
  \<^verbatim>\<open>strcpy\<close>, \<^verbatim>\<open>strncpy\<close>, \<^verbatim>\<open>sprintf\<close>).

  A block has the number of bytes that may be written (the requested size and what the
  allocator rounds it up by) and the bytes that may be read, from its start to the end of
  the mapped memory. What the allocator leaves open is a parameter of the state, so that
  a theorem about all states is a theorem about all allocators: \<open>junk k\<close> is what is found
  in the memory of the \<open>k\<close>-th allocation, \<open>spare k\<close> how many bytes its block is larger
  than requested, \<open>room k\<close> how many readable bytes follow it. Reading uninitialised
  memory, or beyond a block but inside mapped memory, yields those bytes; every access
  that goes further is a fault. Allocation itself is taken to succeed.
\<close>

section \<open>Pointers, blocks and the memory\<close>

datatype ptr = Null | Ptr nat nat

fun padd :: "ptr \<Rightarrow> nat \<Rightarrow> ptr" where
  "padd Null n = Null"
| "padd (Ptr b i) n = Ptr b (i + n)"

record block =
  usable :: nat
  bytes :: string
  on_heap :: bool

record mem =
  blocks :: "nat \<Rightarrow> block option"
  next_id :: nat
  junk :: "nat \<Rightarrow> nat \<Rightarrow> char"
  spare :: "nat \<Rightarrow> nat"
  room :: "nat \<Rightarrow> nat"

type_synonym ('a, 'z) mcmd = "('a, 'z mem_scheme) cmd"

definition fresh_bytes :: "nat \<Rightarrow> 'z mem_scheme \<Rightarrow> string" where
  "fresh_bytes n s =
     map (junk s (next_id s)) [0..<n + spare s (next_id s) + room s (next_id s)]"

definition fresh_block :: "nat \<Rightarrow> 'z mem_scheme \<Rightarrow> block" where
  "fresh_block n s =
     \<lparr>usable = n + spare s (next_id s), bytes = fresh_bytes n s, on_heap = True\<rparr>"

definition add_block :: "block \<Rightarrow> 'z mem_scheme \<Rightarrow> 'z mem_scheme" where
  "add_block k s = s\<lparr>blocks := (blocks s)(next_id s \<mapsto> k), next_id := Suc (next_id s)\<rparr>"

definition set_block :: "nat \<Rightarrow> block \<Rightarrow> 'z mem_scheme \<Rightarrow> 'z mem_scheme" where
  "set_block b k s = s\<lparr>blocks := (blocks s)(b \<mapsto> k)\<rparr>"

definition del_block :: "nat \<Rightarrow> 'z mem_scheme \<Rightarrow> 'z mem_scheme" where
  "del_block b s = s\<lparr>blocks := (blocks s)(b := None)\<rparr>"

section \<open>Allocation\<close>

definition malloc :: "nat \<Rightarrow> (ptr, 'z) mcmd" where
  "malloc n s = Inr (Ptr (next_id s) 0, add_block (fresh_block n s) s)"

text \<open>A string literal: a block of static storage that may not be written or freed.\<close>

definition literal :: "string \<Rightarrow> (ptr, 'z) mcmd" where
  "literal t s =
     Inr (Ptr (next_id s) 0,
       add_block \<lparr>usable = 0,
         bytes = t @ NUL # map (junk s (next_id s)) [0..<room s (next_id s)],
         on_heap = False\<rparr> s)"

fun free :: "ptr \<Rightarrow> (unit, 'z) mcmd" where
  "free Null s = Inr ((), s)"
| "free (Ptr b i) s =
     (case blocks s b of
        None \<Rightarrow> Inl BadFree
      | Some k \<Rightarrow> if on_heap k \<and> i = 0 then Inr ((), del_block b s) else Inl BadFree)"

text \<open>
  \<^verbatim>\<open>realloc\<close> moves the block: the old pointer is dead, the bytes the block had are
  copied as far as both sizes go. Size 0 frees the block and returns null, as in glibc.
\<close>

fun realloc :: "ptr \<Rightarrow> nat \<Rightarrow> (ptr, 'z) mcmd" where
  "realloc Null n s = malloc n s"
| "realloc (Ptr b i) n s =
     (case blocks s b of
        None \<Rightarrow> Inl BadFree
      | Some k \<Rightarrow>
          if \<not> (on_heap k \<and> i = 0) then Inl BadFree
          else if n = 0 then Inr (Null, del_block b s)
          else Inr (Ptr (next_id s) 0,
            add_block
              ((fresh_block n s)\<lparr>bytes :=
                 overwrite 0 (take (min (usable k) n) (bytes k)) (fresh_bytes n s)\<rparr>)
              (del_block b s)))"

section \<open>Access\<close>

fun load :: "ptr \<Rightarrow> nat \<Rightarrow> (string, 'z) mcmd" where
  "load Null n s = Inl NullDeref"
| "load (Ptr b i) n s =
     (case blocks s b of
        None \<Rightarrow> Inl UseAfterFree
      | Some k \<Rightarrow>
          if i + n \<le> length (bytes k) then Inr (take n (drop i (bytes k)), s)
          else Inl ReadOutside)"

fun store :: "ptr \<Rightarrow> string \<Rightarrow> (unit, 'z) mcmd" where
  "store Null t s = Inl NullDeref"
| "store (Ptr b i) t s =
     (case blocks s b of
        None \<Rightarrow> Inl UseAfterFree
      | Some k \<Rightarrow>
          if i + length t \<le> usable k
          then Inr ((), set_block b (k\<lparr>bytes := overwrite i t (bytes k)\<rparr>) s)
          else Inl Overflow)"

definition memcpy :: "ptr \<Rightarrow> ptr \<Rightarrow> nat \<Rightarrow> (unit, 'z) mcmd" where
  "memcpy d p n = cbind (load p n) (store d)"

text \<open>The C string at the front of a run of bytes: the bytes before the first NUL.\<close>

fun c_str :: "string \<Rightarrow> string option" where
  "c_str [] = None"
| "c_str (c # cs) = (if c = NUL then Some [] else map_option (Cons c) (c_str cs))"

fun get_str :: "ptr \<Rightarrow> (string, 'z) mcmd" where
  "get_str Null s = Inl NullDeref"
| "get_str (Ptr b i) s =
     (case blocks s b of
        None \<Rightarrow> Inl UseAfterFree
      | Some k \<Rightarrow>
          (case c_str (drop i (bytes k)) of
             None \<Rightarrow> Inl ReadOutside
           | Some t \<Rightarrow> Inr (t, s)))"

definition strlen :: "ptr \<Rightarrow> (nat, 'z) mcmd" where
  "strlen p = cbind (get_str p) (\<lambda>t. cret (length t))"

definition strcpy :: "ptr \<Rightarrow> ptr \<Rightarrow> (unit, 'z) mcmd" where
  "strcpy d p = cbind (get_str p) (\<lambda>t. store d (t @ [NUL]))"

text \<open>
  \<^verbatim>\<open>strncpy\<close> reads at most \<open>n\<close> bytes, stops at a NUL, and writes exactly \<open>n\<close> bytes,
  padded with NUL; without a NUL among them the copy is not terminated.
\<close>

fun strn :: "nat \<Rightarrow> string \<Rightarrow> string option" where
  "strn 0 cs = Some []"
| "strn (Suc n) [] = None"
| "strn (Suc n) (c # cs) =
     (if c = NUL then Some (replicate (Suc n) NUL) else map_option (Cons c) (strn n cs))"

fun get_strn :: "ptr \<Rightarrow> nat \<Rightarrow> (string, 'z) mcmd" where
  "get_strn Null n s = Inl NullDeref"
| "get_strn (Ptr b i) n s =
     (case blocks s b of
        None \<Rightarrow> Inl UseAfterFree
      | Some k \<Rightarrow>
          (case strn n (drop i (bytes k)) of
             None \<Rightarrow> Inl ReadOutside
           | Some t \<Rightarrow> Inr (t, s)))"

definition strncpy :: "ptr \<Rightarrow> ptr \<Rightarrow> nat \<Rightarrow> (unit, 'z) mcmd" where
  "strncpy d p n = cbind (get_strn p n) (store d)"

text \<open>
  \<^verbatim>\<open>sprintf\<close>: the format string is the list of its pieces, literal text, \<^verbatim>\<open>%s\<close> of a
  pointer, and \<^verbatim>\<open>%d\<close>/\<^verbatim>\<open>%ld\<close> of a number. The text is formed from the memory as it is
  before the call and then written with its NUL.
\<close>

datatype piece = Txt string | PStr ptr | PInt int

fun format :: "piece list \<Rightarrow> (string, 'z) mcmd" where
  "format [] = cret []"
| "format (Txt t # ps) = cbind (format ps) (\<lambda>r. cret (t @ r))"
| "format (PInt i # ps) = cbind (format ps) (\<lambda>r. cret (show_int i @ r))"
| "format (PStr p # ps) = cbind (get_str p) (\<lambda>t. cbind (format ps) (\<lambda>r. cret (t @ r)))"

definition sprintf :: "ptr \<Rightarrow> piece list \<Rightarrow> (nat, 'z) mcmd" where
  "sprintf d ps = cbind (format ps) (\<lambda>t. cseq (store d (t @ [NUL])) (cret (length t)))"

section \<open>What a state holds\<close>

text \<open>
  \<open>peek s p n\<close>: the \<open>n\<close> bytes readable at \<open>p\<close>. \<open>cstring s p\<close>: the C string at \<open>p\<close>.
  \<open>writable s p n\<close>: \<open>n\<close> bytes may be written at \<open>p\<close>. \<open>live\<close>: a heap block that may be
  freed.
\<close>

fun peek :: "'z mem_scheme \<Rightarrow> ptr \<Rightarrow> nat \<Rightarrow> string option" where
  "peek s Null n = None"
| "peek s (Ptr b i) n =
     (case blocks s b of
        None \<Rightarrow> None
      | Some k \<Rightarrow> if i + n \<le> length (bytes k) then Some (take n (drop i (bytes k))) else None)"

fun cstring :: "'z mem_scheme \<Rightarrow> ptr \<Rightarrow> string option" where
  "cstring s Null = None"
| "cstring s (Ptr b i) =
     (case blocks s b of None \<Rightarrow> None | Some k \<Rightarrow> c_str (drop i (bytes k)))"

fun writable :: "'z mem_scheme \<Rightarrow> ptr \<Rightarrow> nat \<Rightarrow> bool" where
  "writable s Null n = False"
| "writable s (Ptr b i) n =
     (case blocks s b of None \<Rightarrow> False | Some k \<Rightarrow> i + n \<le> usable k)"

fun put :: "ptr \<Rightarrow> string \<Rightarrow> 'z mem_scheme \<Rightarrow> 'z mem_scheme" where
  "put Null t s = s"
| "put (Ptr b i) t s =
     (case blocks s b of
        None \<Rightarrow> s
      | Some k \<Rightarrow> set_block b (k\<lparr>bytes := overwrite i t (bytes k)\<rparr>) s)"

fun live :: "'z mem_scheme \<Rightarrow> ptr \<Rightarrow> bool" where
  "live s Null = False"
| "live s (Ptr b i) = (i = 0 \<and> (\<exists>k. blocks s b = Some k \<and> on_heap k))"

text \<open>The invariant of the memory: block numbers are below the next one, and what may be
  written may be read.\<close>

definition wf_mem :: "'z mem_scheme \<Rightarrow> bool" where
  "wf_mem s \<longleftrightarrow>
     (\<forall>b k. blocks s b = Some k \<longrightarrow> b < next_id s \<and> usable k \<le> length (bytes k))"

text \<open>
  \<open>grows s t\<close>: \<open>t\<close> comes from \<open>s\<close> by allocating and by writing to new blocks only; every
  block of \<open>s\<close> is as it was, and so is everything that is not memory.
\<close>

definition grows :: "'z mem_scheme \<Rightarrow> 'z mem_scheme \<Rightarrow> bool" where
  "grows s t \<longleftrightarrow>
     (\<forall>b k. blocks s b = Some k \<longrightarrow> blocks t b = Some k) \<and> next_id s \<le> next_id t \<and>
     wf_mem t \<and> t = s\<lparr>blocks := blocks t, next_id := next_id t\<rparr>"

end
