(* ===== verification/Memory_Laws.thy ===== *)
theory Memory_Laws
  imports C_Memory
begin

text \<open>
  The laws of the memory: what each library function needs and does (its weakest
  precondition), what survives allocation and writes to other blocks, and the relation
  \<open>grows\<close> that every function which only builds new objects keeps.
\<close>

section \<open>C strings in runs of bytes\<close>

lemma c_str_nul: "NUL \<notin> set t \<Longrightarrow> c_str (t @ NUL # r) = Some t"
  by (induction t) auto

lemma c_str_append: "NUL \<notin> set t \<Longrightarrow> c_str (t @ r) = map_option (\<lambda>u. t @ u) (c_str r)"
proof (induction t)
  case Nil
  then show ?case by (simp add: option.map_ident)
next
  case (Cons a t)
  then show ?case by (auto simp: option.map_comp comp_def)
qed

lemma c_str_SomeD: "c_str xs = Some t \<Longrightarrow> NUL \<notin> set t \<and> (\<exists>r. xs = t @ NUL # r)"
  by (induction xs arbitrary: t) (auto split: if_splits)

lemma c_str_no_nul: "c_str xs = Some t \<Longrightarrow> NUL \<notin> set t"
  by (blast dest: c_str_SomeD)

lemma c_str_length: "c_str xs = Some t \<Longrightarrow> length t < length xs"
  by (auto dest: c_str_SomeD)

lemma c_str_None_iff: "c_str xs = None \<longleftrightarrow> NUL \<notin> set xs"
  by (induction xs) auto

lemma length_strn: "strn n cs = Some t \<Longrightarrow> length t = n"
  by (induction n cs arbitrary: t rule: strn.induct) (auto split: if_splits)

lemma strn_prefix: "NUL \<notin> set t \<Longrightarrow> length t = n \<Longrightarrow> strn n (t @ r) = Some t"
proof (induction t arbitrary: n)
  case Nil
  then show ?case by simp
next
  case (Cons c t)
  then show ?case by (cases n) auto
qed

section \<open>Updates of blocks\<close>

lemma blocks_add_block [simp]:
  "blocks (add_block k s) = (blocks s)(next_id s \<mapsto> k)"
  "next_id (add_block k s) = Suc (next_id s)"
  "junk (add_block k s) = junk s" "spare (add_block k s) = spare s"
  "room (add_block k s) = room s"
  by (simp_all add: add_block_def)

lemma blocks_set_block [simp]:
  "blocks (set_block b k s) = (blocks s)(b \<mapsto> k)"
  "next_id (set_block b k s) = next_id s"
  "junk (set_block b k s) = junk s" "spare (set_block b k s) = spare s"
  "room (set_block b k s) = room s"
  by (simp_all add: set_block_def)

lemma blocks_del_block [simp]:
  "blocks (del_block b s) = (blocks s)(b := None)"
  "next_id (del_block b s) = next_id s"
  "junk (del_block b s) = junk s" "spare (del_block b s) = spare s"
  "room (del_block b s) = room s"
  by (simp_all add: del_block_def)

lemma set_block_twice [simp]: "set_block b k (set_block b k' s) = set_block b k s"
  by (simp add: set_block_def)

lemma set_block_add_block [simp]:
  "set_block (next_id s) k (add_block k' s) = add_block k s"
  by (simp add: set_block_def add_block_def)

lemma fresh_block_simps [simp]:
  "usable (fresh_block n s) = n + spare s (next_id s)"
  "bytes (fresh_block n s) = fresh_bytes n s"
  "on_heap (fresh_block n s)"
  by (simp_all add: fresh_block_def)

lemma length_fresh_bytes [simp]:
  "length (fresh_bytes n s) = n + spare s (next_id s) + room s (next_id s)"
  by (simp add: fresh_bytes_def)

lemma put_same [simp]:
  "blocks s b = Some k \<Longrightarrow>
    put (Ptr b i) t s = set_block b (k\<lparr>bytes := overwrite i t (bytes k)\<rparr>) s"
  by simp

declare put.simps(2) [simp del]

section \<open>Weakest preconditions of the library functions\<close>

lemma wp_malloc [wp_simps]:
  "wp (malloc n) Q s = Q (Ptr (next_id s) 0) (add_block (fresh_block n s) s)"
  by (simp add: wp_def malloc_def)

definition lit_block :: "string \<Rightarrow> 'z mem_scheme \<Rightarrow> block" where
  "lit_block t s = \<lparr>usable = 0,
     bytes = t @ NUL # map (junk s (next_id s)) [0..<room s (next_id s)], on_heap = False\<rparr>"

lemma wp_literal [wp_simps]:
  "wp (literal t) Q s = Q (Ptr (next_id s) 0) (add_block (lit_block t s) s)"
  by (simp add: wp_def literal_def lit_block_def)

lemma wp_load [wp_simps]:
  "wp (load p n) Q s = (case peek s p n of None \<Rightarrow> False | Some t \<Rightarrow> Q t s)"
  by (cases p) (auto simp: wp_def split: option.splits)

lemma wp_store [wp_simps]:
  "wp (store p t) Q s = (writable s p (length t) \<and> Q () (put p t s))"
  by (cases p) (auto simp: wp_def split: option.splits)

lemma length_peek: "peek s p n = Some t \<Longrightarrow> length t = n"
  by (cases p) (auto split: option.splits if_splits)

lemma wp_memcpy [wp_simps]:
  "wp (memcpy d p n) Q s =
     (case peek s p n of None \<Rightarrow> False | Some t \<Rightarrow> writable s d n \<and> Q () (put d t s))"
  by (auto simp: memcpy_def wp_cbind wp_load wp_store dest!: length_peek split: option.splits)

lemma wp_get_str [wp_simps]:
  "wp (get_str p) Q s = (case cstring s p of None \<Rightarrow> False | Some t \<Rightarrow> Q t s)"
  by (cases p) (auto simp: wp_def split: option.splits)

lemma wp_strlen [wp_simps]:
  "wp (strlen p) Q s = (case cstring s p of None \<Rightarrow> False | Some t \<Rightarrow> Q (length t) s)"
  by (simp add: strlen_def wp_cbind wp_get_str wp_cret split: option.split)

lemma wp_strcpy [wp_simps]:
  "wp (strcpy d p) Q s =
     (case cstring s p of None \<Rightarrow> False
      | Some t \<Rightarrow> writable s d (Suc (length t)) \<and> Q () (put d (t @ [NUL]) s))"
  by (simp add: strcpy_def wp_cbind wp_get_str wp_store split: option.split)

lemma wp_sprintf [wp_simps]:
  "wp (sprintf d ps) Q s =
     wp (format ps) (\<lambda>t u. writable u d (Suc (length t)) \<and>
       Q (length t) (put d (t @ [NUL]) u)) s"
  unfolding sprintf_def wp_cbind wp_cseq wp_store wp_cret by simp

fun text_of :: "'z mem_scheme \<Rightarrow> piece list \<Rightarrow> string option" where
  "text_of s [] = Some []"
| "text_of s (Txt t # ps) = map_option (\<lambda>r. t @ r) (text_of s ps)"
| "text_of s (PInt i # ps) = map_option (\<lambda>r. show_int i @ r) (text_of s ps)"
| "text_of s (PStr p # ps) =
     (case cstring s p of None \<Rightarrow> None | Some t \<Rightarrow> map_option (\<lambda>r. t @ r) (text_of s ps))"

lemma wp_format [wp_simps]:
  "wp (format ps) Q s = (case text_of s ps of None \<Rightarrow> False | Some t \<Rightarrow> Q t s)"
proof (induction s ps arbitrary: Q rule: text_of.induct)
  case (4 s p ps)
  then show ?case
    by (cases "cstring s p") (auto simp: wp_cbind wp_get_str wp_cret split: option.split)
qed (auto simp: wp_cbind wp_cret split: option.split)

declare format.simps [simp del]

lemma wp_get_strn [wp_simps]:
  "wp (get_strn p n) Q s =
     (case p of Null \<Rightarrow> False
      | Ptr b i \<Rightarrow> (case blocks s b of None \<Rightarrow> False
          | Some k \<Rightarrow> (case strn n (drop i (bytes k)) of None \<Rightarrow> False | Some t \<Rightarrow> Q t s)))"
  by (cases p) (auto simp: wp_def split: option.splits)

lemma wp_strncpy [wp_simps]:
  "wp (strncpy d p n) Q s =
     wp (get_strn p n) (\<lambda>t u. writable u d (length t) \<and> Q () (put d t u)) s"
proof -
  have "(\<lambda>t. wp (store d t) Q) = (\<lambda>t u. writable u d (length t) \<and> Q () (put d t u))"
    by (simp add: fun_eq_iff wp_store)
  then show ?thesis by (simp add: strncpy_def wp_cbind)
qed

lemma wp_free_Null [wp_simps]: "wp (free Null) Q s = Q () s"
  by (simp add: wp_def)

lemma wp_free [wp_simps]: "wp (free (Ptr b i)) Q s = (live s (Ptr b i) \<and> Q () (del_block b s))"
  by (auto simp: wp_def split: option.splits)

section \<open>The invariant and growth\<close>

lemma wf_mem_blocks: "wf_mem s \<Longrightarrow> blocks s b = Some k \<Longrightarrow> b < next_id s"
  by (auto simp: wf_mem_def)

lemma wf_mem_usable: "wf_mem s \<Longrightarrow> blocks s b = Some k \<Longrightarrow> usable k \<le> length (bytes k)"
  by (auto simp: wf_mem_def)

lemma wf_mem_fresh: "wf_mem s \<Longrightarrow> next_id s \<le> b \<Longrightarrow> blocks s b = None"
  by (cases "blocks s b") (auto dest: wf_mem_blocks)

lemma wf_mem_next: "wf_mem s \<Longrightarrow> blocks s (next_id s) = None"
  by (rule wf_mem_fresh) simp_all

lemma wf_add_block:
  "wf_mem s \<Longrightarrow> usable k \<le> length (bytes k) \<Longrightarrow> wf_mem (add_block k s)"
  by (auto simp: wf_mem_def less_Suc_eq)

lemma wf_set_block:
  "wf_mem s \<Longrightarrow> b < next_id s \<Longrightarrow> usable k \<le> length (bytes k) \<Longrightarrow> wf_mem (set_block b k s)"
  by (auto simp: wf_mem_def)

lemma wf_del_block: "wf_mem s \<Longrightarrow> wf_mem (del_block b s)"
  by (auto simp: wf_mem_def)

lemma wf_put:
  assumes "wf_mem s" "writable s p (length t)"
  shows "wf_mem (put p t s)"
  using assms
  by (cases p) (auto intro!: wf_set_block dest: wf_mem_blocks wf_mem_usable split: option.splits)

lemma grows_wf: "grows s t \<Longrightarrow> wf_mem t"
  by (simp add: grows_def)

lemma grows_refl: "wf_mem s \<Longrightarrow> grows s s"
  by (simp add: grows_def)

lemma grows_trans [trans]:
  assumes "grows s t" "grows t u"
  shows "grows s u"
proof -
  have "u = t\<lparr>blocks := blocks u, next_id := next_id u\<rparr>"
    and "t = s\<lparr>blocks := blocks t, next_id := next_id t\<rparr>"
    using assms by (simp_all add: grows_def)
  then have "u = s\<lparr>blocks := blocks u, next_id := next_id u\<rparr>"
    by (metis mem.update_convs(1,2) mem.surjective)
  with assms show ?thesis unfolding grows_def by (meson le_trans)
qed

named_theorems grows_intros \<open>building new objects\<close>

lemma grows_blocks: "grows s t \<Longrightarrow> blocks s b = Some k \<Longrightarrow> blocks t b = Some k"
  by (simp add: grows_def)

lemma grows_frame: "grows s t \<Longrightarrow> t = s\<lparr>blocks := blocks t, next_id := next_id t\<rparr>"
  by (simp add: grows_def)

lemma grows_oracles:
  assumes "grows s t"
  shows "junk t = junk s" "spare t = spare s" "room t = room s"
  using arg_cong [OF grows_frame [OF assms], of junk]
    arg_cong [OF grows_frame [OF assms], of spare]
    arg_cong [OF grows_frame [OF assms], of room] by simp_all

lemma grows_next: "grows s t \<Longrightarrow> next_id s \<le> next_id t"
  by (simp add: grows_def)

lemma growsI:
  assumes "\<And>b k. blocks s b = Some k \<Longrightarrow> blocks t b = Some k"
    and "next_id s \<le> next_id t" and "wf_mem t"
    and "t = s\<lparr>blocks := blocks t, next_id := next_id t\<rparr>"
  shows "grows s t"
  using assms unfolding grows_def by blast

lemma frame_trans:
  assumes "t = s\<lparr>blocks := blocks t, next_id := next_id t\<rparr>"
    and "u = t\<lparr>blocks := blocks u, next_id := next_id u\<rparr>"
  shows "u = s\<lparr>blocks := blocks u, next_id := next_id u\<rparr>"
  using assms by (metis mem.update_convs(1,2) mem.surjective)

lemma frame_add_block:
  "add_block k t = t\<lparr>blocks := blocks (add_block k t), next_id := next_id (add_block k t)\<rparr>"
  by (simp add: add_block_def)

lemma frame_set_block:
  "set_block b k t = t\<lparr>blocks := blocks (set_block b k t), next_id := next_id (set_block b k t)\<rparr>"
  by (simp add: set_block_def)

lemma frame_del_block:
  "del_block b t = t\<lparr>blocks := blocks (del_block b t), next_id := next_id (del_block b t)\<rparr>"
  by (simp add: del_block_def)

lemma grows_add_block [grows_intros]:
  assumes "grows s t" and "usable k \<le> length (bytes k)"
  shows "grows s (add_block k t)"
proof (rule growsI)
  show "blocks (add_block k t) b = Some k'" if "blocks s b = Some k'" for b k'
    using grows_blocks [OF assms(1) that] wf_mem_blocks [OF grows_wf [OF assms(1)]] by fastforce
qed (use assms grows_next [OF assms(1)] wf_add_block [OF grows_wf [OF assms(1)]]
      frame_trans [OF grows_frame [OF assms(1)] frame_add_block] in simp_all)

lemma grows_set_block [grows_intros]:
  assumes "grows s t" and "blocks s b = None" and "b < next_id t"
    and "usable k \<le> length (bytes k)"
  shows "grows s (set_block b k t)"
proof (rule growsI)
  show "blocks (set_block b k t) b' = Some k'" if "blocks s b' = Some k'" for b' k'
    using grows_blocks [OF assms(1) that] that assms(2) by auto
qed (use assms grows_next [OF assms(1)] wf_set_block [OF grows_wf [OF assms(1)]]
      frame_trans [OF grows_frame [OF assms(1)] frame_set_block] in simp_all)

lemma grows_del_block [grows_intros]:
  assumes "grows s t" and "blocks s b = None"
  shows "grows s (del_block b t)"
proof (rule growsI)
  show "blocks (del_block b t) b' = Some k'" if "blocks s b' = Some k'" for b' k'
    using grows_blocks [OF assms(1) that] that assms(2) by auto
qed (use assms grows_next [OF assms(1)] wf_del_block [OF grows_wf [OF assms(1)]]
      frame_trans [OF grows_frame [OF assms(1)] frame_del_block] in simp_all)

lemma grows_peek: "grows s t \<Longrightarrow> peek s p n = Some x \<Longrightarrow> peek t p n = Some x"
  by (cases p) (auto dest: grows_blocks split: option.splits)

lemma grows_cstring: "grows s t \<Longrightarrow> cstring s p = Some x \<Longrightarrow> cstring t p = Some x"
  by (cases p) (auto dest: grows_blocks split: option.splits)

lemma grows_writable: "grows s t \<Longrightarrow> writable s p n \<Longrightarrow> writable t p n"
  by (cases p) (auto dest: grows_blocks split: option.splits)

lemma grows_live: "grows s t \<Longrightarrow> live s p \<Longrightarrow> live t p"
  by (cases p) (auto dest: grows_blocks)

text \<open>What the observers see after an update of another block.\<close>

lemma peek_add_block [simp]:
  assumes "wf_mem s" "peek s p n = Some x"
  shows "peek (add_block k s) p n = Some x"
  using assms by (cases p) (auto dest: wf_mem_blocks split: option.splits)

lemma cstring_add_block [simp]:
  assumes "wf_mem s" "cstring s p = Some x"
  shows "cstring (add_block k s) p = Some x"
  using assms by (cases p) (auto dest: wf_mem_blocks split: option.splits)

text \<open>Adjacent writes to one block are one write.\<close>

lemma overwrite_adjacent:
  assumes "j = i + length a" and "j + length b \<le> length xs"
  shows "overwrite j b (overwrite i a xs) = overwrite i (a @ b) xs"
  using assms by (simp add: overwrite_def ac_simps)

lemma take_overwrite_zero: "length t \<le> n \<Longrightarrow> take n (overwrite 0 t xs) = t @ take (n - length t) (drop (length t) xs)"
  by (simp add: overwrite_zero)

section \<open>Growth of the memory alone\<close>

text \<open>
  Operations that also talk to the outside world change more than the memory. For them
  \<open>mgrows\<close> says what happens to the memory, and equations about the other components say
  the rest; \<open>grows\<close> is \<open>mgrows\<close> with everything else unchanged.
\<close>

definition mgrows :: "'z mem_scheme \<Rightarrow> 'y mem_scheme \<Rightarrow> bool" where
  "mgrows s t \<longleftrightarrow>
     (\<forall>b k. blocks s b = Some k \<longrightarrow> blocks t b = Some k) \<and> next_id s \<le> next_id t \<and>
     wf_mem t \<and> junk t = junk s \<and> spare t = spare s \<and> room t = room s"

lemma grows_iff: "grows s t \<longleftrightarrow> mgrows s t \<and> mem.more t = mem.more s"
proof
  assume "grows s t"
  then show "mgrows s t \<and> mem.more t = mem.more s"
    using arg_cong [OF grows_frame, of s t mem.more]
    by (simp add: mgrows_def grows_oracles) (simp add: grows_def)
next
  assume "mgrows s t \<and> mem.more t = mem.more s"
  then show "grows s t" by (simp add: mgrows_def grows_def)
qed

lemma grows_mgrows: "grows s t \<Longrightarrow> mgrows s t"
  by (simp add: grows_iff)

lemma grows_more: "grows s t \<Longrightarrow> mem.more t = mem.more s"
  by (simp add: grows_iff)

lemma mgrows_wf: "mgrows s t \<Longrightarrow> wf_mem t"
  by (simp add: mgrows_def)

lemma mgrows_refl: "wf_mem s \<Longrightarrow> mgrows s s"
  by (simp add: mgrows_def)

lemma mgrows_trans [trans]: "mgrows s t \<Longrightarrow> mgrows t u \<Longrightarrow> mgrows s u"
  by (auto simp: mgrows_def)

lemma mgrows_blocks: "mgrows s t \<Longrightarrow> blocks s b = Some k \<Longrightarrow> blocks t b = Some k"
  by (simp add: mgrows_def)

lemma mgrows_next: "mgrows s t \<Longrightarrow> next_id s \<le> next_id t"
  by (simp add: mgrows_def)

lemma mgrows_oracles:
  "mgrows s t \<Longrightarrow> junk t = junk s" "mgrows s t \<Longrightarrow> spare t = spare s"
  "mgrows s t \<Longrightarrow> room t = room s"
  by (simp_all add: mgrows_def)

lemma mgrows_peek: "mgrows s t \<Longrightarrow> peek s p n = Some x \<Longrightarrow> peek t p n = Some x"
  by (cases p) (auto dest: mgrows_blocks split: option.splits)

lemma mgrows_cstring: "mgrows s t \<Longrightarrow> cstring s p = Some x \<Longrightarrow> cstring t p = Some x"
  by (cases p) (auto dest: mgrows_blocks split: option.splits)

lemma mgrows_writable: "mgrows s t \<Longrightarrow> writable s p n \<Longrightarrow> writable t p n"
  by (cases p) (auto dest: mgrows_blocks split: option.splits)

lemma mgrows_live: "mgrows s t \<Longrightarrow> live s p \<Longrightarrow> live t p"
  by (cases p) (auto dest: mgrows_blocks)

lemma mgrows_add_block:
  assumes "mgrows s t" and "usable k \<le> length (bytes k)"
  shows "mgrows s (add_block k t)"
  by (rule mgrows_trans [OF assms(1)])
    (intro grows_mgrows grows_add_block grows_refl mgrows_wf [OF assms(1)] assms(2))

lemma mgrows_put:
  assumes g: "mgrows s t" and new: "p = Ptr b i" "blocks s b = None" and w: "writable t p (length x)"
  shows "mgrows s (put p x t)"
proof -
  obtain k where k: "blocks t b = Some k" using w new by (auto split: option.splits)
  have "wf_mem (put p x t)" by (rule wf_put [OF mgrows_wf [OF g] w])
  then show ?thesis using g new k by (auto simp: mgrows_def)
qed

lemma mgrows_del_block:
  assumes g: "mgrows s t" and new: "blocks s b = None"
  shows "mgrows s (del_block b t)"
  using g wf_del_block [OF mgrows_wf [OF g], of b] new by (auto simp: mgrows_def)

text \<open>Equality of the memory parts of two states that may differ elsewhere.\<close>

definition same_mem :: "'z mem_scheme \<Rightarrow> 'y mem_scheme \<Rightarrow> bool" where
  "same_mem s t \<longleftrightarrow> blocks t = blocks s \<and> next_id t = next_id s \<and> junk t = junk s \<and>
     spare t = spare s \<and> room t = room s"

lemma same_mem_wf: "same_mem s t \<Longrightarrow> wf_mem t = wf_mem s"
  by (simp add: same_mem_def wf_mem_def)

lemma same_mem_mgrows: "wf_mem s \<Longrightarrow> same_mem s t \<Longrightarrow> mgrows s t"
  by (simp add: same_mem_wf mgrows_def) (simp add: same_mem_def)

lemma same_mem_peek: "same_mem s t \<Longrightarrow> peek t p n = peek s p n"
  by (cases p) (simp_all add: same_mem_def)

lemma same_mem_cstring: "same_mem s t \<Longrightarrow> cstring t p = cstring s p"
  by (cases p) (simp_all add: same_mem_def)

lemma same_mem_writable: "same_mem s t \<Longrightarrow> writable t p n = writable s p n"
  by (cases p) (simp_all add: same_mem_def)

lemma mgrows_same_mem: "mgrows s t \<Longrightarrow> same_mem t u \<Longrightarrow> mgrows s u"
  by (metis mgrows_trans mgrows_wf same_mem_mgrows)

section \<open>Objects built by filling a new block\<close>

text \<open>
  Most objects are built by allocating a block of \<open>n\<close> bytes and filling it from its
  start; what follows the filled part is what the allocation found there.
\<close>

definition filled :: "nat \<Rightarrow> string \<Rightarrow> 'z mem_scheme \<Rightarrow> block" where
  "filled n t s = (fresh_block n s)\<lparr>bytes := overwrite 0 t (fresh_bytes n s)\<rparr>"

definition after :: "nat \<Rightarrow> 'z mem_scheme \<Rightarrow> string" where
  "after n s = drop n (fresh_bytes n s)"

lemma filled_simps [simp]:
  "usable (filled n t s) = n + spare s (next_id s)"
  "on_heap (filled n t s)"
  by (simp_all add: filled_def)

lemma bytes_filled: "bytes (filled n t s) = t @ drop (length t) (fresh_bytes n s)"
  by (simp add: filled_def overwrite_zero)

lemma bytes_filled_exact: "length t = n \<Longrightarrow> bytes (filled n t s) = t @ after n s"
  by (simp add: bytes_filled after_def)

lemma length_bytes_filled [simp]:
  "length t \<le> n + spare s (next_id s) + room s (next_id s) \<Longrightarrow>
    length (bytes (filled n t s)) = n + spare s (next_id s) + room s (next_id s)"
  by (simp add: bytes_filled)

lemma grows_filled:
  assumes "wf_mem s" and "length t \<le> n + spare s (next_id s)"
  shows "grows s (add_block (filled n t s) s)"
  using assms by (intro grows_intros grows_refl) simp_all

lemma peek_filled:
  assumes "length t \<le> n + spare s (next_id s)" and "m \<le> length t"
  shows "peek (add_block (filled n t s) s) (Ptr (next_id s) 0) m = Some (take m t)"
  using assms by (simp add: bytes_filled)

lemma cstring_filled:
  assumes "length t = n"
  shows "cstring (add_block (filled n t s) s) (Ptr (next_id s) 0) = c_str (t @ after n s)"
  using assms by (simp add: bytes_filled_exact)

lemma cstring_filled_nul:
  assumes "NUL \<notin> set t"
  shows "cstring (add_block (filled n (t @ [NUL]) s) s) (Ptr (next_id s) 0) = Some t"
  using assms by (simp add: bytes_filled c_str_nul)

lemma peek_part:
  assumes "peek s p m = Some bs" and "i + n \<le> m"
  shows "peek s (padd p i) n = Some (take n (drop i bs))"
  using assms by (cases p) (auto simp: ac_simps take_drop split: option.splits if_splits)

lemma peek_take:
  assumes "peek s p m = Some bs" and "n \<le> m"
  shows "peek s p n = Some (take n bs)"
  using assms by (cases p) (auto split: option.splits if_splits)

section \<open>Reading inside a C string\<close>

lemma cstring_split:
  assumes "cstring s p = Some t"
  obtains b i k r where "p = Ptr b i" "blocks s b = Some k" "drop i (bytes k) = t @ NUL # r"
    "i + length t < length (bytes k)"
proof -
  obtain b i where p: "p = Ptr b i" using assms by (cases p) auto
  then obtain k where k: "blocks s b = Some k" "c_str (drop i (bytes k)) = Some t"
    using assms by (auto split: option.splits)
  then obtain r where r: "drop i (bytes k) = t @ NUL # r" by (auto dest: c_str_SomeD)
  moreover have "i + length t < length (bytes k)"
    using arg_cong [OF r, of length] by simp
  ultimately show thesis using that p k by blast
qed

lemma cstring_no_nul: "cstring s p = Some t \<Longrightarrow> NUL \<notin> set t"
  by (cases p) (auto dest: c_str_no_nul split: option.splits)

lemma cstring_peek:
  assumes "cstring s p = Some t" and "n \<le> length t"
  shows "peek s p n = Some (take n t)"
proof -
  obtain b i k r where "p = Ptr b i" "blocks s b = Some k" "drop i (bytes k) = t @ NUL # r"
    "i + length t < length (bytes k)" by (rule cstring_split [OF assms(1)])
  then show ?thesis using assms(2) by simp
qed

lemma cstring_at:
  assumes "cstring s p = Some t" and "j < length t"
  shows "peek s (padd p j) 1 = Some [t ! j]"
  using peek_part [OF cstring_peek [OF assms(1) order_refl], of j 1] assms(2)
  by (simp add: take_Suc_conv_app_nth Cons_nth_drop_Suc [symmetric])

lemma cstring_drop:
  assumes "cstring s p = Some t" and "j \<le> length t"
  shows "cstring s (padd p j) = Some (drop j t)"
proof -
  obtain b i k r where p: "p = Ptr b i" "blocks s b = Some k" and d: "drop i (bytes k) = t @ NUL # r"
    by (rule cstring_split [OF assms(1)])
  have "drop (i + j) (bytes k) = drop j t @ NUL # r"
    using arg_cong [OF d, of "drop j"] assms(2) by (simp add: add.commute)
  moreover have "NUL \<notin> set (drop j t)"
    using cstring_no_nul [OF assms(1)] by (auto dest: in_set_dropD)
  ultimately show ?thesis using p by (simp add: c_str_nul)
qed

lemma wp_strncpy_prefix:
  assumes "cstring s p = Some t" and "n \<le> length t"
  shows "wp (strncpy d p n) Q s = (writable s d n \<and> Q () (put d (take n t) s))"
proof -
  obtain b i k r where p: "p = Ptr b i" "blocks s b = Some k" and d: "drop i (bytes k) = t @ NUL # r"
    by (rule cstring_split [OF assms(1)])
  have "NUL \<notin> set (take n t)"
    using cstring_no_nul [OF assms(1)] by (auto dest: in_set_takeD)
  moreover have "drop i (bytes k) = take n t @ (drop n t @ NUL # r)" by (simp add: d)
  ultimately have "strn n (drop i (bytes k)) = Some (take n t)"
    using assms(2) strn_prefix [of "take n t" n] by simp
  then show ?thesis using p assms(2) by (simp add: wp_strncpy wp_get_strn)
qed

section \<open>Growing a block\<close>

lemma mgrows_move:
  assumes g: "mgrows r s" and new: "blocks r b = None" and k: "usable k \<le> length (bytes k)"
  shows "mgrows r (add_block k (del_block b s))"
  by (rule mgrows_add_block [OF mgrows_del_block [OF g new] k])

lemma realloc_then:
  assumes b: "blocks s b = Some k" "on_heap k" and n: "0 < n"
    and m: "m \<le> n" "m \<le> usable k" "usable k \<le> length (bytes k)"
    and Q: "\<And>k' t. \<lbrakk>t = add_block k' (del_block b s); on_heap k'; n \<le> usable k';
        usable k' \<le> length (bytes k'); take m (bytes k') = take m (bytes k);
        usable k' = n + spare s (next_id s);
        bytes k' = take (min (usable k) n) (bytes k) @ drop (min (usable k) n) (fresh_bytes n s)\<rbrakk>
      \<Longrightarrow> Q (Ptr (next_id s) 0) t"
  shows "wp (realloc (Ptr b 0) n) Q s"
proof -
  let ?x = "take (min (usable k) n) (bytes k)"
  let ?k = "(fresh_block n s)\<lparr>bytes := overwrite 0 ?x (fresh_bytes n s)\<rparr>"
  have "take m (bytes ?k) = take m (bytes k)"
    using m by (simp add: overwrite_zero min_def)
  moreover have "usable ?k \<le> length (bytes ?k)" using m by (simp add: min_def)
  moreover have "bytes ?k = take (min (usable k) n) (bytes k) @ drop (min (usable k) n) (fresh_bytes n s)"
    using m by (simp add: overwrite_zero min_def)
  ultimately have "Q (Ptr (next_id s) 0) (add_block ?k (del_block b s))"
    by (intro Q [where k' = ?k]) simp_all
  then show ?thesis using b n by (simp add: wp_def)
qed

section \<open>Memory that is zero\<close>

text \<open>The allocator hands out memory that is zero, and some memory is mapped behind it.\<close>

definition clean_mem :: "'z mem_scheme \<Rightarrow> bool" where
  "clean_mem s \<longleftrightarrow> (\<forall>k i. junk s k i = NUL) \<and> (\<forall>k. 0 < room s k)"

lemma clean_after:
  assumes "clean_mem s"
  obtains r where "after n s = NUL # r"
proof -
  have "after n s \<noteq> []" "\<forall>c \<in> set (after n s). c = NUL"
    using assms by (auto simp: after_def fresh_bytes_def clean_mem_def dest: in_set_dropD)
  then obtain c r where "after n s = c # r" "c = NUL" by (cases "after n s") auto
  with that show thesis by blast
qed

lemma clean_mgrows: "mgrows s t \<Longrightarrow> clean_mem s \<Longrightarrow> clean_mem t"
  by (simp add: clean_mem_def mgrows_oracles)

section \<open>A concrete memory\<close>

text \<open>One heap block with the given bytes; used by the witnesses.\<close>

definition sample_mem :: "string \<Rightarrow> mem" where
  "sample_mem t =
     \<lparr>blocks = [0 \<mapsto> \<lparr>usable = length t, bytes = t, on_heap = True\<rparr>], next_id = 1,
      junk = (\<lambda>_ _. CHR ''j''), spare = (\<lambda>_. 0), room = (\<lambda>_. 0)\<rparr>"

lemma wf_sample_mem [simp]: "wf_mem (sample_mem t)"
  by (simp add: wf_mem_def sample_mem_def)

lemma sample_mem_simps [simp]:
  "blocks (sample_mem t) = [0 \<mapsto> \<lparr>usable = length t, bytes = t, on_heap = True\<rparr>]"
  "next_id (sample_mem t) = 1" "spare (sample_mem t) = (\<lambda>_. 0)"
  "room (sample_mem t) = (\<lambda>_. 0)" "junk (sample_mem t) = (\<lambda>_ _. CHR ''j'')"
  by (simp_all add: sample_mem_def)

end
