(* ===== verification/Posix.thy ===== *)
theory Posix
  imports Memory_Laws
begin

text \<open>
  The part of the operating system that the program uses: file descriptors, sockets and
  their data, and a trace of what the program does to the outside. What the peers do is
  a script in the state, so a theorem about all states is a theorem about all peers: each
  attempt to open a connection takes the next outcome, and each open socket carries what
  the following reads find. Also here: the macros of the build (\<^verbatim>\<open>Makefile\<close>).
\<close>

section \<open>The build\<close>

text \<open>
  \<^verbatim>\<open>-DVERBOSE_1\<close>, \<^verbatim>\<open>-DVERBOSE_2\<close>, \<^verbatim>\<open>-DDEBUG\<close> and the two tokens, which every component
  of a system is compiled with.
\<close>

record build =
  verbose_1 :: bool
  verbose_2 :: bool
  debug :: bool
  WORKER_TKN :: u64
  MASTER_TKN :: u64

definition verbose :: "build \<Rightarrow> bool" where
  "verbose B \<longleftrightarrow> verbose_1 B \<or> verbose_2 B"

text \<open>The build of the tests (\<^verbatim>\<open>TEST_MACROS\<close>), and one that prints nothing.\<close>

definition test_build :: build where
  "test_build = \<lparr>verbose_1 = False, verbose_2 = True, debug = True, WORKER_TKN = 1, MASTER_TKN = 2\<rparr>"

definition quiet_build :: build where
  "quiet_build = \<lparr>verbose_1 = False, verbose_2 = False, debug = False, WORKER_TKN = 1, MASTER_TKN = 2\<rparr>"

lemma build_simps [simp]:
  "verbose test_build" "\<not> verbose quiet_build" "verbose_2 test_build" "\<not> verbose_2 quiet_build"
  "debug test_build" "\<not> debug quiet_build"
  "WORKER_TKN test_build = 1" "MASTER_TKN test_build = 2"
  "WORKER_TKN quiet_build = 1" "MASTER_TKN quiet_build = 2"
  by (simp_all add: test_build_def quiet_build_def verbose_def)

section \<open>Descriptors and connections\<close>

text \<open>
  What a read finds: bytes that arrived together, or an error such as the expired receive
  timeout. When nothing is left, the peer has closed the connection. \<open>accepts\<close> says
  whether data can be sent (not to the terminal, not to a peer that is gone). \<open>peer\<close> is
  the other end: the address and the port that \<^verbatim>\<open>connect\<close> was called with, or, for a connection
  that was accepted, the one who called.
\<close>

datatype arrival = Arrives string | Timeout

datatype peer = Caller | Host string u16

record sock =
  incoming :: "arrival list"
  accepts :: bool
  peer :: peer

datatype stage = AtSocket | AtOption | AtBind | AtListen | AtConnect

datatype outcome = Fails stage | Opens sock

text \<open>What is sent is recorded with the descriptor and with the peer that gets it.\<close>

datatype event =
    Sent int peer string
  | Closed int
  | Printed string
  | Ran string

record os = mem +
  fds :: "sock option list"
  net :: "outcome list"
  trace :: "event list"

type_synonym ('a, 'z) ocmd = "('a, 'z os_scheme) cmd"

text \<open>POSIX hands out the lowest descriptor that is not open.\<close>

fun lowest_free :: "sock option list \<Rightarrow> nat" where
  "lowest_free [] = 0"
| "lowest_free (None # ds) = 0"
| "lowest_free (Some d # ds) = Suc (lowest_free ds)"

definition install :: "nat \<Rightarrow> sock \<Rightarrow> sock option list \<Rightarrow> sock option list" where
  "install i d ds = (if i < length ds then ds[i := Some d] else ds @ [Some d])"

definition descriptor :: "sock option list \<Rightarrow> int \<Rightarrow> sock option" where
  "descriptor ds fd = (if 0 \<le> fd \<and> nat fd < length ds then ds ! nat fd else None)"

text \<open>The other end of an open descriptor.\<close>

definition peer_at :: "'z os_scheme \<Rightarrow> int \<Rightarrow> peer" where
  "peer_at s f = (case descriptor (fds s) f of None \<Rightarrow> Caller | Some k \<Rightarrow> peer k)"

definition log_event :: "event \<Rightarrow> (unit, 'z) ocmd" where
  "log_event e = cmodify (\<lambda>s. s\<lparr>trace := trace s @ [e]\<rparr>)"

text \<open>A socket that is not connected: nothing can be sent, reading is an error.\<close>

definition unconnected :: sock where
  "unconnected = \<lparr>incoming = [Timeout], accepts = False, peer = Caller\<rparr>"

definition new_descriptor :: "sock \<Rightarrow> (int, 'z) ocmd" where
  "new_descriptor d s =
     Inr (int (lowest_free (fds s)), s\<lparr>fds := install (lowest_free (fds s)) d (fds s)\<rparr>)"

definition sys_socket :: "(int, 'z) ocmd" where
  "sys_socket = new_descriptor unconnected"

definition next_outcome :: "(outcome, 'z) ocmd" where
  "next_outcome s =
     (case net s of [] \<Rightarrow> Inr (Fails AtConnect, s) | r # rs \<Rightarrow> Inr (r, s\<lparr>net := rs\<rparr>))"

text \<open>\<^verbatim>\<open>connect\<close> turns the socket \<open>fd\<close> into the open connection \<open>d\<close>.\<close>

definition connect_fd :: "int \<Rightarrow> sock \<Rightarrow> (unit, 'z) ocmd" where
  "connect_fd fd d = cmodify (\<lambda>s. s\<lparr>fds := (fds s)[nat fd := Some d]\<rparr>)"

definition sys_close :: "int \<Rightarrow> (unit, 'z) ocmd" where
  "sys_close fd =
     cseq (cmodify (\<lambda>s. s\<lparr>fds := if 0 \<le> fd then (fds s)[nat fd := None] else fds s\<rparr>))
       (log_event (Closed fd))"

text \<open>
  \<^verbatim>\<open>send\<close> with a good socket sends all \<open>n\<close> bytes at \<open>buf\<close>, wherever the block they belong
  to ends; with a bad one it fails and does not look at the buffer.
\<close>

definition sys_send :: "int \<Rightarrow> ptr \<Rightarrow> nat \<Rightarrow> (int, 'z) ocmd" where
  "sys_send fd buf n =
     cbind (cget (\<lambda>s. descriptor (fds s) fd)) (\<lambda>d.
     case d of
       None \<Rightarrow> cret (- 1)
     | Some k \<Rightarrow>
         if accepts k then
           cbind (load buf n) (\<lambda>t. cseq (log_event (Sent fd (peer k) t)) (cret (int n)))
         else cret (- 1))"

text \<open>
  \<^verbatim>\<open>read\<close> stores at most \<open>n\<close> of the bytes that arrived, keeps the others for the next
  read, and returns their number, 0 at the end, \<open>-1\<close> on an error.
\<close>

definition set_incoming :: "int \<Rightarrow> sock \<Rightarrow> arrival list \<Rightarrow> (unit, 'z) ocmd" where
  "set_incoming fd k q = cmodify (\<lambda>s. s\<lparr>fds := (fds s)[nat fd := Some (k\<lparr>incoming := q\<rparr>)]\<rparr>)"

definition sys_read :: "int \<Rightarrow> ptr \<Rightarrow> nat \<Rightarrow> (int, 'z) ocmd" where
  "sys_read fd buf n =
     cbind (cget (\<lambda>s. descriptor (fds s) fd)) (\<lambda>d.
     case d of
       None \<Rightarrow> cret (- 1)
     | Some k \<Rightarrow>
         (case incoming k of
            [] \<Rightarrow> cret 0
          | Timeout # q \<Rightarrow> cseq (set_incoming fd k q) (cret (- 1))
          | Arrives t # q \<Rightarrow>
              cseq (store buf (take n t))
              (cseq (set_incoming fd k (if length t \<le> n then q else Arrives (drop n t) # q))
                (cret (int (length (take n t)))))))"

text \<open>
  How many bytes are on their way, each message counted as one more: every read that returns
  something makes it less, which bounds the loops that read.
\<close>

fun pending :: "arrival list \<Rightarrow> nat" where
  "pending [] = 0"
| "pending (Arrives t # q) = Suc (length t + pending q)"
| "pending (Timeout # q) = Suc (pending q)"

definition pending_fd :: "int \<Rightarrow> 'z os_scheme \<Rightarrow> nat" where
  "pending_fd f s = (case descriptor (fds s) f of None \<Rightarrow> 0 | Some k \<Rightarrow> pending (incoming k))"

section \<open>IP addresses\<close>

text \<open>
  \<^verbatim>\<open>inet_pton(AF_INET, ...)\<close> of glibc: four decimal numbers of at most 255, without a
  leading zero, separated by dots.
\<close>

fun split_on :: "char \<Rightarrow> string \<Rightarrow> string list" where
  "split_on c [] = [[]]"
| "split_on c (x # xs) =
     (if x = c then [] # split_on c xs
      else (case split_on c xs of [] \<Rightarrow> [[x]] | y # ys \<Rightarrow> (x # y) # ys))"

definition octet :: "string \<Rightarrow> bool" where
  "octet t \<longleftrightarrow> t \<noteq> [] \<and> list_all is_digit t \<and> (hd t = CHR ''0'' \<longrightarrow> length t = 1) \<and>
     digits_val 0 t \<le> 255"

definition inet_pton4 :: "string \<Rightarrow> bool" where
  "inet_pton4 t \<longleftrightarrow> (let ps = split_on (CHR ''.'') t in length ps = 4 \<and> list_all octet ps)"

section \<open>Laws\<close>

lemma peer_at_open: "descriptor (fds s) f = Some k \<Longrightarrow> peer_at s f = peer k"
  by (simp add: peer_at_def)

lemma peer_at_fds: "fds u = fds s \<Longrightarrow> peer_at u f = peer_at s f"
  by (simp add: peer_at_def)

lemma os_more_fields:
  assumes "mem.more t = mem.more s"
  shows "fds t = fds s" "net t = net s" "trace t = trace s" "os.more t = os.more s"
  using assms by (cases s, cases t, simp)+

lemmas grows_os = os_more_fields [OF grows_more]

lemma same_mem_os_updates [simp]:
  "same_mem s (t\<lparr>fds := x\<rparr>) = same_mem s t" "same_mem s (t\<lparr>net := y\<rparr>) = same_mem s t"
  "same_mem s (t\<lparr>trace := z\<rparr>) = same_mem s t"
  by (simp_all add: same_mem_def)

lemma same_mem_refl [simp]: "same_mem s s"
  by (simp add: same_mem_def)

lemma wf_mem_os_updates [simp]:
  "wf_mem (s\<lparr>fds := x\<rparr>) = wf_mem s" "wf_mem (s\<lparr>net := y\<rparr>) = wf_mem s"
  "wf_mem (s\<lparr>trace := z\<rparr>) = wf_mem s"
  by (simp_all add: wf_mem_def)

lemma mgrows_os_updates [simp]:
  "mgrows s (t\<lparr>fds := x\<rparr>) = mgrows s t" "mgrows s (t\<lparr>net := y\<rparr>) = mgrows s t"
  "mgrows s (t\<lparr>trace := z\<rparr>) = mgrows s t"
  by (simp_all add: mgrows_def wf_mem_def)

lemma observers_os_updates [simp]:
  "peek (s\<lparr>fds := x\<rparr>) p n = peek s p n" "peek (s\<lparr>net := y\<rparr>) p n = peek s p n"
  "peek (s\<lparr>trace := z\<rparr>) p n = peek s p n"
  "cstring (s\<lparr>fds := x\<rparr>) p = cstring s p" "cstring (s\<lparr>net := y\<rparr>) p = cstring s p"
  "cstring (s\<lparr>trace := z\<rparr>) p = cstring s p"
  "writable (s\<lparr>fds := x\<rparr>) p n = writable s p n" "writable (s\<lparr>net := y\<rparr>) p n = writable s p n"
  "writable (s\<lparr>trace := z\<rparr>) p n = writable s p n"
  by (cases p; simp)+

lemma os_fields_blocks [simp]:
  "fds (add_block k s) = fds s" "net (add_block k s) = net s" "trace (add_block k s) = trace s"
  "os.more (add_block k s) = os.more s"
  "fds (set_block b k s) = fds s" "net (set_block b k s) = net s"
  "trace (set_block b k s) = trace s" "os.more (set_block b k s) = os.more s"
  "fds (del_block b s) = fds s" "net (del_block b s) = net s"
  "trace (del_block b s) = trace s" "os.more (del_block b s) = os.more s"
  by (simp_all add: add_block_def set_block_def del_block_def)

lemma os_fields_put [simp]:
  "fds (put p t s) = fds s" "net (put p t s) = net s" "trace (put p t s) = trace s"
  "os.more (put p t s) = os.more s"
  by (cases p; simp add: put.simps split: option.split)+

lemma blocks_os_updates [simp]:
  "add_block k (s\<lparr>fds := x\<rparr>) = (add_block k s)\<lparr>fds := x\<rparr>"
  "add_block k (s\<lparr>net := y\<rparr>) = (add_block k s)\<lparr>net := y\<rparr>"
  "add_block k (s\<lparr>trace := z\<rparr>) = (add_block k s)\<lparr>trace := z\<rparr>"
  "set_block b k (s\<lparr>fds := x\<rparr>) = (set_block b k s)\<lparr>fds := x\<rparr>"
  "set_block b k (s\<lparr>net := y\<rparr>) = (set_block b k s)\<lparr>net := y\<rparr>"
  "set_block b k (s\<lparr>trace := z\<rparr>) = (set_block b k s)\<lparr>trace := z\<rparr>"
  "del_block b (s\<lparr>fds := x\<rparr>) = (del_block b s)\<lparr>fds := x\<rparr>"
  "del_block b (s\<lparr>net := y\<rparr>) = (del_block b s)\<lparr>net := y\<rparr>"
  "del_block b (s\<lparr>trace := z\<rparr>) = (del_block b s)\<lparr>trace := z\<rparr>"
  by (simp_all add: add_block_def set_block_def del_block_def)

lemma put_os_updates [simp]:
  "put p t (s\<lparr>fds := x\<rparr>) = (put p t s)\<lparr>fds := x\<rparr>"
  "put p t (s\<lparr>net := y\<rparr>) = (put p t s)\<lparr>net := y\<rparr>"
  "put p t (s\<lparr>trace := z\<rparr>) = (put p t s)\<lparr>trace := z\<rparr>"
  by (cases p; simp add: put.simps split: option.split)+

lemma new_blocks_os_updates [simp]:
  "lit_block t (s\<lparr>fds := x\<rparr>) = lit_block t s" "lit_block t (s\<lparr>net := y\<rparr>) = lit_block t s"
  "lit_block t (s\<lparr>trace := z\<rparr>) = lit_block t s"
  "fresh_bytes n (s\<lparr>fds := x\<rparr>) = fresh_bytes n s"
  "fresh_bytes n (s\<lparr>net := y\<rparr>) = fresh_bytes n s"
  "fresh_bytes n (s\<lparr>trace := z\<rparr>) = fresh_bytes n s"
  "fresh_block n (s\<lparr>fds := x\<rparr>) = fresh_block n s"
  "fresh_block n (s\<lparr>net := y\<rparr>) = fresh_block n s"
  "fresh_block n (s\<lparr>trace := z\<rparr>) = fresh_block n s"
  "filled n t (s\<lparr>fds := x\<rparr>) = filled n t s" "filled n t (s\<lparr>net := y\<rparr>) = filled n t s"
  "filled n t (s\<lparr>trace := z\<rparr>) = filled n t s"
  "after n (s\<lparr>fds := x\<rparr>) = after n s" "after n (s\<lparr>net := y\<rparr>) = after n s"
  "after n (s\<lparr>trace := z\<rparr>) = after n s"
  by (simp_all add: lit_block_def fresh_bytes_def fresh_block_def filled_def after_def)

lemma lowest_free_le: "lowest_free ds \<le> length ds"
  by (induction ds rule: lowest_free.induct) auto

lemma lowest_free_None: "lowest_free ds < length ds \<Longrightarrow> ds ! lowest_free ds = None"
  by (induction ds rule: lowest_free.induct) auto

lemma lowest_free_below: "i < lowest_free ds \<Longrightarrow> ds ! i \<noteq> None"
proof (induction ds arbitrary: i rule: lowest_free.induct)
  case (3 d ds)
  then show ?case by (cases i) auto
qed auto

lemma descriptor_install [simp]:
  "descriptor (install (lowest_free ds) d ds) (int (lowest_free ds)) = Some d"
  using lowest_free_le [of ds]
  by (auto simp: descriptor_def install_def nth_append)

lemma length_install:
  "lowest_free ds < length (install (lowest_free ds) d ds)"
  using lowest_free_le [of ds] by (auto simp: install_def)

lemma install_update [simp]:
  "(install (lowest_free ds) d ds)[lowest_free ds := Some d'] = install (lowest_free ds) d' ds"
  using lowest_free_le [of ds] by (auto simp: install_def list_update_append)

text \<open>Opening a connection and closing it leaves the table as it was, but for a new entry.\<close>

lemma close_install:
  "(install (lowest_free ds) d ds)[lowest_free ds := None] =
     (if lowest_free ds < length ds then ds else ds @ [None])"
  using lowest_free_le [of ds] lowest_free_None [of ds]
  by (auto simp: install_def list_update_append list_update_same_conv)

lemma descriptor_append_None [simp]: "descriptor (ds @ [None]) fd = descriptor ds fd"
  by (auto simp: descriptor_def nth_append)

lemma wp_log_event [wp_simps]:
  "wp (log_event e) Q s = Q () (s\<lparr>trace := trace s @ [e]\<rparr>)"
  by (simp add: log_event_def wp_simps)

lemma wp_new_descriptor [wp_simps]:
  "wp (new_descriptor d) Q s =
     Q (int (lowest_free (fds s))) (s\<lparr>fds := install (lowest_free (fds s)) d (fds s)\<rparr>)"
  by (simp add: wp_def new_descriptor_def)

lemma wp_next_outcome [wp_simps]:
  "wp next_outcome Q s =
     (case net s of [] \<Rightarrow> Q (Fails AtConnect) s | r # rs \<Rightarrow> Q r (s\<lparr>net := rs\<rparr>))"
  by (simp add: wp_def next_outcome_def split: list.split)

lemma wp_connect_fd [wp_simps]:
  "wp (connect_fd fd d) Q s = Q () (s\<lparr>fds := (fds s)[nat fd := Some d]\<rparr>)"
  by (simp add: connect_fd_def wp_simps)

lemma wp_sys_close [wp_simps]:
  "wp (sys_close fd) Q s =
     Q () (s\<lparr>fds := if 0 \<le> fd then (fds s)[nat fd := None] else fds s,
             trace := trace s @ [Closed fd]\<rparr>)"
  by (simp add: sys_close_def wp_simps)

lemma wp_sys_send [wp_simps]:
  "wp (sys_send fd buf n) Q s =
     (case descriptor (fds s) fd of
        None \<Rightarrow> Q (- 1) s
      | Some k \<Rightarrow>
          if accepts k then
            (case peek s buf n of None \<Rightarrow> False
             | Some t \<Rightarrow> Q (int n) (s\<lparr>trace := trace s @ [Sent fd (peer k) t]\<rparr>))
          else Q (- 1) s)"
  by (simp add: sys_send_def wp_simps split: option.split)

lemma wp_sys_read [wp_simps]:
  "wp (sys_read fd buf n) Q s =
     (case descriptor (fds s) fd of
        None \<Rightarrow> Q (- 1) s
      | Some k \<Rightarrow>
          (case incoming k of
             [] \<Rightarrow> Q 0 s
           | Timeout # q \<Rightarrow> Q (- 1) (s\<lparr>fds := (fds s)[nat fd := Some (k\<lparr>incoming := q\<rparr>)]\<rparr>)
           | Arrives t # q \<Rightarrow>
               writable s buf (length (take n t)) \<and>
               Q (int (length (take n t)))
                 ((put buf (take n t) s)\<lparr>fds := (fds (put buf (take n t) s))[nat fd := Some (k\<lparr>incoming :=
                    (if length t \<le> n then q else Arrives (drop n t) # q)\<rparr>)]\<rparr>)))"
  by (simp add: sys_read_def set_incoming_def wp_simps split: option.split list.split arrival.split)

end
