(* ===== verification/Comm.thy ===== *)
theory Comm
  imports Posix
begin

text \<open>
  \<^verbatim>\<open>lib/comm.c\<close> and \<^verbatim>\<open>include/comm.h\<close>: connections over sockets. A connection is a
  value; when it could not be made its error field is set, and its descriptor is 0, the
  terminal, because the macro \<^verbatim>\<open>ERR_CONN\<close> initialises two fields only.
\<close>

section \<open>Connections\<close>

record conn =
  c_error :: u16
  error_msg :: ptr
  fd :: int
  max_bytes :: u64

definition ERR_MSG_LEN :: nat where "ERR_MSG_LEN = 50"

definition err_conn :: "string \<Rightarrow> nat \<Rightarrow> (conn, 'z) mcmd" where
  "err_conn msg len =
     cbind (malloc len) (\<lambda>m.
     cseq (sprintf m [Txt msg])
       (cret \<lparr>c_error = 1, error_msg = m, fd = 0, max_bytes = 0\<rparr>))"

definition get_port :: u16 where "get_port = 55443"
definition get_dbg_port :: u16 where "get_dbg_port = 55442"

definition client_init :: "ptr \<Rightarrow> u16 \<Rightarrow> (conn, 'z) ocmd" where
  "client_init host port =
     cbind next_outcome (\<lambda>r.
     cbind (literal '''') (\<lambda>no_msg.
     if r = Fails AtSocket then err_conn ''Failed initialising socket.'' ERR_MSG_LEN
     else cbind sys_socket (\<lambda>f.
       if r = Fails AtOption then err_conn ''Failed setting socket option.'' ERR_MSG_LEN
       else cbind (get_str host) (\<lambda>ip.
         if \<not> inet_pton4 ip then
           err_conn ''Invalid address or address not supported.'' ERR_MSG_LEN
         else case r of
             Fails _ \<Rightarrow> err_conn ''Connection failed.'' ERR_MSG_LEN
           | Opens d \<Rightarrow>
               cseq (connect_fd f (d\<lparr>peer := Host ip port\<rparr>))
                 (cret \<lparr>c_error = 0, error_msg = no_msg, fd = f, max_bytes = 0\<rparr>)))))"

definition conn_listen :: "build \<Rightarrow> int \<Rightarrow> u16 \<Rightarrow> (conn, 'z) ocmd" where
  "conn_listen B server_fd port =
     cseq (cwhen (verbose_2 B)
       (log_event (Printed (''Waiting for connection on port '' @ show_nat (unat port) @ ''...''))))
     (cbind next_outcome (\<lambda>r.
      cbind (cget (\<lambda>s. descriptor (fds s) server_fd)) (\<lambda>open.
      if open = None \<or> r = Fails AtOption then
        err_conn ''Failed setting socket option.'' ERR_MSG_LEN
      else if r = Fails AtBind \<or> r = Fails AtSocket then err_conn ''Failed binding.'' ERR_MSG_LEN
      else if r = Fails AtListen then err_conn ''Failed listening.'' ERR_MSG_LEN
      else case r of
          Fails _ \<Rightarrow> err_conn ''Failed accepting client.'' ERR_MSG_LEN
        | Opens d \<Rightarrow>
            cbind (new_descriptor (d\<lparr>peer := Caller\<rparr>)) (\<lambda>f.
            cret \<lparr>c_error = 0, error_msg = Null, fd = f, max_bytes = 0\<rparr>))))"

definition conn_write :: "build \<Rightarrow> conn \<Rightarrow> ptr \<Rightarrow> nat \<Rightarrow> (int, 'z) ocmd" where
  "conn_write B c buffer len =
     cseq (cwhen (verbose_2 B) (log_event (Printed (''Writing to '' @ show_int (fd c) @ ''...''))))
       (sys_send (fd c) buffer len)"

definition conn_read :: "build \<Rightarrow> conn \<Rightarrow> ptr \<Rightarrow> nat \<Rightarrow> (int, 'z) ocmd" where
  "conn_read B c buffer len =
     cseq (cwhen (verbose_2 B) (log_event (Printed (''Reading from '' @ show_int (fd c) @ ''...''))))
       (sys_read (fd c) buffer len)"

definition conn_close :: "build \<Rightarrow> conn \<Rightarrow> (conn, 'z) ocmd" where
  "conn_close B c =
     cseq (cwhen (verbose_2 B) (log_event (Printed (''Closing '' @ show_int (fd c) @ ''...''))))
     (cseq (sys_close (fd c))
       (err_conn ''Connection closed.'' ERR_MSG_LEN))"

section \<open>What the operations do\<close>

text \<open>
  What a run did to the outside: its trace without the messages it printed, which depend
  on how verbose the build is.
\<close>

fun is_printed :: "event \<Rightarrow> bool" where
  "is_printed (Printed m) = True"
| "is_printed _ = False"

definition effects :: "event list \<Rightarrow> event list" where
  "effects es = filter (\<lambda>e. \<not> is_printed e) es"

lemma effects_simps [simp]:
  "effects [] = []" "effects (xs @ ys) = effects xs @ effects ys"
  "effects (Sent f p t # es) = Sent f p t # effects es"
  "effects (Closed f # es) = Closed f # effects es"
  "effects (Ran m # es) = Ran m # effects es"
  "effects (Printed m # es) = effects es"
  by (simp_all add: effects_def)

text \<open>
  \<open>io s u\<close>: from \<open>s\<close> to \<open>u\<close> only descriptors, script and trace may change; \<open>io_mem\<close> allows
  new memory as well.
\<close>

definition io :: "'z os_scheme \<Rightarrow> 'z os_scheme \<Rightarrow> bool" where
  "io s u \<longleftrightarrow> same_mem s u \<and> os.more u = os.more s"

definition io_mem :: "'z os_scheme \<Rightarrow> 'z os_scheme \<Rightarrow> bool" where
  "io_mem s u \<longleftrightarrow> mgrows s u \<and> os.more u = os.more s"

lemma io_mem_mgrows: "io_mem s u \<Longrightarrow> mgrows s u"
  by (simp add: io_mem_def)

lemma io_mem_wf: "io_mem s u \<Longrightarrow> wf_mem u"
  by (auto simp: io_mem_def dest: mgrows_wf)

lemma io_mem_refl: "wf_mem s \<Longrightarrow> io_mem s s"
  by (simp add: io_mem_def mgrows_refl)

lemma io_mem_trans [trans]: "io_mem s t \<Longrightarrow> io_mem t u \<Longrightarrow> io_mem s u"
  by (auto simp: io_mem_def intro: mgrows_trans)

lemma io_io_mem: "wf_mem s \<Longrightarrow> io s u \<Longrightarrow> io_mem s u"
  by (simp add: io_def io_mem_def same_mem_mgrows)

lemma io_mem_io: "io_mem s t \<Longrightarrow> io t u \<Longrightarrow> io_mem s u"
  by (auto simp: io_def io_mem_def intro: mgrows_same_mem)

lemma io_mem_grows: "io_mem s t \<Longrightarrow> grows t u \<Longrightarrow> io_mem s u"
  by (auto simp: io_mem_def grows_os(4) intro: mgrows_trans grows_mgrows)

lemma grows_io_mem: "grows s t \<Longrightarrow> io_mem s t"
  by (simp add: io_mem_def grows_mgrows grows_os(4))

lemma err_conn_then:
  assumes wf: "wf_mem s" and len: "length msg < len" and no: "NUL \<notin> set msg"
    and Q: "\<And>b t. \<lbrakk>grows s t; next_id s \<le> b; cstring t (Ptr b 0) = Some msg\<rbrakk> \<Longrightarrow>
      Q \<lparr>c_error = 1, error_msg = Ptr b 0, fd = 0, max_bytes = 0\<rparr> t"
  shows "wp (err_conn msg len) Q s"
proof -
  let ?t = "add_block (filled len (msg @ [NUL]) s) s"
  have "grows s ?t" using len by (intro grows_filled wf) simp
  moreover have "cstring ?t (Ptr (next_id s) 0) = Some msg"
    by (simp add: bytes_filled c_str_nul [OF no])
  ultimately have "Q \<lparr>c_error = 1, error_msg = Ptr (next_id s) 0, fd = 0, max_bytes = 0\<rparr> ?t"
    by (intro Q) simp_all
  then show ?thesis using len by (simp add: err_conn_def wp_simps filled_def)
qed

text \<open>
  Connecting to a peer that answers: the connection is the lowest free descriptor, and
  carries what the peer will send; the peer is the address and the port that were asked for.
\<close>

lemma client_init_then:
  assumes wf: "wf_mem s" and host: "cstring s h = Some ip" and ok: "inet_pton4 ip"
    and net: "net s = Opens d # rs"
    and Q: "\<And>m t. \<lbrakk>io_mem s t; net t = rs; trace t = trace s;
        fds t = install (lowest_free (fds s)) (d\<lparr>peer := Host ip port\<rparr>) (fds s)\<rbrakk> \<Longrightarrow>
      Q \<lparr>c_error = 0, error_msg = m, fd = int (lowest_free (fds s)), max_bytes = 0\<rparr> t"
  shows "wp (client_init h port) Q s"
proof -
  have host': "cstring (add_block (lit_block [] s) s) h = Some ip"
    by (rule cstring_add_block [OF wf host])
  have "mgrows s (add_block (lit_block [] s) s)"
    by (intro mgrows_add_block mgrows_refl wf) (simp add: lit_block_def)
  with host' show ?thesis
    using net ok by (simp add: client_init_def wp_simps sys_socket_def Q io_mem_def)
qed

lemma announce:
  assumes "\<And>tr. effects tr = effects (trace s) \<Longrightarrow> wp m Q (s\<lparr>trace := tr\<rparr>)"
  shows "wp (cseq (cwhen v (log_event (Printed msg))) m) Q s"
  using assms [of "trace s"] assms [of "trace s @ [Printed msg]"] by (simp add: wp_simps)

lemma conn_write_then:
  assumes d: "descriptor (fds s) (fd c) = Some k" and k: "accepts k"
    and buf: "peek s buf n = Some t"
    and Q: "\<And>u. \<lbrakk>io s u; fds u = fds s; net u = net s;
        effects (trace u) = effects (trace s) @ [Sent (fd c) (peer k) t]\<rbrakk> \<Longrightarrow> Q (int n) u"
  shows "wp (conn_write B c buf n) Q s"
  unfolding conn_write_def
  by (rule announce) (use d k buf in \<open>simp add: wp_simps Q io_def\<close>)

lemma conn_write_fails:
  assumes d: "\<And>k. descriptor (fds s) (fd c) = Some k \<Longrightarrow> \<not> accepts k"
    and Q: "\<And>u. \<lbrakk>io s u; fds u = fds s; net u = net s;
        effects (trace u) = effects (trace s)\<rbrakk> \<Longrightarrow> Q (- 1) u"
  shows "wp (conn_write B c buf n) Q s"
  unfolding conn_write_def
  by (rule announce) (use d in \<open>simp add: wp_simps Q io_def split: option.split\<close>)

lemma conn_read_then:
  assumes d: "descriptor (fds s) (fd c) = Some k" and k: "incoming k = Arrives t # q"
    and w: "writable s buf (length (take n t))"
    and Q: "\<And>u. \<lbrakk>same_mem (put buf (take n t) s) u; os.more u = os.more s; net u = net s;
        effects (trace u) = effects (trace s);
        fds u = (fds s)[nat (fd c) := Some (k\<lparr>incoming :=
          (if length t \<le> n then q else Arrives (drop n t) # q)\<rparr>)]\<rbrakk>
      \<Longrightarrow> Q (int (length (take n t))) u"
  shows "wp (conn_read B c buf n) Q s"
  unfolding conn_read_def
  by (rule announce) (use d k w Q in \<open>cases "length t \<le> n"; simp add: wp_simps\<close>)

lemma conn_read_none:
  assumes d: "\<And>k. descriptor (fds s) (fd c) = Some k \<Longrightarrow>
      incoming k = [] \<or> (\<exists>q. incoming k = Timeout # q)"
    and Q: "\<And>r u. \<lbrakk>r \<le> 0; io s u; net u = net s; effects (trace u) = effects (trace s);
        \<And>i. i \<noteq> nat (fd c) \<Longrightarrow> i < length (fds s) \<Longrightarrow> fds u ! i = fds s ! i;
        length (fds u) = length (fds s)\<rbrakk> \<Longrightarrow> Q r u"
  shows "wp (conn_read B c buf n) Q s"
  unfolding conn_read_def
proof (rule announce)
  fix tr assume tr: "effects tr = effects (trace s)"
  show "wp (sys_read (fd c) buf n) Q (s\<lparr>trace := tr\<rparr>)"
  proof (cases "descriptor (fds s) (fd c)")
    case None
    then show ?thesis by (simp add: wp_simps Q io_def tr)
  next
    case (Some k)
    with d [OF Some] show ?thesis by (auto simp: wp_simps io_def tr intro!: Q)
  qed
qed

lemma conn_close_then:
  assumes wf: "wf_mem s"
    and Q: "\<And>m u. \<lbrakk>io_mem s u; net u = net s; effects (trace u) = effects (trace s) @ [Closed (fd c)];
        fds u = (if 0 \<le> fd c then (fds s)[nat (fd c) := None] else fds s);
        cstring u m = Some ''Connection closed.''\<rbrakk> \<Longrightarrow>
      Q \<lparr>c_error = 1, error_msg = m, fd = 0, max_bytes = 0\<rparr> u"
  shows "wp (conn_close B c) Q s"
proof -
  have step: "wp (err_conn ''Connection closed.'' ERR_MSG_LEN) Q u"
    if u: "io s u" "net u = net s" "effects (trace u) = effects (trace s) @ [Closed (fd c)]"
      "fds u = (if 0 \<le> fd c then (fds s)[nat (fd c) := None] else fds s)" for u
  proof (rule err_conn_then)
    have m: "io_mem s u" using io_io_mem [OF wf u(1)] .
    show "wf_mem u" by (rule io_mem_wf [OF m])
    fix b t assume g: "grows u t" and c: "cstring t (Ptr b 0) = Some ''Connection closed.''"
    show "Q \<lparr>c_error = 1, error_msg = Ptr b 0, fd = 0, max_bytes = 0\<rparr> t"
      by (rule Q [OF io_mem_grows [OF m g] _ _ _ c]) (simp_all add: grows_os [OF g] u)
  qed (simp_all add: ERR_MSG_LEN_def)
  show ?thesis unfolding conn_close_def
    by (rule announce) (auto simp: wp_simps io_def intro!: step)
qed

end
