(* ===== verification/Transmission.thy ===== *)
theory Transmission
  imports Comm
begin

text \<open>
  \<^verbatim>\<open>include/PP/transmission.h\<close>, \<^verbatim>\<open>lib/PP/transmission.c\<close> and
  \<^verbatim>\<open>lib/PP/transmission_serializer.c\<close>: the transmission object, its life, and its
  serialisation. The transfers themselves are in \<open>Transfers\<close>. The state is that of the
  operating system and the static variable \<^verbatim>\<open>chunk_size\<close>.
\<close>

section \<open>The object\<close>

record transmission =
  t_data :: ptr
  t_open :: u8
  t_error :: u8
  t_err_msg :: ptr
  t_error_len :: u64
  h_bytes :: u64
  h_chunk_size :: u32
  t_conn :: conn
  read_used :: u16
  write_used :: u16

record ppst = os +
  chunk_size :: u16

type_synonym ('a, 'z) pcmd = "('a, 'z ppst_scheme) cmd"

definition PAD :: char where "PAD = CHR 0x04"

definition DEFAULT_CHUNK_SIZE :: u16 where "DEFAULT_CHUNK_SIZE = 200"

text \<open>
  \<^verbatim>\<open>sizeof(transmission)\<close> is 88 (with \<^verbatim>\<open>conn\<close> of 32 bytes and all padding), the two
  pointers that are subtracted have 8 bytes each.
\<close>

definition SERIALIZED_SIZE_WITHOUT_DATA :: nat where
  "SERIALIZED_SIZE_WITHOUT_DATA = 88 - (8 + 8)"

definition set_transmission_chunk_size :: "u16 \<Rightarrow> (unit, 'z) pcmd" where
  "set_transmission_chunk_size n = cmodify (\<lambda>s. s\<lparr>chunk_size := n\<rparr>)"

definition get_transmission_chunk_size :: "(u16, 'z) pcmd" where
  "get_transmission_chunk_size = cget chunk_size"

text \<open>Copying a literal (\<^verbatim>\<open>strcpy(d, "...")\<close>) writes its characters and the NUL.\<close>

definition strcpy_lit :: "ptr \<Rightarrow> string \<Rightarrow> (unit, 'z) mcmd" where
  "strcpy_lit d msg = store d (msg @ [NUL])"

definition init_transmission :: "conn \<Rightarrow> ptr \<Rightarrow> u64 \<Rightarrow> (transmission, 'z) pcmd" where
  "init_transmission connection data sz =
     cbind (if data \<noteq> Null then malloc (unat sz) else cret Null) (\<lambda>d.
     cseq (cwhen (data \<noteq> Null) (memcpy d data (unat sz)))
     (cbind (cget chunk_size) (\<lambda>cs.
      cbind (if c_error connection \<noteq> 0 \<and> error_msg connection \<noteq> Null then
               cbind (strlen (error_msg connection)) (\<lambda>n.
               cbind (malloc (n + 1)) (\<lambda>m.
               cseq (strcpy m (error_msg connection)) (cret (1, m))))
             else cret (0, Null)) (\<lambda>(e1, m).
      cbind (if unat cs \<le> SERIALIZED_SIZE_WITHOUT_DATA then
               cbind (malloc 50) (\<lambda>m.
               cseq (strcpy_lit m ''Chunk size too small for transmission.'') (cret (1, m)))
             else cret (e1, Null)) (\<lambda>(e2, em).
      cret \<lparr>t_data = d, t_open = 1, t_error = e2, t_err_msg = em, t_error_len = 0,
        h_bytes = sz, h_chunk_size = ucast cs,
        t_conn = \<lparr>c_error = c_error connection, error_msg = m, fd = fd connection,
          max_bytes = max_bytes connection\<rparr>,
        read_used = 0, write_used = 0\<rparr>)))))"

definition close_transmission :: "transmission \<Rightarrow> (transmission, 'z) mcmd" where
  "close_transmission t =
     cseq (free (t_data t))
     (cseq (cwhen (t_error t \<noteq> 0 \<and> t_err_msg t \<noteq> Null) (free (t_err_msg t)))
       (cret (t\<lparr>t_data := Null, t_open := 0, h_bytes := 0\<rparr>)))"

text \<open>The macro \<^verbatim>\<open>TRANS_ERR\<close>: the buffer for the message has no place for its NUL.\<close>

definition trans_err :: "transmission \<Rightarrow> string \<Rightarrow> (transmission, 'z) mcmd" where
  "trans_err t err =
     cbind (close_transmission t) (\<lambda>t.
     cbind (malloc (length err)) (\<lambda>m.
     cseq (strcpy_lit m err)
       (cret (t\<lparr>t_error := 1, t_error_len := of_nat (length err), t_err_msg := m\<rparr>))))"

definition transmission_error :: "transmission \<Rightarrow> ptr" where
  "transmission_error t = (if t_error t = 0 then Null else t_err_msg t)"

definition transmission_size :: "transmission \<Rightarrow> u64" where
  "transmission_size t = h_bytes t"

definition transmission_data :: "transmission \<Rightarrow> ptr" where
  "transmission_data t = t_data t"

section \<open>Serialisation\<close>

definition transmission_serialize :: "transmission \<Rightarrow> (ptr, 'z) mcmd" where
  "transmission_serialize t =
     cbind (malloc (SERIALIZED_SIZE_WITHOUT_DATA + unat (h_bytes t))) (\<lambda>ser.
     cseq (cblock
       [store ser (enc64 (h_bytes t)),
        store (padd ser 8) (enc32 (h_chunk_size t)),
        store (padd ser (8 + 4)) (enc_word 1 (t_open t)),
        store (padd ser (8 + 4 + 1)) (enc_word 1 (t_error t)),
        store (padd ser (8 + 4 + 1 + 1)) (enc64 (t_error_len t)),
        memcpy (padd ser (8 + 4 + 1 + 1 + 8)) (t_data t) (unat (h_bytes t)),
        store (padd ser (8 + 4 + 1 + 1 + 8 + unat (h_bytes t))) (enc16 (c_error (t_conn t))),
        store (padd ser (8 + 4 + 1 + 1 + 8 + unat (h_bytes t) + 2))
          (enc32 (word_of_int (fd (t_conn t)))),
        store (padd ser (8 + 4 + 1 + 1 + 8 + unat (h_bytes t) + 2 + 4))
          (enc64 (max_bytes (t_conn t)))])
       (cret ser))"

text \<open>
  The fields that are not in the serialisation (both messages and the two flags) keep the
  value they have in the uninitialised local variable, which is the first argument here.
\<close>

definition transmission_deserialize :: "transmission \<Rightarrow> ptr \<Rightarrow> (transmission, 'z) mcmd" where
  "transmission_deserialize uninit ser =
     cbind (load ser 8) (\<lambda>bs.
     cbind (load (padd ser 8) 4) (\<lambda>cs.
     cbind (load (padd ser (8 + 4)) 1) (\<lambda>op.
     cbind (load (padd ser (8 + 4 + 1)) 1) (\<lambda>er.
     cbind (load (padd ser (8 + 4 + 1 + 1)) 8) (\<lambda>el.
     cbind (cret (unat (dec_word bs :: u64))) (\<lambda>n.
     cbind (malloc n) (\<lambda>d.
     cseq (memcpy d (padd ser (8 + 4 + 1 + 1 + 8)) n)
     (cbind (load (padd ser (8 + 4 + 1 + 1 + 8 + n)) 2) (\<lambda>ce.
      cbind (load (padd ser (8 + 4 + 1 + 1 + 8 + n + 2)) 4) (\<lambda>f.
      cbind (load (padd ser (8 + 4 + 1 + 1 + 8 + n + 2 + 4)) 8) (\<lambda>mb.
      cret (uninit\<lparr>t_data := d, t_open := dec_word op, t_error := dec_word er,
        t_error_len := dec_word el, h_bytes := dec_word bs, h_chunk_size := dec_word cs,
        t_conn := \<lparr>c_error = dec_word ce, error_msg = error_msg (t_conn uninit),
          fd = sint (dec_word f :: u32), max_bytes = dec_word mb\<rparr>\<rparr>))))))))))))"

text \<open>The serialised form, and what can be read back from its start.\<close>

definition serial :: "transmission \<Rightarrow> string \<Rightarrow> string" where
  "serial t body =
     enc64 (h_bytes t) @ enc32 (h_chunk_size t) @ enc_word 1 (t_open t) @ enc_word 1 (t_error t) @
     enc64 (t_error_len t) @ body @ enc16 (c_error (t_conn t)) @
     enc32 (word_of_int (fd (t_conn t))) @ enc64 (max_bytes (t_conn t))"

lemma length_serial: "length (serial t body) = 36 + length body"
  by (simp add: serial_def)

lemma wp_strcpy_lit [wp_simps]:
  "wp (strcpy_lit d msg) Q s = (writable s d (Suc (length msg)) \<and> Q () (put d (msg @ [NUL]) s))"
  by (simp add: strcpy_lit_def wp_simps)

lemma wp_transmission_serialize:
  assumes wf: "wf_mem s" and arg: "peek s (t_data t) (unat (h_bytes t)) = Some body"
    and Q: "\<And>n. n = 72 + unat (h_bytes t) \<Longrightarrow>
      Q (Ptr (next_id s) 0) (add_block (filled n (serial t body) s) s)"
  shows "wp (transmission_serialize t) Q s"
proof -
  obtain b i k where a: "t_data t = Ptr b i" "blocks s b = Some k"
    and ik: "i + unat (h_bytes t) \<le> length (bytes k)"
    and body: "body = take (unat (h_bytes t)) (drop i (bytes k))"
    using arg by (cases "t_data t") (auto split: option.splits if_splits)
  have ne: "b \<noteq> next_id s" using wf_mem_blocks [OF wf a(2)] by simp
  have lb: "length body = unat (h_bytes t)" using length_peek [OF arg] .
  note Q' = Q [OF refl, unfolded filled_def serial_def]
  show ?thesis
    unfolding transmission_serialize_def SERIALIZED_SIZE_WITHOUT_DATA_def
    using a ne ik lb Q'
    by (simp add: wp_simps overwrite_adjacent body [symmetric] del: overwrite_nil)
qed

lemma serial_parts:
  assumes "length body = unat (h_bytes t)" and "n = unat (h_bytes t)"
  shows "take 8 (serial t body) = enc64 (h_bytes t)"
    "take 4 (drop 8 (serial t body)) = enc32 (h_chunk_size t)"
    "take 1 (drop 12 (serial t body)) = enc_word 1 (t_open t)"
    "take 1 (drop 13 (serial t body)) = enc_word 1 (t_error t)"
    "take 8 (drop 14 (serial t body)) = enc64 (t_error_len t)"
    "take n (drop 22 (serial t body)) = body"
    "take 2 (drop (22 + n) (serial t body)) = enc16 (c_error (t_conn t))"
    "take 4 (drop (24 + n) (serial t body)) = enc32 (word_of_int (fd (t_conn t)))"
    "take 8 (drop (28 + n) (serial t body)) = enc64 (max_bytes (t_conn t))"
  using assms by (simp_all add: serial_def)

lemmas serial_parts_Suc = serial_parts(3,4) [unfolded One_nat_def]

lemma wp_transmission_deserialize:
  assumes wf: "wf_mem s" and pk: "peek s p (36 + unat (h_bytes t)) = Some (serial t body)"
    and fd: "- (2 ^ 31) \<le> fd (t_conn t)" "fd (t_conn t) < 2 ^ 31"
    and Q: "\<And>u. grows s u \<Longrightarrow> live u (Ptr (next_id s) 0) \<Longrightarrow>
      peek u (Ptr (next_id s) 0) (unat (h_bytes t)) = Some body \<Longrightarrow>
      Q (t\<lparr>t_data := Ptr (next_id s) 0, t_err_msg := t_err_msg uninit,
           read_used := read_used uninit, write_used := write_used uninit,
           t_conn := (t_conn t)\<lparr>error_msg := error_msg (t_conn uninit)\<rparr>\<rparr>) u"
  shows "wp (transmission_deserialize uninit p) Q s"
proof -
  let ?n = "unat (h_bytes t)" and ?x = "serial t body"
  have lb: "length body = ?n" using length_peek [OF pk] by (simp add: length_serial)
  note parts = serial_parts [OF lb refl]
  have part: "peek s (padd p i) n = Some (take n (drop i ?x))" if "i + n \<le> 36 + ?n" for i n
    by (rule peek_part [OF pk that])
  have first: "peek s p 8 = Some (enc64 (h_bytes t))"
    unfolding parts(1) [symmetric] by (rule peek_take [OF pk]) simp
  have data: "peek (add_block k s) (padd p 22) ?n = Some body" for k
    by (rule peek_add_block [OF wf]) (use part [of 22 ?n] parts(6) in simp)
  have le: "length body \<le> ?n + spare s (next_id s)" using lb by simp
  let ?u = "add_block (filled ?n body s) s"
  have g: "grows s ?u" by (rule grows_filled [OF wf le])
  have part': "peek ?u (padd p i) n = Some (take n (drop i ?x))" if "i + n \<le> 36 + ?n" for i n
    by (rule peek_add_block [OF wf part [OF that]])
  have sint: "sint (word_of_int (fd (t_conn t)) :: u32) = fd (t_conn t)"
    using fd by (simp add: sint_sbintrunc' signed_take_bit_int_eq_self)
  have eq: "uninit\<lparr>t_data := d, t_open := t_open t, t_error := t_error t,
      t_error_len := t_error_len t, h_bytes := h_bytes t, h_chunk_size := h_chunk_size t,
      t_conn := \<lparr>c_error = c_error (t_conn t), error_msg = error_msg (t_conn uninit),
        fd = fd (t_conn t), max_bytes = max_bytes (t_conn t)\<rparr>\<rparr> =
    t\<lparr>t_data := d, t_err_msg := t_err_msg uninit, read_used := read_used uninit,
      write_used := write_used uninit,
      t_conn := (t_conn t)\<lparr>error_msg := error_msg (t_conn uninit)\<rparr>\<rparr>" for d
    by (cases "t_conn t", cases t, cases uninit) simp
  have "Q (uninit\<lparr>t_data := Ptr (next_id s) 0, t_open := t_open t, t_error := t_error t,
      t_error_len := t_error_len t, h_bytes := h_bytes t, h_chunk_size := h_chunk_size t,
      t_conn := \<lparr>c_error = c_error (t_conn t), error_msg = error_msg (t_conn uninit),
        fd = fd (t_conn t), max_bytes = max_bytes (t_conn t)\<rparr>\<rparr>) ?u"
    unfolding eq by (rule Q [OF g]) (use peek_filled [OF le, of ?n] lb in simp_all)
  then show ?thesis
    unfolding transmission_deserialize_def
    by (simp add: wp_simps first part part' data parts sint serial_parts_Suc [OF lb refl] lb
        filled_def [symmetric])
qed

lemma serialize_then:
  assumes wf: "wf_mem s" and arg: "peek s (t_data t) (unat (h_bytes t)) = Some body"
    and Q: "\<And>b u. \<lbrakk>grows s u; next_id s \<le> b;
      peek u (Ptr b 0) (36 + unat (h_bytes t)) = Some (serial t body)\<rbrakk> \<Longrightarrow> Q (Ptr b 0) u"
  shows "wp (transmission_serialize t) Q s"
proof (rule wp_transmission_serialize [OF wf arg])
  fix n assume n: "n = 72 + unat (h_bytes t)"
  have l: "length (serial t body) = 36 + unat (h_bytes t)"
    using length_peek [OF arg] by (simp add: length_serial)
  have le: "length (serial t body) \<le> n + spare s (next_id s)" by (simp add: l n)
  show "Q (Ptr (next_id s) 0) (add_block (filled n (serial t body) s) s)"
    using grows_filled [OF wf le] peek_filled [OF le, of "length (serial t body)"]
    by (intro Q) (simp_all add: l)
qed

section \<open>The life of a transmission\<close>

lemma ppst_more_fields:
  assumes "os.more t = os.more s"
  shows "chunk_size t = chunk_size s" "ppst.more t = ppst.more s"
  using assms by (cases s, cases t, simp)+

lemma chunk_size_blocks [simp]:
  "chunk_size (add_block k s) = chunk_size s" "chunk_size (set_block b k s) = chunk_size s"
  "chunk_size (del_block b s) = chunk_size s"
  by (simp_all add: add_block_def set_block_def del_block_def)

text \<open>A transmission for data over a good connection owns a copy of the data.\<close>

definition new_transmission :: "conn \<Rightarrow> ptr \<Rightarrow> u64 \<Rightarrow> u16 \<Rightarrow> transmission" where
  "new_transmission c d n cs = \<lparr>t_data = d, t_open = 1, t_error = 0, t_err_msg = Null,
     t_error_len = 0, h_bytes = n, h_chunk_size = ucast cs,
     t_conn = \<lparr>c_error = c_error c, error_msg = Null, fd = fd c, max_bytes = max_bytes c\<rparr>,
     read_used = 0, write_used = 0\<rparr>"

lemma wp_init_transmission:
  assumes wf: "wf_mem s" and c: "c_error c = 0" and cs: "72 < unat (chunk_size s)"
    and data: "peek s p (unat n) = Some body"
    and Q: "Q (new_transmission c (Ptr (next_id s) 0) n (chunk_size s))
      (add_block (filled (unat n) body s) s)"
  shows "wp (init_transmission c p n) Q s"
proof -
  have p: "p \<noteq> Null" using data by auto
  have "peek (add_block k s) p (unat n) = Some body" for k
    by (rule peek_add_block [OF wf data])
  then show ?thesis
    using p c cs Q
    by (simp add: init_transmission_def wp_simps SERIALIZED_SIZE_WITHOUT_DATA_def
        new_transmission_def filled_def)
qed

lemma wp_init_empty:
  assumes c: "c_error c = 0" and cs: "72 < unat (chunk_size s)"
    and Q: "Q (new_transmission c Null n (chunk_size s)) s"
  shows "wp (init_transmission c Null n) Q s"
  using assms
  by (simp add: init_transmission_def wp_simps SERIALIZED_SIZE_WITHOUT_DATA_def
      new_transmission_def)

lemma wp_close_ok:
  assumes "t_error t = 0" and "t_data t = Ptr b 0" and "live s (Ptr b 0)"
    and "Q (t\<lparr>t_data := Null, t_open := 0, h_bytes := 0\<rparr>) (del_block b s)"
  shows "wp (close_transmission t) Q s"
  using assms by (simp add: close_transmission_def wp_simps)

section \<open>Properties\<close>

text \<open>
  C33. Deserialising what was serialised gives the transmission back: all fields but the
  two messages and the two flags, which are not serialised, and a new copy of the data.
\<close>

theorem transmission_roundtrip:
  assumes wf: "wf_mem s" and data: "peek s (t_data t) (unat (h_bytes t)) = Some body"
    and fd: "- (2 ^ 31) \<le> fd (t_conn t)" "fd (t_conn t) < 2 ^ 31"
  shows "wp (cbind (transmission_serialize t) (transmission_deserialize uninit))
    (\<lambda>v u. grows s u \<and> live u (t_data v) \<and>
       peek u (t_data v) (unat (h_bytes t)) = Some body \<and>
       v = t\<lparr>t_data := t_data v, t_err_msg := t_err_msg uninit, read_used := read_used uninit,
         write_used := write_used uninit,
         t_conn := (t_conn t)\<lparr>error_msg := error_msg (t_conn uninit)\<rparr>\<rparr>) s"
  unfolding wp_cbind
proof (rule serialize_then [OF wf data])
  fix b u assume g: "grows s u"
    and pk: "peek u (Ptr b 0) (36 + unat (h_bytes t)) = Some (serial t body)"
  show "wp (transmission_deserialize uninit (Ptr b 0))
    (\<lambda>v u. grows s u \<and> live u (t_data v) \<and>
       peek u (t_data v) (unat (h_bytes t)) = Some body \<and>
       v = t\<lparr>t_data := t_data v, t_err_msg := t_err_msg uninit, read_used := read_used uninit,
         write_used := write_used uninit,
         t_conn := (t_conn t)\<lparr>error_msg := error_msg (t_conn uninit)\<rparr>\<rparr>) u"
    by (rule wp_transmission_deserialize [OF grows_wf [OF g] pk fd])
      (simp add: grows_trans [OF g])
qed

definition sample_transmission :: "ptr \<Rightarrow> u64 \<Rightarrow> transmission" where
  "sample_transmission d n =
     new_transmission \<lparr>c_error = 0, error_msg = Null, fd = 5, max_bytes = 9\<rparr> d n 200"

theorem transmission_roundtrip_witness:
  "wp (cbind (transmission_serialize (sample_transmission (Ptr 0 0) 2))
      (transmission_deserialize (sample_transmission Null 0)))
    (\<lambda>v u. fd (t_conn v) = 5 \<and> h_chunk_size v = 200 \<and> peek u (t_data v) 2 = Some ''hi'')
    (sample_mem ''hi'')"
proof (rule wp_mono [OF transmission_roundtrip])
  show "peek (sample_mem ''hi'') (t_data (sample_transmission (Ptr 0 0) 2))
      (unat (h_bytes (sample_transmission (Ptr 0 0) 2))) = Some ''hi''"
    by (simp add: sample_transmission_def new_transmission_def)
next
  let ?t = "sample_transmission (Ptr 0 0) 2" and ?z = "sample_transmission Null 0"
  fix v u
  assume a: "grows (sample_mem ''hi'') u \<and> live u (t_data v) \<and>
       peek u (t_data v) (unat (h_bytes ?t)) = Some ''hi'' \<and>
       v = ?t\<lparr>t_data := t_data v, t_err_msg := t_err_msg ?z, read_used := read_used ?z,
         write_used := write_used ?z,
         t_conn := (t_conn ?t)\<lparr>error_msg := error_msg (t_conn ?z)\<rparr>\<rparr>"
  note v = a [THEN conjunct2, THEN conjunct2, THEN conjunct2]
  have "fd (t_conn v) = 5" "h_chunk_size v = 200"
    using arg_cong [OF v, of "\<lambda>x. fd (t_conn x)"] arg_cong [OF v, of h_chunk_size]
    by (simp_all add: sample_transmission_def new_transmission_def)
  moreover have "peek u (t_data v) 2 = Some ''hi''"
    using a [THEN conjunct2, THEN conjunct2, THEN conjunct1]
    by (simp add: sample_transmission_def new_transmission_def)
  ultimately show "fd (t_conn v) = 5 \<and> h_chunk_size v = 200 \<and> peek u (t_data v) 2 = Some ''hi''"
    by simp
qed (simp_all add: sample_transmission_def new_transmission_def)

end
