(* ===== verification/Streams.thy ===== *)
theory Streams
  imports Comm
begin

text \<open>
  Reading a stream of messages into a buffer that grows: what the receiver of the
  transmissions and the clients have in common.
\<close>

lemma unat_offset:
  assumes "unat w = d" and "i * d < 2 ^ 32"
  shows "unat (of_nat i * w :: u32) = i * d"
proof -
  have "of_nat i * w = (of_nat (i * d) :: u32)" by (simp flip: assms(1))
  then show ?thesis
    using assms(2) by (simp only: unsigned_of_nat) (simp add: take_bit_nat_eq_self)
qed

lemma pending_chunks: "length cs \<le> pending (map Arrives cs @ rest)"
  by (induction cs) auto

text \<open>
  The state between two reads: the new block \<open>b\<close> has room for \<open>m\<close> bytes and starts with
  the bytes \<open>bs\<close> read so far; on the connection \<open>q\<close> is still to come; nothing else has
  changed since \<open>s\<close>.
\<close>

definition reading :: "'z os_scheme \<Rightarrow> int \<Rightarrow> sock \<Rightarrow> nat \<Rightarrow> string \<Rightarrow> arrival list \<Rightarrow> nat \<Rightarrow>
    'z os_scheme \<Rightarrow> bool" where
  "reading s f k m bs q b u \<longleftrightarrow> io_mem s u \<and> next_id s \<le> b \<and>
     (\<exists>kb. blocks u b = Some kb \<and> on_heap kb \<and> m \<le> usable kb \<and> take (length bs) (bytes kb) = bs) \<and>
     length bs \<le> m \<and> fds u = (fds s)[nat f := Some (k\<lparr>incoming := q\<rparr>)] \<and> net u = net s \<and>
     effects (trace u) = effects (trace s)"

lemma readingD:
  assumes "reading s f k m bs q b u"
  shows "wf_mem u" "live u (Ptr b 0)" "peek u (Ptr b 0) (length bs) = Some bs" "io_mem s u"
    "next_id s \<le> b"
proof -
  obtain kb where kb: "blocks u b = Some kb" "on_heap kb" "m \<le> usable kb"
    "take (length bs) (bytes kb) = bs" and l: "length bs \<le> m" and io: "io_mem s u"
    using assms by (auto simp: reading_def)
  show wf: "wf_mem u" by (rule io_mem_wf [OF io])
  show "live u (Ptr b 0)" using kb by simp
  show "peek u (Ptr b 0) (length bs) = Some bs"
    using kb l wf_mem_usable [OF wf kb(1)] by simp
  show "io_mem s u" by (rule io)
  show "next_id s \<le> b" using assms by (simp add: reading_def)
qed

text \<open>A text with its NUL, read as a C string.\<close>

lemma reading_text:
  assumes "reading s f k m (t @ NUL # r) q b u" and "NUL \<notin> set t"
  shows "cstring u (Ptr b 0) = Some t"
proof -
  obtain kb where kb: "blocks u b = Some kb" "take (length (t @ NUL # r)) (bytes kb) = t @ NUL # r"
    using assms(1) by (auto simp: reading_def)
  have "bytes kb = t @ NUL # r @ drop (length (t @ NUL # r)) (bytes kb)"
    using kb(2) append_take_drop_id [of "length (t @ NUL # r)" "bytes kb"] by simp
  then have "c_str (bytes kb) = Some t" using c_str_nul [OF assms(2)] by metis
  then show ?thesis using kb(1) by simp
qed

definition valid_fd :: "int \<Rightarrow> 'z os_scheme \<Rightarrow> bool" where
  "valid_fd f s \<longleftrightarrow> 0 \<le> f \<and> nat f < length (fds s)"

lemma reading_descriptor:
  "valid_fd f s \<Longrightarrow> reading s f k m bs q b u \<Longrightarrow> descriptor (fds u) f = Some (k\<lparr>incoming := q\<rparr>)"
  by (simp add: reading_def descriptor_def valid_fd_def)

lemma read_chunk_then:
  assumes v: "valid_fd (fd c) s" and r: "reading s (fd c) k m bs (Arrives x # q) b u"
    and room: "length bs + length x \<le> m" and n: "length x \<le> n" and wf: "wf_mem s"
    and Q: "\<And>t. reading s (fd c) k m (bs @ x) q b t \<Longrightarrow> Q (int (length x)) t"
  shows "wp (conn_read B c (Ptr b (length bs)) n) Q u"
proof -
  obtain kb where kb: "blocks u b = Some kb" "on_heap kb" "m \<le> usable kb"
    "take (length bs) (bytes kb) = bs" using r by (auto simp: reading_def)
  note rd = readingD [OF r]
  have ub: "usable kb \<le> length (bytes kb)" by (rule wf_mem_usable [OF rd(1) kb(1)])
  let ?p = "Ptr b (length bs)" and ?k = "kb\<lparr>bytes := overwrite (length bs) x (bytes kb)\<rparr>"
  have w: "writable u ?p (length x)" using kb room by simp
  have put: "put ?p x u = set_block b ?k u" by (rule put_same [OF kb(1)])
  have mg: "mgrows s (put ?p x u)"
    using rd(4,5) by (intro mgrows_put [OF _ refl wf_mem_fresh [OF wf] w]) (auto simp: io_mem_def)
  have "wp (conn_read B c ?p n) Q u"
  proof (rule conn_read_then [OF reading_descriptor [OF v r]])
    show "incoming (k\<lparr>incoming := Arrives x # q\<rparr>) = Arrives x # q" by simp
    show "writable u ?p (length (take n x))" using w n by simp
    fix t assume t: "same_mem (put ?p (take n x) u) t" "os.more t = os.more u" "net t = net u"
      "effects (trace t) = effects (trace u)"
      "fds t = (fds u)[nat (fd c) := Some (k\<lparr>incoming := Arrives x # q, incoming :=
        (if length x \<le> n then q else Arrives (drop n x) # q)\<rparr>)]"
    have sm: "same_mem (put ?p x u) t" using t(1) n by simp
    have "take (length bs + length x) (bytes ?k) = bs @ x"
    proof -
      have "take (length bs + length x) (overwrite (length bs) x (bytes kb)) =
          take (length bs) (bytes kb) @ x"
        using room kb(3) ub by (simp add: overwrite_def)
      then show ?thesis using kb(4) by simp
    qed
    moreover have "blocks t b = Some ?k" using sm by (simp add: same_mem_def put)
    moreover have "io_mem s t"
      using mgrows_same_mem [OF mg sm] t(2) rd(4) by (simp add: io_mem_def)
    ultimately have "reading s (fd c) k m (bs @ x) q b t"
      using t r kb n room by (simp add: reading_def)
    then show "Q (int (length (take n x))) t" using Q n by simp
  qed
  then show ?thesis .
qed

lemma read_end_then:
  assumes v: "valid_fd (fd c) s" and r: "reading s (fd c) k m bs q b u"
    and q: "q = [] \<or> (\<exists>q'. q = Timeout # q')"
    and Q: "\<And>i t. i \<le> 0 \<Longrightarrow> reading s (fd c) k m bs (tl q) b t \<Longrightarrow> Q i t"
  shows "wp (conn_read B c p n) Q u"
  unfolding conn_read_def
proof (rule announce)
  fix tr assume tr: "effects tr = effects (trace u)"
  have d: "descriptor (fds u) (fd c) = Some (k\<lparr>incoming := q\<rparr>)" by (rule reading_descriptor [OF v r])
  from q show "wp (sys_read (fd c) p n) Q (u\<lparr>trace := tr\<rparr>)"
    using d tr r by (auto simp: wp_simps reading_def io_mem_def intro!: Q)
qed

lemma grow_buffer_then:
  assumes wf: "wf_mem s" and r: "reading s f k m bs q b u" and n: "m \<le> n" "0 < n"
    and Q: "\<And>b' t. reading s f k n bs q b' t \<Longrightarrow> Q (Ptr b' 0) t"
  shows "wp (realloc (Ptr b 0) n) Q u"
proof -
  obtain kb where kb: "blocks u b = Some kb" "on_heap kb" "m \<le> usable kb"
    "take (length bs) (bytes kb) = bs" and l: "length bs \<le> m" using r by (auto simp: reading_def)
  note rd = readingD [OF r]
  have ub: "usable kb \<le> length (bytes kb)" by (rule wf_mem_usable [OF rd(1) kb(1)])
  have mg: "mgrows s u" and nx: "next_id s \<le> next_id u"
    using rd(4) by (auto simp: io_mem_def mgrows_def)
  show ?thesis
  proof (rule realloc_then [OF kb(1,2) n(2), of "length bs"])
    fix k' t assume t: "t = add_block k' (del_block b u)" "on_heap k'" "n \<le> usable k'"
      "usable k' \<le> length (bytes k')" "take (length bs) (bytes k') = take (length bs) (bytes kb)"
    have "mgrows s t"
      unfolding t(1) by (rule mgrows_move [OF mg wf_mem_fresh [OF wf rd(5)] t(4)])
    then have "reading s f k n bs q (next_id u) t"
      using r t kb(4) l n(1) nx by (simp add: reading_def io_mem_def)
    then show "Q (Ptr (next_id u) 0) t" by (rule Q)
  qed (use l n kb ub in simp_all)
qed

lemma length_concat_same: "(\<forall>x \<in> set xs. length x = n) \<Longrightarrow> length (concat xs) = length xs * n"
  by (induction xs) auto

lemma start_reading:
  assumes wf: "wf_mem s" and d: "descriptor (fds s) f = Some k"
  shows "valid_fd f s" "reading s f k n [] (incoming k) (next_id s) (add_block (fresh_block n s) s)"
proof -
  show v: "valid_fd f s" using d by (simp add: valid_fd_def descriptor_def split: if_splits)
  have "k\<lparr>incoming := incoming k\<rparr> = k" by simp
  moreover have "(fds s)[nat f := Some k] = fds s"
    using v d by (simp add: list_update_same_conv valid_fd_def descriptor_def)
  moreover have "mgrows s (add_block (fresh_block n s) s)" by (intro mgrows_add_block mgrows_refl wf) simp
  ultimately show "reading s f k n [] (incoming k) (next_id s) (add_block (fresh_block n s) s)"
    by (simp add: reading_def io_mem_def)
qed

end
