(* ===== verification/Transfers.thy ===== *)
theory Transfers
  imports Transmission Streams
begin

text \<open>
  The transfers of \<^verbatim>\<open>lib/PP/transmission.c\<close>: \<^verbatim>\<open>transmit\<close> cuts the data into pieces, pads
  the last one with the byte 4, and sends each as a chunk; \<^verbatim>\<open>receive\<close> reads chunks until
  one ends with the padding byte and trims the padding. Both are written as the code is:
  \<^verbatim>\<open>transmit\<close> serialises every piece and then sends the unserialised buffer with the length
  of the chunk, which is 72 bytes more than the buffer has.
\<close>

section \<open>Sending\<close>

function pad_loop :: "ptr \<Rightarrow> nat \<Rightarrow> nat \<Rightarrow> (unit, 'z) mcmd" where
  "pad_loop p n i =
     (if i < n then cseq (store (padd p i) [PAD]) (pad_loop p n (i + 1)) else cskip)"
  by pat_completeness auto
termination
  by (relation "measure (\<lambda>(p, n, i). n - i)") auto

declare pad_loop.simps [simp del]

definition fill_buffer :: "ptr \<Rightarrow> ptr \<Rightarrow> nat \<Rightarrow> nat \<Rightarrow> (unit, 'z) mcmd" where
  "fill_buffer buffer data buffer_size data_size =
     (if buffer_size < data_size then cskip
      else cseq (memcpy buffer data data_size)
        (pad_loop (padd buffer data_size) (buffer_size - data_size) 0))"

text \<open>
  One round of the loop, and the code after it: piece \<open>i\<close> of \<open>n\<close> bytes. The offset is a
  product of 32-bit numbers.
\<close>

definition send_piece :: "build \<Rightarrow> transmission \<Rightarrow> u32 \<Rightarrow> u32 \<Rightarrow> u32 \<Rightarrow> (unit, 'z) pcmd" where
  "send_piece B t data_size i n =
     cbind (malloc (unat data_size)) (\<lambda>buffer.
     cseq (fill_buffer buffer (padd (t_data t) (unat (i * data_size))) (unat data_size) (unat n))
     (cbind (init_transmission (t_conn t) buffer (ucast data_size)) (\<lambda>sub.
      cbind (transmission_serialize sub) (\<lambda>serialized.
      cseq (conn_write B (t_conn t) buffer (unat (h_chunk_size t)))
      (cseq (close_transmission sub)
      (cseq (free buffer) (free serialized)))))))"

function send_pieces :: "build \<Rightarrow> transmission \<Rightarrow> u32 \<Rightarrow> nat \<Rightarrow> nat \<Rightarrow> (unit, 'z) pcmd" where
  "send_pieces B t data_size n i =
     (if i < n then
        cseq (send_piece B t data_size (of_nat i) data_size) (send_pieces B t data_size n (i + 1))
      else cskip)"
  by pat_completeness auto
termination
  by (relation "measure (\<lambda>(B, t, d, n, i). n - i)") auto

declare send_pieces.simps [simp del]

text \<open>
  The number of full pieces is computed in floating point and converted to 32 bits; for
  sizes below \<open>2 ^ 53\<close> this is the integer quotient. Dividing by a piece size of 0 ends
  the program (the remainder is an integer division).
\<close>

definition transmit :: "build \<Rightarrow> transmission \<Rightarrow> (bool \<times> transmission, 'z) pcmd" where
  "transmit B t =
     (if write_used t \<noteq> 0 then
        cbind (trans_err t ''Transmission instance already used for writing.'') (\<lambda>t. cret (False, t))
      else if t_error t \<noteq> 0 then
        cbind (trans_err t ''Erroneous transmission instance used.'') (\<lambda>t. cret (False, t))
      else if t_open t = 0 then
        cbind (trans_err t ''Transmission instance is closed.'') (\<lambda>t. cret (False, t))
      else if t_data t = Null then
        cbind (trans_err t ''Data to transmit is NULL.'') (\<lambda>t. cret (False, t))
      else
        let t = t\<lparr>write_used := 1\<rparr>;
            data_size = h_chunk_size t - of_nat SERIALIZED_SIZE_WITHOUT_DATA in
        if data_size = 0 then cfail DivByZero
        else
          let iterations = of_nat (unat (h_bytes t) div unat data_size) :: u32;
              remaining = of_nat (unat (h_bytes t) mod unat data_size) in
          cseq (send_pieces B t data_size (unat iterations) 0)
          (cseq (send_piece B t data_size iterations remaining)
            (cret (True, t))))"

section \<open>Receiving\<close>

text \<open>
  The loop of \<^verbatim>\<open>trim_padding\<close> counts an unsigned number down, so its condition is always
  true: the loop ends at a byte that is not padding or by reading outside the buffer. A
  loop that has seen all \<open>2 ^ 32\<close> indices never ends.
\<close>

definition trim_body :: "ptr \<Rightarrow> u32 \<Rightarrow> (u32 + u32, 'z) mcmd" where
  "trim_body buffer i =
     cbind (load (padd buffer (unat i)) 1) (\<lambda>c.
     if c \<noteq> [PAD] then cret (Inr (i + 1)) else cret (Inl (i - 1)))"

definition trim_padding :: "ptr \<Rightarrow> u32 \<Rightarrow> (u32, 'z) mcmd" where
  "trim_padding buffer n = cloop (2 ^ 32) (trim_body buffer) (n - 1)"

definition contains_padding :: "ptr \<Rightarrow> u32 \<Rightarrow> (bool, 'z) mcmd" where
  "contains_padding buffer len =
     cbind (load (padd buffer (unat (len - 1))) 1) (\<lambda>c. cret (c = [PAD]))"

text \<open>
  The loop that reads the chunks; it ends with the buffer, the number of reads and the
  result of the last one. Every round but the last takes a byte that arrived, so the
  number of bytes on the way bounds the rounds.
\<close>

definition receive_body ::
  "build \<Rightarrow> conn \<Rightarrow> u32 \<Rightarrow> ptr \<times> u32 \<Rightarrow> ((ptr \<times> u32) + (ptr \<times> u32 \<times> int), 'z) ocmd" where
  "receive_body B c chunk = (\<lambda>(buffer, i).
     cbind (conn_read B c (padd buffer (unat (i * chunk))) (unat chunk)) (\<lambda>bytes.
     if bytes \<le> 0 then cret (Inr (buffer, i + 1, bytes))
     else cbind (contains_padding buffer ((i + 1) * chunk)) (\<lambda>last.
       if last then cret (Inr (buffer, i + 1, bytes))
       else cbind (realloc buffer (unat ((i + 1 + 1) * chunk))) (\<lambda>buffer.
         cret (Inl (buffer, i + 1))))))"

definition receive :: "build \<Rightarrow> transmission \<Rightarrow> (bool \<times> transmission, 'z) pcmd" where
  "receive B t =
     (if read_used t \<noteq> 0 then
        cbind (trans_err t ''Transmission instance already used for reading.'') (\<lambda>t. cret (False, t))
      else if t_error t \<noteq> 0 then
        cbind (trans_err t ''Erroneous transmission instance used.'') (\<lambda>t. cret (False, t))
      else if t_open t = 0 then
        cbind (trans_err t ''Transmission instance is closed.'') (\<lambda>t. cret (False, t))
      else
        cbind (cret (t\<lparr>read_used := 1\<rparr>)) (\<lambda>t.
        cbind (malloc (unat (h_chunk_size t))) (\<lambda>buffer.
        cbind (cget (pending_fd (fd (t_conn t)))) (\<lambda>n.
        cbind (cloop (n + 2) (receive_body B (t_conn t) (h_chunk_size t)) (buffer, 0))
          (\<lambda>(buffer, i, bytes).
        if i = 1 \<and> bytes \<le> 0 then cseq (free buffer) (cret (False, t))
        else
          cbind (trim_padding buffer (h_chunk_size t * (if bytes > 0 then i else i - 1)))
            (\<lambda>new_size.
          cseq (cwhen (t_data t \<noteq> Null) (free (t_data t)))
          (cbind (malloc (unat new_size)) (\<lambda>d.
           cseq (memcpy d buffer (unat new_size))
           (cseq (free buffer)
             (cret (True, t\<lparr>t_data := d, h_bytes := ucast new_size\<rparr>)))))))))))"

section \<open>What the parts do\<close>

lemma pad_loop_wp:
  assumes "blocks s b = Some k" and "j + n \<le> usable k" and "usable k \<le> length (bytes k)"
  shows "i \<le> n \<Longrightarrow> wp (pad_loop (Ptr b j) n i) Q s =
    Q () (set_block b (k\<lparr>bytes := overwrite (j + i) (replicate (n - i) PAD) (bytes k)\<rparr>) s)"
  using assms
proof (induction "Ptr b j" n i arbitrary: s k rule: pad_loop.induct)
  case (1 n i)
  show ?case
  proof (cases "i < n")
    case False
    with "1.prems" show ?thesis
      by (subst pad_loop.simps) (simp add: wp_simps set_block_def fun_upd_idem)
  next
    case True
    let ?k = "k\<lparr>bytes := overwrite (j + i) [PAD] (bytes k)\<rparr>"
    have "wp (pad_loop (Ptr b j) n (i + 1)) Q (set_block b ?k s) =
      Q () (set_block b (?k\<lparr>bytes := overwrite (j + (i + 1)) (replicate (n - (i + 1)) PAD) (bytes ?k)\<rparr>)
        (set_block b ?k s))"
      by (rule "1.hyps") (use True "1.prems" in simp_all)
    moreover have "overwrite (j + Suc i) (replicate (n - Suc i) PAD) (overwrite (j + i) [PAD] (bytes k)) =
        overwrite (j + i) (replicate (n - i) PAD) (bytes k)"
      using True "1.prems" by (subst overwrite_adjacent) (simp_all add: replicate_Suc [symmetric] Suc_diff_Suc del: replicate_Suc)
    ultimately show ?thesis
      using True "1.prems" by (subst pad_loop.simps) (simp add: wp_simps)
  qed
qed

lemma fill_buffer_fresh:
  assumes wf: "wf_mem s" and p: "peek s p m = Some piece" and m: "m \<le> n"
  shows "wp (fill_buffer (Ptr (next_id s) 0) p n m) Q (add_block (fresh_block n s) s) =
    Q () (add_block (filled n (piece @ replicate (n - m) PAD) s) s)"
proof -
  let ?b = "next_id s" and ?s = "add_block (fresh_block n s) s"
  have p': "peek ?s p m = Some piece" by (rule peek_add_block [OF wf p])
  have l: "length piece = m" using length_peek [OF p] .
  let ?k = "(fresh_block n s)\<lparr>bytes := overwrite 0 piece (fresh_bytes n s)\<rparr>"
  have pad: "wp (pad_loop (Ptr ?b m) (n - m) 0) Q (add_block ?k s) =
      Q () (add_block (filled n (piece @ replicate (n - m) PAD) s) s)"
  proof (subst pad_loop_wp [of _ _ ?k])
    have "overwrite m (replicate (n - m) PAD) (overwrite 0 piece (fresh_bytes n s)) =
        overwrite 0 (piece @ replicate (n - m) PAD) (fresh_bytes n s)"
      using l m by (intro overwrite_adjacent) simp_all
    then show "Q () (set_block ?b (?k\<lparr>bytes := overwrite (m + 0) (replicate (n - m - 0) PAD) (bytes ?k)\<rparr>)
        (add_block ?k s)) = Q () (add_block (filled n (piece @ replicate (n - m) PAD) s) s)"
      by (simp add: filled_def)
  qed (use l m in simp_all)
  show ?thesis
    using m l p' pad by (simp add: fill_buffer_def wp_simps)
qed

text \<open>
  \<open>restored s u\<close>: from \<open>s\<close> to \<open>u\<close> the memory is back to what it was (only the numbering of
  new blocks has gone on), and so are the descriptors.
\<close>

definition restored :: "'z os_scheme \<Rightarrow> 'z os_scheme \<Rightarrow> bool" where
  "restored s u \<longleftrightarrow> io_mem s u \<and> blocks u = blocks s \<and> fds u = fds s \<and> net u = net s"

lemma restored_refl: "wf_mem s \<Longrightarrow> restored s s"
  by (simp add: restored_def io_mem_refl)

lemma restored_trans [trans]: "restored s t \<Longrightarrow> restored t u \<Longrightarrow> restored s u"
  by (auto simp: restored_def intro: io_mem_trans)

lemma restored_facts:
  assumes "restored s u"
  shows "wf_mem u" "peek u p n = peek s p n" "fds u = fds s" "spare u = spare s" "room u = room s"
    "os.more u = os.more s"
  using assms mgrows_oracles [of s u]
  by (cases p; auto simp: restored_def io_mem_def dest: mgrows_wf)+

lemma unat_ucast_32_64 [simp]: "unat (ucast (w :: u32) :: u64) = unat w"
proof -
  have "unat w < 2 ^ LENGTH(32)" by (rule unsigned_less)
  then show ?thesis by (simp add: unsigned_ucast_eq take_bit_nat_eq_self)
qed

lemma send_piece_then:
  assumes wf: "wf_mem s" and c: "c_error (t_conn t) = 0" and cs: "72 < unat (chunk_size s)"
    and ch: "unat (h_chunk_size t) = D + 72" and ds: "unat data_size = D"
    and p: "peek s (padd (t_data t) (unat (i * data_size))) (unat n) = Some piece"
    and n: "unat n \<le> D"
    and d: "descriptor (fds s) (fd (t_conn t)) = Some k" "accepts k"
    and mapped: "72 \<le> spare s (next_id s) + room s (next_id s)"
    and Q: "\<And>u. restored s u \<Longrightarrow> effects (trace u) = effects (trace s) @
      [Sent (fd (t_conn t)) (peer k) (piece @ replicate (D - unat n) PAD @ take 72 (after D s))] \<Longrightarrow> Q () u"
  shows "wp (send_piece B t data_size i n) Q s"
proof -
  let ?b = "next_id s" and ?x = "piece @ replicate (D - unat n) PAD"
  have lx: "length ?x = D" using length_peek [OF p] n by simp
  let ?s1 = "add_block (filled D ?x s) s"
  let ?s2 = "add_block (filled D ?x ?s1) ?s1"
  let ?sub = "new_transmission (t_conn t) (Ptr (Suc ?b) 0) (ucast data_size) (chunk_size s)"
  let ?s3 = "add_block (filled (72 + D) (serial ?sub ?x) ?s2) ?s2"
  have g1: "grows s ?s1" using lx by (intro grows_filled wf) simp
  have g2: "grows ?s1 ?s2" using lx by (intro grows_filled grows_wf [OF g1]) simp
  have ls: "length (serial ?sub ?x) = 36 + D" unfolding length_serial lx ..
  have g3: "grows ?s2 ?s3" by (intro grows_filled grows_wf [OF g2]) (simp add: ls del: length_append)
  have x1: "peek ?s1 (Ptr ?b 0) D = Some ?x" using peek_filled [of ?x D s D] lx by simp
  have x2: "peek ?s2 (Ptr (Suc ?b) 0) D = Some ?x" using peek_filled [of ?x D ?s1 D] lx by simp
  have "peek ?s1 (Ptr ?b 0) (D + 72) = Some (?x @ take 72 (after D s))"
    using mapped lx by (simp add: bytes_filled_exact after_def)
  then have x3: "peek ?s3 (Ptr ?b 0) (D + 72) = Some (?x @ take 72 (after D s))"
    by (intro grows_peek [OF grows_trans [OF g2 g3]])
  have "wp (conn_write B (t_conn t) (Ptr ?b 0) (D + 72))
      (\<lambda>_. wp (cseq (close_transmission ?sub) (cseq (free (Ptr ?b 0)) (free (Ptr (Suc (Suc ?b)) 0)))) Q) ?s3"
  proof (rule conn_write_then [OF _ d(2) x3])
    show "descriptor (fds ?s3) (fd (t_conn t)) = Some k" using d(1) by simp
    fix u assume u: "io ?s3 u" "fds u = fds ?s3" "net u = net ?s3"
      "effects (trace u) = effects (trace ?s3) @ [Sent (fd (t_conn t)) (peer k) (?x @ take 72 (after D s))]"
    have bl: "blocks u = blocks ?s3" using u(1) by (simp add: io_def same_mem_def)
    let ?w = "del_block (Suc (Suc ?b)) (del_block ?b (del_block (Suc ?b) u))"
    have "mgrows s u"
      using u(1) grows_trans [OF g1 grows_trans [OF g2 g3]]
      by (auto simp: io_def intro: mgrows_same_mem grows_mgrows)
    then have "mgrows s ?w"
      by (intro mgrows_del_block) (simp_all add: wf_mem_fresh [OF wf])
    moreover have "blocks ?w = blocks s"
      using wf_mem_fresh [OF wf] by (simp add: bl fun_eq_iff)
    ultimately have "restored s ?w"
      using u by (simp add: restored_def io_mem_def io_def)
    then have "Q () ?w" using u(4) by (intro Q) simp_all
    then show "wp (cseq (close_transmission ?sub)
        (cseq (free (Ptr ?b 0)) (free (Ptr (Suc (Suc ?b)) 0)))) Q u"
      by (simp add: wp_cseq close_transmission_def wp_simps new_transmission_def bl)
  qed
  then have rest: "wp (cbind (transmission_serialize ?sub) (\<lambda>serialized.
      cseq (conn_write B (t_conn t) (Ptr ?b 0) (unat (h_chunk_size t)))
      (cseq (close_transmission ?sub) (cseq (free (Ptr ?b 0)) (free serialized))))) Q ?s2"
    unfolding wp_cbind
    by (intro wp_transmission_serialize [OF grows_wf [OF g2], where body = ?x])
      (use x2 ds ch in \<open>simp_all add: new_transmission_def wp_cseq\<close>)
  have "wp (cbind (init_transmission (t_conn t) (Ptr ?b 0) (ucast data_size)) (\<lambda>sub.
      cbind (transmission_serialize sub) (\<lambda>serialized.
      cseq (conn_write B (t_conn t) (Ptr ?b 0) (unat (h_chunk_size t)))
      (cseq (close_transmission sub) (cseq (free (Ptr ?b 0)) (free serialized)))))) Q ?s1"
    unfolding wp_cbind [of "init_transmission _ _ _"]
    by (rule wp_init_transmission [OF grows_wf [OF g1] c, where body = ?x])
      (use cs x1 ds rest in simp_all)
  then show ?thesis
    using fill_buffer_fresh [OF wf p n]
    by (simp add: send_piece_def wp_cbind [of "malloc _"] wp_malloc wp_cseq [of "fill_buffer _ _ _ _"] ds)
qed

section \<open>Sending in one pass\<close>

text \<open>
  The reference: a message is cut into pieces of \<open>d\<close> bytes, the last of which (it may be
  empty) is padded. The pieces put together are the message and its padding.
\<close>

function padded :: "nat \<Rightarrow> string \<Rightarrow> string list" where
  "padded d msg =
     (if d = 0 then []
      else if length msg < d then [msg @ replicate (d - length msg) PAD]
      else take d msg # padded d (drop d msg))"
  by pat_completeness auto
termination
  by (relation "measure (\<lambda>(d, msg). length msg)") auto

declare padded.simps [simp del]

lemma padded_nonempty: "0 < d \<Longrightarrow> padded d msg \<noteq> []"
  by (subst padded.simps) simp

lemma padded_lengths: "x \<in> set (padded d msg) \<Longrightarrow> length x = d"
proof (induction d msg rule: padded.induct)
  case (1 d msg)
  then show ?case by (subst (asm) (2) padded.simps) (auto split: if_splits)
qed

lemma concat_padded:
  "0 < d \<Longrightarrow> concat (padded d msg) = msg @ replicate (d - length msg mod d) PAD"
proof (induction d msg rule: padded.induct)
  case (1 d msg)
  then show ?case by (subst padded.simps) (auto simp: le_mod_geq)
qed

lemma length_padded: "0 < d \<Longrightarrow> length (padded d msg) = Suc (length msg div d)"
proof (induction d msg rule: padded.induct)
  case (1 d msg)
  then show ?case by (subst padded.simps) (auto simp: le_div_geq)
qed

definition sendable :: "transmission \<Rightarrow> nat \<Rightarrow> 'z ppst_scheme \<Rightarrow> bool" where
  "sendable t d s \<longleftrightarrow> wf_mem s \<and> c_error (t_conn t) = 0 \<and> 72 < unat (chunk_size s) \<and>
     unat (h_chunk_size t) = d + 72 \<and>
     (\<exists>k. descriptor (fds s) (fd (t_conn t)) = Some k \<and> accepts k) \<and>
     (\<forall>b. 72 \<le> spare s b + room s b)"

lemma sendable_restored: "sendable t d s \<Longrightarrow> restored s u \<Longrightarrow> sendable t d u"
  using restored_facts [of s u] ppst_more_fields [of u s] by (simp add: sendable_def)

text \<open>What is sent: each piece, and 72 bytes that lie behind its buffer.\<close>

definition chunks :: "int \<Rightarrow> peer \<Rightarrow> string list \<Rightarrow> string list \<Rightarrow> event list" where
  "chunks f pr xs leaks = map2 (\<lambda>x l. Sent f pr (x @ l)) xs leaks"

lemma send_rest_then:
  assumes "sendable t d s" and "0 < d" and ds: "unat data_size = d"
    and "peek s (t_data t) (length msg) = Some msg" and len: "length msg < 2 ^ 32"
    and "i \<le> length msg div d" and q: "q = length msg div d"
    and "\<And>u leaks. \<lbrakk>restored s u; length leaks = length (padded d (drop (i * d) msg));
        \<forall>l \<in> set leaks. length l = 72; hd leaks = take 72 (after d s);
        effects (trace u) = effects (trace s) @
          chunks (fd (t_conn t)) (peer_at s (fd (t_conn t))) (padded d (drop (i * d) msg)) leaks\<rbrakk> \<Longrightarrow> Q () u"
  shows "wp (cseq (send_pieces B t data_size q i)
    (send_piece B t data_size (of_nat q) (of_nat (length msg mod d)))) Q s"
  using assms(1,2,4,6,8)
proof (induction "q - i" arbitrary: i s)
  case 0
  then have i: "i = q" using q by simp
  have lt: "length msg mod d < d" using \<open>0 < d\<close> by simp
  have last: "length (drop (i * d) msg) = length msg mod d"
    by (simp add: i q minus_div_mult_eq_mod)
  have n: "unat (of_nat (length msg mod d) :: u32) = length msg mod d"
  proof -
    have "length msg mod d < 2 ^ 32"
      using len mod_less_eq_dividend [of "length msg" d] by linarith
    then show ?thesis
      by (simp only: unsigned_of_nat) (simp add: take_bit_nat_eq_self)
  qed
  have off: "unat (of_nat q * data_size) = q * d"
    using len by (intro unat_offset ds) (simp add: q order_le_less_trans [OF div_times_less_eq_dividend])
  have pd: "padded d (drop (i * d) msg) =
      [drop (i * d) msg @ replicate (d - length msg mod d) PAD]"
    using lt \<open>0 < d\<close> last by (subst padded.simps) simp
  have "peek s (padd (t_data t) (q * d)) (length msg mod d) = Some (drop (q * d) msg)"
    using peek_part [OF \<open>peek s (t_data t) (length msg) = Some msg\<close>, of "q * d" "length msg mod d"] last
    by (simp add: i q)
  moreover obtain k where "descriptor (fds s) (fd (t_conn t)) = Some k" "accepts k"
    using \<open>sendable t d s\<close> by (auto simp: sendable_def)
  ultimately have "wp (send_piece B t data_size (of_nat q) (of_nat (length msg mod d))) Q s"
    using \<open>sendable t d s\<close> lt
    by (intro send_piece_then [where D = d and piece = "drop (q * d) msg" and k = k])
      (auto simp: sendable_def ds n off pd [unfolded i] chunks_def i after_def peer_at_open intro!: "0.prems"(5) [where leaks = "[take 72 (after d s)]"])
  then show ?case by (subst send_pieces.simps) (simp add: i wp_simps)
next
  case (Suc x)
  then have iq: "i < q" by simp
  have le: "i * d + d \<le> length msg"
  proof -
    have "Suc i * d \<le> q * d" using iq by (intro mult_le_mono1) simp
    also have "\<dots> \<le> length msg" by (simp add: q)
    finally show ?thesis by (simp add: add.commute)
  qed
  have off: "unat (of_nat i * data_size) = i * d"
    using len le by (intro unat_offset ds) simp
  have piece: "peek s (padd (t_data t) (i * d)) d = Some (take d (drop (i * d) msg))"
    using peek_part [OF \<open>peek s (t_data t) (length msg) = Some msg\<close> le] .
  have pd: "padded d (drop (i * d) msg) =
      take d (drop (i * d) msg) # padded d (drop (Suc i * d) msg)"
    using le \<open>0 < d\<close> by (subst padded.simps) (simp add: add.commute)
  obtain k where k: "descriptor (fds s) (fd (t_conn t)) = Some k" "accepts k"
    using \<open>sendable t d s\<close> by (auto simp: sendable_def)
  have "wp (send_piece B t data_size (of_nat i) data_size)
    (\<lambda>_. wp (cseq (send_pieces B t data_size q (i + 1))
      (send_piece B t data_size (of_nat q) (of_nat (length msg mod d)))) Q) s"
  proof (rule send_piece_then [where D = d and piece = "take d (drop (i * d) msg)" and k = k])
    fix u assume r: "restored s u" and tr: "effects (trace u) = effects (trace s) @
      [Sent (fd (t_conn t)) (peer k) (take d (drop (i * d) msg) @ replicate (d - unat data_size) PAD @
        take 72 (after d s))]"
    have l72: "length (take 72 (after d s)) = 72"
      using \<open>sendable t d s\<close> by (simp add: sendable_def after_def)
    show "wp (cseq (send_pieces B t data_size q (i + 1))
      (send_piece B t data_size (of_nat q) (of_nat (length msg mod d)))) Q u"
    proof (rule Suc.hyps(1))
      show "x = q - (i + 1)" using Suc.hyps(2) by simp
      show "sendable t d u" by (rule sendable_restored [OF \<open>sendable t d s\<close> r])
      show "peek u (t_data t) (length msg) = Some msg"
        using Suc.prems(3) by (simp add: restored_facts(2) [OF r])
      show "i + 1 \<le> length msg div d" using iq q by simp
      fix v leaks assume v: "restored u v" "length leaks = length (padded d (drop ((i + 1) * d) msg))"
        "\<forall>l \<in> set leaks. length l = 72" "hd leaks = take 72 (after d u)"
        "effects (trace v) = effects (trace u) @
          chunks (fd (t_conn t)) (peer_at u (fd (t_conn t))) (padded d (drop ((i + 1) * d) msg)) leaks"
      show "Q () v"
        by (rule Suc.prems(5) [where leaks = "take 72 (after d s) # leaks"])
          (use v r tr l72 k(1) in \<open>auto simp: pd ds chunks_def peer_at_open peer_at_fds [OF restored_facts(3) [OF r]]
            intro: restored_trans\<close>)
    qed (rule \<open>0 < d\<close>)
  qed (use \<open>sendable t d s\<close> k piece off ds in \<open>auto simp: sendable_def\<close>)
  then show ?case using iq by (subst send_pieces.simps) (simp add: wp_cseq_fun)
qed

lemma transmit_pieces:
  assumes ready: "sendable t d s" and d: "0 < d"
    and fresh: "write_used t = 0" "t_error t = 0" "t_open t \<noteq> 0"
    and data: "peek s (t_data t) (unat (h_bytes t)) = Some msg"
    and len: "length msg < 2 ^ 32"
  shows "wp (transmit B t) (\<lambda>(ok, t') u. ok \<and> t' = t\<lparr>write_used := 1\<rparr> \<and> restored s u \<and>
    (\<exists>leaks. length leaks = Suc (length msg div d) \<and> (\<forall>l \<in> set leaks. length l = 72) \<and>
      hd leaks = take 72 (after d s) \<and>
      effects (trace u) = effects (trace s) @ chunks (fd (t_conn t)) (peer_at s (fd (t_conn t))) (padded d msg) leaks)) s"
proof -
  let ?t = "t\<lparr>write_used := 1\<rparr>" and ?q = "length msg div d"
  have n: "unat (h_bytes t) = length msg" using length_peek [OF data] by simp
  have c: "unat (h_chunk_size t) = d + 72" using ready by (simp add: sendable_def)
  define ds where "ds = h_chunk_size t - 72"
  have "(72 :: u32) \<le> h_chunk_size t" using c by (simp add: word_le_nat_alt)
  then have ds: "unat ds = d" using c by (simp add: ds_def unat_sub)
  then have ds0: "ds \<noteq> 0" using d by auto
  have q: "unat (of_nat ?q :: u32) = ?q"
  proof -
    have "?q < 2 ^ 32" using len div_le_dividend [of "length msg" d] by linarith
    then show ?thesis by (simp only: unsigned_of_nat) (simp add: take_bit_nat_eq_self)
  qed
  have "wp (cseq (send_pieces B ?t ds ?q 0) (send_piece B ?t ds (of_nat ?q) (of_nat (length msg mod d))))
    (\<lambda>_. wp (cret (True, ?t)) (\<lambda>(ok, t') u. ok \<and> t' = ?t \<and> restored s u \<and>
      (\<exists>leaks. length leaks = Suc ?q \<and> (\<forall>l \<in> set leaks. length l = 72) \<and>
        hd leaks = take 72 (after d s) \<and>
        effects (trace u) = effects (trace s) @ chunks (fd (t_conn t)) (peer_at s (fd (t_conn t))) (padded d msg) leaks))) s"
    by (rule send_rest_then [OF _ d ds _ len _ refl])
      (use ready data n in \<open>auto simp: sendable_def wp_cret length_padded [OF d]\<close>)
  moreover have "t_data t \<noteq> Null" using data by auto
  moreover have "h_chunk_size t \<noteq> 72" using c d by auto
  ultimately show ?thesis
    using fresh ds0
    by (simp add: transmit_def SERIALIZED_SIZE_WITHOUT_DATA_def Let_def ds_def [symmetric] n ds q
        wp_cseq_fun)
qed

text \<open>
  C29. Transmitting a message of less than \<open>2 ^ 32\<close> bytes sends the padded pieces of the
  message in order, as many as the length divided by the piece size and one more, each
  followed by 72 bytes of the memory behind its buffer; it frees everything it allocates,
  marks the object as used for writing and returns success.
\<close>

theorem transmit_sends:
  assumes ready: "sendable t d s" and d: "0 < d"
    and fresh: "write_used t = 0" "t_error t = 0" "t_open t \<noteq> 0"
    and data: "peek s (t_data t) (unat (h_bytes t)) = Some msg"
    and len: "length msg < 2 ^ 32"
  shows "wp (transmit B t) (\<lambda>(ok, t') u. ok \<and> t' = t\<lparr>write_used := 1\<rparr> \<and> restored s u \<and>
    (\<exists>leaks. length leaks = Suc (length msg div d) \<and> (\<forall>l \<in> set leaks. length l = 72) \<and>
      hd leaks = take 72 (after d s) \<and>
      effects (trace u) = effects (trace s) @ chunks (fd (t_conn t)) (peer_at s (fd (t_conn t))) (padded d msg) leaks)) s"
  using assms by (rule transmit_pieces)

definition sample_pp :: "sock option list \<Rightarrow> ppst" where
  "sample_pp ds = \<lparr>blocks = [0 \<mapsto> \<lparr>usable = 2, bytes = ''hi'', on_heap = True\<rparr>], next_id = 1,
     junk = (\<lambda>_ _. CHR ''j''), spare = (\<lambda>_. 0), room = (\<lambda>_. 100),
     fds = ds, net = [], trace = [], chunk_size = 200\<rparr>"

lemma sample_pp_simps [simp]:
  "wf_mem (sample_pp ds)" "blocks (sample_pp ds) = [0 \<mapsto> \<lparr>usable = 2, bytes = ''hi'', on_heap = True\<rparr>]" "chunk_size (sample_pp ds) = 200"
  "fds (sample_pp ds) = ds" "trace (sample_pp ds) = []" "spare (sample_pp ds) = (\<lambda>_. 0)"
  "room (sample_pp ds) = (\<lambda>_. 100)" "junk (sample_pp ds) = (\<lambda>_ _. CHR ''j'')"
  "next_id (sample_pp ds) = 1"
  by (simp_all add: sample_pp_def wf_mem_def)

definition sample_conn :: conn where
  "sample_conn = \<lparr>c_error = 0, error_msg = Null, fd = 0, max_bytes = 0\<rparr>"

theorem transmit_sends_witness:
  "wp (transmit test_build (new_transmission sample_conn (Ptr 0 0) 2 200))
    (\<lambda>r u. effects (trace u) =
       [Sent 0 Caller (''hi'' @ replicate 126 PAD @ replicate 72 (CHR ''j''))])
    (sample_pp [Some \<lparr>incoming = [], accepts = True, peer = Caller\<rparr>])"
proof (rule wp_mono [OF transmit_sends [where d = 128 and msg = "''hi''"]])
  let ?s = "sample_pp [Some \<lparr>incoming = [], accepts = True, peer = Caller\<rparr>]"
  have a: "take 72 (after 128 ?s) = replicate 72 (CHR ''j'')"
    by (simp add: after_def fresh_bytes_def map_replicate_const)
  have p: "padded 128 ''hi'' = [''hi'' @ replicate 126 PAD]" by (subst padded.simps) simp
  fix r u
  assume "(\<lambda>(ok, t') u. ok \<and>
      t' = new_transmission sample_conn (Ptr 0 0) 2 200\<lparr>write_used := 1\<rparr> \<and> restored ?s u \<and>
      (\<exists>leaks. length leaks = Suc (length ''hi'' div 128) \<and> (\<forall>l \<in> set leaks. length l = 72) \<and>
        hd leaks = take 72 (after 128 ?s) \<and> effects (trace u) = effects (trace ?s) @
        chunks (fd (t_conn (new_transmission sample_conn (Ptr 0 0) 2 200)))
          (peer_at ?s (fd (t_conn (new_transmission sample_conn (Ptr 0 0) 2 200)))) (padded 128 ''hi'') leaks)) r u"
  then show "effects (trace u) = [Sent 0 Caller (''hi'' @ replicate 126 PAD @ replicate 72 (CHR ''j''))]"
    by (auto simp: a p chunks_def peer_at_def descriptor_def length_Suc_conv new_transmission_def sample_conn_def split: prod.splits)
qed (simp_all add: sendable_def new_transmission_def sample_conn_def descriptor_def)

section \<open>Receiving in one pass\<close>

text \<open>The reference: the data is the chunks put together, without the padding at the end.\<close>

definition rstrip :: "string \<Rightarrow> string" where
  "rstrip xs = rev (dropWhile (\<lambda>c. c = PAD) (rev xs))"

lemma rstrip_snoc: "rstrip (xs @ [c]) = (if c = PAD then rstrip xs else xs @ [c])"
  by (simp add: rstrip_def)

lemma rstrip_prefix: "rstrip xs = take (length (rstrip xs)) xs"
  by (induction xs rule: rev_induct) (auto simp: rstrip_snoc, auto simp: rstrip_def)

lemma length_rstrip: "length (rstrip xs) \<le> length xs"
  by (metis rstrip_prefix length_take min.cobounded1)

lemma rstrip_pad [simp]: "rstrip (xs @ replicate n PAD) = rstrip xs"
  by (simp add: rstrip_def dropWhile_append)

lemma wp_trim_body:
  assumes "peek s (padd p (unat i)) 1 = Some c"
  shows "wp (trim_body p i) Q s = (if c \<noteq> [PAD] then Q (Inr (i + 1)) s else Q (Inl (i - 1)) s)"
  using assms by (simp add: trim_body_def wp_simps)

lemma trim_loop:
  assumes pk: "peek s p m = Some bs" and "length xs < 2 ^ 32" "length xs < fuel"
    and "bs = xs @ ys" and "rstrip xs \<noteq> []" and w: "w = of_nat (length xs) - 1"
    and Q: "\<And>r. unat r = length (rstrip xs) \<Longrightarrow> Q r s"
  shows "wp (cloop fuel (trim_body p) w) Q s"
  using assms(2-)
proof (induction xs arbitrary: ys fuel w rule: rev_induct)
  case Nil
  then show ?case by (simp add: rstrip_def)
next
  case (snoc c xs)
  obtain f where f: "fuel = Suc f" using snoc.prems(2) by (cases fuel) auto
  have w: "w = of_nat (length xs)" using snoc.prems(5) by simp
  have uw: "unat w = length xs"
    using snoc.prems(1) unfolding w by (simp only: unsigned_of_nat) (simp add: take_bit_nat_eq_self)
  have m: "length bs = m" by (rule length_peek [OF pk])
  have ld: "peek s (padd p (length xs)) 1 = Some [c]"
    using peek_part [OF pk, of "length xs" 1] snoc.prems(3) m by simp
  show ?case
  proof (cases "c = PAD")
    case True
    have "wp (cloop f (trim_body p) (w - 1)) Q s"
      by (rule snoc.IH [where ys = "c # ys"]) (use snoc.prems True f w in \<open>simp_all add: rstrip_snoc\<close>)
    then show ?thesis
      using ld by (simp add: f wp_cloop_Suc wp_trim_body [of _ _ w] uw True)
  next
    case False
    have "unat (w + 1) = length (rstrip (xs @ [c]))"
      using False snoc.prems(1) unfolding w
      by (simp only: of_nat_Suc [symmetric] unsigned_of_nat add.commute [of _ 1])
        (simp add: rstrip_snoc take_bit_nat_eq_self)
    then have "Q (w + 1) s" by (rule snoc.prems(6))
    then show ?thesis
      using ld False by (simp add: f wp_cloop_Suc wp_trim_body [of _ _ w] uw)
  qed
qed

text \<open>
  A stream that ends: the chunks before the last do not end with the padding byte, and
  either the last one does, or nothing follows it.
\<close>

definition ends :: "string list \<Rightarrow> bool" where
  "ends cs \<longleftrightarrow> cs \<noteq> [] \<and> last (last cs) = PAD"

definition stream_ok :: "nat \<Rightarrow> string list \<Rightarrow> arrival list \<Rightarrow> bool" where
  "stream_ok n cs rest \<longleftrightarrow> (\<forall>x \<in> set cs. length x = n) \<and> (\<forall>x \<in> set (butlast cs). last x \<noteq> PAD) \<and>
     (ends cs \<or> rest = [] \<or> (\<exists>q. rest = Timeout # q))"

lemma wp_receive_body:
  "wp (receive_body B c chunk (p, i)) R u =
     wp (conn_read B c (padd p (unat (i * chunk))) (unat chunk)) (\<lambda>r t.
       if r \<le> 0 then R (Inr (p, i + 1, r)) t
       else wp (contains_padding p ((i + 1) * chunk)) (\<lambda>last v.
         if last then R (Inr (p, i + 1, r)) v
         else wp (realloc p (unat ((i + 1 + 1) * chunk))) (\<lambda>p'. R (Inl (p', i + 1))) v) t) u"
  unfolding receive_body_def prod.case wp_funs ..

lemma receive_loop:
  assumes wf: "wf_mem s" and v: "valid_fd (fd c) s" and C: "unat chunk = C" "0 < C"
    and "(length pre + length ds + 1) * C < 2 ^ 32"
    and "reading s (fd c) k ((length pre + 1) * C) (concat pre) (map Arrives ds @ rest) b u"
    and "\<forall>x \<in> set pre. length x = C" and "stream_ok C ds rest" and "length ds < fuel"
    and "\<And>b m n i t. \<lbrakk>reading s (fd c) k m (concat (pre @ ds)) (if ends ds then rest else tl rest) b t;
        if ends ds then 0 < i \<and> n = of_nat (length (pre @ ds))
        else i \<le> 0 \<and> n = of_nat (Suc (length (pre @ ds)))\<rbrakk> \<Longrightarrow> Q (Ptr b 0, n, i) t"
  shows "wp (cloop fuel (receive_body B c chunk) (Ptr b 0, of_nat (length pre))) Q u"
  using assms(5-)
proof (induction ds arbitrary: pre b u fuel)
  case Nil
  obtain f where f: "fuel = Suc f" using Nil.prems(5) by (cases fuel) auto
  note r = Nil.prems(2) [simplified]
  show ?case
    unfolding f wp_cloop_Suc wp_receive_body
  proof (rule read_end_then [OF v r])
    show "rest = [] \<or> (\<exists>q'. rest = Timeout # q')" using Nil.prems(4) by (auto simp: stream_ok_def ends_def)
    fix i :: int and t
    assume i: "i \<le> 0" and t: "reading s (fd c) k (C + length pre * C) (concat pre) (tl rest) b t"
    have "Q (Ptr b 0, of_nat (Suc (length (pre @ []))), i) t"
      by (rule Nil.prems(6)) (use i t in \<open>simp_all add: ends_def\<close>)
    with i show "if i \<le> 0 then case Inr (Ptr b 0, of_nat (length pre) + 1, i) of
            Inl x' \<Rightarrow> wp (cloop f (receive_body B c chunk) x') Q t | Inr y \<Rightarrow> Q y t
        else wp (contains_padding (Ptr b 0) ((of_nat (length pre) + 1) * chunk)) (\<lambda>last v.
          if last then case Inr (Ptr b 0, of_nat (length pre) + 1, i) of
            Inl x' \<Rightarrow> wp (cloop f (receive_body B c chunk) x') Q v | Inr y \<Rightarrow> Q y v
          else wp (realloc (Ptr b 0) (unat ((of_nat (length pre) + 1 + 1) * chunk)))
            (\<lambda>p' t. case Inl (p', of_nat (length pre) + 1) of
            Inl x' \<Rightarrow> wp (cloop f (receive_body B c chunk) x') Q t | Inr y \<Rightarrow> Q y t) v) t"
      by (simp add: add.commute)
  qed
next
  case (Cons x ds)
  obtain f where f: "fuel = Suc f" using Cons.prems(5) by (cases fuel) auto
  let ?j = "length pre" and ?body = "receive_body B c chunk"
  have lx: "length x = C" using Cons.prems(4) by (simp add: stream_ok_def)
  have lp: "length (concat pre) = ?j * C" using Cons.prems(3) by (rule length_concat_same)
  have r: "reading s (fd c) k ((?j + 1) * C) (concat pre) (Arrives x # map Arrives ds @ rest) b u"
    using Cons.prems(2) by simp
  have big: "(?j + length ds + 2) * C < 2 ^ 32" using Cons.prems(1) by (simp add: ac_simps)
  have le: "i * C < 2 ^ 32" if "i \<le> ?j + length ds + 2" for i
    using mult_le_mono1 [OF that, of C] big by linarith
  have off0: "unat (of_nat ?j * chunk) = ?j * C" by (intro unat_offset C le) simp
  have off1: "unat ((of_nat ?j + 1) * chunk) = (?j + 1) * C"
    using unat_offset [OF C(1) le [of "?j + 1"]] by (simp add: add.commute)
  have off2: "unat ((of_nat ?j + 1 + 1) * chunk) = (?j + 2) * C"
    using unat_offset [OF C(1) le [of "?j + 2"]] by (simp add: add.commute)
  have offp: "unat ((of_nat ?j + 1) * chunk - 1) = ?j * C + (C - 1)"
  proof -
    have "1 \<le> (of_nat ?j + 1) * chunk" using off1 C(2) by (simp add: word_le_nat_alt del: mult_Suc)
    then have "unat ((of_nat ?j + 1) * chunk - 1) = unat ((of_nat ?j + 1) * chunk) - 1"
      by (simp add: unat_sub)
    then show ?thesis using off1 C(2) by simp
  qed
  have "wp (conn_read B c (Ptr b (length (concat pre))) C) (\<lambda>r t.
       if r \<le> 0 then Q (Ptr b 0, of_nat ?j + 1, r) t
       else wp (contains_padding (Ptr b 0) ((of_nat ?j + 1) * chunk)) (\<lambda>last v.
         if last then Q (Ptr b 0, of_nat ?j + 1, r) v
         else wp (realloc (Ptr b 0) (unat ((of_nat ?j + 1 + 1) * chunk)))
           (\<lambda>p'. wp (cloop f ?body (p', of_nat ?j + 1)) Q) v) t) u"
  proof (rule read_chunk_then [OF v r _ _ wf])
    show "length (concat pre) + length x \<le> (?j + 1) * C" "length x \<le> C" using lp lx by simp_all
    fix t assume t: "reading s (fd c) k ((?j + 1) * C) (concat pre @ x) (map Arrives ds @ rest) b t"
    have t': "reading s (fd c) k ((?j + 1) * C) (concat (pre @ [x])) (map Arrives ds @ rest) b t"
      using t by simp
    have "peek t (Ptr b 0) (length (concat pre @ x)) = Some (concat pre @ x)" by (rule readingD(3) [OF t])
    from peek_part [OF this, of "?j * C + (C - 1)" 1]
    have "peek t (Ptr b (?j * C + (C - 1))) 1 = Some [last x]"
      using lp lx C(2) drop_all_but_last [of x] by (cases "x = []") simp_all
    then have pad: "wp (contains_padding (Ptr b 0) ((of_nat ?j + 1) * chunk)) P t = P (last x = PAD) t" for P
      by (simp add: contains_padding_def wp_simps offp)
    show "if int (length x) \<le> 0 then Q (Ptr b 0, of_nat ?j + 1, int (length x)) t
       else wp (contains_padding (Ptr b 0) ((of_nat ?j + 1) * chunk)) (\<lambda>last v.
         if last then Q (Ptr b 0, of_nat ?j + 1, int (length x)) v
         else wp (realloc (Ptr b 0) (unat ((of_nat ?j + 1 + 1) * chunk)))
           (\<lambda>p'. wp (cloop f ?body (p', of_nat ?j + 1)) Q) v) t"
    proof (cases "last x = PAD")
      case True
      then have ds: "ds = []" using Cons.prems(4) by (cases ds) (simp_all add: stream_ok_def)
      have "Q (Ptr b 0, of_nat (length (pre @ [x])), int (length x)) t"
        by (rule Cons.prems(6)) (use t' True ds lx C in \<open>simp_all add: ends_def\<close>)
      then have "Q (Ptr b 0, of_nat ?j + 1, int (length x)) t" by (simp add: add.commute)
      then show ?thesis unfolding pad using True lx C(2) by simp
    next
      case False
      have "wp (realloc (Ptr b 0) ((?j + 2) * C))
          (\<lambda>p. wp (cloop f ?body (p, of_nat (length (pre @ [x])))) Q) t"
      proof (rule grow_buffer_then [OF wf t'])
        show "(?j + 1) * C \<le> (?j + 2) * C" "0 < (?j + 2) * C" using C(2) by simp_all
        fix b' w assume w: "reading s (fd c) k ((?j + 2) * C) (concat (pre @ [x])) (map Arrives ds @ rest) b' w"
        have same: "ends (x # ds) = ends ds" using False by (simp add: ends_def)
        show "wp (cloop f ?body (Ptr b' 0, of_nat (length (pre @ [x])))) Q w"
          by (rule Cons.IH)
            (use w Cons.prems f same lx False in
              \<open>auto simp: stream_ok_def ac_simps split: if_splits\<close>)
      qed
      then have "wp (realloc (Ptr b 0) ((?j + 2) * C))
          (\<lambda>p. wp (cloop f ?body (p, of_nat ?j + 1)) Q) t" by (simp add: add.commute)
      then show ?thesis unfolding pad off2 using False lx C(2) by simp
    qed
  qed
  then show ?case
    unfolding f wp_cloop_Suc wp_receive_body off0 lp C(1) padd.simps sum.case add_0_left .
qed

text \<open>What the receiver keeps of the data, in a new block; the read buffer is freed.\<close>

lemma keep_data_then:
  assumes wf: "wf_mem v" and b: "live v (Ptr b 0)" and x: "peek v (Ptr b 0) n = Some x"
    and Q: "\<And>d u. \<lbrakk>wf_mem u; os.more u = os.more v; fds u = fds v; net u = net v; trace u = trace v;
        peek u (Ptr d 0) n = Some x;
        \<And>b' k'. b' \<noteq> b \<Longrightarrow> blocks v b' = Some k' \<Longrightarrow> blocks u b' = Some k'\<rbrakk> \<Longrightarrow> Q (Ptr d 0) u"
  shows "wp (malloc n) (\<lambda>d. wp (memcpy d (Ptr b 0) n) (\<lambda>_. wp (free (Ptr b 0)) (\<lambda>_. Q d))) v"
proof -
  let ?n = "next_id v"
  have lx: "length x = n" using length_peek [OF x] .
  have ne: "b \<noteq> ?n" using b wf_mem_blocks [OF wf] by auto
  have x': "peek (add_block (fresh_block n v) v) (Ptr b 0) n = Some x" by (rule peek_add_block [OF wf x])
  have g: "grows v (add_block (filled n x v) v)" using lx by (intro grows_filled wf) simp
  have "Q (Ptr ?n 0) (del_block b (add_block (filled n x v) v))"
  proof (rule Q)
    show "wf_mem (del_block b (add_block (filled n x v) v))" by (rule wf_del_block [OF grows_wf [OF g]])
    show "peek (del_block b (add_block (filled n x v) v)) (Ptr ?n 0) n = Some x"
      using ne lx by (simp add: bytes_filled)
    show "blocks (del_block b (add_block (filled n x v) v)) b' = Some k'"
      if "b' \<noteq> b" "blocks v b' = Some k'" for b' k'
      using that grows_blocks [OF g that(2)] by simp
  qed simp_all
  then show ?thesis
    using b ne x' lx by (auto simp: wp_simps filled_def)
qed

lemma trim_padding_then:
  assumes "peek s p m = Some bs" and "unat w = length bs" and "rstrip bs \<noteq> []"
    and "\<And>r. unat r = length (rstrip bs) \<Longrightarrow> Q r s"
  shows "wp (trim_padding p w) Q s"
  unfolding trim_padding_def
proof (rule trim_loop [OF assms(1), where xs = bs and ys = "[]"])
  have "unat w < 2 ^ LENGTH(32)" by (rule unsigned_less)
  then show "length bs < 2 ^ 32" "length bs < 2 ^ 32" using assms(2) by simp_all
  show "w - 1 = of_nat (length bs) - 1" unfolding assms(2) [symmetric] by simp
qed (use assms in simp_all)

text \<open>The old data is given back, what was read is kept.\<close>

lemma replace_data_then:
  fixes s u :: "'z ppst_scheme"
  assumes wf: "wf_mem s" and r: "reading s f k m bs q b u" and x: "peek u (Ptr b 0) n = Some x"
    and old: "p = Null \<or> live s p"
    and Q: "\<And>d v. \<lbrakk>fds v = fds u; trace v = trace u; peek v (Ptr d 0) n = Some x; wf_mem v;
        \<forall>b k. blocks s b = Some k \<and> p \<noteq> Ptr b 0 \<longrightarrow> blocks v b = Some k\<rbrakk> \<Longrightarrow> Q (g (Ptr d 0)) v"
  shows "wp (cseq (cwhen (p \<noteq> Null) (free p)) (cbind (malloc n) (\<lambda>d. cseq (memcpy d (Ptr b 0) n)
    (cseq (free (Ptr b 0)) (cret (g d)))))) Q u"
proof -
  have b: "next_id s \<le> b" by (rule readingD(5) [OF r])
  have keep: "blocks u b' = Some k'" if "blocks s b' = Some k'" for b' k'
    using readingD(4) [OF r] that by (auto simp: io_mem_def dest: mgrows_blocks)
  have fin: "wp (malloc n) (\<lambda>d. wp (memcpy d (Ptr b 0) n) (\<lambda>_. wp (free (Ptr b 0)) (\<lambda>_. Q (g d)))) u'"
    if "wf_mem u'" "live u' (Ptr b 0)" "peek u' (Ptr b 0) n = Some x" and e: "fds u' = fds u" "trace u' = trace u"
      and bl: "\<forall>b k. blocks s b = Some k \<and> p \<noteq> Ptr b 0 \<longrightarrow> blocks u' b = Some k" for u'
  proof (rule keep_data_then [OF that(1-3)])
    fix d and v :: "'z ppst_scheme"
    assume v: "fds v = fds u'" "trace v = trace u'" "peek v (Ptr d 0) n = Some x" "wf_mem v"
      "\<And>b' k'. b' \<noteq> b \<Longrightarrow> blocks u' b' = Some k' \<Longrightarrow> blocks v b' = Some k'"
    have "b' \<noteq> b" if "blocks s b' = Some k'" for b' k' using b wf_mem_blocks [OF wf that] by auto
    then show "Q (g (Ptr d 0)) v" using v e bl by (intro Q) auto
  qed
  show ?thesis
  proof (cases p)
    case Null
    then show ?thesis
      unfolding wp_funs using fin [OF readingD(1,2) [OF r] x refl refl] keep by (auto simp: wp_cwhen)
  next
    case (Ptr a i)
    then have a: "i = 0" "a < next_id s" "live s (Ptr a 0)" using old wf_mem_blocks [OF wf] by auto
    then have ab: "a \<noteq> b" using b by simp
    have lu: "live u (Ptr a 0)" using a(3) keep by auto
    have "wp (malloc n) (\<lambda>d. wp (memcpy d (Ptr b 0) n) (\<lambda>_. wp (free (Ptr b 0)) (\<lambda>_. Q (g d)))) (del_block a u)"
      by (rule fin [OF wf_del_block [OF readingD(1) [OF r]]]) (use readingD(2) [OF r] x ab keep Ptr a(1) in auto)
    then show ?thesis unfolding wp_funs wp_cwhen using lu Ptr a(1) by (simp add: wp_free del: live.simps)
  qed
qed

lemma receive_chunks:
  assumes wf: "wf_mem s" and fresh: "read_used t = 0" "t_error t = 0" "t_open t \<noteq> 0"
    and d: "descriptor (fds s) (fd (t_conn t)) = Some k" "incoming k = map Arrives cs @ rest"
    and cs: "cs \<noteq> []" "stream_ok (unat (h_chunk_size t)) cs rest"
    and size: "0 < unat (h_chunk_size t)" "(length cs + 1) * unat (h_chunk_size t) < 2 ^ 32"
    and data: "rstrip (concat cs) \<noteq> []"
    and old: "t_data t = Null \<or> live s (t_data t)"
  shows "wp (receive B t) (\<lambda>(ok, t') u. ok \<and>
     t' = t\<lparr>read_used := 1, t_data := t_data t', h_bytes := of_nat (length (rstrip (concat cs)))\<rparr> \<and>
     peek u (t_data t') (length (rstrip (concat cs))) = Some (rstrip (concat cs)) \<and>
     descriptor (fds u) (fd (t_conn t)) = Some (k\<lparr>incoming := if ends cs then rest else tl rest\<rparr>) \<and>
     (\<forall>b k'. blocks s b = Some k' \<and> t_data t \<noteq> Ptr b 0 \<longrightarrow> blocks u b = Some k') \<and>
     effects (trace u) = effects (trace s) \<and> wf_mem u) s" (is "wp _ ?Q s")
proof -
  let ?f = "fd (t_conn t)" and ?C = "unat (h_chunk_size t)" and ?bs = "concat cs"
  let ?x = "rstrip ?bs" and ?n = "length (rstrip (concat cs))" and ?t = "t\<lparr>read_used := 1\<rparr>"
  let ?q = "if ends cs then rest else tl rest"
  have v: "valid_fd ?f s" and at: "fds s ! nat ?f = Some k"
    using d(1) by (auto simp: valid_fd_def descriptor_def split: if_splits)
  have lb: "length ?bs = length cs * ?C"
    using cs(2) by (intro length_concat_same) (simp add: stream_ok_def)
  let ?s1 = "add_block (fresh_block ?C s) s"
  have kk: "k\<lparr>incoming := map Arrives cs @ rest\<rparr> = k" by (cases k) (use d(2) in simp)
  have upd: "(fds s)[nat ?f := Some k] = fds s"
    using v at by (simp add: list_update_same_conv valid_fd_def)
  have "mgrows s ?s1" by (intro mgrows_add_block mgrows_refl wf) simp
  then have start: "reading s ?f k ((length ([] :: string list) + 1) * ?C) (concat []) (map Arrives cs @ rest) (next_id s) ?s1"
    by (simp add: reading_def io_mem_def kk upd)
  have "length cs < 2 ^ 32 - 1" using size mult_le_mono2 [of 1 ?C "length cs + 1"] by simp
  then have small: "unat (of_nat (length cs) :: u32) = length cs"
      "unat (of_nat (Suc (length cs)) :: u32) = Suc (length cs)"
    by (simp_all only: unsigned_of_nat) (simp_all add: take_bit_nat_eq_self)
  have fuel: "length cs < pending_fd ?f ?s1 + 2"
    using pending_chunks [of cs rest] d by (simp add: pending_fd_def)
  let ?K = "\<lambda>buffer i bytes. if i = 1 \<and> bytes \<le> 0 then cseq (free buffer) (cret (False, ?t))
        else
          cbind (trim_padding buffer (h_chunk_size ?t * (if bytes > 0 then i else i - 1)))
            (\<lambda>new_size.
          cseq (cwhen (t_data ?t \<noteq> Null) (free (t_data ?t)))
          (cbind (malloc (unat new_size)) (\<lambda>d.
           cseq (memcpy d buffer (unat new_size))
           (cseq (free buffer)
             (cret (True, ?t\<lparr>t_data := d, h_bytes := ucast new_size\<rparr>))))))"
  have tail: "wp (cbind (trim_padding (Ptr b 0) (h_chunk_size t * w)) (\<lambda>new_size.
          cseq (cwhen (t_data ?t \<noteq> Null) (free (t_data ?t)))
          (cbind (malloc (unat new_size)) (\<lambda>d.
           cseq (memcpy d (Ptr b 0) (unat new_size))
           (cseq (free (Ptr b 0))
             (cret (True, ?t\<lparr>t_data := d, h_bytes := ucast new_size\<rparr>))))))) ?Q u"
    if r: "reading s ?f k m ?bs ?q b u" and w: "unat w = length cs" for b m w and u :: "'a ppst_scheme"
    unfolding wp_cbind
  proof (rule trim_padding_then [OF readingD(3) [OF r] _ data])
    have "w = of_nat (length cs)" using w by (simp flip: w)
    then show "unat (h_chunk_size t * w) = length ?bs"
      using unat_offset [OF refl, of "length cs" "h_chunk_size t"] size(2) by (simp add: lb mult.commute)
    fix r' :: u32 assume r': "unat r' = ?n"
    then have rw: "ucast r' = (of_nat ?n :: u64)" by (simp flip: r')
    have x: "peek u (Ptr b 0) ?n = Some ?x"
      using peek_take [OF readingD(3) [OF r] length_rstrip] rstrip_prefix [of ?bs] by simp
    show "wp (cseq (cwhen (t_data ?t \<noteq> Null) (free (t_data ?t)))
          (cbind (malloc (unat r')) (\<lambda>d.
           cseq (memcpy d (Ptr b 0) (unat r'))
           (cseq (free (Ptr b 0))
             (cret (True, ?t\<lparr>t_data := d, h_bytes := ucast r'\<rparr>)))))) ?Q u"
      unfolding r'
    proof (rule replace_data_then [OF wf r x])
      show "t_data ?t = Null \<or> live s (t_data ?t)" using old by simp
      fix d and v :: "'a ppst_scheme"
      assume v': "fds v = fds u" "trace v = trace u" "peek v (Ptr d 0) ?n = Some ?x" "wf_mem v"
        "\<forall>b k. blocks s b = Some k \<and> t_data ?t \<noteq> Ptr b 0 \<longrightarrow> blocks v b = Some k"
      have eff: "effects (trace u) = effects (trace s)" using r by (simp add: reading_def)
      have "descriptor (fds v) ?f = Some (k\<lparr>incoming := ?q\<rparr>)" unfolding v'(1) by (rule reading_descriptor [OF v r])
      then show "?Q (True, ?t\<lparr>t_data := Ptr d 0, h_bytes := ucast r'\<rparr>) v"
        unfolding prod.case using v' eff by (intro conjI) (simp_all add: rw)
    qed
  qed
  have "wp (cloop (pending_fd ?f ?s1 + 2) (receive_body B (t_conn t) (h_chunk_size t)) (Ptr (next_id s) 0, of_nat (length ([] :: string list))))
    (\<lambda>(buffer, i, bytes). wp (?K buffer i bytes) ?Q) ?s1"
  proof (rule receive_loop [OF wf v refl size(1) _ start _ cs(2) fuel])
    fix b m and n :: u32 and i :: int and u :: "'a ppst_scheme"
    assume r: "reading s ?f k m (concat ([] @ cs)) ?q b u"
      and n: "if ends cs then 0 < i \<and> n = of_nat (length ([] @ cs))
        else i \<le> 0 \<and> n = of_nat (Suc (length ([] @ cs)))"
    have "unat n = length cs \<and> 0 < i \<or> unat n = Suc (length cs) \<and> unat (n - 1) = length cs \<and> i \<le> 0"
      using n small by (auto split: if_splits)
    moreover have "\<not> (n = 1 \<and> i \<le> 0)" using calculation cs(1) by auto
    ultimately show "(\<lambda>(buffer, i, bytes). wp (?K buffer i bytes) ?Q) (Ptr b 0, n, i) u"
      using tail [OF r [unfolded append_Nil]] by auto
  qed (use size in simp_all)
  note loop = this [unfolded list.size semiring_1_class.of_nat_0]
  have "wp (receive B t) ?Q s = wp (cloop (pending_fd ?f ?s1 + 2)
      (receive_body B (t_conn t) (h_chunk_size t)) (Ptr (next_id s) 0, 0))
      (\<lambda>x. wp (case x of (buffer, i, r) \<Rightarrow> ?K buffer i r) ?Q) ?s1"
    by (simp add: receive_def fresh wp_cbind wp_cret wp_malloc wp_cget)
  also have "\<dots>" by (rule wp_mono [OF loop]) (simp only: split_paired_all prod.case)
  finally show ?thesis .
qed

text \<open>
  C30. Receiving a stream of chunks that ends, by a chunk with the padding byte at its end
  or by the end of the connection, returns the chunks put together without the padding at
  the end, as a new block of exactly that size; the old data is freed, what comes after
  the stream stays on the connection, and nothing else changes.
\<close>

theorem receive_stream:
  assumes wf: "wf_mem s" and fresh: "read_used t = 0" "t_error t = 0" "t_open t \<noteq> 0"
    and d: "descriptor (fds s) (fd (t_conn t)) = Some k" "incoming k = map Arrives cs @ rest"
    and cs: "cs \<noteq> []" "stream_ok (unat (h_chunk_size t)) cs rest"
    and size: "0 < unat (h_chunk_size t)" "(length cs + 1) * unat (h_chunk_size t) < 2 ^ 32"
    and data: "rstrip (concat cs) \<noteq> []"
    and old: "t_data t = Null \<or> live s (t_data t)"
  shows "wp (receive B t) (\<lambda>(ok, t') u. ok \<and>
     t' = t\<lparr>read_used := 1, t_data := t_data t', h_bytes := of_nat (length (rstrip (concat cs)))\<rparr> \<and>
     peek u (t_data t') (length (rstrip (concat cs))) = Some (rstrip (concat cs)) \<and>
     descriptor (fds u) (fd (t_conn t)) = Some (k\<lparr>incoming := if ends cs then rest else tl rest\<rparr>) \<and>
     (\<forall>b k'. blocks s b = Some k' \<and> t_data t \<noteq> Ptr b 0 \<longrightarrow> blocks u b = Some k') \<and>
     effects (trace u) = effects (trace s) \<and> wf_mem u) s" (is "wp _ ?Q s")
  using assms by (rule receive_chunks)

theorem receive_stream_witness:
  "wp (receive test_build (new_transmission sample_conn Null 0 200))
    (\<lambda>(ok, t') u. ok \<and> peek u (t_data t') (length ''ok'') = Some ''ok'')
    (sample_pp [Some \<lparr>incoming = [Arrives (''ok'' @ replicate 198 PAD), Timeout], accepts = True, peer = Caller\<rparr>])"
proof -
  let ?c = "''ok'' @ replicate 198 PAD" and ?t = "new_transmission sample_conn Null 0 200"
  have r: "rstrip (concat [?c]) = ''ok''"
    using rstrip_pad [of "''ok''" 198] by (simp add: rstrip_def PAD_def)
  show ?thesis
    by (rule wp_mono [OF receive_stream [of _ ?t "\<lparr>incoming = [Arrives ?c, Timeout], accepts = True, peer = Caller\<rparr>" "[?c]" "[Timeout]"]])
      (unfold r, auto simp: new_transmission_def sample_conn_def descriptor_def stream_ok_def)
qed

lemma padded_stream:
  assumes "0 < n" and "\<forall>x \<in> set (butlast (padded n msg)). last x \<noteq> PAD"
  shows "stream_ok n (padded n msg) rest" "ends (padded n msg)"
proof -
  have "last (last (padded n msg)) = PAD" using assms(1)
  proof (induction n msg rule: padded.induct)
    case (1 n msg)
    show ?case
    proof (cases "length msg < n")
      case True
      then show ?thesis using "1.prems" by (subst padded.simps) simp
    next
      case False
      then show ?thesis
        using "1.IH" "1.prems" padded_nonempty [of n "drop n msg"] by (subst padded.simps) simp
    qed
  qed
  then show "ends (padded n msg)" using padded_nonempty [OF assms(1)] by (simp add: ends_def)
  then show "stream_ok n (padded n msg) rest"
    using assms(2) padded_lengths by (auto simp: stream_ok_def)
qed

lemma rstrip_whole: "msg \<noteq> [] \<Longrightarrow> last msg \<noteq> PAD \<Longrightarrow> rstrip (msg @ replicate n PAD) = msg"
  unfolding rstrip_pad by (cases msg rule: rev_cases) (simp_all add: rstrip_snoc)

lemma receive_back:
  assumes "wf_mem s" and "read_used t = 0" "t_error t = 0" "t_open t \<noteq> 0" "t_data t = Null"
    and "descriptor (fds s) (fd (t_conn t)) =
      Some \<lparr>incoming = map Arrives (padded n msg) @ rest, accepts = a, peer = pr\<rparr>"
    and n: "n = unat (h_chunk_size t)" "0 < n" "length msg + 2 * n < 2 ^ 32"
    and msg: "msg \<noteq> []" "last msg \<noteq> PAD" "\<forall>x \<in> set (butlast (padded n msg)). last x \<noteq> PAD"
  shows "wp (receive B t) (\<lambda>(ok, t') u. ok \<and> unat (h_bytes t') = length msg \<and>
     peek u (t_data t') (length msg) = Some msg \<and>
     descriptor (fds u) (fd (t_conn t)) = Some \<lparr>incoming = rest, accepts = a, peer = pr\<rparr> \<and> wf_mem u) s"
proof -
  have r: "rstrip (concat (padded n msg)) = msg"
    using rstrip_whole [OF msg(1,2)] by (simp add: concat_padded [OF n(2)])
  have small: "length msg < 2 ^ 64" using n(3) by simp
  have len: "(length (padded n msg) + 1) * n < 2 ^ 32"
    using n(3) div_times_less_eq_dividend [of "length msg" n]
    by (simp add: length_padded [OF n(2)] add_mult_distrib del: div_times_less_eq_dividend)
  have bytes: "unat (of_nat (length msg) :: u64) = length msg"
    using small by (simp only: unsigned_of_nat) (simp add: take_bit_nat_eq_self)
  show ?thesis
  proof (rule wp_mono [OF receive_chunks [OF assms(1-4,6)]])
    show "incoming \<lparr>incoming = map Arrives (padded n msg) @ rest, accepts = a, peer = pr\<rparr> =
        map Arrives (padded n msg) @ rest" by simp
    show "padded n msg \<noteq> []" by (rule padded_nonempty [OF n(2)])
    show "stream_ok (unat (h_chunk_size t)) (padded n msg) rest"
      unfolding n(1) [symmetric] by (rule padded_stream(1) [OF n(2) msg(3)])
    show "rstrip (concat (padded n msg)) \<noteq> []" using r msg(1) by simp
    show "(length (padded n msg) + 1) * unat (h_chunk_size t) < 2 ^ 32" using len n(1) by simp
    fix x u
    assume a: "(\<lambda>(ok, t') u. ok \<and>
     t' = t\<lparr>read_used := 1, t_data := t_data t', h_bytes := of_nat (length (rstrip (concat (padded n msg))))\<rparr> \<and>
     peek u (t_data t') (length (rstrip (concat (padded n msg)))) = Some (rstrip (concat (padded n msg))) \<and>
     descriptor (fds u) (fd (t_conn t)) = Some (\<lparr>incoming = map Arrives (padded n msg) @ rest, accepts = a, peer = pr\<rparr>
       \<lparr>incoming := if ends (padded n msg) then rest else tl rest\<rparr>) \<and>
     (\<forall>b k'. blocks s b = Some k' \<and> t_data t \<noteq> Ptr b 0 \<longrightarrow> blocks u b = Some k') \<and>
     effects (trace u) = effects (trace s) \<and> wf_mem u) x u"
    obtain ok t' where x: "x = (ok, t')" by (cases x)
    note a' = a [unfolded x prod.case r]
    have "h_bytes t' = of_nat (length msg)"
      using arg_cong [OF a' [THEN conjunct2, THEN conjunct1], of h_bytes] by simp
    then show "(\<lambda>(ok, t') u. ok \<and> unat (h_bytes t') = length msg \<and>
     peek u (t_data t') (length msg) = Some msg \<and>
     descriptor (fds u) (fd (t_conn t)) = Some \<lparr>incoming = rest, accepts = a, peer = pr\<rparr> \<and> wf_mem u) x u"
      using a' bytes padded_stream(2) [OF n(2) msg(3)] unfolding x by (simp del: peek.simps)
  qed (use n assms(5) in simp_all)
qed

text \<open>
  C13. Cutting and receiving are inverse: from the padded pieces of a message, sent as
  chunks of their size, the receiver gets back exactly the message, provided that it is
  not empty, does not end with the byte 4 itself, and no full piece of it does.
\<close>

theorem receive_padded:
  assumes "wf_mem s" and "read_used t = 0" "t_error t = 0" "t_open t \<noteq> 0" "t_data t = Null"
    and "descriptor (fds s) (fd (t_conn t)) =
      Some \<lparr>incoming = map Arrives (padded n msg) @ rest, accepts = a, peer = pr\<rparr>"
    and n: "n = unat (h_chunk_size t)" "0 < n" "length msg + 2 * n < 2 ^ 32"
    and msg: "msg \<noteq> []" "last msg \<noteq> PAD" "\<forall>x \<in> set (butlast (padded n msg)). last x \<noteq> PAD"
  shows "wp (receive B t) (\<lambda>(ok, t') u. ok \<and> unat (h_bytes t') = length msg \<and>
     peek u (t_data t') (length msg) = Some msg \<and>
     descriptor (fds u) (fd (t_conn t)) = Some \<lparr>incoming = rest, accepts = a, peer = pr\<rparr>) s"
  by (rule wp_mono [OF receive_back [OF assms]]) auto

theorem receive_padded_witness:
  "wp (receive test_build (new_transmission sample_conn Null 0 200))
    (\<lambda>(ok, t') u. ok \<and> unat (h_bytes t') = length ''hi'' \<and> peek u (t_data t') (length ''hi'') = Some ''hi'' \<and>
      descriptor (fds u) 0 = Some \<lparr>incoming = [], accepts = True, peer = Caller\<rparr>)
    (sample_pp [Some \<lparr>incoming = map Arrives (padded 200 ''hi'') @ [], accepts = True, peer = Caller\<rparr>])"
proof -
  have p: "padded 200 ''hi'' = [''hi'' @ replicate 198 PAD]" by (subst padded.simps) simp
  have "wp (receive test_build (new_transmission sample_conn Null 0 200))
    (\<lambda>(ok, t') u. ok \<and> unat (h_bytes t') = length ''hi'' \<and> peek u (t_data t') (length ''hi'') = Some ''hi'' \<and>
      descriptor (fds u) (fd (t_conn (new_transmission sample_conn Null 0 200))) =
        Some \<lparr>incoming = [], accepts = True, peer = Caller\<rparr>)
    (sample_pp [Some \<lparr>incoming = map Arrives (padded 200 ''hi'') @ [], accepts = True, peer = Caller\<rparr>])"
    by (rule receive_padded [where n = 200]) (unfold p, simp_all add: new_transmission_def sample_conn_def descriptor_def PAD_def)
  then show ?thesis by (simp add: new_transmission_def sample_conn_def)
qed

section \<open>Misuse and mismatch\<close>

lemma run_close_live:
  assumes "t_error t = 0" and "live s (t_data t)"
  shows "\<exists>b. t_data t = Ptr b 0 \<and>
    close_transmission t s = Inr (t\<lparr>t_data := Null, t_open := 0, h_bytes := 0\<rparr>, del_block b s)"
  using assms by (cases "t_data t") (auto simp: runs_wp close_transmission_def wp_simps)

lemma trans_err_run:
  assumes "close_transmission t s = Inr (t', u)"
  shows "trans_err t msg s = (if spare u (next_id u) = 0 then Inl Overflow
    else Inr (t'\<lparr>t_error := 1, t_error_len := of_nat (length msg), t_err_msg := Ptr (next_id u) 0\<rparr>,
      add_block (filled (length msg) (msg @ [NUL]) u) u))"
  using assms
  by (simp add: trans_err_def cbind_def cseq_def cret_def malloc_def strcpy_lit_def filled_def)

text \<open>
  A transmission may be used once for sending and once for receiving. A second use is
  detected, but the buffer for its error message has no place for the NUL: the copy
  overflows it by one byte, unless the allocator rounds the size up.
\<close>

theorem reuse_overflows:
  assumes "t_error t = 0" and "live s (t_data t)" and "spare s (next_id s) = 0"
  shows "(write_used t \<noteq> 0 \<longrightarrow> transmit B t s = Inl Overflow) \<and>
    (read_used t \<noteq> 0 \<longrightarrow> receive B t s = Inl Overflow)"
proof -
  obtain b where c: "close_transmission t s =
      Inr (t\<lparr>t_data := Null, t_open := 0, h_bytes := 0\<rparr>, del_block b s)"
    using run_close_live [OF assms(1,2)] by blast
  have "trans_err t msg s = Inl Overflow" for msg
    by (simp add: trans_err_run [OF c] assms(3))
  then show ?thesis by (simp add: transmit_def receive_def cbind_def)
qed

theorem reuse_overflows_witness:
  "transmit test_build (new_transmission sample_conn (Ptr 0 0) 2 200\<lparr>write_used := 1\<rparr>) (sample_pp []) = Inl Overflow"
  using reuse_overflows [of "new_transmission sample_conn (Ptr 0 0) 2 200\<lparr>write_used := 1\<rparr>" "sample_pp []"]
  by (simp add: new_transmission_def)

lemma rstrip_last: "xs \<noteq> [] \<Longrightarrow> last xs \<noteq> PAD \<Longrightarrow> rstrip xs = xs"
  using rstrip_whole [of xs 0] by simp

text \<open>
  Sending and receiving do not fit together: a message shorter than a piece goes out
  as one chunk that ends with foreign memory; a receiver of that chunk takes all of it,
  padding and foreign bytes, for the message (unless the last foreign byte happens to be
  the padding byte).
\<close>

theorem transmit_receive_mismatch:
  assumes ready: "sendable t d s" and d: "0 < d"
    and fresh: "write_used t = 0" "t_error t = 0" "t_open t \<noteq> 0"
    and data: "peek s (t_data t) (unat (h_bytes t)) = Some msg" and len: "length msg < d"
    and tail: "last (take 72 (after d s)) \<noteq> PAD"
    and peer: "wf_mem r" "descriptor (fds r) (fd (t_conn p)) = Some k"
      "read_used p = 0" "t_error p = 0" "t_open p \<noteq> 0" "t_data p = Null"
      "unat (h_chunk_size p) = d + 72" "2 * (d + 72) < 2 ^ 32"
  shows "wp (transmit B t) (\<lambda>_ u. \<exists>chunk. length chunk = d + 72 \<and> chunk \<noteq> msg \<and>
    effects (trace u) = effects (trace s) @ [Sent (fd (t_conn t)) (peer_at s (fd (t_conn t))) chunk] \<and>
    (incoming k = [Arrives chunk] \<longrightarrow>
      wp (receive B p) (\<lambda>(ok, p') v. ok \<and> peek v (t_data p') (d + 72) = Some chunk) r)) s"
proof (rule wp_mono [OF transmit_pieces [OF ready d fresh data]])
  show "length msg < 2 ^ 32" using len peer(8) by simp
  fix x u
  assume "(\<lambda>(ok, t') u. ok \<and> t' = t\<lparr>write_used := 1\<rparr> \<and> restored s u \<and>
    (\<exists>leaks. length leaks = Suc (length msg div d) \<and> (\<forall>l \<in> set leaks. length l = 72) \<and>
      hd leaks = take 72 (after d s) \<and>
      effects (trace u) = effects (trace s) @ chunks (fd (t_conn t)) (peer_at s (fd (t_conn t))) (padded d msg) leaks)) x u"
  then obtain leaks where leaks: "length leaks = Suc (length msg div d)" "\<forall>l \<in> set leaks. length l = 72"
    "hd leaks = take 72 (after d s)"
    "effects (trace u) = effects (trace s) @ chunks (fd (t_conn t)) (peer_at s (fd (t_conn t))) (padded d msg) leaks"
    by (cases x) auto
  have one: "leaks = [take 72 (after d s)]" using leaks(1,3) len by (cases leaks) simp_all
  let ?c = "msg @ replicate (d - length msg) PAD @ take 72 (after d s)"
  have l72: "length (take 72 (after d s)) = 72" using leaks(2) one by simp
  then have ne: "take 72 (after d s) \<noteq> []" by (metis list.size(3) zero_neq_numeral)
  have pd: "padded d msg = [msg @ replicate (d - length msg) PAD]"
    using len by (subst padded.simps) simp
  have lc: "length ?c = d + 72" using l72 len by simp
  have last: "last ?c \<noteq> PAD" using ne tail by simp
  have strip: "rstrip (concat [?c]) = ?c"
    unfolding concat.simps append_Nil2 by (rule rstrip_last [OF _ last]) (use lc in auto)
  have "wp (receive B p) (\<lambda>(ok, p') v. ok \<and> peek v (t_data p') (d + 72) = Some ?c) r"
    if k: "incoming k = [Arrives ?c]"
  proof (rule wp_mono [OF receive_chunks [OF peer(1,3-5,2), of "[?c]" "[]"]])
    show "stream_ok (unat (h_chunk_size p)) [?c] []" using lc peer(7) by (simp add: stream_ok_def)
    show "rstrip (concat [?c]) \<noteq> []" unfolding strip using lc by auto
    fix y v
    assume "(\<lambda>(ok, t') u. ok \<and>
     t' = p\<lparr>read_used := 1, t_data := t_data t', h_bytes := of_nat (length (rstrip (concat [?c])))\<rparr> \<and>
     peek u (t_data t') (length (rstrip (concat [?c]))) = Some (rstrip (concat [?c])) \<and>
     descriptor (fds u) (fd (t_conn p)) = Some (k\<lparr>incoming := if ends [?c] then [] else tl []\<rparr>) \<and>
     (\<forall>b k'. blocks r b = Some k' \<and> t_data p \<noteq> Ptr b 0 \<longrightarrow> blocks u b = Some k') \<and>
     effects (trace u) = effects (trace r) \<and> wf_mem u) y v"
    then show "(\<lambda>(ok, p') v. ok \<and> peek v (t_data p') (d + 72) = Some ?c) y v"
      unfolding strip lc by (cases y) simp
  qed (use k peer in simp_all)
  moreover have "?c \<noteq> msg" using ne by simp
  moreover have "effects (trace u) = effects (trace s) @ [Sent (fd (t_conn t)) (peer_at s (fd (t_conn t))) ?c]"
    by (simp add: leaks(4) one pd chunks_def)
  ultimately show "\<exists>chunk. length chunk = d + 72 \<and> chunk \<noteq> msg \<and>
    effects (trace u) = effects (trace s) @ [Sent (fd (t_conn t)) (peer_at s (fd (t_conn t))) chunk] \<and>
    (incoming k = [Arrives chunk] \<longrightarrow>
      wp (receive B p) (\<lambda>(ok, p') v. ok \<and> peek v (t_data p') (d + 72) = Some chunk) r)"
    using lc by blast
qed

definition sample_receiver :: "string \<Rightarrow> ppst" where
  "sample_receiver c = sample_pp [Some \<lparr>incoming = [Arrives c], accepts = True, peer = Caller\<rparr>]"

theorem transmit_receive_mismatch_witness:
  "wp (transmit test_build (new_transmission sample_conn (Ptr 0 0) 2 200)) (\<lambda>_ u. \<exists>chunk. length chunk = 200 \<and>
      effects (trace u) = [Sent 0 Caller chunk] \<and> chunk \<noteq> ''hi'')
    (sample_pp [Some \<lparr>incoming = [], accepts = True, peer = Caller\<rparr>])"
proof -
  let ?s = "sample_pp [Some \<lparr>incoming = [], accepts = True, peer = Caller\<rparr>]"
  have tail: "last (take 72 (after 128 ?s)) \<noteq> PAD"
    by (simp add: after_def fresh_bytes_def map_replicate_const PAD_def)
  show ?thesis
    by (rule wp_mono [OF transmit_receive_mismatch [where d = 128 and msg = "''hi''" and
          r = "sample_receiver []" and p = "new_transmission sample_conn Null 0 200" and
          k = "\<lparr>incoming = [Arrives []], accepts = True, peer = Caller\<rparr>"]])
      (use tail in \<open>auto simp: sendable_def new_transmission_def sample_conn_def descriptor_def peer_at_def
        sample_receiver_def\<close>)
qed

end
