(* ===== verification/Pp.thy ===== *)
theory Pp
  imports Transfers
begin

text \<open>
  \<^verbatim>\<open>include/PP/pp.h\<close> and \<^verbatim>\<open>lib/PP/pp.c\<close>: the interface of the transmission library, sending
  and reading one message over an endpoint.
\<close>

record pp_status =
  st_error :: u16
  st_message :: ptr
  st_bytes :: u64

record pp_message =
  msg_status :: pp_status
  msg_buffer :: ptr

record pp_endpoint =
  ep_connection :: conn

definition endpoint_from_address :: "ptr \<Rightarrow> u16 \<Rightarrow> (pp_endpoint, 'z) ocmd" where
  "endpoint_from_address hostname p =
     cbind (client_init hostname p) (\<lambda>c. cret \<lparr>ep_connection = c\<rparr>)"

definition endpoint_from_connection :: "conn \<Rightarrow> pp_endpoint" where
  "endpoint_from_connection c = \<lparr>ep_connection = c\<rparr>"

definition good_status :: pp_status where
  "good_status = \<lparr>st_error = 0, st_message = Null, st_bytes = 0\<rparr>"

text \<open>A copy of the error message, in a buffer without a place for the NUL.\<close>

definition failed_status :: "transmission \<Rightarrow> (pp_status, 'z) mcmd" where
  "failed_status t =
     cbind (cret (transmission_error t)) (\<lambda>error_msg.
     cbind (strlen error_msg) (\<lambda>n.
     cbind (malloc n) (\<lambda>m.
     cseq (strcpy m error_msg)
       (cret \<lparr>st_error = 1, st_message = m, st_bytes = of_nat n\<rparr>))))"

text \<open>The status that \<^verbatim>\<open>pp_send\<close> fills in on a failure is dropped: it always reports success.\<close>

definition pp_send :: "build \<Rightarrow> pp_endpoint \<Rightarrow> ptr \<Rightarrow> u64 \<Rightarrow> (pp_status, 'z) pcmd" where
  "pp_send B endpoint data len =
     cbind (init_transmission (ep_connection endpoint) data len) (\<lambda>message.
     cbind (if t_error message \<noteq> 0 then cret (True, message)
            else cbind (transmit B message) (\<lambda>(ok, message). cret (\<not> ok, message)))
       (\<lambda>(failed, message).
     cbind (if failed then cseq (failed_status message) (close_transmission message)
            else cret message) (\<lambda>message.
     cseq (close_transmission message)
       (cret good_status))))"

definition pp_read :: "build \<Rightarrow> pp_endpoint \<Rightarrow> (pp_message, 'z) pcmd" where
  "pp_read B endpoint =
     cbind (init_transmission (ep_connection endpoint) Null 0) (\<lambda>t.
     cbind (receive B t) (\<lambda>(ok, t).
     if \<not> ok then
       cbind (if t_error t \<noteq> 0 then failed_status t
              else cret \<lparr>st_error = 1, st_message = Null, st_bytes = 0\<rparr>) (\<lambda>status.
       cret \<lparr>msg_status = status, msg_buffer = Null\<rparr>)
     else
       cbind (malloc (unat (transmission_size t))) (\<lambda>b.
       cseq (memcpy b (transmission_data t) (unat (transmission_size t)))
         (cret \<lparr>msg_status = good_status, msg_buffer = b\<rparr>))))"

section \<open>Properties\<close>

text \<open>The endpoint is usable: a good connection, and memory is mapped behind new blocks.\<close>

definition can_send :: "conn \<Rightarrow> 'z ppst_scheme \<Rightarrow> bool" where
  "can_send c s \<longleftrightarrow> wf_mem s \<and> c_error c = 0 \<and> 72 < unat (chunk_size s) \<and>
     (\<exists>k. descriptor (fds s) (fd c) = Some k \<and> accepts k) \<and> (\<forall>b. 72 \<le> spare s b + room s b)"

lemma unat_chunk: "unat (ucast (w :: u16) :: u32) = unat w"
proof -
  have "unat w < 2 ^ LENGTH(16)" by (rule unsigned_less)
  then show ?thesis by (simp add: unsigned_ucast_eq take_bit_nat_eq_self)
qed

text \<open>The copy of the data that a transmission was made with is given back.\<close>

lemma close_sent_then:
  assumes wf: "wf_mem s" and len: "length msg = unat len"
    and r: "restored (add_block (filled (unat len) msg s) s) u" and P: "\<And>v. trace v = trace u \<Longrightarrow> P v"
  shows "wp (cseq (close_transmission ((new_transmission c (Ptr (next_id s) 0) len cs)\<lparr>write_used := 1\<rparr>)) (cret good_status))
    (\<lambda>st u. st = good_status \<and> restored s u \<and> P u) u"
proof -
  let ?s = "add_block (filled (unat len) msg s) s" and ?b = "next_id s"
  have g: "grows s ?s" by (rule grows_filled [OF wf]) (simp add: len)
  have bl: "blocks u = blocks ?s" and io: "io_mem ?s u" and f: "fds u = fds s" "net u = net s"
    using r by (simp_all add: restored_def)
  have new: "blocks s ?b = None" by (rule wf_mem_next [OF wf])
  have "io_mem s u" by (rule io_mem_trans [OF grows_io_mem [OF g] io])
  then have "io_mem s (del_block ?b u)"
    by (auto simp: io_mem_def intro: mgrows_del_block [OF _ new])
  then have "restored s (del_block ?b u)"
    using new f by (simp add: restored_def bl fun_upd_idem)
  moreover have "P (del_block ?b u)" by (rule P) simp
  ultimately show ?thesis
    by (simp add: wp_cseq close_transmission_def wp_simps new_transmission_def bl)
qed

lemma message_sent:
  assumes ready: "can_send (ep_connection ep) s" and d: "unat (chunk_size s) = d + 72"
    and data: "peek s p (unat len) = Some msg" and small: "length msg < 2 ^ 32"
  shows "wp (pp_send B ep p len) (\<lambda>st u. st = good_status \<and> restored s u \<and>
    (\<exists>leaks. length leaks = Suc (length msg div d) \<and> (\<forall>l \<in> set leaks. length l = 72) \<and>
      effects (trace u) = effects (trace s) @
        chunks (fd (ep_connection ep)) (peer_at s (fd (ep_connection ep))) (padded d msg) leaks)) s"
    (is "wp _ ?Q s")
proof -
  let ?c = "ep_connection ep" and ?b = "next_id s"
  let ?t = "new_transmission ?c (Ptr ?b 0) len (chunk_size s)"
  let ?s = "add_block (filled (unat len) msg s) s"
  have wf: "wf_mem s" using ready by (simp add: can_send_def)
  have lm: "length msg = unat len" by (rule length_peek [OF data])
  have g: "grows s ?s" using lm by (intro grows_filled wf) simp
  have A: "sendable ?t d ?s"
    using ready grows_wf [OF g] d
    by (simp add: sendable_def can_send_def new_transmission_def unat_chunk)
  have B0: "0 < d" using ready d by (simp add: can_send_def)
  have C: "peek ?s (t_data ?t) (unat (h_bytes ?t)) = Some msg"
    using peek_filled [of msg "unat len" s "unat len"] lm by (simp add: new_transmission_def)
  let ?R = "\<lambda>(failed, message). cbind (if failed then cseq (failed_status message) (close_transmission message)
      else cret message) (\<lambda>message. cseq (close_transmission message) (cret good_status))"
  have "wp (transmit B ?t) (\<lambda>x. wp (cbind (case x of (ok, message) \<Rightarrow> cret (\<not> ok, message)) ?R) ?Q) ?s"
  proof (rule wp_mono [OF transmit_pieces [OF A B0 _ _ _ C small]])
    fix x u
    assume "(case x of (ok, t') \<Rightarrow> \<lambda>u. ok \<and> t' = ?t\<lparr>write_used := 1\<rparr> \<and> restored ?s u \<and>
      (\<exists>leaks. length leaks = Suc (length msg div d) \<and> (\<forall>l \<in> set leaks. length l = 72) \<and>
        hd leaks = take 72 (after d ?s) \<and>
        effects (trace u) = effects (trace ?s) @ chunks (fd (t_conn ?t)) (peer_at ?s (fd (t_conn ?t))) (padded d msg) leaks)) u"
    then obtain leaks where x: "x = (True, ?t\<lparr>write_used := 1\<rparr>)" and r: "restored ?s u"
      and l: "length leaks = Suc (length msg div d)" "\<forall>l \<in> set leaks. length l = 72"
        "effects (trace u) = effects (trace s) @ chunks (fd ?c) (peer_at s (fd ?c)) (padded d msg) leaks"
      by (cases x) (auto simp: new_transmission_def peer_at_def)
    have "wp (cseq (close_transmission (?t\<lparr>write_used := 1\<rparr>)) (cret good_status)) ?Q u"
      by (rule close_sent_then [OF wf lm r]) (use l in auto)
    then show "wp (cbind (case x of (ok, message) \<Rightarrow> cret (\<not> ok, message)) ?R) ?Q u"
      by (simp add: x wp_cbind wp_cret)
  qed (simp_all add: new_transmission_def)
  moreover have "t_error ?t = 0" by (simp add: new_transmission_def)
  ultimately have "wp (cbind (if t_error ?t \<noteq> 0 then cret (True, ?t)
      else cbind (transmit B ?t) (\<lambda>(ok, message). cret (\<not> ok, message))) ?R) ?Q ?s"
    by (simp add: wp_cbind_fun)
  then show ?thesis
    unfolding pp_send_def wp_cbind [of "init_transmission _ _ _"]
    by (intro wp_init_transmission [OF wf _ _ data]) (use ready in \<open>simp_all add: can_send_def\<close>)
qed

text \<open>
  C31. Sending a message over a good connection sends its padded pieces in order, each as a
  chunk of the configured size, reports success, and leaves memory and descriptors as they
  were: every copy made on the way is freed exactly once.
\<close>

theorem pp_send_sends:
  assumes "can_send (ep_connection ep) s" and "unat (chunk_size s) = d + 72"
    and "peek s p (unat len) = Some msg" and "length msg < 2 ^ 32"
  shows "wp (pp_send B ep p len) (\<lambda>st u. st = good_status \<and> restored s u \<and>
    (\<exists>leaks. length leaks = Suc (length msg div d) \<and> (\<forall>l \<in> set leaks. length l = 72) \<and>
      effects (trace u) = effects (trace s) @
        chunks (fd (ep_connection ep)) (peer_at s (fd (ep_connection ep))) (padded d msg) leaks)) s"
  using assms by (rule message_sent)

theorem pp_send_sends_witness:
  "wp (pp_send test_build \<lparr>ep_connection = sample_conn\<rparr> (Ptr 0 0) 2)
    (\<lambda>st u. st = good_status \<and> blocks u = [0 \<mapsto> \<lparr>usable = 2, bytes = ''hi'', on_heap = True\<rparr>])
    (sample_pp [Some \<lparr>incoming = [], accepts = True, peer = Caller\<rparr>])"
  by (rule wp_mono [OF pp_send_sends [where d = 128 and msg = "''hi''"]])
    (auto simp: can_send_def sample_conn_def descriptor_def restored_def)

text \<open>
  Over a connection that could not be made, \<^verbatim>\<open>pp_send\<close> does not report an error: the
  transmission it builds is marked as erroneous without a message, and \<^verbatim>\<open>strlen\<close> is called
  with a null pointer.
\<close>

theorem pp_send_refused:
  assumes wf: "wf_mem s" and c: "c_error (ep_connection ep) \<noteq> 0"
    and m: "cstring s (error_msg (ep_connection ep)) = Some m"
    and cs: "72 < unat (chunk_size s)" and data: "peek s p (unat len) = Some msg"
  shows "pp_send B ep p len s = Inl NullDeref"
proof -
  let ?c = "ep_connection ep"
  let ?n = "\<lambda>d e. \<lparr>t_data = d, t_open = 1, t_error = 1, t_err_msg = Null, t_error_len = 0,
    h_bytes = len, h_chunk_size = ucast (chunk_size s), t_conn = \<lparr>c_error = c_error ?c,
    error_msg = e, fd = fd ?c, max_bytes = max_bytes ?c\<rparr>, read_used = 0, write_used = 0\<rparr>"
  have p: "p \<noteq> Null" using data by auto
  have e: "error_msg ?c \<noteq> Null" using m by auto
  let ?s = "add_block (filled (unat len) msg s) s"
  have lm: "length msg = unat len" by (rule length_peek [OF data])
  have g: "grows s ?s" using lm by (intro grows_filled wf) simp
  have m': "cstring ?s (error_msg ?c) = Some m" by (rule grows_cstring [OF g m])
  have data': "peek (add_block k s) p (unat len) = Some msg" for k
    by (rule peek_add_block [OF wf data])
  have m'': "cstring (add_block k ?s) (error_msg ?c) = Some m" for k
    by (rule cstring_add_block [OF grows_wf [OF g] m'])
  have "wp (init_transmission ?c p len) (\<lambda>t u. t_error t = 1 \<and> t_err_msg t = Null) s"
    using p e c cs data' m' m'' lm
    by (simp add: init_transmission_def wp_simps SERIALIZED_SIZE_WITHOUT_DATA_def filled_def)
  then obtain t u where "init_transmission ?c p len s = Inr (t, u)" "t_error t = 1" "t_err_msg t = Null"
    by (auto simp: wp_runs)
  then show ?thesis
    by (simp add: pp_send_def cbind_def cseq_def failed_status_def transmission_error_def cret_def
        strlen_def)
qed

definition refused_conn :: conn where
  "refused_conn = \<lparr>c_error = 1, error_msg = Ptr 0 2, fd = 0, max_bytes = 0\<rparr>"

definition refused_pp :: ppst where
  "refused_pp = sample_pp []\<lparr>blocks := [0 \<mapsto> \<lparr>usable = 6, bytes = ''hino'' @ [NUL, NUL], on_heap = True\<rparr>]\<rparr>"

theorem pp_send_refused_witness:
  "pp_send test_build \<lparr>ep_connection = refused_conn\<rparr> (Ptr 0 0) 2 refused_pp = Inl NullDeref"
  by (rule pp_send_refused [where m = "''no''" and msg = "''hi''"])
    (simp_all add: refused_conn_def refused_pp_def wf_mem_def)

lemma get_str_run: "cstring s p = Some t \<Longrightarrow> get_str p s = Inr (t, s)"
  by (cases p) (auto split: option.splits)

lemma failed_status_run:
  assumes wf: "wf_mem s" and t: "t_error t \<noteq> 0" and m: "cstring s (t_err_msg t) = Some m"
  shows "failed_status t s = (if spare s (next_id s) = 0 then Inl Overflow
    else Inr (\<lparr>st_error = 1, st_message = Ptr (next_id s) 0, st_bytes = of_nat (length m)\<rparr>,
      add_block (filled (length m) (m @ [NUL]) s) s))"
proof -
  have "get_str (t_err_msg t) (add_block k s) = Inr (m, add_block k s)" for k
    by (rule get_str_run [OF cstring_add_block [OF wf m]])
  then show ?thesis
    by (simp add: failed_status_def transmission_error_def t strlen_def strcpy_def cbind_def cseq_def
        cret_def malloc_def get_str_run [OF m] filled_def)
qed

text \<open>
  Sending no data (a null pointer) over a good connection always ends in a fault: the
  one-byte overflow of the error message, of its copy, or, if the allocator rounds both
  up, the second \<^verbatim>\<open>close_transmission\<close>, which frees the message again.
\<close>

theorem pp_send_null:
  assumes wf: "wf_mem s" and c: "c_error (ep_connection ep) = 0" and cs: "72 < unat (chunk_size s)"
  shows "pp_send B ep Null len s = Inl Overflow \<or> pp_send B ep Null len s = Inl BadFree"
proof -
  let ?c = "ep_connection ep" and ?n = "next_id s"
  let ?t = "new_transmission ?c Null len (chunk_size s)"
  define m where "m = ''Data to transmit is NULL.''"
  let ?s = "add_block (filled (length m) (m @ [NUL]) s) s"
  let ?u = "add_block (filled (length m) (m @ [NUL]) ?s) ?s"
  let ?e = "?t\<lparr>t_open := 0, h_bytes := 0, t_error := 1, t_error_len := of_nat (length m),
    t_err_msg := Ptr ?n 0\<rparr>"
  have init: "init_transmission ?c Null len s = Inr (?t, s)"
    unfolding runs_wp by (rule wp_init_empty [OF c cs]) simp
  have close: "close_transmission ?t s = Inr (?t\<lparr>t_open := 0, h_bytes := 0\<rparr>, s)"
    by (simp add: runs_wp close_transmission_def wp_simps new_transmission_def)
  have tr: "transmit B ?t = cbind (trans_err ?t m) (\<lambda>t. cret (False, t))"
    by (simp add: transmit_def new_transmission_def m_def)
  have new_err: "t_error ?t = 0" by (simp add: new_transmission_def)
  show ?thesis
  proof (cases "spare s ?n = 0")
    case True
    then have "transmit B ?t s = Inl Overflow"
      using trans_err_run [OF close, of m] by (simp add: tr cbind_def)
    then show ?thesis by (simp add: pp_send_def cbind_def init new_err)
  next
    case False
    then have err: "transmit B ?t s = Inr ((False, ?e), ?s)"
      using trans_err_run [OF close, of m] by (simp add: tr cbind_def cret_def)
    have str: "cstring ?s (Ptr ?n 0) = Some m" by (rule cstring_filled_nul) (simp add: m_def)
    have wf1: "wf_mem ?s" by (rule grows_wf [OF grows_filled [OF wf]]) (use False in simp)
    have st: "failed_status ?e ?s = (if spare s (Suc ?n) = 0 then Inl Overflow
        else Inr (\<lparr>st_error = 1, st_message = Ptr (Suc ?n) 0, st_bytes = of_nat (length m)\<rparr>, ?u))"
      using failed_status_run [OF wf1, of ?e m] str by simp
    have c1: "close_transmission ?e ?u = Inr (?e, del_block ?n ?u)"
      by (simp add: runs_wp close_transmission_def wp_simps new_transmission_def)
    have c2: "close_transmission ?e (del_block ?n ?u) = Inl BadFree"
      by (simp add: close_transmission_def cseq_def cbind_def cwhen_def new_transmission_def)
    show ?thesis
      using st c1 c2 by (simp add: pp_send_def cbind_def cseq_def cret_def init err new_err)
  qed
qed

theorem pp_send_null_witness:
  "pp_send test_build \<lparr>ep_connection = sample_conn\<rparr> Null 2 (sample_pp []) = Inl Overflow \<or>
   pp_send test_build \<lparr>ep_connection = sample_conn\<rparr> Null 2 (sample_pp []) = Inl BadFree"
  by (rule pp_send_null) (simp_all add: sample_conn_def)

text \<open>
  C32. Reading a message that a peer cut into padded pieces of the chunk size returns good
  status and a buffer with exactly that message.
\<close>

theorem pp_read_padded:
  assumes wf: "wf_mem s" and c: "c_error (ep_connection ep) = 0" and n: "n = unat (chunk_size s)" "72 < n"
    and d: "descriptor (fds s) (fd (ep_connection ep)) =
      Some \<lparr>incoming = map Arrives (padded n msg) @ rest, accepts = a, peer = pr\<rparr>"
    and len: "length msg + 2 * n < 2 ^ 32"
    and msg: "msg \<noteq> []" "last msg \<noteq> PAD" "\<forall>x \<in> set (butlast (padded n msg)). last x \<noteq> PAD"
  shows "wp (pp_read B ep) (\<lambda>m u. msg_status m = good_status \<and>
    peek u (msg_buffer m) (length msg) = Some msg \<and>
    descriptor (fds u) (fd (ep_connection ep)) = Some \<lparr>incoming = rest, accepts = a, peer = pr\<rparr>) s"
proof -
  let ?c = "ep_connection ep" and ?t = "new_transmission (ep_connection ep) Null 0 (chunk_size s)"
  have init: "init_transmission ?c Null 0 s = Inr (?t, s)"
    unfolding runs_wp by (rule wp_init_empty [OF c]) (use n in simp_all)
  have keep: "wp (malloc (unat (transmission_size t)))
      (\<lambda>b. wp (memcpy b (transmission_data t) (unat (transmission_size t)))
        (\<lambda>_. \<lambda>u. msg_status \<lparr>msg_status = good_status, msg_buffer = b\<rparr> = good_status \<and>
          peek u (msg_buffer \<lparr>msg_status = good_status, msg_buffer = b\<rparr>) (length msg) = Some msg \<and>
          descriptor (fds u) (fd ?c) = Some \<lparr>incoming = rest, accepts = a, peer = pr\<rparr>)) v"
    if wf: "wf_mem v" and t: "unat (h_bytes t) = length msg"
      "peek v (t_data t) (length msg) = Some msg"
      "descriptor (fds v) (fd ?c) = Some \<lparr>incoming = rest, accepts = a, peer = pr\<rparr>" for t v
    using t(1,3) peek_add_block [OF wf t(2)] peek_filled [of msg "length msg" v "length msg"]
    by (simp add: wp_simps transmission_size_def transmission_data_def filled_def)
  have "wp (receive B ?t) (\<lambda>(ok, t) u. ok \<and> unat (h_bytes t) = length msg \<and>
     peek u (t_data t) (length msg) = Some msg \<and>
     descriptor (fds u) (fd (t_conn ?t)) = Some \<lparr>incoming = rest, accepts = a, peer = pr\<rparr> \<and> wf_mem u) s"
    by (rule receive_back [OF wf _ _ _ _ _ _ _ len msg])
      (use n d in \<open>simp_all add: new_transmission_def unat_chunk\<close>)
  then show ?thesis
    unfolding pp_read_def wp_cbind [of "init_transmission _ _ _"] wp_eq [of "init_transmission _ _ _", OF init]
    unfolding wp_cbind [of "receive _ _"]
    by (rule wp_mono) (use keep in \<open>auto simp: wp_funs new_transmission_def\<close>)
qed

theorem pp_read_padded_witness:
  "wp (pp_read test_build \<lparr>ep_connection = sample_conn\<rparr>) (\<lambda>m u. peek u (msg_buffer m) (length ''hi'') = Some ''hi'')
    (sample_pp [Some \<lparr>incoming = map Arrives (padded 200 ''hi'') @ [], accepts = True, peer = Caller\<rparr>])"
proof -
  have p: "padded 200 ''hi'' = [''hi'' @ replicate 198 PAD]" by (subst padded.simps) simp
  show ?thesis
    by (rule wp_mono [OF pp_read_padded [where n = 200 and msg = "''hi''"]])
      (auto simp: p sample_conn_def descriptor_def PAD_def)
qed

end
