(* ===== verification/Packet.thy ===== *)
theory Packet
  imports Memory_Laws
begin

text \<open>
  \<^verbatim>\<open>lib/PP/packet.c\<close> and \<^verbatim>\<open>include/PP/packet.h\<close>: the packets that clients, master and
  workers exchange, their encoding into a byte buffer and the decoding of a received
  buffer. The argument of a packet is a pointer into the memory of \<open>C_Memory\<close>; the
  length field and the type are 32-bit, the error flag 16-bit, the token 64-bit.
\<close>

section \<open>Packets\<close>

text \<open>
  The enumeration of message types. A decoded packet holds whatever 32-bit value was on
  the wire, so the values that name no message are kept as \<open>Other\<close>.
\<close>

datatype ptype = PING | LS | WRITE | READ | APPEND | REGISTER | DELETE | Other u32

fun type_code :: "ptype \<Rightarrow> u32" where
  "type_code PING = 0"
| "type_code LS = 1"
| "type_code WRITE = 2"
| "type_code READ = 3"
| "type_code APPEND = 4"
| "type_code REGISTER = 5"
| "type_code DELETE = 6"
| "type_code (Other w) = w"

definition type_of_code :: "u32 \<Rightarrow> ptype" where
  "type_of_code w =
     (if w = 0 then PING else if w = 1 then LS else if w = 2 then WRITE
      else if w = 3 then READ else if w = 4 then APPEND else if w = 5 then REGISTER
      else if w = 6 then DELETE else Other w)"

record packet =
  seq_number :: u32
  arg :: ptr
  msg_len :: u32
  pk_error :: u16
  token :: u64
  msg_type :: ptype

text \<open>The size of \<^verbatim>\<open>struct packet\<close> with its padding, which the senders use as a length.\<close>

definition sizeof_packet :: nat where
  "sizeof_packet = 40"

text \<open>The bytes before the argument: three 4-byte fields, a 2-byte and an 8-byte one.\<close>

definition header_size :: nat where
  "header_size = 4 * 3 + 2 + 8"

definition p_init :: "u32 \<Rightarrow> ptr \<Rightarrow> ptype \<Rightarrow> (packet, 'z) mcmd" where
  "p_init seq a t =
     cbind (strlen a) (\<lambda>n.
     cbind (malloc (n + 1)) (\<lambda>dst.
     cseq (strcpy dst a)
       (cret \<lparr>seq_number = seq, arg = dst, msg_len = of_nat n, pk_error = 0, token = 0,
              msg_type = t\<rparr>)))"

definition attach_token :: "u64 \<Rightarrow> packet \<Rightarrow> packet" where
  "attach_token tok p = p\<lparr>token := tok\<rparr>"

text \<open>
  The size of the buffer is computed as in C: \<^verbatim>\<open>p.msg_len + 1\<close> is an addition of 32-bit
  unsigned integers, the rest is of type \<^verbatim>\<open>size_t\<close>.
\<close>

definition p_encode :: "packet \<Rightarrow> (ptr, 'z) mcmd" where
  "p_encode p =
     cbind (malloc (unat (msg_len p + 1) + 4 * 3 + 2 + 8)) (\<lambda>buffer.
     cseq (cblock
       [store buffer (enc32 (seq_number p)),
        store (padd buffer 4) (enc32 (msg_len p)),
        store (padd buffer (4 * 2)) (enc32 (type_code (msg_type p))),
        store (padd buffer (4 * 3)) (enc16 (pk_error p)),
        store (padd buffer (4 * 3 + 2)) (enc64 (token p)),
        memcpy (padd buffer (4 * 3 + 2 + 8)) (arg p) (unat (msg_len p))])
       (cret buffer))"

definition p_decode :: "ptr \<Rightarrow> (packet, 'z) mcmd" where
  "p_decode p =
     cbind (load p 4) (\<lambda>seq.
     cbind (load (padd p 4) 4) (\<lambda>len.
     cbind (load (padd p (4 * 2)) 4) (\<lambda>ty.
     cbind (load (padd p (4 * 3)) 2) (\<lambda>err.
     cbind (load (padd p (4 * 3 + 2)) 8) (\<lambda>tok.
     cbind (malloc (unat (dec_word len :: u32))) (\<lambda>a.
     cseq (memcpy a (padd p (4 * 3 + 2 + 8)) (unat (dec_word len :: u32)))
       (cret \<lparr>seq_number = dec_word seq, arg = a, msg_len = dec_word len,
              pk_error = dec_word err, token = dec_word tok,
              msg_type = type_of_code (dec_word ty)\<rparr>)))))))"

definition p_cleanup :: "packet \<Rightarrow> (unit, 'z) mcmd" where
  "p_cleanup p = free (arg p)"

definition p_error :: "u32 \<Rightarrow> ptr \<Rightarrow> ptype \<Rightarrow> u64 \<Rightarrow> (packet, 'z) mcmd" where
  "p_error seq a t tok =
     cbind (strlen a) (\<lambda>n.
     cbind (malloc (n + 1)) (\<lambda>dst.
     cseq (strcpy dst a)
       (cret \<lparr>seq_number = seq, arg = dst, msg_len = of_nat n, pk_error = 1, token = tok,
              msg_type = t\<rparr>)))"

section \<open>The wire format\<close>

text \<open>The bytes of a packet on the wire: the header fields in order, then the argument.\<close>

definition wire :: "packet \<Rightarrow> string \<Rightarrow> string" where
  "wire p body =
     enc32 (seq_number p) @ enc32 (msg_len p) @ enc32 (type_code (msg_type p)) @
     enc16 (pk_error p) @ enc64 (token p) @ body"

text \<open>The header fields that a buffer of at least \<open>header_size\<close> bytes holds.\<close>

definition wire_seq :: "string \<Rightarrow> u32" where "wire_seq bs = dec_word (take 4 bs)"
definition wire_len :: "string \<Rightarrow> u32" where "wire_len bs = dec_word (take 4 (drop 4 bs))"
definition wire_type :: "string \<Rightarrow> ptype" where
  "wire_type bs = type_of_code (dec_word (take 4 (drop 8 bs)))"
definition wire_error :: "string \<Rightarrow> u16" where "wire_error bs = dec_word (take 2 (drop 12 bs))"
definition wire_token :: "string \<Rightarrow> u64" where "wire_token bs = dec_word (take 8 (drop 14 bs))"

definition decoded :: "string \<Rightarrow> ptr \<Rightarrow> packet" where
  "decoded bs a = \<lparr>seq_number = wire_seq bs, arg = a, msg_len = wire_len bs,
     pk_error = wire_error bs, token = wire_token bs, msg_type = wire_type bs\<rparr>"

lemma type_of_code_code [simp]: "type_code (type_of_code w) = w"
  by (simp add: type_of_code_def)

definition known_type :: "ptype \<Rightarrow> bool" where
  "known_type t \<longleftrightarrow> (case t of Other w \<Rightarrow> 6 < w | _ \<Rightarrow> True)"

lemma type_code_of_code [simp]: "known_type t \<Longrightarrow> type_of_code (type_code t) = t"
  by (cases t) (auto simp: known_type_def type_of_code_def word_less_nat_alt)

lemma length_wire [bytes_simps]: "length (wire p body) = header_size + length body"
  by (simp add: wire_def header_size_def)

lemma wire_fields [simp]:
  "wire_seq (wire p body @ r) = seq_number p"
  "wire_len (wire p body @ r) = msg_len p"
  "known_type (msg_type p) \<Longrightarrow> wire_type (wire p body @ r) = msg_type p"
  "wire_error (wire p body @ r) = pk_error p"
  "wire_token (wire p body @ r) = token p"
  by (simp_all add: wire_def wire_seq_def wire_len_def wire_type_def wire_error_def
      wire_token_def)

lemmas wire_fields_alone [simp] = wire_fields [where r = "[]", unfolded append_Nil2]

section \<open>What the operations do\<close>

text \<open>
  Each rule has the shape in which the callers use it: what the operation needs of the
  memory, and what it establishes for the code that follows (\<open>Q\<close>).
\<close>

lemma wp_dup_str:
  assumes "wf_mem s" and "cstring s a = Some str"
    and "\<And>b t. \<lbrakk>grows s t; next_id s \<le> b; live t (Ptr b 0); cstring t (Ptr b 0) = Some str;
           peek t (Ptr b 0) (length str) = Some str\<rbrakk> \<Longrightarrow> Q (f (length str) (Ptr b 0)) t"
  shows "wp (cbind (strlen a) (\<lambda>n. cbind (malloc (n + 1)) (\<lambda>dst.
           cseq (strcpy dst a) (cret (f n dst))))) Q s"
proof -
  let ?k = "(fresh_block (Suc (length str)) s)
              \<lparr>bytes := overwrite 0 (str @ [NUL]) (fresh_bytes (Suc (length str)) s)\<rparr>"
  let ?t = "add_block ?k s"
  have no: "NUL \<notin> set str" using assms(2) by (cases a) (auto dest: c_str_no_nul split: option.splits)
  have g: "grows s ?t"
    by (intro grows_intros grows_refl [OF assms(1)]) simp
  have Q: "Q (f (length str) (Ptr (next_id s) 0)) ?t"
    by (rule assms(3) [OF g]) (simp_all add: overwrite_zero c_str_nul [OF no])
  show ?thesis using assms(1,2) Q by (simp add: wp_simps)
qed

lemma wp_p_init:
  assumes "wf_mem s" and "cstring s a = Some str"
    and "\<And>b t. \<lbrakk>grows s t; next_id s \<le> b; live t (Ptr b 0); cstring t (Ptr b 0) = Some str;
           peek t (Ptr b 0) (length str) = Some str\<rbrakk> \<Longrightarrow>
         Q \<lparr>seq_number = seq, arg = Ptr b 0, msg_len = of_nat (length str), pk_error = 0,
            token = 0, msg_type = ty\<rparr> t"
  shows "wp (p_init seq a ty) Q s"
  unfolding p_init_def by (rule wp_dup_str [OF assms(1,2)]) (rule assms(3))

lemma wp_p_error:
  assumes "wf_mem s" and "cstring s a = Some str"
    and "\<And>b t. \<lbrakk>grows s t; next_id s \<le> b; live t (Ptr b 0); cstring t (Ptr b 0) = Some str;
           peek t (Ptr b 0) (length str) = Some str\<rbrakk> \<Longrightarrow>
         Q \<lparr>seq_number = seq, arg = Ptr b 0, msg_len = of_nat (length str), pk_error = 1,
            token = tok, msg_type = ty\<rparr> t"
  shows "wp (p_error seq a ty tok) Q s"
  unfolding p_error_def by (rule wp_dup_str [OF assms(1,2)]) (rule assms(3))

text \<open>
  Encoding: unless the length field is the largest 32-bit number (where the size of the
  buffer wraps around), the buffer holds exactly the wire format, and what follows it is
  what the allocation found in memory.
\<close>

lemma unat_plus_one: "w \<noteq> - 1 \<Longrightarrow> unat (w + 1 :: 'a::len word) = Suc (unat w)"
  by (metis add.commute add_diff_cancel_right' plus_1_eq_Suc uminus_add_conv_diff
      unatSuc word_neq_0_conv diff_eq_eq add.left_neutral add.right_inverse)

lemma wp_p_encode:
  assumes wf: "wf_mem s" and len: "msg_len p \<noteq> - 1"
    and arg: "peek s (arg p) (unat (msg_len p)) = Some body"
    and Q: "\<And>n. n = unat (msg_len p) + 23 \<Longrightarrow>
      Q (Ptr (next_id s) 0) (add_block (filled n (wire p body) s) s)"
  shows "wp (p_encode p) Q s"
proof -
  obtain b i k where a: "arg p = Ptr b i" "blocks s b = Some k"
    and ik: "i + unat (msg_len p) \<le> length (bytes k)"
    and body: "body = take (unat (msg_len p)) (drop i (bytes k))"
    using arg by (cases "arg p") (auto split: option.splits if_splits)
  have ne: "b \<noteq> next_id s" using wf_mem_blocks [OF wf a(2)] by simp
  have lb: "length body = unat (msg_len p)" using length_peek [OF arg] .
  note Q' = Q [OF refl, unfolded filled_def wire_def]
  show ?thesis
    unfolding p_encode_def using a ne ik lb unat_plus_one [OF len] Q'
    by (simp add: wp_simps overwrite_adjacent body [symmetric] add.commute [of 23]
        del: overwrite_nil)
qed

text \<open>
  Decoding reads the header at \<open>p\<close> and as many further bytes as its length field says,
  whatever was received. The argument is a new block of exactly that many bytes: no NUL
  is added.
\<close>

definition wire_body :: "string \<Rightarrow> string" where
  "wire_body bs = take (unat (wire_len bs)) (drop header_size bs)"

lemma wp_p_decode:
  assumes wf: "wf_mem s" and bs: "peek s p (length bs) = Some bs"
    and len: "header_size + unat (wire_len bs) \<le> length bs"
    and Q: "\<And>n. n = unat (wire_len bs) \<Longrightarrow> length (wire_body bs) = n \<Longrightarrow>
      Q (decoded bs (Ptr (next_id s) 0)) (add_block (filled n (wire_body bs) s) s)"
  shows "wp (p_decode p) Q s"
proof -
  have part: "peek s (padd p i) n = Some (take n (drop i bs))" if "i + n \<le> length bs" for i n
    by (rule peek_part [OF bs that])
  have first: "peek s p 4 = Some (take 4 bs)"
    using len by (intro peek_take [OF bs]) (simp add: header_size_def)
  have lb: "length (wire_body bs) = unat (wire_len bs)"
    using len by (simp add: wire_body_def)
  have tail: "peek s (padd p 22) (unat (wire_len bs)) = Some (wire_body bs)"
    using part [of 22] len by (simp add: header_size_def wire_body_def)
  have tail': "peek (add_block k s) (padd p 22) (unat (wire_len bs)) = Some (wire_body bs)" for k
    by (rule peek_add_block [OF wf tail])
  show ?thesis
    unfolding p_decode_def
    using len tail' Q [OF refl lb]
    by (simp add: wp_simps first part header_size_def wire_len_def [symmetric] lb filled_def
        decoded_def wire_seq_def wire_type_def wire_error_def wire_token_def)
qed

text \<open>A buffer that is mapped for fewer bytes than the header claims makes decoding fault.\<close>

lemma p_decode_fault:
  assumes bs: "peek s p (length bs) = Some bs" and hdr: "header_size \<le> length bs"
    and len: "peek s (padd p header_size) (unat (wire_len bs)) = None"
    and p: "p = Ptr b i" and wf: "wf_mem s"
  shows "p_decode p s = Inl ReadOutside"
proof -
  have part: "peek s (padd p i) n = Some (take n (drop i bs))" if "i + n \<le> length bs" for i n
    by (rule peek_part [OF bs that])
  obtain k where k: "blocks s b = Some k" using bs p by (auto split: option.splits)
  have ne: "b \<noteq> next_id s" using wf_mem_blocks [OF wf k] by simp
  have i: "i + length bs \<le> length (bytes k)" "bs = take (length bs) (drop i (bytes k))"
    using bs p k by (auto split: if_splits)
  have ld: "load (Ptr b (i + j)) n s = Inr (take n (drop j bs), s)" if "j + n \<le> length bs" for j n
    using part [OF that] p k by (auto split: if_splits)
  have l0: "load (Ptr b i) n s = Inr (take n bs, s)" if "n \<le> length bs" for n
    using ld [of 0 n] that by simp
  have over: "\<not> i + 22 + unat (wire_len bs) \<le> length (bytes k)"
    using len p k by (auto simp: header_size_def split: if_splits)
  then show ?thesis
    using hdr ne k unfolding p_decode_def p
    by (simp add: cbind_def cseq_def l0 ld header_size_def malloc_def memcpy_def
        wire_len_def del: load.simps) (simp add: wire_len_def)
qed

section \<open>Properties\<close>

lemma encode_then:
  assumes wf: "wf_mem s" and len: "msg_len p \<noteq> - 1"
    and arg: "peek s (arg p) (unat (msg_len p)) = Some body"
    and Q: "\<And>b t. \<lbrakk>grows s t; next_id s \<le> b; peek t (Ptr b 0) (length (wire p body)) = Some (wire p body)\<rbrakk>
      \<Longrightarrow> Q (Ptr b 0) t"
  shows "wp (p_encode p) Q s"
proof (rule wp_p_encode [OF wf len arg])
  fix n assume n: "n = unat (msg_len p) + 23"
  let ?w = "wire p body"
  have l: "length ?w \<le> n + spare s (next_id s)"
    using length_peek [OF arg] by (simp add: n length_wire header_size_def)
  show "Q (Ptr (next_id s) 0) (add_block (filled n ?w s) s)"
    using grows_filled [OF wf l] peek_filled [OF l, of "length ?w"] by (intro Q) simp_all
qed

lemma decode_then:
  assumes wf: "wf_mem s" and bs: "peek s p (length bs) = Some bs"
    and len: "header_size + unat (wire_len bs) \<le> length bs"
    and Q: "\<And>b t. \<lbrakk>grows s t; next_id s \<le> b; live t (Ptr b 0);
        peek t (Ptr b 0) (unat (wire_len bs)) = Some (wire_body bs);
        cstring t (Ptr b 0) = c_str (wire_body bs @ after (unat (wire_len bs)) s)\<rbrakk>
      \<Longrightarrow> Q (decoded bs (Ptr b 0)) t"
  shows "wp (p_decode p) Q s"
proof (rule wp_p_decode [OF wf bs len])
  fix n assume n: "n = unat (wire_len bs)" and l: "length (wire_body bs) = n"
  have le: "length (wire_body bs) \<le> n + spare s (next_id s)" using l by simp
  show "Q (decoded bs (Ptr (next_id s) 0)) (add_block (filled n (wire_body bs) s) s)"
    using grows_filled [OF wf le] peek_filled [OF le, of n] cstring_filled [OF l]
    by (intro Q) (simp_all add: n [symmetric] l)
qed

lemma wire_body_wire [simp]:
  "length body = unat (msg_len p) \<Longrightarrow> wire_body (wire p body) = body"
  by (simp add: wire_body_def) (simp add: wire_def header_size_def)

lemma decoded_wire:
  "known_type (msg_type p) \<Longrightarrow> decoded (wire p body) a = p\<lparr>arg := a\<rparr>"
  by (simp add: decoded_def)

text \<open>
  C11. What a receiver decodes is what the sender encoded: sequence number, length, type,
  error flag and token come back unchanged, the decoded argument is a new block that
  starts with the bytes of the sender's argument, and no existing memory is touched.
  The one length excluded is \<^verbatim>\<open>UINT_MAX\<close>, where the size of the buffer wraps around.
\<close>

theorem packet_roundtrip:
  assumes wf: "wf_mem s" and len: "msg_len p \<noteq> - 1" and ty: "known_type (msg_type p)"
    and arg: "peek s (arg p) (unat (msg_len p)) = Some body"
  shows "wp (cbind (p_encode p) p_decode)
    (\<lambda>q t. grows s t \<and> q = p\<lparr>arg := arg q\<rparr> \<and> live t (arg q) \<and>
       peek t (arg q) (unat (msg_len p)) = Some body) s"
  unfolding wp_cbind
proof (rule encode_then [OF wf len arg])
  fix b t assume g: "grows s t" and pk: "peek t (Ptr b 0) (length (wire p body)) = Some (wire p body)"
  have lb: "length body = unat (msg_len p)" using length_peek [OF arg] .
  show "wp (p_decode (Ptr b 0))
     (\<lambda>q u. grows s u \<and> q = p\<lparr>arg := arg q\<rparr> \<and> live u (arg q) \<and>
       peek u (arg q) (unat (msg_len p)) = Some body) t"
    by (rule decode_then [OF grows_wf [OF g] pk])
      (use lb in \<open>auto simp: length_wire decoded_wire [OF ty] intro: grows_trans [OF g]\<close>)
qed

theorem packet_roundtrip_witness:
  "wp (cbind (p_encode \<lparr>seq_number = 7, arg = Ptr 0 0, msg_len = 3, pk_error = 0, token = 2,
         msg_type = WRITE\<rparr>) p_decode)
    (\<lambda>q t. grows (sample_mem ''a;b'') t \<and>
       q = \<lparr>seq_number = 7, arg = arg q, msg_len = 3, pk_error = 0, token = 2, msg_type = WRITE\<rparr> \<and>
       live t (arg q) \<and> peek t (arg q) 3 = Some ''a;b'') (sample_mem ''a;b'')"
  using packet_roundtrip [of "sample_mem ''a;b''" "\<lparr>seq_number = 7, arg = Ptr 0 0, msg_len = 3,
      pk_error = 0, token = 2, msg_type = WRITE\<rparr>" "''a;b''"]
  by (simp add: known_type_def)

text \<open>
  Encoding refines the wire format: the buffer it returns is a new block whose first
  \<open>22 + msg_len\<close> bytes are the header fields in order, little-endian, followed by the
  argument, and encoding changes nothing else.
\<close>

theorem p_encode_wire:
  assumes "wf_mem s" and "msg_len p \<noteq> - 1"
    and "peek s (arg p) (unat (msg_len p)) = Some body"
  shows "wp (p_encode p)
    (\<lambda>buf t. grows s t \<and> peek t buf (22 + unat (msg_len p)) = Some (wire p body)) s"
  using length_peek [OF assms(3)]
  by (intro encode_then [OF assms]) (simp add: length_wire header_size_def)

theorem p_encode_wire_witness:
  "wp (p_encode \<lparr>seq_number = 1, arg = Ptr 0 0, msg_len = 2, pk_error = 0, token = 2,
         msg_type = LS\<rparr>)
    (\<lambda>buf t. grows (sample_mem ''ab'') t \<and> peek t buf 24 =
       Some (map char_of [1, 0, 0, 0, 2, 0, 0, 0, 1, 0, 0, 0, 0, 0, 2, 0, 0, 0, 0, 0, 0, 0 :: nat] @ ''ab''))
    (sample_mem ''ab'')"
  using p_encode_wire [of "sample_mem ''ab''" "\<lparr>seq_number = 1, arg = Ptr 0 0, msg_len = 2,
      pk_error = 0, token = 2, msg_type = LS\<rparr>" "''ab''"]
  by (simp add: wire_def enc_word_def)

text \<open>
  The size of the encode buffer is computed with a 32-bit addition. For the length
  \<^verbatim>\<open>UINT_MAX\<close> it wraps around: the buffer gets 22 bytes and copying the argument
  overflows it, unless the allocator happened to add that many bytes.
\<close>

theorem p_encode_wraps:
  assumes "wf_mem s" and "msg_len p = - 1"
    and "peek s (arg p) (unat (msg_len p)) = Some body"
    and "spare s (next_id s) < 2 ^ 32 - 1"
  shows "p_encode p s = Inl Overflow"
proof -
  obtain b i k where a: "arg p = Ptr b i" "blocks s b = Some k"
    and ik: "i + unat (msg_len p) \<le> length (bytes k)"
    using assms(3) by (cases "arg p") (auto split: option.splits if_splits)
  have ne: "b \<noteq> next_id s" using wf_mem_blocks [OF assms(1) a(2)] by simp
  have big: "unat (msg_len p) = 2 ^ 32 - 1" by (simp add: assms(2) unsigned_minus_1_eq_mask mask_eq_exp_minus_1)
  show ?thesis
    unfolding p_encode_def using a ne ik big assms(2,4)
    by (simp add: cblock.simps cbind_def cseq_def cskip_def cret_def malloc_def memcpy_def)
qed

definition huge_arg :: mem where
  "huge_arg = (sample_mem [])\<lparr>blocks := [0 \<mapsto> \<lparr>usable = 0, bytes = replicate (2 ^ 32) CHR ''x'',
     on_heap = True\<rparr>]\<rparr>"

theorem p_encode_wraps_witness:
  "p_encode \<lparr>seq_number = 0, arg = Ptr 0 0, msg_len = - 1, pk_error = 0, token = 0,
     msg_type = READ\<rparr> huge_arg = Inl Overflow"
proof (rule p_encode_wraps)
  show "wf_mem huge_arg" by (simp add: huge_arg_def wf_mem_def)
qed (simp_all add: huge_arg_def unsigned_minus_1_eq_mask mask_eq_exp_minus_1)

text \<open>
  C34. Decoding trusts the length field of the sender. When it claims more bytes than were
  received, the argument is the received rest followed by whatever memory lies behind the
  receive buffer, as far as it is mapped.
\<close>

theorem p_decode_overread:
  assumes wf: "wf_mem s" and hdr: "header_size \<le> length recv"
    and more: "length recv < header_size + unat (wire_len recv)"
    and n: "n = header_size + unat (wire_len recv) - length recv"
    and mem: "peek s p (length recv + n) = Some (recv @ leak)"
  shows "wp (p_decode p) (\<lambda>q t. msg_len q = wire_len recv \<and>
    peek t (arg q) (unat (msg_len q)) = Some (drop header_size recv @ leak)) s"
proof -
  let ?bs = "recv @ leak"
  have l: "length ?bs = length recv + n" using length_peek [OF mem] .
  have same: "wire_len ?bs = wire_len recv"
    using hdr by (simp add: wire_len_def header_size_def)
  have body: "wire_body ?bs = drop header_size recv @ leak"
    using hdr more n l by (simp add: wire_body_def same)
  show ?thesis
    by (rule decode_then [OF wf, of p ?bs])
      (use mem hdr more n l in \<open>simp_all add: same body decoded_def\<close>)
qed

definition claims_four :: string where
  "claims_four = wire \<lparr>seq_number = 0, arg = Null, msg_len = 4, pk_error = 0, token = 0,
     msg_type = READ\<rparr> ''f''"

lemma claims_four_facts:
  "wire_len claims_four = 4" "length claims_four = 23" "drop 22 claims_four = ''f''"
  by (simp_all add: claims_four_def length_wire header_size_def)
    (simp add: wire_def)

theorem p_decode_overread_witness:
  "wp (p_decode (Ptr 0 0)) (\<lambda>q t. msg_len q = 4 \<and>
     peek t (arg q) (unat (msg_len q)) = Some (''f'' @ ''KEY''))
   (sample_mem (claims_four @ ''KEY!''))"
proof -
  have pk: "peek (sample_mem (claims_four @ ''KEY!'')) (Ptr 0 0) (length claims_four + 3) =
      Some (claims_four @ ''KEY'')"
    by (simp add: claims_four_facts)
  have "drop header_size claims_four = ''f''"
    by (simp add: claims_four_facts header_size_def)
  moreover have "wp (p_decode (Ptr 0 0)) (\<lambda>q t. msg_len q = wire_len claims_four \<and>
      peek t (arg q) (unat (msg_len q)) = Some (drop header_size claims_four @ ''KEY''))
     (sample_mem (claims_four @ ''KEY!''))"
    by (rule p_decode_overread [OF wf_sample_mem _ _ _ pk])
      (simp_all add: claims_four_facts header_size_def)
  ultimately show ?thesis unfolding claims_four_facts(1) by (simp only:)
qed

text \<open>
  The decoded argument is not terminated: read as a C string, it is the received
  argument followed by the bytes found in memory behind the new block, up to the first
  NUL among them; without one, reading it leaves mapped memory.
\<close>

theorem p_decode_unterminated:
  assumes wf: "wf_mem s" and bs: "peek s p (header_size + unat (wire_len bs)) = Some bs"
    and nul: "NUL \<notin> set (wire_body bs)"
  shows "wp (p_decode p) (\<lambda>q t. cstring t (arg q) =
    map_option (\<lambda>tail. wire_body bs @ tail) (c_str (after (unat (wire_len bs)) s))) s"
  using length_peek [OF bs] bs
  by (intro decode_then [OF wf, of p bs]) (simp_all add: decoded_def c_str_append [OF nul])

definition dirty_mem :: "string \<Rightarrow> mem" where
  "dirty_mem t = (sample_mem t)\<lparr>junk := (\<lambda>_ i. if i < 3 then CHR ''j'' else NUL), room := (\<lambda>_. 4)\<rparr>"

definition two_bytes :: string where
  "two_bytes = wire \<lparr>seq_number = 0, arg = Null, msg_len = 2, pk_error = 0, token = 0,
     msg_type = READ\<rparr> ''ab''"

lemma two_bytes_facts:
  "wire_len two_bytes = 2" "length two_bytes = 24" "wire_body two_bytes = ''ab''"
  by (simp_all add: two_bytes_def length_wire header_size_def)

theorem p_decode_unterminated_witness:
  "wp (p_decode (Ptr 0 0)) (\<lambda>q t. cstring t (arg q) = Some ''abj'') (dirty_mem two_bytes)"
proof -
  have a: "after 2 (dirty_mem two_bytes) = [CHR ''j'', NUL, NUL, NUL]"
    by (simp add: after_def fresh_bytes_def dirty_mem_def upt_conv_Cons)
  have "wf_mem (dirty_mem two_bytes)" by (simp add: dirty_mem_def wf_mem_def)
  moreover have "peek (dirty_mem two_bytes) (Ptr 0 0) 24 = Some two_bytes"
    by (simp add: dirty_mem_def two_bytes_facts)
  ultimately show ?thesis
    using p_decode_unterminated [of "dirty_mem two_bytes" "Ptr 0 0" two_bytes]
    by (simp add: two_bytes_facts header_size_def a)
qed

end
