(* ===== verification/Logger.thy ===== *)
theory Logger
  imports Comm
begin

text \<open>
  \<^verbatim>\<open>src/util/logger.c\<close>: messages of the form \<^verbatim>\<open>component: message\<close>, formed in one static
  buffer of 1000 bytes and printed with a colour that depends on their kind.
\<close>

text \<open>A C enumeration may hold a value that names no kind; the switch has a default for it.\<close>

datatype log_t = ERROR | WARNING | MESSAGE | IGNORE | BadKind

abbreviation COMP_MASTER :: string where "COMP_MASTER \<equiv> ''PekarDrive master''"
abbreviation COMP_WORKER :: string where "COMP_WORKER \<equiv> ''PekarDrive worker''"
abbreviation COMP_CLIENT :: string where "COMP_CLIENT \<equiv> ''PekarDrive client''"
abbreviation COMP_DEFAULT :: string where "COMP_DEFAULT \<equiv> ''PekarDrive''"

record logst = os +
  log_msg :: ptr

type_synonym ('a, 'z) lcmd = "('a, 'z logst_scheme) cmd"

definition RED :: string where "RED = CHR 0x1B # ''[31m''"
definition YELLOW :: string where "YELLOW = CHR 0x1B # ''[33m''"
definition PLAIN :: string where "PLAIN = CHR 0x1B # ''[0m''"

text \<open>\<^verbatim>\<open>printf("%s\n", p)\<close>.\<close>

definition print_line :: "ptr \<Rightarrow> (unit, 'z) ocmd" where
  "print_line p = cbind (get_str p) (\<lambda>t. log_event (Printed (t @ [CHR 0x0A])))"

definition log_ignore :: "string \<Rightarrow> piece \<Rightarrow> (ptr, 'z) lcmd" where
  "log_ignore component message =
     cbind (cget log_msg) (\<lambda>m.
     cseq (sprintf m [Txt component, Txt '': '', message]) (cret m))"

definition log_coloured :: "string \<Rightarrow> string \<Rightarrow> piece \<Rightarrow> (ptr, 'z) lcmd" where
  "log_coloured colour component message =
     cbind (log_ignore component message) (\<lambda>msg.
     cbind (strlen msg) (\<lambda>n.
     cbind (malloc (n + 10)) (\<lambda>buf.
     cseq (sprintf buf [Txt colour, PStr msg, Txt PLAIN])
     (cseq (print_line buf)
     (cseq (free buf) (cret msg))))))"

definition log_error :: "string \<Rightarrow> piece \<Rightarrow> (ptr, 'z) lcmd" where
  "log_error = log_coloured RED"

definition log_warning :: "string \<Rightarrow> piece \<Rightarrow> (ptr, 'z) lcmd" where
  "log_warning = log_coloured YELLOW"

definition log_message :: "string \<Rightarrow> piece \<Rightarrow> (ptr, 'z) lcmd" where
  "log_message component message =
     cbind (log_ignore component message) (\<lambda>msg. cseq (print_line msg) (cret msg))"

definition logger :: "log_t \<Rightarrow> string \<Rightarrow> piece \<Rightarrow> (ptr, 'z) lcmd" where
  "logger lt component message =
     cseq (cbind (cget log_msg) (\<lambda>m.
       cwhen (m = Null)
         (cbind (malloc 1000) (\<lambda>b. cmodify (\<lambda>s. s\<lparr>log_msg := b\<rparr>)))))
     (case lt of
        ERROR \<Rightarrow> log_error component message
      | WARNING \<Rightarrow> log_warning component message
      | MESSAGE \<Rightarrow> log_message component message
      | IGNORE \<Rightarrow> log_ignore component message
      | BadKind \<Rightarrow> literal ''PekarDrive: Invalid logging type.'')"

section \<open>The log buffer\<close>

text \<open>The buffer is not there yet, or it is a live block of 1000 bytes.\<close>

definition log_ok :: "'z logst_scheme \<Rightarrow> bool" where
  "log_ok s \<longleftrightarrow> wf_mem s \<and>
     (log_msg s = Null \<or>
      (\<exists>b k. log_msg s = Ptr b 0 \<and> blocks s b = Some k \<and> 1000 \<le> usable k))"

lemma logst_updates [simp]:
  "same_mem s (t\<lparr>log_msg := p\<rparr>) = same_mem s t" "mgrows s (t\<lparr>log_msg := p\<rparr>) = mgrows s t"
  "wf_mem (t\<lparr>log_msg := p\<rparr>) = wf_mem t" "peek (t\<lparr>log_msg := p\<rparr>) q n = peek t q n"
  "cstring (t\<lparr>log_msg := p\<rparr>) q = cstring t q" "writable (t\<lparr>log_msg := p\<rparr>) q n = writable t q n"
  "put q x (t\<lparr>log_msg := p\<rparr>) = (put q x t)\<lparr>log_msg := p\<rparr>"
  "add_block k (t\<lparr>log_msg := p\<rparr>) = (add_block k t)\<lparr>log_msg := p\<rparr>"
  "set_block b k (t\<lparr>log_msg := p\<rparr>) = (set_block b k t)\<lparr>log_msg := p\<rparr>"
  "del_block b (t\<lparr>log_msg := p\<rparr>) = (del_block b t)\<lparr>log_msg := p\<rparr>"
  by (simp_all add: same_mem_def mgrows_def wf_mem_def add_block_def set_block_def del_block_def)
    (cases q; simp add: put.simps set_block_def split: option.split)+

lemma logst_fields [simp]:
  "log_msg (put q x t) = log_msg t" "log_msg (add_block k t) = log_msg t"
  "log_msg (set_block b k t) = log_msg t" "log_msg (del_block b t) = log_msg t"
  "logst.more (put q x t) = logst.more t" "logst.more (add_block k t) = logst.more t"
  "logst.more (set_block b k t) = logst.more t" "logst.more (del_block b t) = logst.more t"
  by (cases q; simp add: put.simps set_block_def add_block_def del_block_def split: option.split)+

lemma logst_more:
  assumes "os.more t = os.more s"
  shows "log_msg t = log_msg s" "logst.more t = logst.more s"
  using assms by (cases s, cases t, simp)+

text \<open>
  The outcome of a log call: the text in the buffer, what is printed, and that apart from
  the buffer (and the trace) nothing that existed has changed.
\<close>

fun log_print :: "log_t \<Rightarrow> string \<Rightarrow> event list" where
  "log_print ERROR t = [Printed (RED @ t @ PLAIN @ [CHR 0x0A])]"
| "log_print WARNING t = [Printed (YELLOW @ t @ PLAIN @ [CHR 0x0A])]"
| "log_print MESSAGE t = [Printed (t @ [CHR 0x0A])]"
| "log_print IGNORE t = []"
| "log_print BadKind t = []"

definition log_frame :: "'z logst_scheme \<Rightarrow> 'z logst_scheme \<Rightarrow> bool" where
  "log_frame s t \<longleftrightarrow> log_ok t \<and> fds t = fds s \<and> net t = net s \<and> logst.more t = logst.more s \<and>
     next_id s \<le> next_id t \<and> junk t = junk s \<and> spare t = spare s \<and> room t = room s \<and>
     (log_msg s \<noteq> Null \<longrightarrow> log_msg t = log_msg s) \<and>
     (\<forall>b k. blocks s b = Some k \<and> log_msg s \<noteq> Ptr b 0 \<longrightarrow>
        blocks t b = Some k \<and> log_msg t \<noteq> Ptr b 0)"

lemma text_of_two:
  "text_of s [Txt a, Txt b, m] = map_option (\<lambda>r. a @ b @ r) (text_of s [m])"
  by (cases m) (simp_all add: option.map_comp comp_def split: option.split)

lemma text_of_mono: "mgrows s t \<Longrightarrow> text_of s ps = Some m \<Longrightarrow> text_of t ps = Some m"
proof (induction s ps arbitrary: m rule: text_of.induct)
  case (4 s p ps)
  then show ?case by (auto dest: mgrows_cstring split: option.splits)
qed (auto split: option.splits)

definition log_ready :: "'z logst_scheme \<Rightarrow> nat \<Rightarrow> bool" where
  "log_ready s b \<longleftrightarrow> wf_mem s \<and> log_msg s = Ptr b 0 \<and>
     (\<exists>k. blocks s b = Some k \<and> 1000 \<le> usable k)"

lemma log_ready_ok: "log_ready s b \<Longrightarrow> log_ok s"
  by (auto simp: log_ready_def log_ok_def)

lemma log_frame_refl: "log_ok s \<Longrightarrow> log_frame s s"
  by (simp add: log_frame_def)

text \<open>The first call allocates the buffer.\<close>

lemma log_setup:
  assumes ok: "log_ok s" and m: "text_of s [message] = Some m"
    and Q: "\<And>b t. \<lbrakk>log_ready t b; log_frame s t; text_of t [message] = Some m; trace t = trace s\<rbrakk>
      \<Longrightarrow> Q () t"
  shows "wp (cbind (cget log_msg) (\<lambda>p. cwhen (p = Null)
      (cbind (malloc 1000) (\<lambda>b. cmodify (\<lambda>s. s\<lparr>log_msg := b\<rparr>))))) Q s"
proof (cases "log_msg s = Null")
  case False
  with ok show ?thesis
    by (auto simp: wp_simps log_ok_def log_ready_def log_frame_def m intro!: Q)
next
  case True
  let ?u = "add_block (fresh_block 1000 s) s"
  have wf: "wf_mem s" using ok by (simp add: log_ok_def)
  have g: "grows s ?u" by (intro grows_intros grows_refl wf) simp
  have "text_of ?u [message] = Some m" by (rule text_of_mono [OF grows_mgrows [OF g] m])
  then have "text_of (?u\<lparr>log_msg := Ptr (next_id s) 0\<rparr>) [message] = Some m"
    by (cases message) (simp_all split: option.splits)
  with True g show ?thesis
    by (auto simp: wp_simps log_ready_def log_frame_def log_ok_def grows_wf
        wf_mem_next [OF wf] dest: wf_mem_blocks [OF wf] intro!: Q)
qed

text \<open>Forming the message in the buffer.\<close>

lemma log_ignore_then:
  assumes r: "log_ready s b" and m: "text_of s [message] = Some m"
    and no: "NUL \<notin> set (c @ '': '' @ m)" and len: "length (c @ '': '' @ m) < 1000"
    and Q: "\<And>t. \<lbrakk>log_ready t b; log_frame s t; cstring t (Ptr b 0) = Some (c @ '': '' @ m);
        trace t = trace s; next_id t = next_id s\<rbrakk> \<Longrightarrow> Q (Ptr b 0) t"
  shows "wp (log_ignore c message) Q s"
proof -
  obtain k where k: "blocks s b = Some k" "1000 \<le> usable k" and p: "log_msg s = Ptr b 0"
    and wf: "wf_mem s" using r by (auto simp: log_ready_def)
  let ?x = "c @ '': '' @ m @ [NUL]"
  let ?k = "k\<lparr>bytes := overwrite 0 ?x (bytes k)\<rparr>"
  have ub: "usable k \<le> length (bytes k)" by (rule wf_mem_usable [OF wf k(1)])
  have wf': "wf_mem (set_block b ?k s)"
    using wf_mem_blocks [OF wf k(1)] ub len k(2) by (intro wf_set_block wf) simp_all
  have cs: "c_str (c @ '': '' @ m @ NUL # r) = Some (c @ '': '' @ m)" for r
    using c_str_nul [OF no] by simp
  have "wp (sprintf (Ptr b 0) [Txt c, Txt '': '', message]) (\<lambda>_. Q (Ptr b 0)) s"
    using k len wf' p
    by (auto simp: wp_simps text_of_two m log_ready_def log_frame_def log_ok_def overwrite_zero
        cs [simplified] intro!: Q)
  then show ?thesis
    by (simp add: log_ignore_def wp_cbind wp_cseq wp_cget p) (rule wp_mono, assumption, simp add: wp_cret)
qed

lemma print_line_then:
  assumes "cstring s p = Some t"
  shows "wp (print_line p) Q s = Q () (s\<lparr>trace := trace s @ [Printed (t @ [CHR 0x0A])]\<rparr>)"
  using assms by (simp add: print_line_def wp_simps)

lemma log_frame_trans [trans]: "log_frame s t \<Longrightarrow> log_frame t u \<Longrightarrow> log_frame s u"
  unfolding log_frame_def by (intro conjI allI impI) (metis le_trans)+

lemma log_frame_trace:
  "log_ready s b \<Longrightarrow> log_ready (s\<lparr>trace := tr\<rparr>) b \<and> log_frame s (s\<lparr>trace := tr\<rparr>)"
  by (simp add: log_ready_def log_frame_def log_ok_def)

text \<open>The coloured variants form a second copy in a buffer that is just large enough.\<close>

lemma log_coloured_then:
  assumes r: "log_ready s b" and m: "text_of s [message] = Some m"
    and no: "NUL \<notin> set (c @ '': '' @ m)" and len: "length (c @ '': '' @ m) < 1000"
    and col: "length col = 5" "NUL \<notin> set col"
    and Q: "\<And>t. \<lbrakk>log_ready t b; log_frame s t; cstring t (Ptr b 0) = Some (c @ '': '' @ m);
        trace t = trace s @ [Printed (col @ (c @ '': '' @ m) @ PLAIN @ [CHR 0x0A])]\<rbrakk> \<Longrightarrow> Q (Ptr b 0) t"
  shows "wp (log_coloured col c message) Q s"
proof -
  have copy: "wp (cbind (strlen (Ptr b 0)) (\<lambda>n. cbind (malloc (n + 10)) (\<lambda>buf.
      cseq (sprintf buf [Txt col, PStr (Ptr b 0), Txt PLAIN])
        (cseq (print_line buf) (cseq (free buf) (cret (Ptr b 0))))))) Q t"
    if rt: "log_ready t b" and f: "log_frame s t" and tr: "trace t = trace s"
    and cs: "cstring t (Ptr b 0) = Some (c @ '': '' @ m)" for t
proof -
  let ?x = "c @ '': '' @ m" and ?n = "next_id t"
  have wf: "wf_mem t" using rt by (simp add: log_ready_def)
  have ne: "b \<noteq> ?n" using rt wf_mem_blocks [OF wf] by (auto simp: log_ready_def)
  let ?u = "add_block (fresh_block (length ?x + 10) t) t"
  have csu: "cstring ?u (Ptr b 0) = Some ?x" by (rule cstring_add_block [OF wf cs])
  let ?y = "col @ ?x @ PLAIN"
  have ny: "NUL \<notin> set ?y" using no col(2) by (simp add: PLAIN_def)
  have ly: "length ?y = length ?x + 9" using col(1) by (simp add: PLAIN_def)
  let ?k = "(fresh_block (length ?x + 10) t)
      \<lparr>bytes := overwrite 0 (?y @ [NUL]) (fresh_bytes (length ?x + 10) t)\<rparr>"
  let ?v = "add_block ?k t"
  have csv: "cstring ?v (Ptr ?n 0) = Some ?y"
    using c_str_nul [OF ny] by (simp add: overwrite_zero)
  let ?w = "del_block ?n (?v\<lparr>trace := trace t @ [Printed (?y @ [CHR 0x0A])]\<rparr>)"
  have g: "grows t (del_block ?n ?v)"
    using ly by (intro grows_intros grows_refl wf wf_mem_next) simp
  have "Q (Ptr b 0) ?w"
  proof (rule Q)
    have same: "blocks ?w b' = blocks t b'" for b'
      using wf_mem_next [OF wf] by simp
    show "log_ready ?w b"
      using rt grows_wf [OF g] ne by (simp add: log_ready_def)
    show "log_frame s ?w"
      using f grows_wf [OF g] rt ne same grows_oracles [OF g]
      by (auto simp: log_frame_def log_ok_def log_ready_def)
    show "cstring ?w (Ptr b 0) = Some ?x" using cs ne by simp
    show "trace ?w = trace s @ [Printed (col @ ?x @ PLAIN @ [CHR 0x0A])]" by (simp add: tr)
  qed
  moreover have "text_of ?u [Txt col, PStr (Ptr b 0), Txt PLAIN] = Some ?y"
    using csu by (simp del: cstring.simps)
  ultimately show ?thesis
    using ly csv by (simp add: wp_cbind wp_cseq wp_strlen cs wp_malloc wp_sprintf wp_format
        wp_free wp_cret print_line_then del: cstring.simps text_of.simps)
qed
  show ?thesis unfolding log_coloured_def
    by (subst wp_cbind, rule log_ignore_then [OF r m no len], rule copy)
qed

lemma log_message_then:
  assumes r: "log_ready s b" and m: "text_of s [message] = Some m"
    and no: "NUL \<notin> set (c @ '': '' @ m)" and len: "length (c @ '': '' @ m) < 1000"
    and Q: "\<And>t. \<lbrakk>log_ready t b; log_frame s t; cstring t (Ptr b 0) = Some (c @ '': '' @ m);
        trace t = trace s @ [Printed ((c @ '': '' @ m) @ [CHR 0x0A])]\<rbrakk> \<Longrightarrow> Q (Ptr b 0) t"
  shows "wp (log_message c message) Q s"
  unfolding log_message_def
proof (subst wp_cbind, rule log_ignore_then [OF r m no len])
  fix t assume rt: "log_ready t b" and f: "log_frame s t" and tr: "trace t = trace s"
    and cs: "cstring t (Ptr b 0) = Some (c @ '': '' @ m)"
  let ?u = "t\<lparr>trace := trace t @ [Printed ((c @ '': '' @ m) @ [CHR 0x0A])]\<rparr>"
  have "log_ready ?u b \<and> log_frame s ?u"
    using log_frame_trace [OF rt] log_frame_trans [OF f] by blast
  then show "wp (cseq (print_line (Ptr b 0)) (cret (Ptr b 0))) Q t"
    using cs tr Q [of ?u] by (simp add: wp_cseq print_line_then [OF cs] wp_cret)
qed

lemma logger_run:
  assumes ok: "log_ok s" and m: "text_of s [message] = Some m" and lt: "lt \<noteq> BadKind"
    and no: "NUL \<notin> set (c @ '': '' @ m)" and len: "length (c @ '': '' @ m) < 1000"
  shows "wp (logger lt c message)
    (\<lambda>p t. log_frame s t \<and> p = log_msg t \<and> cstring t p = Some (c @ '': '' @ m) \<and>
       trace t = trace s @ log_print lt (c @ '': '' @ m)) s"
  unfolding logger_def
proof (subst wp_cseq, rule log_setup [OF ok m])
  fix b t assume r: "log_ready t b" and f: "log_frame s t" and tr: "trace t = trace s"
    and mt: "text_of t [message] = Some m"
  let ?Q = "\<lambda>p u. log_frame s u \<and> p = log_msg u \<and> cstring u p = Some (c @ '': '' @ m) \<and>
       trace u = trace s @ log_print lt (c @ '': '' @ m)"
  have fin: "?Q (Ptr b 0) u"
    if "log_ready u b" "log_frame t u" "cstring u (Ptr b 0) = Some (c @ '': '' @ m)"
      "trace u = trace t @ log_print lt (c @ '': '' @ m)" for u
    using that log_frame_trans [OF f] tr by (auto simp: log_ready_def)
  show "wp (case lt of ERROR \<Rightarrow> log_error c message | WARNING \<Rightarrow> log_warning c message
      | MESSAGE \<Rightarrow> log_message c message | IGNORE \<Rightarrow> log_ignore c message
      | BadKind \<Rightarrow> literal ''PekarDrive: Invalid logging type.'') ?Q t"
  proof (cases lt)
    case ERROR
    then show ?thesis unfolding log_error_def using log_coloured_then [OF r mt no len, of RED ?Q] fin
      by (simp add: RED_def)
  next
    case WARNING
    then show ?thesis unfolding log_warning_def using log_coloured_then [OF r mt no len, of YELLOW ?Q] fin
      by (simp add: YELLOW_def)
  next
    case MESSAGE
    then show ?thesis using log_message_then [OF r mt no len, of ?Q] fin by simp
  next
    case IGNORE
    then show ?thesis using log_ignore_then [OF r mt no len, of ?Q] fin by simp
  qed (use lt in simp)
qed

text \<open>
  Every call of the logger forms \<^verbatim>\<open>component: message\<close> in its static buffer, which it
  allocates on the first call, prints it in the colour of its kind (not at all for
  \<^verbatim>\<open>IGNORE\<close>), and returns the buffer. The temporary copies are exactly large enough and
  are freed again: apart from the buffer no existing memory changes. The only limit is
  that the text and its NUL fit into the 1000 bytes.
\<close>

theorem logger_spec:
  assumes ok: "log_ok s" and m: "text_of s [message] = Some m" and lt: "lt \<noteq> BadKind"
    and no: "NUL \<notin> set (c @ '': '' @ m)" and len: "length (c @ '': '' @ m) < 1000"
  shows "wp (logger lt c message)
    (\<lambda>p t. log_frame s t \<and> p = log_msg t \<and> cstring t p = Some (c @ '': '' @ m) \<and>
       trace t = trace s @ log_print lt (c @ '': '' @ m)) s"
  using assms by (rule logger_run)

definition sample_log :: logst where
  "sample_log = \<lparr>blocks = [0 \<mapsto> \<lparr>usable = 3, bytes = ''up'' @ [NUL], on_heap = True\<rparr>], next_id = 1,
     junk = (\<lambda>_ _. CHR ''j''), spare = (\<lambda>_. 0), room = (\<lambda>_. 0),
     fds = [], net = [], trace = [], log_msg = Null\<rparr>"

theorem logger_spec_witness:
  "wp (logger WARNING COMP_WORKER (PStr (Ptr 0 0)))
    (\<lambda>p t. log_frame sample_log t \<and> p = log_msg t \<and>
       cstring t p = Some ''PekarDrive worker: up'' \<and>
       trace t = [Printed (YELLOW @ ''PekarDrive worker: up'' @ PLAIN @ [CHR 0x0A])]) sample_log"
proof -
  have "log_ok sample_log" by (simp add: log_ok_def sample_log_def wf_mem_def)
  moreover have "text_of sample_log [PStr (Ptr 0 0)] = Some ''up''" by (simp add: sample_log_def)
  ultimately show ?thesis
    using logger_spec [of sample_log "PStr (Ptr 0 0)" "''up''" WARNING COMP_WORKER]
    by (simp add: sample_log_def [THEN arg_cong [where f = trace], simplified])
qed

end
