(* ===== verification/Stability.thy ===== *)
theory Stability
  imports Packet Logger
begin

text \<open>
  Relations between the state before and after a command that composition keeps: what a whole
  program leaves alone is proved operation by operation. A reflexive and transitive relation is
  all that is needed; its instances are invariants, frames and orders on states.
\<close>

named_theorems stable \<open>commands that obey a relation\<close>

definition obeys :: "('s \<Rightarrow> 's \<Rightarrow> bool) \<Rightarrow> ('a, 's) cmd \<Rightarrow> bool" where
  "obeys R m \<longleftrightarrow> (\<forall>s x t. m s = Inr (x, t) \<longrightarrow> R s t)"

lemma obeysI: "(\<And>s x t. m s = Inr (x, t) \<Longrightarrow> R s t) \<Longrightarrow> obeys R m"
  by (simp add: obeys_def)

lemma obeysD: "obeys R m \<Longrightarrow> m s = Inr (x, t) \<Longrightarrow> R s t"
  by (simp add: obeys_def)

lemma obeys_wp: "obeys R m \<Longrightarrow> wp m Q s \<Longrightarrow> wp m (\<lambda>x t. Q x t \<and> R s t) s"
  by (auto simp: obeys_def wp_def split: sum.splits)

lemma obeys_mono: "obeys R m \<Longrightarrow> (\<And>s t. R s t \<Longrightarrow> R' s t) \<Longrightarrow> obeys R' m"
  by (simp add: obeys_def)

named_theorems stable_cases \<open>choices between commands that respect a relation\<close>

lemma obeys_choices:
  "obeys R m \<Longrightarrow> obeys R n \<Longrightarrow> obeys R (if b then m else n)"
  "obeys R m \<Longrightarrow> (\<And>x. obeys R (f x)) \<Longrightarrow> obeys R (case o' of None \<Rightarrow> m | Some x \<Rightarrow> f x)"
  "obeys R m \<Longrightarrow> (\<And>x xs. obeys R (g x xs)) \<Longrightarrow> obeys R (case l of [] \<Rightarrow> m | x # xs \<Rightarrow> g x xs)"
  "(\<And>x y. obeys R (h x y)) \<Longrightarrow> obeys R (case p of (x, y) \<Rightarrow> h x y)"
  "(\<And>x. obeys R (f x)) \<Longrightarrow> (\<And>y. obeys R (f' y)) \<Longrightarrow> obeys R (case r of Inl x \<Rightarrow> f x | Inr y \<Rightarrow> f' y)"
  by (simp_all split: option.split list.split prod.split sum.split)

locale transition =
  fixes R :: "'s \<Rightarrow> 's \<Rightarrow> bool"
  assumes refl: "R s s" and trans: "R s t \<Longrightarrow> R t u \<Longrightarrow> R s u"
begin

lemma steps:
  "obeys R (cret x)" "obeys R (cfail e)" "obeys R (cget g)" "obeys R cskip"
  by (simp_all add: obeys_def cret_def cfail_def cget_def cskip_def refl)

lemma bind: "obeys R m \<Longrightarrow> (\<And>x. obeys R (f x)) \<Longrightarrow> obeys R (cbind m f)"
  unfolding obeys_def by (blast elim: cbind_runs intro: trans)

lemma compose:
  "obeys R m \<Longrightarrow> obeys R n \<Longrightarrow> obeys R (cseq m n)"
  "obeys R m' \<Longrightarrow> obeys R (cwhen b m')"
  by (simp_all add: cseq_def bind cwhen_def steps)

lemma block: "(\<And>m. m \<in> set ms \<Longrightarrow> obeys R m) \<Longrightarrow> obeys R (cblock ms)"
  by (induction ms) (simp_all add: cblock.simps steps compose)

lemma loop: "(\<And>x. obeys R (body x)) \<Longrightarrow> obeys R (cloop n body x)"
proof (induction n arbitrary: x)
  case 0
  then show ?case by (simp add: cloop.simps steps)
next
  case (Suc n)
  have "obeys R (cloop n body y)" for y by (rule Suc.IH [OF Suc.prems])
  then show ?case unfolding cloop.simps by (intro bind Suc.prems obeys_choices steps)
qed

lemmas intros [stable] = obeys_choices steps bind compose loop

end

text \<open>An invariant of commands is the transition that keeps it.\<close>

abbreviation keeps :: "('s \<Rightarrow> bool) \<Rightarrow> ('a, 's) cmd \<Rightarrow> bool" where
  "keeps P \<equiv> obeys (\<lambda>s t. P s \<longrightarrow> P t)"

interpretation inv: transition "\<lambda>s t. P s \<longrightarrow> P t" for P :: "'s \<Rightarrow> bool"
  by unfold_locales auto

text \<open>A frame: the commands that leave what \<open>f\<close> observes as it is.\<close>

interpretation frame: transition "\<lambda>s t. f t = f s" for f :: "'s \<Rightarrow> 'v"
  by unfold_locales auto

lemma obeys_cases [stable]:
  "obeys R m \<Longrightarrow> (\<And>a. obeys R (h a)) \<Longrightarrow> obeys R (case r of Arrives a \<Rightarrow> h a | Timeout \<Rightarrow> m)"
  "(\<And>e. obeys R (i e)) \<Longrightarrow> (\<And>d. obeys R (j d)) \<Longrightarrow> obeys R (case q of Fails e \<Rightarrow> i e | Opens d \<Rightarrow> j d)"
  "\<lbrakk>obeys R a; obeys R b; obeys R c; obeys R d; obeys R e; obeys R f; obeys R g; \<And>w. obeys R (h' w)\<rbrakk> \<Longrightarrow>
   obeys R (case t of PING \<Rightarrow> a | LS \<Rightarrow> b | WRITE \<Rightarrow> c | READ \<Rightarrow> d | APPEND \<Rightarrow> e | REGISTER \<Rightarrow> f
     | DELETE \<Rightarrow> g | Other w \<Rightarrow> h' w)"
  by (simp_all split: arrival.split outcome.split ptype.split)

section \<open>Commands on memory and descriptors\<close>

text \<open>
  What the libraries are built from: a relation that the primitive operations on memory, the
  descriptors, the script and the trace obey is obeyed by all of them.
\<close>

locale os_commands = transition R for R :: "'z os_scheme \<Rightarrow> 'z os_scheme \<Rightarrow> bool" +
  assumes allocation: "obeys R (malloc n)" "obeys R (literal t)" "obeys R (free p)" "obeys R (realloc p n)"
    and writing: "obeys R (store p t)"
    and outside: "R s (s\<lparr>fds := ds\<rparr>)" "R s (s\<lparr>net := script\<rparr>)" "R s (s\<lparr>trace := trace s @ [e]\<rparr>)"
begin

declare allocation [stable] writing [stable]

lemma reading [stable]: "obeys R (load p n)" "obeys R (get_str p)" "obeys R (get_strn p n)"
  by (cases p; auto simp: obeys_def refl split: option.splits if_splits)+

lemma formatting [stable]: "obeys R (format ps)"
  by (induction ps rule: format.induct) (auto simp: format.simps intro!: stable)

lemma strings [stable]:
  "obeys R (memcpy d p n)" "obeys R (strlen p)" "obeys R (strcpy d p)" "obeys R (strncpy d p n)"
  "obeys R (sprintf d ps)"
  unfolding memcpy_def strlen_def strcpy_def strncpy_def sprintf_def by (intro stable)+

lemma descriptors [stable]:
  "obeys R (log_event e)" "obeys R next_outcome" "obeys R (new_descriptor d)" "obeys R (connect_fd f d)"
  "obeys R (set_incoming f d q)" "obeys R (sys_close f)"
proof -
  show log: "obeys R (log_event e)" for e by (simp add: obeys_def log_event_def cmodify_def outside)
  show "obeys R next_outcome"
    by (auto simp: obeys_def next_outcome_def refl outside split: list.splits)
  show "obeys R (new_descriptor d)" by (simp add: obeys_def new_descriptor_def outside)
  show "obeys R (connect_fd f d)" "obeys R (set_incoming f d q)"
    by (simp_all add: obeys_def connect_fd_def set_incoming_def cmodify_def outside)
  show "obeys R (sys_close f)"
    unfolding sys_close_def
    by (intro compose log) (auto simp: obeys_def cmodify_def refl outside)
qed

lemma system [stable]: "obeys R sys_socket" "obeys R (sys_send f p n)" "obeys R (sys_read f p n)"
  unfolding sys_socket_def sys_send_def sys_read_def by (intro stable)+

lemma connections [stable]:
  "obeys R (err_conn m n)" "obeys R (client_init h prt)" "obeys R (conn_listen B f prt)"
  "obeys R (conn_write B c p n)" "obeys R (conn_read B c p n)" "obeys R (conn_close B c)"
  unfolding err_conn_def client_init_def conn_listen_def conn_write_def conn_read_def conn_close_def
  by (intro stable)+

lemma packets [stable]:
  "obeys R (p_init i a t)" "obeys R (p_encode p)" "obeys R (p_decode q)" "obeys R (p_cleanup p)"
  "obeys R (p_error i a t w)"
  unfolding p_init_def p_encode_def p_decode_def p_cleanup_def p_error_def cblock.simps
  by (intro stable)+

end

section \<open>Commands that log\<close>

locale log_commands = os_commands R for R :: "'z logst_scheme \<Rightarrow> 'z logst_scheme \<Rightarrow> bool" +
  assumes message: "R s (s\<lparr>log_msg := p\<rparr>)"
begin

lemma set_message [stable]: "obeys R (cmodify (\<lambda>s. s\<lparr>log_msg := p\<rparr>))"
  by (simp add: obeys_def cmodify_def message)

lemma logging [stable]: "obeys R (logger lt c m)"
  unfolding logger_def log_error_def log_warning_def log_message_def log_coloured_def log_ignore_def
    print_line_def
  by (cases lt) (simp_all, (intro stable)+)

end

section \<open>Frames beyond memory and descriptors\<close>

text \<open>What is observed of the other components of the state.\<close>

locale beyond_os =
  fixes f :: "'z os_scheme \<Rightarrow> 'v"
  assumes beyond: "os.more t = os.more s \<Longrightarrow> f t = f s"

sublocale beyond_os \<subseteq> os_commands "\<lambda>s t. f t = f s"
proof unfold_locales
  show "obeys (\<lambda>s t. f t = f s) (malloc n)" "obeys (\<lambda>s t. f t = f s) (literal t)" for n t
    by (auto simp: obeys_def malloc_def literal_def intro!: beyond)
  show "obeys (\<lambda>s t. f t = f s) (free p)" "obeys (\<lambda>s t. f t = f s) (realloc p n)"
    "obeys (\<lambda>s t. f t = f s) (store p t)" for p n t
    by (cases p; auto simp: obeys_def malloc_def intro!: beyond split: option.splits if_splits)+
qed (auto intro!: beyond)

end
