(* ===== verification/Exchange.thy ===== *)
theory Exchange
  imports Packet Logger
begin

text \<open>
  How the programs exchange packets: reading one into a new buffer, decoding it, encoding
  one and sending it. These rules are shared by the master, the workers and the clients.
\<close>

section \<open>Descriptors\<close>

lemma descriptor_update: "0 \<le> j \<Longrightarrow> i \<noteq> j \<Longrightarrow> descriptor (ds[nat j := x]) i = descriptor ds i"
  by (auto simp: descriptor_def nth_list_update)

lemma descriptor_nonneg: "descriptor ds j = Some k \<Longrightarrow> 0 \<le> j"
  by (simp add: descriptor_def split: if_splits)

lemma descriptor_install_other:
  "i \<noteq> int (lowest_free ds) \<Longrightarrow> descriptor (install (lowest_free ds) d ds) i = descriptor ds i"
  using lowest_free_le [of ds] by (auto simp: descriptor_def install_def nth_append nth_list_update)

lemma descriptor_lowest: "descriptor ds (int (lowest_free ds)) = None"
proof -
  have "i < length ds \<Longrightarrow> i = lowest_free ds \<Longrightarrow> ds ! i = None" for i
    by (induction ds arbitrary: i rule: lowest_free.induct) auto
  then show ?thesis by (simp add: descriptor_def)
qed

section \<open>Accepting\<close>

lemma listen_then:
  assumes f: "descriptor (fds s) f = Some k" and net: "net s = Opens d # rs"
    and Q: "\<And>c u. \<lbrakk>io s u; net u = rs; effects (trace u) = effects (trace s); c_error c = 0;
        fd c = int (lowest_free (fds s)); descriptor (fds u) (fd c) = Some (d\<lparr>peer := Caller\<rparr>);
        \<And>i. i \<noteq> fd c \<Longrightarrow> descriptor (fds u) i = descriptor (fds s) i\<rbrakk> \<Longrightarrow> Q c u"
  shows "wp (conn_listen B f prt) Q s"
  unfolding conn_listen_def
proof (rule announce)
  fix tr assume tr: "effects tr = effects (trace s)"
  let ?c = "\<lparr>c_error = 0, error_msg = Null, fd = int (lowest_free (fds s)), max_bytes = 0\<rparr> :: conn"
  let ?u = "s\<lparr>trace := tr, net := rs, fds := install (lowest_free (fds s)) (d\<lparr>peer := Caller\<rparr>) (fds s)\<rparr>"
  have "Q ?c ?u"
  proof (rule Q)
    show "descriptor (fds ?u) i = descriptor (fds s) i" if "i \<noteq> fd ?c" for i
      using descriptor_install_other that by simp
  qed (simp_all add: io_def tr)
  then show "wp (cbind next_outcome (\<lambda>r. cbind (cget (\<lambda>s. descriptor (fds s) f)) (\<lambda>open.
      if open = None \<or> r = Fails AtOption then err_conn ''Failed setting socket option.'' ERR_MSG_LEN
      else if r = Fails AtBind \<or> r = Fails AtSocket then err_conn ''Failed binding.'' ERR_MSG_LEN
      else if r = Fails AtListen then err_conn ''Failed listening.'' ERR_MSG_LEN
      else case r of
          Fails _ \<Rightarrow> err_conn ''Failed accepting client.'' ERR_MSG_LEN
        | Opens d \<Rightarrow> cbind (new_descriptor (d\<lparr>peer := Caller\<rparr>)) (\<lambda>f.
            cret \<lparr>c_error = 0, error_msg = Null, fd = f, max_bytes = 0\<rparr>)))) Q (s\<lparr>trace := tr\<rparr>)"
    using f net by (simp add: wp_simps)
qed

lemma listen_fails_then:
  assumes wf: "wf_mem s" and f: "descriptor (fds s) f = Some k" and net: "net s = Fails g # rs"
    and Q: "\<And>c m u. \<lbrakk>io_mem s u; net u = rs; effects (trace u) = effects (trace s); fds u = fds s;
        c_error c = 1; cstring u (error_msg c) = Some m; length m < 50\<rbrakk> \<Longrightarrow> Q c u"
  shows "wp (conn_listen B f prt) Q s"
  unfolding conn_listen_def
proof (rule announce)
  fix tr assume tr: "effects tr = effects (trace s)"
  let ?s = "s\<lparr>trace := tr, net := rs\<rparr>"
  have m: "io_mem s ?s" using wf mgrows_refl by (simp add: io_mem_def)
  have e: "wp (err_conn msg ERR_MSG_LEN) Q ?s" if "length msg < 50" "NUL \<notin> set msg" for msg
  proof (rule err_conn_then)
    fix b t assume t: "grows ?s t" "cstring t (Ptr b 0) = Some msg"
    show "Q \<lparr>c_error = 1, error_msg = Ptr b 0, fd = 0, max_bytes = 0\<rparr> t"
      by (rule Q [OF io_mem_grows [OF m t(1)]])
        (use t that tr in \<open>simp_all add: grows_os [OF t(1)] del: cstring.simps\<close>)
  qed (use that wf in \<open>simp_all add: ERR_MSG_LEN_def\<close>)
  show "wp (cbind next_outcome (\<lambda>r. cbind (cget (\<lambda>s. descriptor (fds s) f)) (\<lambda>open.
      if open = None \<or> r = Fails AtOption then err_conn ''Failed setting socket option.'' ERR_MSG_LEN
      else if r = Fails AtBind \<or> r = Fails AtSocket then err_conn ''Failed binding.'' ERR_MSG_LEN
      else if r = Fails AtListen then err_conn ''Failed listening.'' ERR_MSG_LEN
      else case r of
          Fails _ \<Rightarrow> err_conn ''Failed accepting client.'' ERR_MSG_LEN
        | Opens d \<Rightarrow> cbind (new_descriptor (d\<lparr>peer := Caller\<rparr>)) (\<lambda>f.
            cret \<lparr>c_error = 0, error_msg = Null, fd = f, max_bytes = 0\<rparr>)))) Q (s\<lparr>trace := tr\<rparr>)"
    using f net by (cases g) (simp_all add: wp_cbind wp_cget wp_next_outcome e)
qed

section \<open>Receiving\<close>

text \<open>
  A message that fits arrives in a new block, at its start, and is taken off the connection.
\<close>

lemma read_buffer_then:
  assumes wf: "wf_mem s" and d: "descriptor (fds s) (fd c) = Some k"
    and inc: "incoming k = Arrives bs # q" and len: "length bs \<le> n"
    and Q: "\<And>b tail u. \<lbrakk>io_mem s u; next_id s \<le> b; live u (Ptr b 0);
        length tail = n - length bs; peek u (Ptr b 0) n = Some (bs @ tail); net u = net s; effects (trace u) = effects (trace s);
        fds u = (fds s)[nat (fd c) := Some (k\<lparr>incoming := q\<rparr>)]\<rbrakk>
      \<Longrightarrow> wp (K (Ptr b 0) (int (length bs))) Q u"
  shows "wp (cbind (malloc n) (\<lambda>buffer. cbind (conn_read B c buffer n) (K buffer))) Q s"
proof -
  let ?s = "add_block (fresh_block n s) s" and ?b = "next_id s"
  let ?k = "(fresh_block n s)\<lparr>bytes := overwrite 0 bs (fresh_bytes n s)\<rparr>"
  have t: "take n bs = bs" using len by simp
  have put: "put (Ptr ?b 0) bs ?s = add_block ?k s" by simp
  have mg: "mgrows s (add_block ?k s)"
    using len by (intro mgrows_add_block mgrows_refl wf) simp
  have "wp (conn_read B c (Ptr ?b 0) n) (\<lambda>m. wp (K (Ptr ?b 0) m) Q) ?s"
  proof (rule conn_read_then [OF _ inc])
    show "descriptor (fds ?s) (fd c) = Some k" using d by simp
    show "writable ?s (Ptr ?b 0) (length (take n bs))" using len by simp
    fix u assume u: "same_mem (put (Ptr ?b 0) (take n bs) ?s) u" "os.more u = os.more ?s"
      "net u = net ?s" "effects (trace u) = effects (trace ?s)"
      "fds u = (fds ?s)[nat (fd c) := Some (k\<lparr>incoming :=
          (if length bs \<le> n then q else Arrives (drop n bs) # q)\<rparr>)]"
    have sm: "same_mem (add_block ?k s) u" using u(1) unfolding t put .
    then have bl: "blocks u ?b = Some ?k" by (simp add: same_mem_def)
    let ?tail = "take (n - length bs) (drop (length bs) (fresh_bytes n s))"
    have "wp (K (Ptr ?b 0) (int (length bs))) Q u"
      by (rule Q [where tail = ?tail])
        (use u mgrows_same_mem [OF mg sm] bl len in \<open>simp_all add: io_mem_def overwrite_zero\<close>)
    then show "wp (K (Ptr ?b 0) (int (length (take n bs)))) Q u" unfolding t .
  qed
  then show ?thesis by (simp add: wp_cbind_fun wp_cbind wp_malloc)
qed

lemma read_message_then:
  assumes wf: "wf_mem s" and d: "descriptor (fds s) (fd c) = Some k"
    and inc: "incoming k = Arrives bs # q" and len: "length bs \<le> n"
    and Q: "\<And>b u. \<lbrakk>io_mem s u; next_id s \<le> b; live u (Ptr b 0);
        peek u (Ptr b 0) (length bs) = Some bs; net u = net s; effects (trace u) = effects (trace s);
        fds u = (fds s)[nat (fd c) := Some (k\<lparr>incoming := q\<rparr>)]\<rbrakk>
      \<Longrightarrow> wp (K (Ptr b 0) (int (length bs))) Q u"
  shows "wp (cbind (malloc n) (\<lambda>buffer. cbind (conn_read B c buffer n) (K buffer))) Q s"
proof (rule read_buffer_then [OF wf d inc len])
  fix b tail u
  assume u: "io_mem s u" "next_id s \<le> b" "live u (Ptr b 0)" "peek u (Ptr b 0) n = Some (bs @ tail)"
    "net u = net s" "effects (trace u) = effects (trace s)"
    "fds u = (fds s)[nat (fd c) := Some (k\<lparr>incoming := q\<rparr>)]"
  have "peek u (Ptr b 0) (length bs) = Some bs" using peek_take [OF u(4) len] by simp
  then show "wp (K (Ptr b 0) (int (length bs))) Q u" using u by (intro Q)
qed

text \<open>Decoding what was received, in the shape in which the handlers use it.\<close>

lemma decode_message_then:
  assumes io: "io_mem s u" and bs: "peek u (Ptr b 0) (length bs) = Some bs"
    and len: "header_size + unat (wire_len bs) \<le> length bs"
    and Q: "\<And>a t. \<lbrakk>grows u t; io_mem s t; next_id u \<le> a; live t (Ptr a 0);
        cstring t (Ptr a 0) = c_str (wire_body bs @ after (unat (wire_len bs)) u)\<rbrakk>
      \<Longrightarrow> Q (decoded bs (Ptr a 0)) t"
  shows "wp (p_decode (Ptr b 0)) Q u"
  by (rule decode_then [OF io_mem_wf [OF io] bs len])
    (use Q io_mem_grows [OF io] in \<open>blast intro: Q\<close>)

text \<open>A complete packet has arrived on the connection, which was accepted from its sender.\<close>

definition has_packet :: "conn \<Rightarrow> nat \<Rightarrow> string \<Rightarrow> 'z os_scheme \<Rightarrow> bool" where
  "has_packet c n bs s \<longleftrightarrow>
     (\<exists>k q. descriptor (fds s) (fd c) = Some k \<and> incoming k = Arrives bs # q \<and> accepts k \<and> peer k = Caller) \<and>
     length bs \<le> n \<and> header_size + unat (wire_len bs) \<le> length bs"

text \<open>
  The start of every handler, from the new buffer to the decoded packet: the buffer and
  the argument are two new blocks, the packet has been taken off the connection, and nothing
  else has changed.
\<close>

lemma packet_arrives_then:
  assumes wf: "wf_mem s" and p: "has_packet c n bs s"
    and Q: "\<And>b a t. \<lbrakk>io_mem s t; net t = net s; effects (trace t) = effects (trace s);
        next_id s \<le> b; live t (Ptr b 0); live t (Ptr a 0);
        \<exists>k. descriptor (fds t) (fd c) = Some k \<and> accepts k \<and> peer k = Caller;
        clean_mem s \<Longrightarrow> NUL \<notin> set (wire_body bs) \<Longrightarrow> cstring t (Ptr a 0) = Some (wire_body bs);
        next_id s \<le> a; a \<noteq> b; \<And>i. i \<noteq> fd c \<Longrightarrow> descriptor (fds t) i = descriptor (fds s) i\<rbrakk>
      \<Longrightarrow> wp (K (Ptr b 0) (decoded bs (Ptr a 0))) Q t"
  shows "wp (cbind (malloc n) (\<lambda>buffer. cbind (conn_read B c buffer n) (\<lambda>m.
    if m \<le> 0 then E buffer else cbind (p_decode buffer) (K buffer)))) Q s"
proof -
  obtain k q where d: "descriptor (fds s) (fd c) = Some k" "incoming k = Arrives bs # q" "accepts k"
      "peer k = Caller" and len: "length bs \<le> n" "header_size + unat (wire_len bs) \<le> length bs"
    using p by (auto simp: has_packet_def)
  show ?thesis
  proof (rule read_message_then [OF wf d(1,2) len(1)])
    fix b u assume u: "io_mem s u" "next_id s \<le> b" "live u (Ptr b 0)"
      "peek u (Ptr b 0) (length bs) = Some bs" "net u = net s" "effects (trace u) = effects (trace s)"
      "fds u = (fds s)[nat (fd c) := Some (k\<lparr>incoming := q\<rparr>)]"
    have d': "descriptor (fds u) (fd c) = Some (k\<lparr>incoming := q\<rparr>)"
      using d(1) by (auto simp: u(7) descriptor_def split: if_splits)
    have other: "descriptor (fds u) i = descriptor (fds s) i" if "i \<noteq> fd c" for i
      using that descriptor_update [OF descriptor_nonneg [OF d(1)] that] by (simp add: u(7))
    have "b < next_id u" using u(3) by (auto dest: wf_mem_blocks [OF io_mem_wf [OF u(1)]])
    then have below: "next_id s \<le> a \<and> a \<noteq> b" if "next_id u \<le> a" for a
      using that u(2) by simp
    have "wp (cbind (p_decode (Ptr b 0)) (K (Ptr b 0))) Q u"
      unfolding wp_cbind
    proof (rule decode_message_then [OF u(1,4) len(2)])
      fix a t assume t: "grows u t" "io_mem s t" "next_id u \<le> a" "live t (Ptr a 0)"
        "cstring t (Ptr a 0) = c_str (wire_body bs @ after (unat (wire_len bs)) u)"
      have "cstring t (Ptr a 0) = Some (wire_body bs)"
        if "clean_mem s" "NUL \<notin> set (wire_body bs)"
      proof -
        have "clean_mem u" using clean_mgrows [OF io_mem_mgrows [OF u(1)] that(1)] .
        then obtain r where "after (unat (wire_len bs)) u = NUL # r" by (rule clean_after)
        then show ?thesis using t(5) c_str_nul [OF that(2)] by simp
      qed
      then show "wp (K (Ptr b 0) (decoded bs (Ptr a 0))) Q t"
        using below [OF t(3)] other
        by (intro Q) (use t u d' d(3,4) grows_live [OF t(1) u(3)] in
          \<open>simp_all add: grows_os [OF t(1)] del: live.simps cstring.simps\<close>)
    qed
    moreover have "\<not> int (length bs) \<le> 0" using len(2) by (cases bs) (simp_all add: header_size_def)
    ultimately show "wp (if int (length bs) \<le> 0 then E (Ptr b 0)
        else cbind (p_decode (Ptr b 0)) (K (Ptr b 0))) Q u" by simp
  qed
qed

section \<open>Sending\<close>

text \<open>
  The senders pass a length that is larger than the encoded packet: what is sent is the
  packet and the bytes that follow it in memory.
\<close>

lemma encoded_then:
  assumes wf: "wf_mem s" and len: "msg_len p \<noteq> - 1"
    and arg: "peek s (arg p) (unat (msg_len p)) = Some body"
    and n: "22 + unat (msg_len p) \<le> n"
      "n \<le> 23 + unat (msg_len p) + spare s (next_id s) + room s (next_id s)"
    and Q: "\<And>leak b t. \<lbrakk>grows s t; length leak = n - (22 + unat (msg_len p));
        peek t (Ptr b 0) n = Some (wire p body @ leak)\<rbrakk> \<Longrightarrow> Q (Ptr b 0) t"
  shows "wp (p_encode p) Q s"
proof (rule wp_p_encode [OF wf len arg])
  fix m assume m: "m = unat (msg_len p) + 23"
  let ?w = "wire p body" and ?b = "next_id s"
  let ?s = "add_block (filled m ?w s) s"
  have lw: "length ?w = 22 + unat (msg_len p)"
    using length_peek [OF arg] by (simp add: length_wire header_size_def)
  have g: "grows s ?s" by (rule grows_filled [OF wf]) (simp add: lw m)
  let ?leak = "take (n - length ?w) (drop (length ?w) (fresh_bytes m s))"
  have "peek ?s (Ptr ?b 0) n = Some (?w @ ?leak)"
    using n lw m by (simp add: bytes_filled)
  moreover have "length ?leak = n - (22 + unat (msg_len p))" using n lw m by simp
  ultimately show "Q (Ptr ?b 0) ?s" by (intro Q g)
qed

lemma send_packet_then:
  assumes wf: "wf_mem s" and len: "msg_len p \<noteq> - 1"
    and arg: "peek s (arg p) (unat (msg_len p)) = Some body"
    and d: "descriptor (fds s) (fd c) = Some k" "accepts k"
    and n: "22 + unat (msg_len p) \<le> n"
      "n \<le> 23 + unat (msg_len p) + spare s (next_id s) + room s (next_id s)"
    and Q: "\<And>leak u. \<lbrakk>io_mem s u; fds u = fds s; net u = net s;
        length leak = n - (22 + unat (msg_len p));
        effects (trace u) = effects (trace s) @ [Sent (fd c) (peer k) (wire p body @ leak)]\<rbrakk>
      \<Longrightarrow> wp (K (int n)) Q u"
  shows "wp (cbind (p_encode p) (\<lambda>pk. cbind (conn_write B c pk n) K)) Q s"
  unfolding wp_cbind [of "p_encode p"]
proof (rule encoded_then [OF wf len arg n])
  fix leak b t
  assume t: "grows s t" and ll: "length leak = n - (22 + unat (msg_len p))"
    and pk: "peek t (Ptr b 0) n = Some (wire p body @ leak)"
  show "wp (cbind (conn_write B c (Ptr b 0) n) K) Q t"
    unfolding wp_cbind
  proof (rule conn_write_then [OF _ d(2) pk])
    show "descriptor (fds t) (fd c) = Some k" using d(1) by (simp add: grows_os [OF t])
    fix u assume u: "io t u" "fds u = fds t" "net u = net t"
      "effects (trace u) = effects (trace t) @ [Sent (fd c) (peer k) (wire p body @ leak)]"
    show "wp (K (int n)) Q u"
      by (rule Q [OF io_mem_io [OF grows_io_mem [OF t] u(1)] _ _ ll])
        (use u in \<open>simp_all add: grows_os [OF t]\<close>)
  qed
qed

section \<open>Sending a new packet\<close>

text \<open>The bytes of a packet with the argument \<open>str\<close>.\<close>

definition wire_msg :: "u32 \<Rightarrow> ptype \<Rightarrow> u64 \<Rightarrow> string \<Rightarrow> string" where
  "wire_msg seq ty tok str = wire \<lparr>seq_number = seq, arg = Null, msg_len = of_nat (length str),
     pk_error = 0, token = tok, msg_type = ty\<rparr> str"

lemma unat_length: "length str < 2 ^ 32 \<Longrightarrow> unat (of_nat (length str) :: u32) = length str"
  by (simp only: unsigned_of_nat) (simp add: take_bit_nat_eq_self)

lemma length_not_top:
  assumes "length str + 1 < 2 ^ 32"
  shows "(of_nat (length str) :: u32) \<noteq> - 1"
proof
  assume "(of_nat (length str) :: u32) = - 1"
  then have "unat (of_nat (length str) :: u32) = unat (- 1 :: u32)" by simp
  then show False using assms unat_length [of str] by (simp add: unsigned_minus_1_eq_mask mask_eq_exp_minus_1)
qed

lemma wire_msg_fields [simp]:
  "wire_seq (wire_msg seq ty tok str) = seq" "wire_token (wire_msg seq ty tok str) = tok"
  "wire_len (wire_msg seq ty tok str) = of_nat (length str)" "wire_error (wire_msg seq ty tok str) = 0"
  "known_type ty \<Longrightarrow> wire_type (wire_msg seq ty tok str) = ty"
  "length (wire_msg seq ty tok str) = header_size + length str"
  "length str < 2 ^ 32 \<Longrightarrow> wire_body (wire_msg seq ty tok str) = str"
  by (simp_all add: wire_msg_def length_wire unat_length)

lemma wire_msg_more:
  "wire_len (wire_msg seq ty tok str @ r) = of_nat (length str)"
  "wire_token (wire_msg seq ty tok str @ r) = tok" "wire_seq (wire_msg seq ty tok str @ r) = seq"
  "known_type ty \<Longrightarrow> wire_type (wire_msg seq ty tok str @ r) = ty"
  by (simp_all add: wire_msg_def)

lemma wire_msg_body:
  assumes "length str < 2 ^ 32"
  shows "wire_body (wire_msg seq ty tok str @ r) = str"
proof -
  have "drop header_size (wire_msg seq ty tok str @ r) = str @ r"
    by (simp add: wire_msg_def wire_def header_size_def)
  then show ?thesis using unat_length [OF assms] by (simp add: wire_body_def wire_msg_more)
qed

lemma send_new_then:
  assumes wf: "wf_mem s" and str: "cstring s a = Some str" and len: "length str + 1 < 2 ^ 32"
    and d: "descriptor (fds s) (fd c) = Some k" "accepts k"
    and n: "22 + length str \<le> n" "\<And>j. n \<le> 23 + length str + spare s j + room s j"
    and Q: "\<And>leak u. \<lbrakk>io_mem s u; fds u = fds s; net u = net s; length leak = n - (22 + length str);
        effects (trace u) = effects (trace s) @ [Sent (fd c) (peer k) (wire_msg seq ty tok str @ leak)]\<rbrakk>
      \<Longrightarrow> Q (int n) u"
  shows "wp (cbind (p_init seq a ty) (\<lambda>p. cbind (p_encode (attach_token tok p))
    (\<lambda>pk. conn_write B c pk n))) Q s"
  unfolding wp_cbind [of "p_init seq a ty"]
proof (rule wp_p_init [OF wf str])
  fix b t
  assume t: "grows s t" "next_id s \<le> b" "live t (Ptr b 0)" "cstring t (Ptr b 0) = Some str"
    "peek t (Ptr b 0) (length str) = Some str"
  let ?p = "attach_token tok \<lparr>seq_number = seq, arg = Ptr b 0, msg_len = of_nat (length str),
     pk_error = 0, token = 0, msg_type = ty\<rparr>"
  have u: "unat (of_nat (length str) :: u32) = length str" using len by (intro unat_length) simp
  note top = length_not_top [OF len]
  have w: "wire ?p str = wire_msg seq ty tok str"
    by (simp add: wire_def wire_msg_def attach_token_def)
  have "wp (cbind (p_encode ?p) (\<lambda>pk. cbind (conn_write B c pk n) cret)) Q t"
  proof (rule send_packet_then [OF grows_wf [OF t(1)]])
    show "peek t (arg ?p) (unat (msg_len ?p)) = Some str" using t(5) u by (simp add: attach_token_def)
    show "descriptor (fds t) (fd c) = Some k" using d(1) by (simp add: grows_os [OF t(1)])
    show "n \<le> 23 + unat (msg_len ?p) + spare t (next_id t) + room t (next_id t)"
      using n(2) u by (simp add: attach_token_def grows_oracles [OF t(1)])
    fix leak v
    assume v: "io_mem t v" "fds v = fds t" "net v = net t" "length leak = n - (22 + unat (msg_len ?p))"
      "effects (trace v) = effects (trace t) @ [Sent (fd c) (peer k) (wire ?p str @ leak)]"
    have "Q (int n) v"
      by (rule Q [OF io_mem_trans [OF grows_io_mem [OF t(1)] v(1)]])
        (use v [unfolded w] u in \<open>simp_all add: grows_os [OF t(1)] attach_token_def\<close>)
    then show "wp (cret (int n)) Q v" by (simp add: wp_cret)
  qed (use d n u top in \<open>simp_all add: attach_token_def\<close>)
  then show "wp (cbind (p_encode ?p) (\<lambda>pk. conn_write B c pk n)) Q t" by (simp add: cbind_cret)
qed

lemma io_mem_free:
  assumes wf: "wf_mem s" and t: "io_mem s t" and b: "next_id s \<le> b"
  shows "io_mem s (del_block b t)"
  using mgrows_del_block [OF io_mem_mgrows [OF t] wf_mem_fresh [OF wf b]] t by (simp add: io_mem_def)

section \<open>Logging around an exchange\<close>

lemma logger_then:
  assumes ok: "log_ok s" and m: "text_of s [message] = Some m" and lt: "lt \<noteq> BadKind"
    and no: "NUL \<notin> set (c @ '': '' @ m)" and len: "length (c @ '': '' @ m) < 1000"
    and Q: "\<And>t. \<lbrakk>log_frame s t; effects (trace t) = effects (trace s)\<rbrakk> \<Longrightarrow> Q (log_msg t) t"
  shows "wp (logger lt c message) Q s"
proof (rule wp_mono [OF logger_run [OF ok m lt no len]])
  fix p t
  assume t: "log_frame s t \<and> p = log_msg t \<and> cstring t p = Some (c @ '': '' @ m) \<and>
       trace t = trace s @ log_print lt (c @ '': '' @ m)"
  have "effects (log_print lt x) = []" for x by (cases lt) simp_all
  then show "Q p t" using t Q by simp
qed

text \<open>What existed before a log call and is not the log buffer is still there.\<close>

lemma log_frame_blocks:
  assumes "log_frame s t" and "blocks s b = Some k" and "log_msg s \<noteq> Ptr b 0"
  shows "blocks t b = Some k" "log_msg t \<noteq> Ptr b 0"
  using assms unfolding log_frame_def by blast+

lemma log_frame_live:
  assumes "log_frame s t" and "live s (Ptr b 0)" and "log_msg s \<noteq> Ptr b 0"
  shows "live t (Ptr b 0)" "log_msg t \<noteq> Ptr b 0"
  using assms(2) log_frame_blocks [OF assms(1) _ assms(3)] by auto

lemma log_frame_cstring:
  assumes "log_frame s t" and "cstring s (Ptr b i) = Some x" and "log_msg s \<noteq> Ptr b 0"
  shows "cstring t (Ptr b i) = Some x"
  using assms(2) log_frame_blocks(1) [OF assms(1) _ assms(3)] by (auto split: option.splits)

lemma log_frame_new:
  assumes ok: "log_ok s" and g: "grows s t"
  shows "log_frame s t"
  using assms logst_more(1) [OF grows_os(4) [OF g]]
  by (auto simp: log_frame_def log_ok_def grows_os [OF g] grows_oracles [OF g] grows_wf [OF g]
      grows_next [OF g] logst_more [OF grows_os(4) [OF g]] dest: grows_blocks [OF g])

lemma log_ok_io: "log_ok s \<Longrightarrow> io_mem s t \<Longrightarrow> log_ok t"
  using logst_more(1) [of t s] unfolding log_ok_def io_mem_def
  by (auto dest: mgrows_wf mgrows_blocks)

lemma log_ok_below: "log_ok s \<Longrightarrow> next_id s \<le> b \<Longrightarrow> log_msg s \<noteq> Ptr b 0"
  by (auto simp: log_ok_def dest: wf_mem_blocks)

lemma log_frame_wf: "log_frame s t \<Longrightarrow> wf_mem t"
  by (simp add: log_frame_def log_ok_def)

section \<open>Examples\<close>

lemma known_types [simp]:
  "known_type PING" "known_type LS" "known_type WRITE" "known_type READ" "known_type APPEND"
  "known_type REGISTER" "known_type DELETE"
  by (simp_all add: known_type_def)

definition sample_conn :: conn where
  "sample_conn = \<lparr>c_error = 0, error_msg = Null, fd = 0, max_bytes = 0\<rparr>"

definition carries :: "string \<Rightarrow> sock" where
  "carries bs = \<lparr>incoming = [Arrives bs], accepts = True, peer = Caller\<rparr>"

lemma carries_simps [simp]: "incoming (carries bs) = [Arrives bs]" "accepts (carries bs)" "peer (carries bs) = Caller"
  by (simp_all add: carries_def)

end
