(* ===== verification/Fs.thy ===== *)
theory Fs
  imports Exchange
begin

text \<open>
  \<^verbatim>\<open>src/fs/fs.c\<close>: the files of a worker. The file system is a map from paths to contents
  together with the set of paths that may be written; the number of open streams shows who
  does not close what it opened. What the shell does with a command is a parameter \<open>sh\<close>:
  the code runs \<^verbatim>\<open>rm\<close> and \<^verbatim>\<open>mkdir\<close> through \<^verbatim>\<open>system\<close>.
\<close>

section \<open>State\<close>

type_synonym file_map = "string \<Rightarrow> string option"

type_synonym shell = "string \<Rightarrow> file_map \<Rightarrow> file_map"

record fsys = logst +
  files :: file_map
  may_write :: "string \<Rightarrow> bool"
  streams :: nat
  work_dir :: ptr

type_synonym ('a, 'z) fcmd = "('a, 'z fsys_scheme) cmd"

definition READ_SIZE :: nat where "READ_SIZE = 100"

section \<open>The streams of the C library\<close>

text \<open>
  \<^verbatim>\<open>fopen\<close> for reading, writing and appending; a stream stands for the path it was opened
  with. Opening through a null pointer is a fault.
\<close>

datatype mode = ModeR | ModeW | ModeA

definition open_path :: "string \<Rightarrow> mode \<Rightarrow> (bool, 'z) fcmd" where
  "open_path path m =
     cbind (cget (\<lambda>s. (files s path, may_write s path))) (\<lambda>(old, w).
     if (if m = ModeR then old = None else \<not> w) then cret False
     else
       cseq (cmodify (\<lambda>s. s\<lparr>streams := Suc (streams s),
         files := (if m = ModeR then files s
           else (files s)(path \<mapsto> (if m = ModeW then [] else case old of None \<Rightarrow> [] | Some t \<Rightarrow> t)))\<rparr>))
       (cret True))"

definition fopen :: "ptr \<Rightarrow> mode \<Rightarrow> (string option, 'z) fcmd" where
  "fopen p m =
     cbind (get_str p) (\<lambda>path.
     cbind (open_path path m) (\<lambda>ok. cret (if ok then Some path else None)))"

definition fclose :: "(unit, 'z) fcmd" where
  "fclose = cmodify (\<lambda>s. s\<lparr>streams := streams s - 1\<rparr>)"

text \<open>\<^verbatim>\<open>fprintf(f, "%s", p)\<close> on a stream that was just opened for writing or appending.\<close>

definition fprint_str :: "string \<Rightarrow> ptr \<Rightarrow> (int, 'z) fcmd" where
  "fprint_str path p =
     cbind (get_str p) (\<lambda>t.
     cseq (cmodify (\<lambda>s. s\<lparr>files := (files s)(path \<mapsto> (case files s path of None \<Rightarrow> t | Some old \<Rightarrow> old @ t))\<rparr>))
       (cret (int (length t))))"

definition run_shell :: "shell \<Rightarrow> ptr \<Rightarrow> (unit, 'z) fcmd" where
  "run_shell sh p =
     cbind (get_str p) (\<lambda>c.
     cseq (log_event (Ran c)) (cmodify (\<lambda>s. s\<lparr>files := sh c (files s)\<rparr>)))"

text \<open>A message of the verbose builds.\<close>

definition log_text :: "build \<Rightarrow> log_t \<Rightarrow> string \<Rightarrow> string \<Rightarrow> (unit, 'z) lcmd" where
  "log_text B lt component m = cwhen (verbose B) (cseq (logger lt component (Txt m)) cskip)"

section \<open>Operations\<close>

definition set_dir :: "ptr \<Rightarrow> (unit, 'z) fcmd" where
  "set_dir dir =
     cbind (strlen dir) (\<lambda>n.
     cbind (malloc (n + 1)) (\<lambda>d.
     cseq (cmodify (\<lambda>s. s\<lparr>work_dir := d\<rparr>)) (strcpy d dir)))"

definition set_path :: "ptr \<Rightarrow> (ptr, 'z) fcmd" where
  "set_path file_name =
     (if file_name = Null then cret Null
      else cbind (cget work_dir) (\<lambda>dir.
        if dir = Null then cret file_name
        else
          cbind (strlen dir) (\<lambda>a.
          cbind (strlen file_name) (\<lambda>b.
          cbind (malloc (a + b + 2)) (\<lambda>appended.
          cseq (sprintf appended [PStr dir, Txt ''/'', PStr file_name]) (cret appended))))))"

definition file_exists :: "ptr \<Rightarrow> (bool, 'z) fcmd" where
  "file_exists file =
     cbind (fopen file ModeR) (\<lambda>f. if f = None then cret False else cseq fclose (cret True))"

definition fs_create_file :: "ptr \<Rightarrow> (bool, 'z) fcmd" where
  "fs_create_file file =
     cbind (set_path file) (\<lambda>path.
     cbind (fopen path ModeW) (\<lambda>f.
     cseq (cwhen (f \<noteq> None) fclose) (cret (f \<noteq> None))))"

definition fs_delete_file :: "shell \<Rightarrow> ptr \<Rightarrow> (unit, 'z) fcmd" where
  "fs_delete_file sh file =
     cbind (set_path file) (\<lambda>path.
     if file = Null then cskip
     else cbind (file_exists path) (\<lambda>ex.
       if \<not> ex then cskip
       else
         cbind (strlen path) (\<lambda>n.
         cbind (malloc (n + 5)) (\<lambda>command.
         cseq (sprintf command [Txt ''rm '', PStr path])
         (cseq (run_shell sh command) (free command))))))"

text \<open>Writing, once the path is known.\<close>

definition write_path :: "build \<Rightarrow> ptr \<Rightarrow> ptr \<Rightarrow> bool \<Rightarrow> ptr \<Rightarrow> (int, 'z) fcmd" where
  "write_path B file buffer isappend path =
     (if file = Null then cret (- 1)
      else
        cbind (if isappend then file_exists path else cret True) (\<lambda>present.
        if \<not> present then cret (- 1)
        else
          cbind (file_exists path) (\<lambda>ex.
          cseq (if ex then cskip else cseq (fs_create_file file) cskip)
          (cbind (fopen path (if isappend then ModeA else ModeW)) (\<lambda>f.
           case f of
             None \<Rightarrow>
               cseq (log_text B ERROR COMP_DEFAULT ''Could not open file for writing of appending.'')
                 (cret (- 1))
           | Some stream \<Rightarrow>
               cbind (fprint_str stream buffer) (\<lambda>written. cseq fclose (cret written)))))))"

definition fs_write_file :: "build \<Rightarrow> ptr \<Rightarrow> ptr \<Rightarrow> bool \<Rightarrow> (int, 'z) fcmd" where
  "fs_write_file B file buffer isappend =
     cbind (set_path file) (write_path B file buffer isappend)"

text \<open>
  The reading loop tests the character, not the counter, for a multiple of \<^verbatim>\<open>READ_SIZE\<close>
  before it grows the buffer.
\<close>

fun read_chars :: "string \<Rightarrow> ptr \<Rightarrow> nat \<Rightarrow> (ptr, 'z) mcmd" where
  "read_chars [] buffer counter = cret buffer"
| "read_chars (c # cs) buffer counter =
     cbind (if of_char c mod READ_SIZE = 0 then realloc buffer (READ_SIZE + counter) else cret buffer)
       (\<lambda>buffer. cseq (store (padd buffer counter) [c]) (read_chars cs buffer (counter + 1)))"

definition fs_read_file :: "build \<Rightarrow> ptr \<Rightarrow> (ptr, 'z) fcmd" where
  "fs_read_file B file =
     cbind (set_path file) (\<lambda>path.
     cbind (fopen path ModeR) (\<lambda>f.
     case f of
       None \<Rightarrow> cseq (log_text B ERROR COMP_DEFAULT ''Could not open file for reading.'') (cret Null)
     | Some stream \<Rightarrow>
         cbind (malloc READ_SIZE) (\<lambda>buffer.
         cbind (cget (\<lambda>s. files s stream)) (\<lambda>text.
         read_chars (case text of None \<Rightarrow> [] | Some t \<Rightarrow> t) buffer 0))))"

declare read_chars.simps [simp del]

section \<open>The state of the files\<close>

text \<open>The path of a name: behind the working directory, if one is set.\<close>

definition path_of :: "'z fsys_scheme \<Rightarrow> string \<Rightarrow> string" where
  "path_of s n = (case work_dir s of Null \<Rightarrow> n | d \<Rightarrow> the (cstring s d) @ CHR ''/'' # n)"

definition content :: "'z fsys_scheme \<Rightarrow> string \<Rightarrow> string option" where
  "content s n = files s (path_of s n)"

definition fs_ok :: "'z fsys_scheme \<Rightarrow> bool" where
  "fs_ok s \<longleftrightarrow> log_ok s \<and>
     (case work_dir s of Null \<Rightarrow> True
      | Ptr b i \<Rightarrow> log_msg s \<noteq> Ptr b 0 \<and> cstring s (Ptr b i) \<noteq> None)"

lemma fsys_updates [simp]:
  "mgrows s (t\<lparr>files := x\<rparr>) = mgrows s t" "mgrows s (t\<lparr>streams := i\<rparr>) = mgrows s t"
  "mgrows s (t\<lparr>work_dir := p\<rparr>) = mgrows s t"
  "wf_mem (t\<lparr>files := x\<rparr>) = wf_mem t" "wf_mem (t\<lparr>streams := i\<rparr>) = wf_mem t"
  "wf_mem (t\<lparr>work_dir := p\<rparr>) = wf_mem t"
  "cstring (t\<lparr>files := x\<rparr>) q = cstring t q" "cstring (t\<lparr>streams := i\<rparr>) q = cstring t q"
  "cstring (t\<lparr>work_dir := p\<rparr>) q = cstring t q"
  "peek (t\<lparr>files := x\<rparr>) q n = peek t q n" "peek (t\<lparr>streams := i\<rparr>) q n = peek t q n"
  "add_block k (t\<lparr>files := x\<rparr>) = (add_block k t)\<lparr>files := x\<rparr>"
  "add_block k (t\<lparr>streams := i\<rparr>) = (add_block k t)\<lparr>streams := i\<rparr>"
  "fresh_block n (t\<lparr>files := x\<rparr>) = fresh_block n t" "fresh_block n (t\<lparr>streams := i\<rparr>) = fresh_block n t"
  "live (t\<lparr>files := x\<rparr>) q = live t q" "live (t\<lparr>streams := i\<rparr>) q = live t q"
  by (cases q; simp add: mgrows_def wf_mem_def add_block_def fresh_block_def fresh_bytes_def)+

lemma fsys_fields [simp]:
  "files (add_block k t) = files t" "streams (add_block k t) = streams t"
  "work_dir (add_block k t) = work_dir t" "may_write (add_block k t) = may_write t"
  "files (set_block b k t) = files t" "streams (set_block b k t) = streams t"
  "work_dir (set_block b k t) = work_dir t" "may_write (set_block b k t) = may_write t"
  "files (del_block b t) = files t" "streams (del_block b t) = streams t"
  "work_dir (del_block b t) = work_dir t" "may_write (del_block b t) = may_write t"
  by (simp_all add: add_block_def set_block_def del_block_def)

lemma fsys_more:
  assumes "logst.more t = logst.more s"
  shows "files t = files s" "may_write t = may_write s" "streams t = streams s"
    "work_dir t = work_dir s" "fsys.more t = fsys.more s"
  using assms by (cases s, cases t, simp)+

lemma grows_fsys:
  assumes "grows s t"
  shows "files t = files s" "may_write t = may_write s" "streams t = streams s"
    "work_dir t = work_dir s" "fsys.more t = fsys.more s" "log_msg t = log_msg s"
  using fsys_more [OF logst_more(2) [OF grows_os(4) [OF assms]]] logst_more(1) [OF grows_os(4) [OF assms]]
  by simp_all

text \<open>
  \<open>fs_frame s t\<close>: new memory, and files and streams may be different; everything else is as
  it was.
\<close>

definition fs_frame :: "'z fsys_scheme \<Rightarrow> 'z fsys_scheme \<Rightarrow> bool" where
  "fs_frame s t \<longleftrightarrow> mgrows s t \<and> fds t = fds s \<and> net t = net s \<and> trace t = trace s \<and>
     log_msg t = log_msg s \<and> work_dir t = work_dir s \<and> may_write t = may_write s \<and>
     fsys.more t = fsys.more s"

lemma fs_frame_mgrows: "fs_frame s t \<Longrightarrow> mgrows s t"
  by (simp add: fs_frame_def)

lemma fs_frame_refl: "wf_mem s \<Longrightarrow> fs_frame s s"
  by (simp add: fs_frame_def mgrows_refl)

lemma fs_frame_trans [trans]: "fs_frame s t \<Longrightarrow> fs_frame t u \<Longrightarrow> fs_frame s u"
  by (auto simp: fs_frame_def intro: mgrows_trans)

lemma grows_fs_frame: "grows s t \<Longrightarrow> fs_frame s t"
  by (simp add: fs_frame_def grows_mgrows grows_os grows_fsys)

lemma fs_frame_files [simp]:
  "fs_frame s (t\<lparr>files := x\<rparr>) = fs_frame s t" "fs_frame s (t\<lparr>streams := i\<rparr>) = fs_frame s t"
  by (simp_all add: fs_frame_def)

lemma fs_ok_wf: "fs_ok s \<Longrightarrow> wf_mem s"
  by (simp add: fs_ok_def log_ok_def)

lemma fs_ok_frame: "fs_ok s \<Longrightarrow> fs_frame s t \<Longrightarrow> fs_ok t"
  unfolding fs_ok_def fs_frame_def log_ok_def
  by (auto simp del: cstring.simps dest: mgrows_wf mgrows_blocks mgrows_cstring split: ptr.splits)

lemma path_of_frame: "fs_ok s \<Longrightarrow> fs_frame s t \<Longrightarrow> path_of t n = path_of s n"
  unfolding fs_ok_def fs_frame_def path_of_def
  by (auto simp del: cstring.simps dest: mgrows_cstring split: ptr.splits)

text \<open>The file operations as commands on the map of files.\<close>

lemma wp_open_path [wp_simps]:
  "wp (open_path path m) Q s =
     (if (if m = ModeR then files s path = None else \<not> may_write s path) then Q False s
      else Q True (s\<lparr>streams := Suc (streams s),
         files := (if m = ModeR then files s
           else (files s)(path \<mapsto> (if m = ModeW then [] else case files s path of None \<Rightarrow> [] | Some t \<Rightarrow> t)))\<rparr>))"
  by (simp add: open_path_def wp_cbind wp_cget wp_cseq wp_cmodify wp_cret wp_funs)

lemma wp_fclose [wp_simps]: "wp fclose Q s = Q () (s\<lparr>streams := streams s - 1\<rparr>)"
  by (simp add: fclose_def wp_simps)

lemma open_close [simp]: "s\<lparr>streams := Suc i, files := x, streams := i\<rparr> = s\<lparr>streams := i, files := x\<rparr>"
  by simp

lemma set_path_then:
  assumes ok: "fs_ok s" and p: "cstring s p = Some n"
    and Q: "\<And>q t. \<lbrakk>grows s t; cstring t q = Some (path_of s n)\<rbrakk> \<Longrightarrow> Q q t"
  shows "wp (set_path p) Q s"
proof (cases "work_dir s")
  case Null
  have "Q p s" by (rule Q [OF grows_refl [OF fs_ok_wf [OF ok]]]) (simp add: p Null path_of_def)
  then show ?thesis using p Null by (cases p) (simp_all add: set_path_def wp_simps)
next
  case (Ptr b i)
  then obtain d where d: "cstring s (work_dir s) = Some d"
    using ok by (auto simp: fs_ok_def)
  let ?x = "d @ CHR ''/'' # n" and ?n = "length d + length n + 2"
  let ?t = "add_block (filled ?n (?x @ [NUL]) s) s"
  have wf: "wf_mem s" by (rule fs_ok_wf [OF ok])
  have g: "grows s ?t" by (rule grows_filled [OF wf]) simp
  have no: "NUL \<notin> set ?x" using cstring_no_nul [OF d] cstring_no_nul [OF p] by simp
  have "Q (Ptr (next_id s) 0) ?t"
    by (rule Q [OF g]) (use cstring_filled_nul [OF no] d Ptr in \<open>simp add: path_of_def del: cstring.simps\<close>)
  moreover have "text_of (add_block (fresh_block ?n s) s) [PStr (work_dir s), Txt ''/'', PStr p] = Some ?x"
    using wf d p by simp
  moreover have "p \<noteq> Null" using p by auto
  ultimately show ?thesis
    using d p Ptr
    by (simp add: set_path_def wp_cbind wp_cget wp_strlen wp_malloc wp_cseq wp_sprintf wp_format wp_cret
        wp_funs filled_def del: cstring.simps text_of.simps)
qed

lemma wp_file_exists:
  assumes "cstring s q = Some path"
  shows "wp (file_exists q) Q s = Q (files s path \<noteq> None) s"
  using assms by (simp add: file_exists_def fopen_def wp_simps)

lemma create_then:
  assumes ok: "fs_ok s" and p: "cstring s p = Some n" and w: "may_write s (path_of s n)"
    and Q: "\<And>t. \<lbrakk>fs_frame s t; files t = (files s)(path_of s n \<mapsto> []); streams t = streams s\<rbrakk>
      \<Longrightarrow> Q True t"
  shows "wp (fs_create_file p) Q s"
  unfolding fs_create_file_def wp_cbind
proof (rule set_path_then [OF ok p])
  fix q t assume t: "grows s t" "cstring t q = Some (path_of s n)"
  show "wp (fopen q ModeW) (\<lambda>f. wp (cseq (cwhen (f \<noteq> None) fclose) (cret (f \<noteq> None))) Q) t"
    using t(2) w grows_fs_frame [OF t(1)]
    by (simp add: fopen_def wp_simps grows_fsys [OF t(1)] Q)
qed

text \<open>Writing puts the text in the place of the old content, creating the file if needed.\<close>

lemma write_then:
  assumes ok: "fs_ok s" and p: "cstring s p = Some n" and q: "cstring s q = Some x"
    and w: "may_write s (path_of s n)"
    and Q: "\<And>t. \<lbrakk>fs_frame s t; files t = (files s)(path_of s n \<mapsto> x); streams t = streams s\<rbrakk>
      \<Longrightarrow> Q (int (length x)) t"
  shows "wp (fs_write_file B p q False) Q s"
  unfolding fs_write_file_def wp_cbind
proof (rule set_path_then [OF ok p])
  fix r t assume t: "grows s t" "cstring t r = Some (path_of s n)"
  let ?K = "\<lambda>f. wp (case f of
            None \<Rightarrow>
              cseq (log_text B ERROR COMP_DEFAULT ''Could not open file for writing of appending.'')
                (cret (- 1))
          | Some stream \<Rightarrow>
              cbind (fprint_str stream q) (\<lambda>written. cseq fclose (cret written))) Q"
  have fin: "wp (fopen r ModeW) ?K u"
    if u: "fs_frame s u" "cstring u r = Some (path_of s n)" "streams u = streams s"
      "\<And>x. (files u)(path_of s n \<mapsto> x) = (files s)(path_of s n \<mapsto> x)" for u
  proof -
    have "may_write u (path_of s n)" using w u(1) by (simp add: fs_frame_def)
    then show ?thesis
      using u mgrows_cstring [OF fs_frame_mgrows [OF u(1)] q]
      by (simp add: fopen_def fprint_str_def wp_simps Q)
  qed
  have "wp (if files t (path_of s n) \<noteq> None then cskip else cseq (fs_create_file p) cskip)
      (\<lambda>_. wp (fopen r ModeW) ?K) t"
  proof (cases "files t (path_of s n) \<noteq> None")
    case True
    then show ?thesis
      using fin [OF grows_fs_frame [OF t(1)] t(2)] by (simp add: wp_simps grows_fsys [OF t(1)])
  next
    case False
    have ok': "fs_ok t" by (rule fs_ok_frame [OF ok grows_fs_frame [OF t(1)]])
    have po: "path_of t n = path_of s n" by (rule path_of_frame [OF ok grows_fs_frame [OF t(1)]])
    have "wp (fs_create_file p) (\<lambda>_. wp (fopen r ModeW) ?K) t"
    proof (rule create_then [OF ok' grows_cstring [OF t(1) p]])
      show "may_write t (path_of t n)" using w by (simp add: po grows_fsys [OF t(1)])
      fix u assume u: "fs_frame t u" "files u = (files t)(path_of t n \<mapsto> [])" "streams u = streams t"
      show "wp (fopen r ModeW) ?K u"
        by (rule fin [OF fs_frame_trans [OF grows_fs_frame [OF t(1)] u(1)]
              mgrows_cstring [OF fs_frame_mgrows [OF u(1)] t(2)]])
          (simp_all add: u po grows_fsys [OF t(1)])
    qed
    with False show ?thesis by (simp add: wp_cseq wp_cskip wp_funs)
  qed
  moreover have "p \<noteq> Null" using p by auto
  ultimately show "wp (write_path B p q False r) Q t"
    by (simp add: write_path_def wp_cbind wp_cret wp_cseq wp_file_exists [OF t(2)] wp_funs)
qed

lemma append_then:
  assumes ok: "fs_ok s" and p: "cstring s p = Some n" and q: "cstring s q = Some x"
    and w: "may_write s (path_of s n)" and old: "content s n = Some y"
    and Q: "\<And>t. \<lbrakk>fs_frame s t; files t = (files s)(path_of s n \<mapsto> y @ x); streams t = streams s\<rbrakk>
      \<Longrightarrow> Q (int (length x)) t"
  shows "wp (fs_write_file B p q True) Q s"
  unfolding fs_write_file_def wp_cbind
proof (rule set_path_then [OF ok p])
  fix r t assume t: "grows s t" "cstring t r = Some (path_of s n)"
  have f: "files t (path_of s n) = Some y" "may_write t (path_of s n)"
    using old w by (simp_all add: content_def grows_fsys [OF t(1)])
  have "p \<noteq> Null" using p by auto
  moreover have "cstring t q = Some x" by (rule grows_cstring [OF t(1) q])
  ultimately show "wp (write_path B p q True r) Q t"
    using f t grows_fs_frame [OF t(1)]
    by (simp add: write_path_def wp_simps wp_file_exists [OF t(2)] wp_funs fopen_def fprint_str_def grows_fsys [OF t(1)] Q)
qed

lemma append_missing_then:
  assumes ok: "fs_ok s" and p: "cstring s p = Some n" and old: "content s n = None"
    and Q: "\<And>t. grows s t \<Longrightarrow> Q (- 1) t"
  shows "wp (fs_write_file B p q True) Q s"
  unfolding fs_write_file_def wp_cbind
proof (rule set_path_then [OF ok p])
  fix r t assume t: "grows s t" "cstring t r = Some (path_of s n)"
  have "files t (path_of s n) = None" using old by (simp add: content_def grows_fsys [OF t(1)])
  moreover have "p \<noteq> Null" using p by auto
  ultimately show "wp (write_path B p q True r) Q t"
    using Q [OF t(1)] by (simp add: write_path_def wp_cbind wp_cret wp_cseq wp_file_exists [OF t(2)] wp_funs)
qed

section \<open>Reading\<close>

text \<open>
  \<open>fits cap i t\<close>: a buffer of \<open>cap\<close> bytes that holds \<open>i\<close> characters takes the text \<open>t\<close>. The
  buffer only grows at a character whose code is a multiple of 100, such as \<^verbatim>\<open>d\<close>.
\<close>

fun fits :: "nat \<Rightarrow> nat \<Rightarrow> string \<Rightarrow> bool" where
  "fits cap i [] = True"
| "fits cap i (c # cs) =
     (let cap' = if of_char c mod READ_SIZE = 0 then READ_SIZE + i else cap
      in i < cap' \<and> fits cap' (Suc i) cs)"

lemma fits_short: "READ_SIZE \<le> cap \<Longrightarrow> i + length t \<le> READ_SIZE \<Longrightarrow> fits cap i t"
  by (induction cap i t rule: fits.induct) (auto simp: Let_def READ_SIZE_def)

text \<open>The bytes of a block from one index on are zero.\<close>

definition zero_tail :: "nat \<Rightarrow> block \<Rightarrow> bool" where
  "zero_tail i k \<longleftrightarrow> i \<le> usable k \<and> usable k < length (bytes k) \<and> set (drop i (bytes k)) \<subseteq> {NUL}"

lemma zero_tail_cstring:
  assumes "blocks s b = Some k" and "zero_tail (length x) k" and "take (length x) (bytes k) = x"
    and "NUL \<notin> set x"
  shows "cstring s (Ptr b 0) = Some x"
proof -
  obtain c r where r: "drop (length x) (bytes k) = c # r"
    using assms(2) by (cases "drop (length x) (bytes k)") (auto simp: zero_tail_def)
  then have "c = NUL" using assms(2) by (auto simp: zero_tail_def)
  then have "bytes k = x @ NUL # r"
    using append_take_drop_id [of "length x" "bytes k"] assms(3) r by simp
  then show ?thesis using assms(1) c_str_nul [OF assms(4)] by simp
qed

lemma zero_tail_fresh: "clean_mem s \<Longrightarrow> zero_tail 0 (fresh_block n s)"
  by (auto simp: zero_tail_def clean_mem_def fresh_bytes_def intro: add_nonneg_pos)

lemma zero_tail_overwrite:
  assumes "zero_tail i k" and "i < usable k"
  shows "zero_tail (Suc i) (k\<lparr>bytes := overwrite i [c] (bytes k)\<rparr>)"
  using assms set_drop_subset_set_drop [of i "Suc i" "bytes k"]
  by (auto simp: zero_tail_def overwrite_def)

lemma zero_tail_move:
  assumes "clean_mem s" and "zero_tail i k" and "i \<le> n"
    and u: "usable k' = n + spare s (next_id s)"
    and k': "bytes k' = take (min (usable k) n) (bytes k) @ drop (min (usable k) n) (fresh_bytes n s)"
  shows "zero_tail i k'"
proof -
  have "0 < room s (next_id s)" using assms(1) by (simp add: clean_mem_def)
  moreover have "set (drop i (take (min (usable k) n) (bytes k))) \<subseteq> set (drop i (bytes k))"
    by (simp add: drop_take set_take_subset)
  moreover have "set (drop (min (usable k) n) (fresh_bytes n s)) \<subseteq> {NUL}"
    using assms(1) by (auto simp: clean_mem_def fresh_bytes_def dest: in_set_dropD)
  ultimately show ?thesis using assms(2,3) by (auto simp: zero_tail_def k' u)
qed

text \<open>
  The loop, from any buffer that was allocated since the state \<open>r\<close>: it ends with a buffer
  that starts with the text, and touches nothing that existed in \<open>r\<close>. If the memory that is
  handed out is zero, so is what follows the text.
\<close>

lemma read_chars_then:
  fixes s :: "'z mem_scheme" and r :: "'z mem_scheme"
  assumes "wf_mem r" and "mgrows r s" and "blocks r b = None" and "blocks s b = Some k" "on_heap k"
    and "cap \<le> usable k" and "length pre \<le> usable k" and "take (length pre) (bytes k) = pre"
    and "fits cap (length pre) cs" and "clean_mem r \<Longrightarrow> zero_tail (length pre) k"
    and Q: "\<And>b' k' t. \<lbrakk>mgrows r t; mem.more t = mem.more s; blocks t b' = Some k'; on_heap k';
        length (pre @ cs) \<le> length (bytes k'); take (length (pre @ cs)) (bytes k') = pre @ cs;
        clean_mem r \<Longrightarrow> zero_tail (length (pre @ cs)) k'\<rbrakk> \<Longrightarrow> Q (Ptr b' 0) t"
  shows "wp (read_chars cs (Ptr b 0) (length pre)) Q s"
  using assms(2-)
proof (induction cs arbitrary: b k cap pre s)
  case Nil
  have "usable k \<le> length (bytes k)" using wf_mem_usable [OF mgrows_wf [OF Nil(1)] Nil(3)] .
  then show ?case using Nil by (simp add: read_chars.simps wp_simps)
next
  case (Cons c cs)
  have uk: "usable k \<le> length (bytes k)" using wf_mem_usable [OF mgrows_wf [OF Cons.prems(1)] Cons.prems(3)] .
  let ?cap = "if of_char c mod READ_SIZE = 0 then READ_SIZE + length pre else cap"
  have fit: "length pre < ?cap" "fits ?cap (length (pre @ [c])) cs"
    using Cons.prems(8) by (simp_all add: Let_def)
  have step: "wp (cseq (store (padd (Ptr b' 0) (length pre)) [c])
      (read_chars cs (Ptr b' 0) (length pre + 1))) Q u"
    if u: "mgrows r u" "mem.more u = mem.more s" "blocks r b' = None" "blocks u b' = Some k'" "on_heap k'"
      "?cap \<le> usable k'" "take (length pre) (bytes k') = pre"
      and z: "clean_mem r \<Longrightarrow> zero_tail (length pre) k'"
    for b' k' and u :: "'z mem_scheme"
  proof -
    let ?k = "k'\<lparr>bytes := overwrite (length pre) [c] (bytes k')\<rparr>"
    have uk': "usable k' \<le> length (bytes k')" using wf_mem_usable [OF mgrows_wf [OF u(1)] u(4)] .
    have lp: "length pre < usable k'" using fit(1) u(6) by simp
    have put: "put (Ptr b' (length pre)) [c] u = set_block b' ?k u" using u(4) by simp
    have g: "mgrows r (set_block b' ?k u)"
      using mgrows_put [OF u(1) refl u(3), of "length pre" "[c]"] u(4) lp unfolding put by simp
    have tk: "take (length (pre @ [c])) (bytes ?k) = pre @ [c]"
      using u(7) lp uk' by (simp add: overwrite_def)
    have "wp (read_chars cs (Ptr b' 0) (length (pre @ [c]))) Q (set_block b' ?k u)"
    proof (rule Cons.IH [OF g u(3) _ _ _ _ tk fit(2)])
      show "zero_tail (length (pre @ [c])) ?k" if "clean_mem r"
        using zero_tail_overwrite [OF z [OF that] lp] by simp
      fix a k2 and t :: "'z mem_scheme"
      assume "mgrows r t" "mem.more t = mem.more (set_block b' ?k u)" "blocks t a = Some k2" "on_heap k2"
        "length ((pre @ [c]) @ cs) \<le> length (bytes k2)"
        "take (length ((pre @ [c]) @ cs)) (bytes k2) = (pre @ [c]) @ cs"
        "clean_mem r \<Longrightarrow> zero_tail (length ((pre @ [c]) @ cs)) k2"
      then show "Q (Ptr a 0) t"
        using u(2) by (intro Cons.prems(10) [where k' = k2]) (simp_all add: set_block_def)
    qed (use u(5,6) lp in simp_all)
    then show ?thesis using u(4) lp put by (simp add: wp_cseq wp_store)
  qed
  show ?case
  proof (cases "of_char c mod READ_SIZE = 0")
    case True
    have new: "blocks r (next_id s) = None"
      by (rule wf_mem_fresh [OF assms(1) mgrows_next [OF Cons.prems(1)]])
    have "wp (realloc (Ptr b 0) (READ_SIZE + length pre))
        (\<lambda>p. wp (cseq (store (padd p (length pre)) [c]) (read_chars cs p (length pre + 1))) Q) s"
    proof (rule realloc_then [OF Cons.prems(3,4), where m = "length pre"])
      fix k' and t :: "'z mem_scheme"
      assume t: "t = add_block k' (del_block b s)" "on_heap k'" "READ_SIZE + length pre \<le> usable k'"
        "usable k' \<le> length (bytes k')" "take (length pre) (bytes k') = take (length pre) (bytes k)"
        "usable k' = READ_SIZE + length pre + spare s (next_id s)"
        "bytes k' = take (min (usable k) (READ_SIZE + length pre)) (bytes k) @
           drop (min (usable k) (READ_SIZE + length pre)) (fresh_bytes (READ_SIZE + length pre) s)"
      have z: "zero_tail (length pre) k'" if "clean_mem r"
        by (rule zero_tail_move [OF clean_mgrows [OF Cons.prems(1) that] Cons.prems(9) [OF that]
              _ t(6,7)]) simp
      show "wp (cseq (store (padd (Ptr (next_id s) 0) (length pre)) [c])
          (read_chars cs (Ptr (next_id s) 0) (length pre + 1))) Q t"
        by (rule step [OF _ _ new, where k' = k'])
          (use t z True Cons.prems(7) mgrows_move [OF Cons.prems(1,2) t(4)] in
            \<open>simp_all add: add_block_def del_block_def READ_SIZE_def\<close>)
    qed (use Cons.prems(6) uk in \<open>simp_all add: READ_SIZE_def\<close>)
    with True show ?thesis by (simp add: read_chars.simps wp_cbind)
  next
    case False
    then show ?thesis
      using step [OF Cons.prems(1) _ Cons.prems(2,3,4)] Cons.prems(5,7,9)
      by (simp add: read_chars.simps wp_cbind wp_cret)
  qed
qed

lemma read_then:
  fixes s :: "'z fsys_scheme"
  assumes ok: "fs_ok s" and p: "cstring s p = Some n" and x: "content s n = Some x"
    and fit: "fits READ_SIZE 0 x"
    and Q: "\<And>b t. \<lbrakk>fs_frame s t; files t = files s; streams t = Suc (streams s); live t (Ptr b 0);
        peek t (Ptr b 0) (length x) = Some x;
        clean_mem s \<Longrightarrow> NUL \<notin> set x \<Longrightarrow> cstring t (Ptr b 0) = Some x\<rbrakk> \<Longrightarrow> Q (Ptr b 0) t"
  shows "wp (fs_read_file B p) Q s"
  unfolding fs_read_file_def wp_cbind
proof (rule set_path_then [OF ok p])
  fix q t assume t: "grows s t" "cstring t q = Some (path_of s n)"
  have f: "files t (path_of s n) = Some x" using x by (simp add: content_def grows_fsys [OF t(1)])
  let ?t = "t\<lparr>streams := Suc (streams t)\<rparr>" and ?b = "next_id t"
  let ?u = "add_block (fresh_block READ_SIZE ?t) ?t"
  have g: "mgrows s ?t" using grows_mgrows [OF t(1)] by simp
  have same: "?t\<lparr>files := files t\<rparr> = ?t" by simp
  have new: "blocks s ?b = None"
    by (rule wf_mem_fresh [OF fs_ok_wf [OF ok] mgrows_next [OF grows_mgrows [OF t(1)]]])
  have "wp (read_chars x (Ptr ?b 0) (length ([] :: string))) Q ?u"
  proof (rule read_chars_then [OF fs_ok_wf [OF ok] _ new, where k = "fresh_block READ_SIZE ?t" and cap = READ_SIZE])
    show "mgrows s ?u" by (rule mgrows_add_block [OF g]) simp
    show "zero_tail (length ([] :: string)) (fresh_block READ_SIZE ?t)" if "clean_mem s"
      using zero_tail_fresh [OF clean_mgrows [OF g that], of READ_SIZE] by simp
    fix b' k' and v :: "'z fsys_scheme"
    assume v: "mgrows s v" "mem.more v = mem.more ?u" "blocks v b' = Some k'" "on_heap k'"
      "length ([] @ x) \<le> length (bytes k')" "take (length ([] @ x)) (bytes k') = [] @ x"
      and z: "clean_mem s \<Longrightarrow> zero_tail (length ([] @ x)) k'"
    have "mem.more v = mem.more ?t" using v(2) by (simp add: add_block_def)
    note os_more_fields [OF this] logst_more [OF os_more_fields(4) [OF this]]
    note more = this fsys_more [OF this(6)]
    show "Q (Ptr b' 0) v"
      by (rule Q) (use v more z zero_tail_cstring [OF v(3), of x] in \<open>simp_all add: fs_frame_def grows_os [OF t(1)] grows_fsys [OF t(1)] del: cstring.simps\<close>)
  qed (use fit in simp_all)
  then show "wp (fopen q ModeR) (\<lambda>f. wp (case f of
      None \<Rightarrow> cseq (log_text B ERROR COMP_DEFAULT ''Could not open file for reading.'') (cret Null)
    | Some stream \<Rightarrow>
        cbind (malloc READ_SIZE) (\<lambda>buffer.
        cbind (cget (\<lambda>s. files s stream)) (\<lambda>text.
        read_chars (case text of None \<Rightarrow> [] | Some t \<Rightarrow> t) buffer 0))) Q) t"
    using t(2) f by (simp add: fopen_def wp_simps)
qed

text \<open>With an allocator that rounds nothing up, any other text overflows the buffer.\<close>

lemma read_chars_overflow:
  fixes s :: "'z mem_scheme"
  assumes "blocks s b = Some k" "on_heap k" "usable k = cap" and "spare s = (\<lambda>_. 0)"
    and "\<not> fits cap i cs"
  shows "read_chars cs (Ptr b 0) i s = Inl Overflow"
  using assms
proof (induction cs arbitrary: b k cap i s)
  case Nil
  then show ?case by simp
next
  case (Cons c cs)
  have step: "cseq (store (padd (Ptr b' 0) i) [c]) (read_chars cs (Ptr b' 0) (i + 1)) u = Inl Overflow"
    if u: "blocks u b' = Some k'" "on_heap k'" "spare u = (\<lambda>_. 0)"
      "\<not> (i < usable k' \<and> fits (usable k') (Suc i) cs)" for b' k' and u :: "'z mem_scheme"
  proof (cases "i < usable k'")
    case True
    then show ?thesis
      using u Cons.IH [of "set_block b' (k'\<lparr>bytes := overwrite i [c] (bytes k')\<rparr>) u" b' _ "usable k'" "Suc i"]
      by (simp add: cseq_def cbind_def)
  next
    case False
    then show ?thesis using u(1) by (simp add: cseq_def cbind_def)
  qed
  show ?case
  proof (cases "of_char c mod READ_SIZE = 0")
    case True
    let ?k = "(fresh_block (READ_SIZE + i) s)\<lparr>bytes :=
      overwrite 0 (take (min (usable k) (READ_SIZE + i)) (bytes k)) (fresh_bytes (READ_SIZE + i) s)\<rparr>"
    have r: "realloc (Ptr b 0) (READ_SIZE + i) s =
        Inr (Ptr (next_id s) 0, add_block ?k (del_block b s))"
      using Cons.prems(1,2) by (simp add: READ_SIZE_def)
    have "cseq (store (padd (Ptr (next_id s) 0) i) [c]) (read_chars cs (Ptr (next_id s) 0) (i + 1))
        (add_block ?k (del_block b s)) = Inl Overflow"
      by (rule step [where k' = ?k]) (use Cons.prems True in \<open>simp_all add: Let_def\<close>)
    then show ?thesis using True r by (simp add: read_chars.simps cbind_def del: realloc.simps)
  next
    case False
    then show ?thesis
      using step [OF Cons.prems(1,2,4)] Cons.prems(3,5)
      by (simp add: read_chars.simps cbind_def cret_def Let_def)
  qed
qed

lemma read_overflow:
  assumes ok: "fs_ok s" and p: "cstring s p = Some n" and x: "content s n = Some x"
    and fit: "\<not> fits READ_SIZE 0 x" and spare: "spare s = (\<lambda>_. 0)"
  shows "fs_read_file B p s = Inl Overflow"
  unfolding fs_read_file_def
proof (rule wp_fault, rule set_path_then [OF ok p])
  fix q t assume t: "grows s t" "cstring t q = Some (path_of s n)"
  have f: "files t (path_of s n) = Some x" using x by (simp add: content_def grows_fsys [OF t(1)])
  let ?t = "t\<lparr>streams := Suc (streams t)\<rparr>" and ?b = "next_id t"
  have o: "wp (fopen q ModeR) (\<lambda>f u. f = Some (path_of s n) \<and> u = ?t) t"
    using t(2) f by (simp add: fopen_def wp_simps)
  have "read_chars x (Ptr ?b 0) 0 (add_block (fresh_block READ_SIZE ?t) ?t) = Inl Overflow"
    by (rule read_chars_overflow [where k = "fresh_block READ_SIZE ?t"])
      (use fit spare in \<open>simp_all add: grows_oracles [OF t(1)]\<close>)
  then show "cbind (fopen q ModeR) (\<lambda>f. case f of
      None \<Rightarrow> cseq (log_text B ERROR COMP_DEFAULT ''Could not open file for reading.'') (cret Null)
    | Some stream \<Rightarrow>
        cbind (malloc READ_SIZE) (\<lambda>buffer.
        cbind (cget (\<lambda>s. files s stream)) (\<lambda>text.
        read_chars (case text of None \<Rightarrow> [] | Some t \<Rightarrow> t) buffer 0))) t = Inl Overflow"
    by (intro wp_fault wp_mono [OF o]) (use f in \<open>auto simp: cbind_def malloc_def cget_def\<close>)
qed

lemma log_text_then:
  assumes ok: "log_ok s" and lt: "lt \<noteq> BadKind" and no: "NUL \<notin> set (c @ '': '' @ m)"
    and len: "length (c @ '': '' @ m) < 1000"
    and Q: "\<And>t. \<lbrakk>log_frame s t; effects (trace t) = effects (trace s)\<rbrakk> \<Longrightarrow> Q () t"
  shows "wp (log_text B lt c m) Q s"
proof (cases "verbose B")
  case True
  have "wp (logger lt c (Txt m)) (\<lambda>_. Q ()) s"
    by (rule logger_then [OF ok _ lt no len Q]) simp_all
  with True show ?thesis by (simp add: log_text_def wp_cwhen wp_cseq wp_cskip wp_funs)
next
  case False
  then show ?thesis using Q [OF log_frame_refl [OF ok]] by (simp add: log_text_def wp_simps)
qed

lemma read_missing_then:
  assumes ok: "fs_ok s" and p: "cstring s p = Some n" and x: "content s n = None"
    and Q: "\<And>t. log_frame s t \<Longrightarrow> Q Null t"
  shows "wp (fs_read_file B p) Q s"
  unfolding fs_read_file_def wp_cbind
proof (rule set_path_then [OF ok p])
  fix q t assume t: "grows s t" "cstring t q = Some (path_of s n)"
  have f: "files t (path_of s n) = None" using x by (simp add: content_def grows_fsys [OF t(1)])
  have lok: "log_ok s" using ok by (simp add: fs_ok_def)
  have fr: "log_frame s t" by (rule log_frame_new [OF lok t(1)])
  have "wp (log_text B ERROR COMP_DEFAULT ''Could not open file for reading.'')
      (\<lambda>_. Q Null) t"
    by (rule log_text_then) (use fr log_frame_trans [OF fr] in \<open>auto simp: log_frame_def [of s t] intro!: Q\<close>)
  then show "wp (fopen q ModeR) (\<lambda>f. wp (case f of
      None \<Rightarrow> cseq (log_text B ERROR COMP_DEFAULT ''Could not open file for reading.'') (cret Null)
    | Some stream \<Rightarrow>
        cbind (malloc READ_SIZE) (\<lambda>buffer.
        cbind (cget (\<lambda>s. files s stream)) (\<lambda>text.
        read_chars (case text of None \<Rightarrow> [] | Some t \<Rightarrow> t) buffer 0))) Q) t"
    using t(2) f by (simp add: fopen_def wp_simps wp_funs)
qed

section \<open>Deleting\<close>

text \<open>
  The documented behaviour of \<^verbatim>\<open>rm\<close> on one argument without characters that the shell
  treats in a special way: the file is gone and the others are untouched.
\<close>

definition plain_char :: "char \<Rightarrow> bool" where
  "plain_char c \<longleftrightarrow> is_digit c \<or> (65 \<le> (of_char c :: nat) \<and> (of_char c :: nat) \<le> 90) \<or>
     (97 \<le> (of_char c :: nat) \<and> (of_char c :: nat) \<le> 122) \<or> c = CHR ''/'' \<or> c = CHR ''.'' \<or> c = CHR ''_''"

definition plain :: "string \<Rightarrow> bool" where
  "plain t \<longleftrightarrow> t \<noteq> [] \<and> list_all plain_char t"

definition rm_law :: "shell \<Rightarrow> bool" where
  "rm_law sh \<longleftrightarrow> (\<forall>path fs. plain path \<longrightarrow> sh (''rm '' @ path) fs = fs(path := None))"

lemma delete_then:
  assumes ok: "fs_ok s" and p: "cstring s p = Some n" and x: "content s n \<noteq> None"
    and sh: "rm_law sh" "plain (path_of s n)"
    and Q: "\<And>t. \<lbrakk>mgrows s t; files t = (files s)(path_of s n := None);
        trace t = trace s @ [Ran (''rm '' @ path_of s n)]; work_dir t = work_dir s; fds t = fds s;
        log_msg t = log_msg s; may_write t = may_write s; net t = net s; fsys.more t = fsys.more s\<rbrakk>
      \<Longrightarrow> Q () t"
  shows "wp (fs_delete_file sh p) Q s"
  unfolding fs_delete_file_def wp_cbind
proof (rule set_path_then [OF ok p])
  fix q t assume t: "grows s t" "cstring t q = Some (path_of s n)"
  define path where "path = path_of s n"
  let ?c = "''rm '' @ path" and ?n = "length path + 5" and ?b = "next_id t"
  let ?t = "add_block (filled ?n (?c @ [NUL]) t) t"
  have g: "grows t ?t" by (rule grows_filled [OF grows_wf [OF t(1)]]) simp
  have q: "cstring (add_block (fresh_block ?n t) t) q = Some path"
    using grows_wf [OF t(1)] t(2) by (simp add: path_def)
  have no: "NUL \<notin> set ?c" using cstring_no_nul [OF t(2)] by (simp add: path_def)
  have c: "cstring ?t (Ptr ?b 0) = Some ?c" by (rule cstring_filled_nul [OF no])
  have f: "files t path \<noteq> None" using x by (simp add: content_def path_def grows_fsys [OF t(1)])
  have sh': "sh ?c (files t) = (files s)(path := None)"
    using sh by (simp add: rm_law_def path_def grows_fsys [OF t(1)])
  have new: "blocks s ?b = None"
    by (rule wf_mem_fresh [OF fs_ok_wf [OF ok] mgrows_next [OF grows_mgrows [OF t(1)]]])
  let ?u = "del_block ?b (?t\<lparr>trace := trace t @ [Ran ?c], files := (files s)(path := None)\<rparr>)"
  have "mgrows s ?u"
    by (rule mgrows_del_block [OF _ new]) (use grows_mgrows [OF grows_trans [OF t(1) g]] in simp)
  then have "Q () ?u"
    by (intro Q) (simp_all add: path_def grows_os [OF t(1)] grows_fsys [OF t(1)] del_block_def add_block_def)
  moreover have "p \<noteq> Null" using p by auto
  ultimately show "wp (if p = Null then cskip
      else cbind (file_exists q) (\<lambda>ex. if \<not> ex then cskip
        else cbind (strlen q) (\<lambda>n. cbind (malloc (n + 5)) (\<lambda>command.
          cseq (sprintf command [Txt ''rm '', PStr q])
          (cseq (run_shell sh command) (free command)))))) Q t"
    using f q c t(2) sh'
    by (simp add: wp_cbind wp_file_exists [OF t(2)] wp_strlen wp_malloc wp_cseq wp_sprintf wp_format
        run_shell_def wp_get_str wp_log_event wp_cmodify wp_free wp_funs filled_def flip: path_def
        del: cstring.simps)
qed

lemma delete_missing_then:
  assumes ok: "fs_ok s" and p: "cstring s p = Some n" and x: "content s n = None"
    and Q: "\<And>t. grows s t \<Longrightarrow> Q () t"
  shows "wp (fs_delete_file sh p) Q s"
  unfolding fs_delete_file_def wp_cbind
proof (rule set_path_then [OF ok p])
  fix q t assume t: "grows s t" "cstring t q = Some (path_of s n)"
  have "files t (path_of s n) = None" using x by (simp add: content_def grows_fsys [OF t(1)])
  moreover have "p \<noteq> Null" using p by auto
  ultimately show "wp (if p = Null then cskip
      else cbind (file_exists q) (\<lambda>ex. if \<not> ex then cskip
        else cbind (strlen q) (\<lambda>n. cbind (malloc (n + 5)) (\<lambda>command.
          cseq (sprintf command [Txt ''rm '', PStr q])
          (cseq (run_shell sh command) (free command)))))) Q t"
    using Q [OF t(1)] by (simp add: wp_cbind wp_cskip wp_file_exists [OF t(2)])
qed

section \<open>The interface of the file store\<close>

text \<open>
  What a worker relies on when it executes a request: files are a map from names to
  contents; writing replaces, appending extends what is there and refuses what is not,
  reading returns the content. Names and contents are strings in memory, which stay.
\<close>

type_synonym 's writer = "ptr \<Rightarrow> ptr \<Rightarrow> bool \<Rightarrow> (int, 's) cmd"

fun run_writes :: "'s writer \<Rightarrow> (ptr \<times> ptr \<times> bool) list \<Rightarrow> (int list, 's) cmd" where
  "run_writes w [] = cret []"
| "run_writes w ((p, q, a) # ops) = cbind (w p q a) (\<lambda>r. cbind (run_writes w ops) (\<lambda>rs. cret (r # rs)))"

definition abs_write :: "string \<Rightarrow> string \<Rightarrow> bool \<Rightarrow> file_map \<Rightarrow> int \<times> file_map" where
  "abs_write n x a m =
     (if \<not> a then (int (length x), m(n \<mapsto> x))
      else case m n of None \<Rightarrow> (- 1, m) | Some y \<Rightarrow> (int (length x), m(n \<mapsto> y @ x)))"

fun abs_writes :: "(string \<times> string \<times> bool) list \<Rightarrow> file_map \<Rightarrow> int list \<times> file_map" where
  "abs_writes [] m = ([], m)"
| "abs_writes ((n, x, a) # ops) m =
     (let (r, m') = abs_write n x a m; (rs, m'') = abs_writes ops m' in (r # rs, m''))"

locale file_store =
  fixes ok :: "'s \<Rightarrow> bool" and textof :: "'s \<Rightarrow> ptr \<Rightarrow> string option"
    and stored :: "'s \<Rightarrow> file_map" and allowed :: "'s \<Rightarrow> string \<Rightarrow> bool"
    and put_text :: "'s writer" and get_text :: "ptr \<Rightarrow> (ptr, 's) cmd"
    and holds :: "'s \<Rightarrow> ptr \<Rightarrow> string \<Rightarrow> bool" and readable :: "string \<Rightarrow> bool"
  assumes write_law: "\<lbrakk>ok s; textof s p = Some n; textof s q = Some x; allowed s n\<rbrakk> \<Longrightarrow>
      wp (put_text p q a) (\<lambda>r t. ok t \<and> (\<forall>p y. textof s p = Some y \<longrightarrow> textof t p = Some y) \<and>
        allowed t = allowed s \<and> (r, stored t) = abs_write n x a (stored s)) s"
    and read_law: "\<lbrakk>ok s; textof s p = Some n; stored s n = Some x; readable x\<rbrakk> \<Longrightarrow>
      wp (get_text p) (\<lambda>q t. ok t \<and> stored t = stored s \<and> holds t q x) s"
begin

lemma writes_refine:
  assumes "ok s" and "list_all2 (\<lambda>(p, q, a) (n, x, b).
      textof s p = Some n \<and> textof s q = Some x \<and> allowed s n \<and> a = b) ops ops'"
  shows "wp (run_writes put_text ops) (\<lambda>rs t. ok t \<and> (\<forall>p y. textof s p = Some y \<longrightarrow> textof t p = Some y) \<and>
      (rs, stored t) = abs_writes ops' (stored s)) s"
  using assms
proof (induction ops ops' arbitrary: s rule: list_induct2')
  case 1
  then show ?case by (simp add: wp_cret)
next
  case (4 op ops op' ops')
  obtain p q a where op: "op = (p, q, a)" by (cases op)
  obtain n x where op': "op' = (n, x, a)" using 4(3) op by (cases op') auto
  have s: "textof s p = Some n" "textof s q = Some x" "allowed s n"
    using 4(3) by (simp_all add: op op')
  have "wp (put_text p q a) (\<lambda>r. wp (cbind (run_writes put_text ops) (\<lambda>rs. cret (r # rs)))
      (\<lambda>rs t. ok t \<and> (\<forall>p y. textof s p = Some y \<longrightarrow> textof t p = Some y) \<and>
        (rs, stored t) = abs_writes (op' # ops') (stored s))) s"
  proof (rule wp_mono [OF write_law [OF 4(2) s]], elim conjE)
    fix r t
    assume t: "ok t" "\<forall>p y. textof s p = Some y \<longrightarrow> textof t p = Some y" "allowed t = allowed s"
      "(r, stored t) = abs_write n x a (stored s)"
    have "list_all2 (\<lambda>(p, q, a) (n, x, b). textof t p = Some n \<and> textof t q = Some x \<and>
        allowed t n \<and> a = b) ops ops'"
      using 4(3) t(2,3) by (auto elim!: list_all2_mono)
    from 4(1) [OF t(1) this]
    show "wp (cbind (run_writes put_text ops) (\<lambda>rs. cret (r # rs)))
      (\<lambda>rs t. ok t \<and> (\<forall>p y. textof s p = Some y \<longrightarrow> textof t p = Some y) \<and>
        (rs, stored t) = abs_writes (op' # ops') (stored s)) t"
      unfolding wp_cbind
      by (rule wp_mono) (use t(2,4) in \<open>auto simp: wp_cret op' split: prod.splits\<close>)
  qed
  then show ?case by (simp add: op wp_cbind)
qed simp_all

text \<open>What was written, with everything that was appended since, is read back.\<close>

lemma writes_read:
  assumes "ok s" and "list_all2 (\<lambda>(p, q, a) (n, x, b).
      textof s p = Some n \<and> textof s q = Some x \<and> allowed s n \<and> a = b) ops ops'"
    and "textof s p = Some n" and "snd (abs_writes ops' (stored s)) n = Some x" and "readable x"
  shows "wp (cseq (run_writes put_text ops) (get_text p)) (\<lambda>q t. ok t \<and> holds t q x) s"
  unfolding wp_cseq
proof (rule wp_mono [OF writes_refine [OF assms(1,2)]], elim conjE)
  fix rs t
  assume t: "ok t" "\<forall>p y. textof s p = Some y \<longrightarrow> textof t p = Some y"
    "(rs, stored t) = abs_writes ops' (stored s)"
  have "stored t n = Some x" using assms(4) by (simp flip: t(3))
  then show "wp (get_text p) (\<lambda>q t. ok t \<and> holds t q x) t"
    using t(2) assms(3) by (intro wp_mono [OF read_law [OF t(1) _ _ assms(5)]]) auto
qed

end

text \<open>The files of a worker provide the interface.\<close>

definition writable_name :: "'z fsys_scheme \<Rightarrow> string \<Rightarrow> bool" where
  "writable_name s n = may_write s (path_of s n)"

definition starts_with :: "'z mem_scheme \<Rightarrow> ptr \<Rightarrow> string \<Rightarrow> bool" where
  "starts_with s p x \<longleftrightarrow> peek s p (length x) = Some x"

lemma path_of_inject: "path_of s m = path_of s n \<longleftrightarrow> m = n"
  by (simp add: path_of_def split: ptr.split)

lemma fs_frame_names:
  assumes "fs_ok s" and "fs_frame s t"
  shows "writable_name t = writable_name s"
  using path_of_frame [OF assms] assms(2) by (simp add: fun_eq_iff writable_name_def fs_frame_def)

lemma fs_frame_content:
  assumes "fs_ok s" and "fs_frame s t"
  shows "files t = (files s)(path_of s n \<mapsto> x) \<Longrightarrow> content t = (content s)(n \<mapsto> x)"
    and "files t = files s \<Longrightarrow> content t = content s"
  using path_of_frame [OF assms] by (simp_all add: fun_eq_iff content_def path_of_inject)

text \<open>What both kinds of writing do to the files, and to what the names stand for.\<close>

lemma put_then:
  assumes ok: "fs_ok s" and p: "cstring s p = Some n" and q: "cstring s q = Some x"
    and w: "writable_name s n"
    and Q: "\<And>r t. \<lbrakk>fs_frame s t; (r, files t) = abs_write (path_of s n) x a (files s)\<rbrakk> \<Longrightarrow> Q r t"
  shows "wp (fs_write_file B p q a) Q s"
proof -
  have w': "may_write s (path_of s n)" using w by (simp add: writable_name_def)
  consider "\<not> a" | "a" "content s n = None" | y where "a" "content s n = Some y" by fastforce
  then show ?thesis
  proof cases
    case 1
    have "wp (fs_write_file B p q False) Q s"
      by (rule write_then [OF ok p q w'], rule Q) (use 1 in \<open>simp_all add: abs_write_def\<close>)
    with 1 show ?thesis by simp
  next
    case 2
    have "wp (fs_write_file B p q True) Q s"
      by (rule append_missing_then [OF ok p 2(2)], rule Q)
        (use 2 in \<open>simp_all add: grows_fs_frame grows_fsys abs_write_def content_def\<close>)
    with 2 show ?thesis by simp
  next
    case 3
    have "wp (fs_write_file B p q True) Q s"
      by (rule append_then [OF ok p q w' 3(2)], rule Q) (use 3 in \<open>simp_all add: abs_write_def content_def\<close>)
    with 3 show ?thesis by simp
  qed
qed

lemma abs_write_content:
  assumes "path_of t = path_of s" and "(r, files t) = abs_write (path_of s n) x a (files s)"
  shows "(r, content t) = abs_write n x a (content s)"
  using assms by (auto simp: abs_write_def content_def fun_eq_iff path_of_inject split: if_splits option.splits)

lemma fs_write_law:
  assumes ok: "fs_ok s" and p: "cstring s p = Some n" and q: "cstring s q = Some x"
    and w: "writable_name s n"
  shows "wp (fs_write_file B p q a) (\<lambda>r t. fs_ok t \<and> (\<forall>p y. cstring s p = Some y \<longrightarrow> cstring t p = Some y) \<and>
        writable_name t = writable_name s \<and> (r, content t) = abs_write n x a (content s)) s"
proof (rule put_then [OF assms])
  fix r t assume t: "fs_frame s t" "(r, files t) = abs_write (path_of s n) x a (files s)"
  have "path_of t = path_of s" using path_of_frame [OF ok t(1)] by (simp add: fun_eq_iff)
  then show "fs_ok t \<and> (\<forall>p y. cstring s p = Some y \<longrightarrow> cstring t p = Some y) \<and>
        writable_name t = writable_name s \<and> (r, content t) = abs_write n x a (content s)"
    using abs_write_content [OF _ t(2)] fs_ok_frame [OF ok t(1)] fs_frame_names [OF ok t(1)]
      mgrows_cstring [OF fs_frame_mgrows [OF t(1)]] by blast
qed

interpretation fs: file_store fs_ok cstring content writable_name "fs_write_file B" "fs_read_file B"
    starts_with "fits READ_SIZE 0" for B
proof unfold_locales
  fix s :: "'a fsys_scheme" and p n q x a
  assume ok: "fs_ok s" and p: "cstring s p = Some n"
  show "cstring s q = Some x \<Longrightarrow> writable_name s n \<Longrightarrow>
      wp (fs_write_file B p q a) (\<lambda>r t. fs_ok t \<and> (\<forall>p y. cstring s p = Some y \<longrightarrow> cstring t p = Some y) \<and>
        writable_name t = writable_name s \<and> (r, content t) = abs_write n x a (content s)) s"
    by (rule fs_write_law [OF ok p])
  show "content s n = Some x \<Longrightarrow> fits READ_SIZE 0 x \<Longrightarrow>
      wp (fs_read_file B p) (\<lambda>q t. fs_ok t \<and> content t = content s \<and> starts_with t q x) s"
    by (erule (1) read_then [OF ok p])
      (simp add: fs_ok_frame [OF ok] fs_frame_content(2) [OF ok] starts_with_def)
qed

section \<open>Properties\<close>

definition str_block :: "string \<Rightarrow> block" where
  "str_block t = \<lparr>usable = length t + 1, bytes = t @ [NUL], on_heap = True\<rparr>"

text \<open>A worker for examples: three strings in memory, the last one its working directory.\<close>

definition sample_fsys :: "string \<Rightarrow> string \<Rightarrow> file_map \<Rightarrow> fsys" where
  "sample_fsys n x fs = \<lparr>blocks = [0 \<mapsto> str_block n, 1 \<mapsto> str_block x, 2 \<mapsto> str_block ''dir''],
     next_id = 3, junk = (\<lambda>_ _. NUL), spare = (\<lambda>_. 0), room = (\<lambda>_. 64),
     fds = [], net = [], trace = [], log_msg = Null,
     files = fs, may_write = (\<lambda>_. True), streams = 0, work_dir = Ptr 2 0\<rparr>"

lemma c_str_exact: "NUL \<notin> set t \<Longrightarrow> c_str (t @ [NUL]) = Some t"
  by (rule c_str_nul)

lemma sample_fsys_simps [simp]:
  "fs_ok (sample_fsys n x fs)" "path_of (sample_fsys n x fs) m = ''dir/'' @ m"
  "NUL \<notin> set n \<Longrightarrow> cstring (sample_fsys n x fs) (Ptr 0 0) = Some n"
  "NUL \<notin> set x \<Longrightarrow> cstring (sample_fsys n x fs) (Ptr 1 0) = Some x"
  "may_write (sample_fsys n x fs) path" "spare (sample_fsys n x fs) = (\<lambda>_. 0)"
  "files (sample_fsys n x fs) = fs" "streams (sample_fsys n x fs) = 0" "trace (sample_fsys n x fs) = []"
  by (auto simp: sample_fsys_def fs_ok_def log_ok_def wf_mem_def str_block_def path_of_def c_str_exact
      split: if_splits)

lemma sample_fsys_blocks [simp]:
  "blocks (sample_fsys n x fs) = [0 \<mapsto> str_block n, 1 \<mapsto> str_block x, 2 \<mapsto> str_block ''dir'']"
  "bytes (str_block t) = t @ [NUL]"
  by (simp_all add: sample_fsys_def str_block_def)

lemma sample_content [simp]: "content (sample_fsys n x fs) m = fs (''dir/'' @ m)"
  by (simp add: content_def)

text \<open>
  C12. The files of a worker refine a map from names to contents: any sequence of writes and
  appends returns the number of bytes of each text, or \<open>-1\<close> for an append to a file that does
  not exist, and leaves the files as the same sequence leaves the map. The paths must be
  writable; nothing is assumed about which files exist or about their contents.
\<close>

theorem fs_writes_refine_map:
  assumes "fs_ok s" and "list_all2 (\<lambda>(p, q, a) (n, x, b).
      cstring s p = Some n \<and> cstring s q = Some x \<and> writable_name s n \<and> a = b) ops ops'"
  shows "wp (run_writes (fs_write_file B) ops) (\<lambda>rs t. fs_ok t \<and>
      (\<forall>p y. cstring s p = Some y \<longrightarrow> cstring t p = Some y) \<and>
      (rs, content t) = abs_writes ops' (content s)) s"
  using assms by (rule fs.writes_refine)

theorem fs_writes_refine_map_witness:
  "wp (run_writes (fs_write_file test_build) [(Ptr 0 0, Ptr 1 0, True), (Ptr 0 0, Ptr 1 0, False),
       (Ptr 0 0, Ptr 1 0, True)])
     (\<lambda>rs t. rs = [- 1, 2, 2] \<and> content t ''f'' = Some ''hihi'') (sample_fsys ''f'' ''hi'' (\<lambda>_. None))"
proof (rule wp_mono [OF fs_writes_refine_map])
  show "list_all2 (\<lambda>(p, q, a) (n, x, b). cstring (sample_fsys ''f'' ''hi'' (\<lambda>_. None)) p = Some n \<and>
      cstring (sample_fsys ''f'' ''hi'' (\<lambda>_. None)) q = Some x \<and>
      writable_name (sample_fsys ''f'' ''hi'' (\<lambda>_. None)) n \<and> a = b)
    [(Ptr 0 0, Ptr 1 0, True), (Ptr 0 0, Ptr 1 0, False), (Ptr 0 0, Ptr 1 0, True)]
    [(''f'', ''hi'', True), (''f'', ''hi'', False), (''f'', ''hi'', True)]"
    by (simp add: writable_name_def)
qed (auto simp: abs_write_def)

text \<open>
  C35. Reading a file returns a buffer that starts with its whole content exactly if the text
  fits the buffer, which only grows at characters whose code is a multiple of 100: with an
  allocator that rounds nothing up every other text overflows the buffer, so a text of more
  than 100 bytes is in general not readable, while every text of at most 100 bytes is. The
  stream that was opened is not closed.
\<close>

theorem fs_read_exact:
  assumes "fs_ok s" and "cstring s p = Some n" and "content s n = Some x" and "spare s = (\<lambda>_. 0)"
  shows "if fits READ_SIZE 0 x
    then wp (fs_read_file B p) (\<lambda>q t. starts_with t q x \<and> content t = content s \<and>
      streams t = Suc (streams s)) s
    else fs_read_file B p s = Inl Overflow"
proof (cases "fits READ_SIZE 0 x")
  case True
  have "wp (fs_read_file B p) (\<lambda>q t. starts_with t q x \<and> content t = content s \<and>
      streams t = Suc (streams s)) s"
    by (rule read_then [OF assms(1-3) True])
      (simp add: starts_with_def fs_frame_content(2) [OF assms(1)])
  with True show ?thesis by simp
next
  case False
  then show ?thesis using read_overflow [OF assms(1-3) False assms(4)] by simp
qed

lemma fits_grown: "fits cap i (replicate n (CHR ''x'')) \<longleftrightarrow> n = 0 \<or> i + n \<le> cap"
proof (induction n arbitrary: i)
  case (Suc n)
  have "(of_char (CHR ''x'') :: nat) = 120" by simp
  then show ?case using Suc.IH [of "Suc i"] by (auto simp: READ_SIZE_def)
qed simp

theorem fs_read_exact_witness:
  "fs_read_file test_build (Ptr 0 0)
     (sample_fsys ''f'' [] (\<lambda>_. Some (replicate 101 (CHR ''x'')))) = Inl Overflow"
  using fs_read_exact [of "sample_fsys ''f'' [] (\<lambda>_. Some (replicate 101 (CHR ''x'')))" "Ptr 0 0" "''f''"
      "replicate 101 (CHR ''x'')"]
  by (simp add: fits_grown) (simp add: READ_SIZE_def)

text \<open>
  Deleting a file runs one shell command, \<^verbatim>\<open>rm\<close> with the path, and removes exactly that
  file, if the path has no characters that the shell treats in a special way and \<^verbatim>\<open>rm\<close> does
  what it documents.
\<close>

theorem fs_delete_removes:
  assumes "fs_ok s" and "cstring s p = Some n" and "content s n \<noteq> None"
    and "rm_law sh" and "plain (path_of s n)"
  shows "wp (fs_delete_file sh p) (\<lambda>_ t. files t = (files s)(path_of s n := None) \<and>
      trace t = trace s @ [Ran (''rm '' @ path_of s n)]) s"
  by (rule delete_then [OF assms]) simp

definition sample_shell :: shell where
  "sample_shell c fs = (if take 3 c = ''rm '' then fs(drop 3 c := None) else fs)"

theorem fs_delete_removes_witness:
  "wp (fs_delete_file sample_shell (Ptr 0 0)) (\<lambda>_ t. files t ''dir/f'' = None \<and>
      files t ''dir/g'' = Some ''y'' \<and> trace t = [Ran ''rm dir/f''])
     (sample_fsys ''f'' [] [''dir/f'' \<mapsto> ''x'', ''dir/g'' \<mapsto> ''y''])"
  by (rule wp_mono [OF fs_delete_removes [where n = "''f''"]])
    (simp_all add: rm_law_def sample_shell_def plain_def plain_char_def is_digit_def)

end
