(* ===== verification/File_Exec.thy ===== *)
theory File_Exec
  imports Fs
begin

unbundle bit_operations_syntax

text \<open>
  \<^verbatim>\<open>src/server/file_exec.c\<close>: the file operations of a worker behind one mutex, and the
  listing of its directory. The value of a variable that was never assigned is part of the
  state (\<open>stack_out\<close>); so is what reading a directory finds (\<open>dirs\<close>).
\<close>

section \<open>State\<close>

record f_out =
  f_error :: bool
  f_text :: ptr
  f_len :: u32

text \<open>The array of names is a list of pointers, as the table of servers is a list of cells.\<close>

type_synonym file_names = "ptr list"

record execs = fsys +
  exec_held :: bool
  dirs :: "string \<Rightarrow> string list option"
  stack_out :: f_out

type_synonym ('a, 'z) ecmd = "('a, 'z execs_scheme) cmd"

definition FILE_READ :: u16 where "FILE_READ = 1"
definition FILE_WRITE :: u16 where "FILE_WRITE = 2"
definition FILE_APPEND :: u16 where "FILE_APPEND = 4"
definition FILE_DELETE :: u16 where "FILE_DELETE = 8"

definition exec_lock :: "(unit, 'z) ecmd" where
  "exec_lock s = (if exec_held s then Inl Deadlock else Inr ((), s\<lparr>exec_held := True\<rparr>))"

definition exec_unlock :: "(unit, 'z) ecmd" where
  "exec_unlock = cmodify (\<lambda>s. s\<lparr>exec_held := False\<rparr>)"

section \<open>The parts of an argument\<close>

text \<open>
  \<^verbatim>\<open>while (ptr[counter++] != SEP);\<close> ends behind the first separator and does not look for
  the end of the string. The counter has 32 bits, so the loop has seen every index after
  \<open>2 ^ 32\<close> rounds.
\<close>

definition find_sep_body :: "ptr \<Rightarrow> u32 \<Rightarrow> (u32 + u32, 'z) mcmd" where
  "find_sep_body p counter =
     cbind (load (padd p (unat counter)) 1) (\<lambda>x.
     if x = [CHR '';''] then cret (Inr (counter + 1)) else cret (Inl (counter + 1)))"

definition find_sep :: "ptr \<Rightarrow> (u32, 'z) mcmd" where
  "find_sep p = cloop (2 ^ 32) (find_sep_body p) 0"

definition arg_file_name :: "ptr \<Rightarrow> (ptr, 'z) mcmd" where
  "arg_file_name p =
     cbind (find_sep p) (\<lambda>counter.
     cbind (malloc (unat (counter + 1))) (\<lambda>name.
     cseq (strncpy name p (unat (counter - 1))) (cret name)))"

definition arg_buffer :: "ptr \<Rightarrow> (ptr, 'z) mcmd" where
  "arg_buffer p = cbind (find_sep p) (\<lambda>counter. cret (padd p (unat counter)))"

section \<open>Operations\<close>

definition read_file :: "build \<Rightarrow> ptr \<Rightarrow> (f_out, 'z) fcmd" where
  "read_file B file =
     cbind (fs_read_file B file) (\<lambda>rd.
     cbind (strlen rd) (\<lambda>n.
     cbind (malloc (unat (of_nat n + 1 :: u32))) (\<lambda>out.
     cseq (memcpy out rd (unat (of_nat n :: u32)))
       (cret \<lparr>f_error = False, f_text = out, f_len = of_nat n\<rparr>))))"

definition write_file :: "build \<Rightarrow> ptr \<Rightarrow> ptr \<Rightarrow> bool \<Rightarrow> (f_out, 'z) fcmd" where
  "write_file B file buffer isappend =
     cbind (strlen buffer) (\<lambda>_.
     cbind (fs_write_file B file buffer isappend) (\<lambda>bs.
     cbind (malloc 10) (\<lambda>out.
     cseq (sprintf out [PInt bs])
     (cbind (strlen out) (\<lambda>n.
      cret \<lparr>f_error = False, f_text = out, f_len = of_nat n\<rparr>)))))"

definition delete_file :: "shell \<Rightarrow> ptr \<Rightarrow> (f_out, 'z) fcmd" where
  "delete_file sh file =
     cseq (fs_delete_file sh file)
     (cbind (literal []) (\<lambda>e. cret \<lparr>f_error = False, f_text = e, f_len = 0\<rparr>))"

text \<open>The flags are tested one after the other; without any the result is what was on the stack.\<close>

definition f_exec :: "build \<Rightarrow> shell \<Rightarrow> u16 \<Rightarrow> ptr \<Rightarrow> (f_out, 'z) ecmd" where
  "f_exec B sh oper a =
     cbind (cget stack_out) (\<lambda>output.
     cseq exec_lock
     (cbind (if oper AND FILE_READ \<noteq> 0 then read_file B a else cret output) (\<lambda>output.
      cbind (if oper AND FILE_WRITE \<noteq> 0
        then cbind (arg_file_name a) (\<lambda>n. cbind (arg_buffer a) (\<lambda>b. write_file B n b False))
        else cret output) (\<lambda>output.
      cbind (if oper AND FILE_APPEND \<noteq> 0
        then cbind (arg_file_name a) (\<lambda>n. cbind (arg_buffer a) (\<lambda>b. write_file B n b True))
        else cret output) (\<lambda>output.
      cbind (if oper AND FILE_DELETE \<noteq> 0 then delete_file sh a else cret output) (\<lambda>output.
      cseq exec_unlock (cret output)))))))"

section \<open>The listing of a directory\<close>

text \<open>Each name is copied with its NUL into a block that has no room for the NUL.\<close>

fun copy_names :: "string list \<Rightarrow> ptr list \<Rightarrow> (ptr list, 'z) mcmd" where
  "copy_names [] names = cret names"
| "copy_names (d # ds) names =
     cbind (malloc (length d)) (\<lambda>p.
     cseq (store p (d @ [NUL])) (copy_names ds (names @ [p])))"

definition file_list :: "build \<Rightarrow> string \<Rightarrow> (ptr list, 'z) ecmd" where
  "file_list B dir =
     cseq exec_lock
     (cbind (cget dirs) (\<lambda>find.
      case find dir of
        None \<Rightarrow>
          cseq (log_text B ERROR COMP_WORKER ''Directory ~/.PekarDrive could not be opened.'')
          (cseq exec_unlock (cret []))
      | Some names \<Rightarrow>
          cbind (copy_names names []) (\<lambda>list. cseq exec_unlock (cret list))))"

declare copy_names.simps [simp del]

section \<open>Laws\<close>

lemma execs_updates [simp]:
  "wf_mem (s\<lparr>exec_held := x\<rparr>) = wf_mem s" "cstring (s\<lparr>exec_held := x\<rparr>) p = cstring s p"
  "peek (s\<lparr>exec_held := x\<rparr>) p n = peek s p n" "mgrows r (s\<lparr>exec_held := x\<rparr>) = mgrows r s"
  "mgrows (s\<lparr>exec_held := x\<rparr>) t = mgrows s t" "clean_mem (s\<lparr>exec_held := x\<rparr>) = clean_mem s"
  "live (s\<lparr>exec_held := x\<rparr>) p = live s p"
  by (cases p; simp add: wf_mem_def mgrows_def clean_mem_def)+

lemma execs_files [simp]:
  "fs_ok (s\<lparr>exec_held := x\<rparr>) = fs_ok s" "path_of (s\<lparr>exec_held := x\<rparr>) n = path_of s n"
  "content (s\<lparr>exec_held := x\<rparr>) = content s" "writable_name (s\<lparr>exec_held := x\<rparr>) = writable_name s"
  by (simp_all add: fs_ok_def log_ok_def path_of_def content_def writable_name_def fun_eq_iff
      split: ptr.split)

lemma execs_more:
  assumes "fsys.more t = fsys.more s"
  shows "exec_held t = exec_held s" "dirs t = dirs s" "stack_out t = stack_out s"
    "execs.more t = execs.more s"
  using assms by (cases s, cases t, simp)+

text \<open>What a call may change besides memory and files: nothing; the mutex is free again.\<close>

definition exec_ok :: "'z execs_scheme \<Rightarrow> bool" where
  "exec_ok s \<longleftrightarrow> fs_ok s \<and> \<not> exec_held s"

definition exec_frame :: "'z execs_scheme \<Rightarrow> 'z execs_scheme \<Rightarrow> bool" where
  "exec_frame s t \<longleftrightarrow> mgrows s t \<and> fds t = fds s \<and> net t = net s \<and> log_msg t = log_msg s \<and>
     work_dir t = work_dir s \<and> may_write t = may_write s \<and> exec_held t = exec_held s \<and>
     dirs t = dirs s \<and> stack_out t = stack_out s \<and> execs.more t = execs.more s"

lemma exec_frame_mgrows: "exec_frame s t \<Longrightarrow> mgrows s t"
  by (simp add: exec_frame_def)

lemma exec_frame_unlocked:
  assumes "\<not> exec_held s" and "fs_frame (s\<lparr>exec_held := True\<rparr>) t"
  shows "exec_frame s (t\<lparr>exec_held := False\<rparr>)"
  using assms execs_more [of t "s\<lparr>exec_held := True\<rparr>"]
  by (simp add: exec_frame_def fs_frame_def)

lemma exec_ok_frame:
  assumes "exec_ok s" and "exec_frame s t"
  shows "exec_ok t"
  using assms unfolding exec_ok_def fs_ok_def exec_frame_def log_ok_def
  by (auto simp del: cstring.simps dest: mgrows_wf mgrows_blocks mgrows_cstring split: ptr.splits)

lemma exec_path_of:
  assumes "exec_ok s" and "exec_frame s t"
  shows "path_of t n = path_of s n"
  using assms mgrows_cstring [OF exec_frame_mgrows [OF assms(2)]]
  by (auto simp: path_of_def exec_frame_def exec_ok_def fs_ok_def simp del: cstring.simps split: ptr.splits)

lemma wp_exec_lock [wp_simps]:
  "wp exec_lock Q s = (\<not> exec_held s \<and> Q () (s\<lparr>exec_held := True\<rparr>))"
  by (simp add: wp_def exec_lock_def)

lemma wp_exec_unlock [wp_simps]: "wp exec_unlock Q s = Q () (s\<lparr>exec_held := False\<rparr>)"
  by (simp add: exec_unlock_def wp_simps)

subsection \<open>Splitting the argument\<close>

lemma find_sep_loop:
  assumes str: "cstring s p = Some (n @ CHR '';'' # x)" and len: "length n + 1 < 2 ^ 32"
    and sep: "CHR '';'' \<notin> set n"
    and "j \<le> length n" and "length n - j < fuel" and "w = of_nat j"
  shows "wp (cloop fuel (find_sep_body p) w) Q s = Q (of_nat (length n + 1)) s"
  using assms(4-)
proof (induction "length n - j" arbitrary: j fuel w)
  case (0 j)
  then obtain f where f: "fuel = Suc f" by (cases fuel) auto
  have u: "unat w = length n" using 0 len by (simp only: unsigned_of_nat) (simp add: take_bit_nat_eq_self)
  have "peek s (padd p (length n)) 1 = Some [CHR '';'']"
    using cstring_at [OF str, of "length n"] by simp
  then show ?case using 0 u by (simp add: f wp_cloop_Suc find_sep_body_def wp_simps add.commute)
next
  case (Suc d j)
  then obtain f where f: "fuel = Suc f" by (cases fuel) auto
  have j: "j < length n" using Suc.hyps(2) by simp
  have u: "unat w = j" using Suc.prems j len by (simp only: unsigned_of_nat) (simp add: take_bit_nat_eq_self)
  have "peek s (padd p j) 1 = Some [n ! j]"
    using cstring_at [OF str, of j] j by (simp add: nth_append)
  moreover have "n ! j \<noteq> CHR '';''" using sep j by (metis nth_mem)
  moreover have "wp (cloop f (find_sep_body p) (w + 1)) Q s = Q (of_nat (length n + 1)) s"
    by (rule Suc.hyps(1) [of "Suc j"]) (use Suc f j in \<open>simp_all add: add.commute\<close>)
  ultimately show ?case using u by (simp add: f wp_cloop_Suc find_sep_body_def wp_simps)
qed

lemma wp_find_sep:
  assumes "cstring s p = Some (n @ CHR '';'' # x)" and "length n + 1 < 2 ^ 32" and "CHR '';'' \<notin> set n"
  shows "wp (find_sep p) Q s = Q (of_nat (length n + 1)) s"
  unfolding find_sep_def by (rule find_sep_loop [OF assms, of 0]) (use assms(2) in simp_all)

lemma arg_file_name_then:
  assumes wf: "wf_mem s" and clean: "clean_mem s" and str: "cstring s p = Some (n @ CHR '';'' # x)"
    and len: "length n + 2 < 2 ^ 32" and sep: "CHR '';'' \<notin> set n"
    and Q: "\<And>q t. \<lbrakk>grows s t; cstring t q = Some n\<rbrakk> \<Longrightarrow> Q q t"
  shows "wp (arg_file_name p) Q s"
proof -
  let ?m = "length n + 2"
  let ?t = "add_block (filled ?m n s) s"
  have g: "grows s ?t" by (rule grows_filled [OF wf]) simp
  have "drop (length n) (fresh_bytes ?m s) = NUL # drop (Suc (length n)) (fresh_bytes ?m s)"
    using clean by (subst Cons_nth_drop_Suc [symmetric]) (simp_all add: fresh_bytes_def clean_mem_def del: upt_Suc)
  moreover have "NUL \<notin> set n" using cstring_no_nul [OF str] by simp
  ultimately have "cstring ?t (Ptr (next_id s) 0) = Some n" by (simp add: bytes_filled c_str_nul)
  then have Qt: "Q (Ptr (next_id s) 0) ?t" by (rule Q [OF g])
  have u: "unat (of_nat (length n + 1) + 1 :: u32) = ?m" "unat (of_nat (length n + 1) - 1 :: u32) = length n"
  proof -
    have "(of_nat (length n + 1) + 1 :: u32) = of_nat ?m" by simp
    then show "unat (of_nat (length n + 1) + 1 :: u32) = ?m"
      using len by (simp only: unsigned_of_nat) (simp add: take_bit_nat_eq_self)
    have "(of_nat (length n + 1) - 1 :: u32) = of_nat (length n)" by simp
    then show "unat (of_nat (length n + 1) - 1 :: u32) = length n"
      using len by (simp only: unsigned_of_nat) (simp add: take_bit_nat_eq_self)
  qed
  have str': "cstring (add_block (fresh_block ?m s) s) p = Some (n @ CHR '';'' # x)"
    by (rule cstring_add_block [OF wf str])
  have "wp (find_sep p) Q' s = Q' (of_nat (length n + 1)) s" for Q' :: "u32 \<Rightarrow> 'a mem_scheme \<Rightarrow> bool"
    by (rule wp_find_sep [OF str _ sep]) (use len in simp)
  then show ?thesis
    using Qt wp_strncpy_prefix [OF str', of "length n"]
    by (simp only: arg_file_name_def wp_cbind wp_malloc u wp_cseq wp_cret)
      (simp add: wp_cret filled_def del: wp_strncpy)
qed

lemma arg_buffer_then:
  assumes "cstring s p = Some (n @ CHR '';'' # x)" and "length n + 1 < 2 ^ 32" and "CHR '';'' \<notin> set n"
    and Q: "\<And>q. cstring s q = Some x \<Longrightarrow> Q q s"
  shows "wp (arg_buffer p) Q s"
proof -
  have "unat (of_nat (length n + 1) :: u32) = length n + 1"
    using assms(2) by (simp only: unsigned_of_nat) (simp add: take_bit_nat_eq_self)
  moreover have "cstring s (padd p (length n + 1)) = Some x"
    using cstring_drop [OF assms(1), of "length n + 1"] by simp
  ultimately show ?thesis
    using Q wp_find_sep [OF assms(1-3)] by (simp only: arg_buffer_def wp_cbind wp_cret)
qed

subsection \<open>Reading and writing\<close>

text \<open>The output of an operation: its text in memory and the length of the text.\<close>

definition gives :: "'z mem_scheme \<Rightarrow> f_out \<Rightarrow> string \<Rightarrow> bool" where
  "gives t out x \<longleftrightarrow> \<not> f_error out \<and> cstring t (f_text out) = Some x \<and> f_len out = of_nat (length x)"

lemma gives_held [simp]: "gives (t\<lparr>exec_held := b\<rparr>) out x = gives t out x"
  by (simp add: gives_def)

lemma unat_of_nat32: "n < 2 ^ 32 \<Longrightarrow> unat (of_nat n :: u32) = n"
  by (simp only: unsigned_of_nat) (simp add: take_bit_nat_eq_self)

lemma abs_write_count:
  assumes "(r, m') = abs_write n x a m" and "length (show_nat (length x)) < 10"
  shows "length (show_int r) < 10"
proof -
  have "r = int (length x) \<or> r = - 1" using assms(1) by (auto simp: abs_write_def split: if_splits option.splits)
  moreover have "length (show_int (- 1)) < 10" by (simp add: show_int_def show_nat.simps)
  ultimately show ?thesis using assms(2) by (auto simp: show_int_def)
qed

lemma write_file_then:
  assumes ok: "fs_ok s" and p: "cstring s p = Some n" and q: "cstring s q = Some x"
    and w: "writable_name s n" and len: "length (show_nat (length x)) < 10"
    and Q: "\<And>r out t. \<lbrakk>fs_frame s t; (r, files t) = abs_write (path_of s n) x a (files s);
        gives t out (show_int r)\<rbrakk> \<Longrightarrow> Q out t"
  shows "wp (write_file B p q a) Q s"
proof -
  have "wp (fs_write_file B p q a) (\<lambda>bs. wp (cbind (malloc 10) (\<lambda>out.
     cseq (sprintf out [PInt bs])
     (cbind (strlen out) (\<lambda>n.
      cret \<lparr>f_error = False, f_text = out, f_len = of_nat n\<rparr>)))) Q) s"
  proof (rule put_then [OF ok p q w])
    fix r t assume t: "fs_frame s t" "(r, files t) = abs_write (path_of s n) x a (files s)"
    let ?m = "show_int r" and ?t = "add_block (filled 10 (show_int r @ [NUL]) t) t"
    have lm: "length ?m < 10" by (rule abs_write_count [OF t(2) len])
    have g: "grows t ?t" using lm by (intro grows_filled mgrows_wf [OF fs_frame_mgrows [OF t(1)]]) simp
    have c: "cstring ?t (Ptr (next_id t) 0) = Some ?m" by (rule cstring_filled_nul [OF show_int_no_nul])
    have "Q \<lparr>f_error = False, f_text = Ptr (next_id t) 0, f_len = of_nat (length ?m)\<rparr> ?t"
      by (rule Q [OF fs_frame_trans [OF t(1) grows_fs_frame [OF g]], of r])
        (use t(2) c in \<open>simp_all add: gives_def del: cstring.simps\<close>)
    then show "wp (cbind (malloc 10) (\<lambda>out. cseq (sprintf out [PInt r])
        (cbind (strlen out) (\<lambda>n. cret \<lparr>f_error = False, f_text = out, f_len = of_nat n\<rparr>)))) Q t"
      using lm c by (simp add: wp_cbind wp_malloc wp_cseq wp_sprintf wp_format wp_strlen wp_cret
          filled_def wp_funs del: cstring.simps)
  qed
  then show ?thesis using q by (simp add: write_file_def wp_cbind wp_strlen)
qed

lemma read_file_then:
  assumes ok: "fs_ok s" and clean: "clean_mem s" and p: "cstring s p = Some n"
    and x: "content s n = Some x" "fits READ_SIZE 0 x" "NUL \<notin> set x" "length x + 1 < 2 ^ 32"
    and Q: "\<And>out t. \<lbrakk>fs_frame s t; files t = files s; gives t out x\<rbrakk> \<Longrightarrow> Q out t"
  shows "wp (read_file B p) Q s"
  unfolding read_file_def wp_cbind [of "fs_read_file B p"]
proof (rule read_then [OF ok p x(1,2)])
  fix b t
  assume t: "fs_frame s t" "files t = files s" "peek t (Ptr b 0) (length x) = Some x"
    and str: "clean_mem s \<Longrightarrow> NUL \<notin> set x \<Longrightarrow> cstring t (Ptr b 0) = Some x"
  have wf: "wf_mem t" by (rule mgrows_wf [OF fs_frame_mgrows [OF t(1)]])
  let ?n = "length x + 1"
  let ?t = "add_block (filled ?n x t) t"
  have g: "grows t ?t" by (rule grows_filled [OF wf]) simp
  have pk: "peek (add_block (fresh_block ?n t) t) (Ptr b 0) (length x) = Some x"
    by (rule peek_add_block [OF wf t(3)])
  have "drop (length x) (fresh_bytes ?n t) = NUL # drop (Suc (length x)) (fresh_bytes ?n t)"
    using clean_mgrows [OF fs_frame_mgrows [OF t(1)] clean]
    by (subst Cons_nth_drop_Suc [symmetric]) (simp_all add: fresh_bytes_def clean_mem_def del: upt_Suc)
  then have c: "cstring ?t (Ptr (next_id t) 0) = Some x"
    using x(3) by (simp add: bytes_filled c_str_nul)
  have u: "unat (of_nat (length x) + 1 :: u32) = ?n" "unat (of_nat (length x) :: u32) = length x"
    using unat_of_nat32 [of ?n] unat_of_nat32 [of "length x"] x(4) by (simp_all add: add.commute)
  have "Q \<lparr>f_error = False, f_text = Ptr (next_id t) 0, f_len = of_nat (length x)\<rparr> ?t"
    by (rule Q [OF fs_frame_trans [OF t(1) grows_fs_frame [OF g]]])
      (use t(2) c in \<open>simp_all add: gives_def del: cstring.simps\<close>)
  then show "wp (cbind (strlen (Ptr b 0)) (\<lambda>n.
     cbind (malloc (unat (of_nat n + 1 :: u32))) (\<lambda>out.
     cseq (memcpy out (Ptr b 0) (unat (of_nat n :: u32)))
       (cret \<lparr>f_error = False, f_text = out, f_len = of_nat n\<rparr>)))) Q t"
    using str [OF clean x(3)] pk
    by (simp add: wp_cbind wp_strlen wp_malloc wp_cseq wp_memcpy wp_cret u filled_def wp_funs
        del: cstring.simps peek.simps)
qed

subsection \<open>The entry point\<close>

lemma flags [simp]:
  "FILE_READ \<noteq> 0" "FILE_READ AND FILE_WRITE = 0" "FILE_READ AND FILE_APPEND = 0"
  "FILE_READ AND FILE_DELETE = 0"
  "FILE_WRITE AND FILE_READ = 0" "FILE_WRITE \<noteq> 0" "FILE_WRITE AND FILE_APPEND = 0"
  "FILE_WRITE AND FILE_DELETE = 0"
  "FILE_APPEND AND FILE_READ = 0" "FILE_APPEND AND FILE_WRITE = 0" "FILE_APPEND \<noteq> 0"
  "FILE_APPEND AND FILE_DELETE = 0"
  "FILE_DELETE AND FILE_READ = 0" "FILE_DELETE AND FILE_WRITE = 0" "FILE_DELETE AND FILE_APPEND = 0"
  "FILE_DELETE \<noteq> 0"
  by (simp_all add: FILE_READ_def FILE_WRITE_def FILE_APPEND_def FILE_DELETE_def)

lemma exec_read_then:
  assumes ok: "exec_ok s" and clean: "clean_mem s" and p: "cstring s a = Some n"
    and x: "content s n = Some x" "fits READ_SIZE 0 x" "NUL \<notin> set x" "length x + 1 < 2 ^ 32"
    and Q: "\<And>out t. \<lbrakk>exec_frame s t; files t = files s; trace t = trace s; gives t out x\<rbrakk> \<Longrightarrow> Q out t"
  shows "wp (f_exec B sh FILE_READ a) Q s"
proof -
  let ?s = "s\<lparr>exec_held := True\<rparr>"
  have held: "\<not> exec_held s" using ok by (simp add: exec_ok_def)
  have "wp (read_file B a) (\<lambda>out t. Q out (t\<lparr>exec_held := False\<rparr>)) ?s"
  proof (rule read_file_then [where n = n and x = x])
    fix out t assume t: "fs_frame ?s t" "files t = files ?s" "gives t out x"
    then show "Q out (t\<lparr>exec_held := False\<rparr>)"
      by (intro Q exec_frame_unlocked [OF held t(1)]) (simp_all add: fs_frame_def)
  qed (use ok clean p x in \<open>simp_all add: exec_ok_def\<close>)
  then show ?thesis
    by (simp add: f_exec_def wp_cbind wp_cget wp_cseq wp_exec_lock wp_exec_unlock held wp_cret wp_funs)
qed

text \<open>The flag of an operation that writes.\<close>

definition write_flag :: "bool \<Rightarrow> u16" where
  "write_flag a = (if a then FILE_APPEND else FILE_WRITE)"

lemma exec_put_then:
  assumes ok: "exec_ok s" and clean: "clean_mem s" and p: "cstring s p = Some (n @ CHR '';'' # x)"
    and n: "CHR '';'' \<notin> set n" "length n + 2 < 2 ^ 32" and w: "writable_name s n"
    and len: "length (show_nat (length x)) < 10"
    and Q: "\<And>r out t. \<lbrakk>exec_frame s t; (r, files t) = abs_write (path_of s n) x a (files s); trace t = trace s;
        gives t out (show_int r)\<rbrakk> \<Longrightarrow> Q out t"
  shows "wp (f_exec B sh (write_flag a) p) Q s"
proof -
  let ?s = "s\<lparr>exec_held := True\<rparr>"
  have held: "\<not> exec_held s" and fok: "fs_ok ?s" using ok by (simp_all add: exec_ok_def)
  have "wp (arg_file_name p) (\<lambda>f. wp (cbind (arg_buffer p) (\<lambda>b. write_file B f b a))
      (\<lambda>out t. Q out (t\<lparr>exec_held := False\<rparr>))) ?s"
  proof (rule arg_file_name_then [OF _ _ _ n(2,1)])
    fix f t assume t: "grows ?s t" "cstring t f = Some n"
    have fr: "fs_frame ?s t" by (rule grows_fs_frame [OF t(1)])
    have po: "path_of t n = path_of s n" using path_of_frame [OF fok fr] by simp
    have at: "cstring t p = Some (n @ CHR '';'' # x)" using grows_cstring [OF t(1)] p by simp
    have fin: "wp (write_file B f q a) (\<lambda>out t. Q out (t\<lparr>exec_held := False\<rparr>)) t"
      if q: "cstring t q = Some x" for q
    proof (rule write_file_then [OF fs_ok_frame [OF fok fr] t(2) q _ len])
      show "writable_name t n" using w fr by (simp add: po fs_frame_def writable_name_def)
      fix r out u assume u: "fs_frame t u" "(r, files u) = abs_write (path_of t n) x a (files t)"
        "gives u out (show_int r)"
      have su: "fs_frame ?s u" by (rule fs_frame_trans [OF fr u(1)])
      show "Q out (u\<lparr>exec_held := False\<rparr>)"
        by (rule Q [OF exec_frame_unlocked [OF held su], of r])
          (use u su po grows_fsys(1) [OF t(1)] in \<open>simp_all add: fs_frame_def\<close>)
    qed
    show "wp (cbind (arg_buffer p) (\<lambda>b. write_file B f b a)) (\<lambda>out t. Q out (t\<lparr>exec_held := False\<rparr>)) t"
      unfolding wp_cbind by (rule arg_buffer_then [OF at _ n(1)]) (use n(2) fin in simp_all)
  qed (use ok clean p in \<open>simp_all add: fs_ok_wf exec_ok_def\<close>)
  then show ?thesis
    by (cases a) (simp_all add: f_exec_def write_flag_def wp_cbind wp_cget wp_cseq wp_exec_lock wp_exec_unlock
        held wp_cret wp_funs)
qed

lemma exec_write_then:
  assumes ok: "exec_ok s" and clean: "clean_mem s" and p: "cstring s p = Some (n @ CHR '';'' # x)"
    and n: "CHR '';'' \<notin> set n" "length n + 2 < 2 ^ 32" and w: "writable_name s n"
    and len: "length (show_nat (length x)) < 10"
    and Q: "\<And>out t. \<lbrakk>exec_frame s t; files t = (files s)(path_of s n \<mapsto> x); trace t = trace s;
        gives t out (show_nat (length x))\<rbrakk> \<Longrightarrow> Q out t"
  shows "wp (f_exec B sh FILE_WRITE p) Q s"
  using exec_put_then [OF ok clean p n w len, where a = False, unfolded write_flag_def] Q
  by (simp add: abs_write_def show_int_def)

lemma exec_delete_then:
  assumes ok: "exec_ok s" and p: "cstring s p = Some n"
    and sh: "content s n = None \<or> rm_law sh \<and> plain (path_of s n)"
    and Q: "\<And>out t. \<lbrakk>exec_frame s t; files t = (files s)(path_of s n := None); gives t out [];
        trace t = trace s @ (if content s n = None then [] else [Ran (''rm '' @ path_of s n)])\<rbrakk> \<Longrightarrow> Q out t"
  shows "wp (f_exec B sh FILE_DELETE p) Q s"
proof -
  let ?s = "s\<lparr>exec_held := True\<rparr>" and ?ran = "if content s n = None then [] else [Ran (''rm '' @ path_of s n)]"
  have held: "\<not> exec_held s" and fok: "fs_ok ?s" using ok by (simp_all add: exec_ok_def)
  have fin: "wp (cbind (literal []) (\<lambda>e. cret \<lparr>f_error = False, f_text = e, f_len = 0\<rparr>))
      (\<lambda>out t. Q out (t\<lparr>exec_held := False\<rparr>)) t"
    if t: "mgrows ?s t" "files t = (files s)(path_of s n := None)" "trace t = trace s @ ?ran" "fds t = fds s"
      "net t = net s" "log_msg t = log_msg s" "work_dir t = work_dir s" "may_write t = may_write s"
      "fsys.more t = fsys.more ?s" for t
  proof -
    let ?t = "add_block (lit_block [] t) t" and ?b = "next_id t"
    have g: "grows t ?t" by (intro grows_add_block grows_refl mgrows_wf [OF t(1)]) (simp add: lit_block_def)
    have m: "mgrows ?s ?t" by (rule mgrows_trans [OF t(1) grows_mgrows [OF g]])
    have c: "cstring ?t (Ptr ?b 0) = Some []" by (simp add: lit_block_def)
    have "Q \<lparr>f_error = False, f_text = Ptr ?b 0, f_len = 0\<rparr> (?t\<lparr>exec_held := False\<rparr>)"
    proof (rule Q)
      show "exec_frame s (?t\<lparr>exec_held := False\<rparr>)"
        using m t(4-9) held execs_more [of ?t ?s] by (simp add: exec_frame_def add_block_def)
      show "gives (?t\<lparr>exec_held := False\<rparr>) \<lparr>f_error = False, f_text = Ptr ?b 0, f_len = 0\<rparr> []"
        using c by (simp add: gives_def del: cstring.simps)
    qed (use t(2,3) in simp_all)
    then show ?thesis by (simp add: wp_cbind wp_literal wp_cret lit_block_def)
  qed
  have "wp (fs_delete_file sh p) (\<lambda>_. wp (cbind (literal []) (\<lambda>e. cret \<lparr>f_error = False, f_text = e, f_len = 0\<rparr>))
      (\<lambda>out t. Q out (t\<lparr>exec_held := False\<rparr>))) ?s"
  proof (cases "content s n")
    case None
    have f: "(files s)(path_of s n := None) = files s" using None by (auto simp: content_def)
    show ?thesis
    proof (rule delete_missing_then [OF fok])
      fix t assume t: "grows ?s t"
      show "wp (cbind (literal []) (\<lambda>e. cret \<lparr>f_error = False, f_text = e, f_len = 0\<rparr>))
          (\<lambda>out t. Q out (t\<lparr>exec_held := False\<rparr>)) t"
        by (rule fin [OF grows_mgrows [OF t]]) (use f None in \<open>simp_all add: grows_os [OF t] grows_fsys [OF t]\<close>)
    qed (use p None in simp_all)
  next
    case (Some y)
    show ?thesis
      by (rule delete_then [OF fok, where n = n]) (use p Some sh in \<open>simp_all add: fin\<close>)
  qed
  then show ?thesis
    by (simp add: f_exec_def delete_file_def wp_cbind wp_cget wp_cseq wp_exec_lock wp_exec_unlock held wp_cret wp_funs)
qed

subsection \<open>What goes wrong\<close>

lemma exec_read_missing_run:
  assumes ok: "exec_ok s" and p: "cstring s a = Some n" and x: "content s n = None"
  shows "f_exec B sh FILE_READ a s = Inl NullDeref"
proof -
  let ?s = "s\<lparr>exec_held := True\<rparr>"
  have held: "\<not> exec_held s" using ok by (simp add: exec_ok_def)
  have "wp (fs_read_file B a) (\<lambda>rd t. rd = Null) ?s"
    by (rule read_missing_then [of ?s a n]) (use ok p x in \<open>simp_all add: exec_ok_def\<close>)
  then have "read_file B a ?s = Inl NullDeref"
    unfolding read_file_def
    by (intro wp_fault, elim wp_mono) (simp add: strlen_def cbind_def)
  then show ?thesis using held by (simp add: f_exec_def cbind_def cseq_def cget_def exec_lock_def)
qed

lemma file_list_overflow:
  assumes "\<not> exec_held s" and "dirs s dir = Some (d # ds)" and "spare s = (\<lambda>_. 0)"
  shows "file_list B dir s = Inl Overflow"
  using assms
  by (simp add: file_list_def copy_names.simps cseq_def cbind_def cget_def exec_lock_def malloc_def)

section \<open>Properties\<close>

definition sample_execs :: "string \<Rightarrow> string \<Rightarrow> file_map \<Rightarrow> execs" where
  "sample_execs a b fs = fsys.extend (sample_fsys a b fs)
     (execs.fields False (\<lambda>_. Some [''.'', ''..'']) \<lparr>f_error = True, f_text = Null, f_len = 0\<rparr>)"

lemma sample_execs_simps [simp]:
  "exec_ok (sample_execs n x fs)" "clean_mem (sample_execs n x fs)"
  "path_of (sample_execs n x fs) m = ''dir/'' @ m" "content (sample_execs n x fs) m = fs (''dir/'' @ m)"
  "NUL \<notin> set n \<Longrightarrow> cstring (sample_execs n x fs) (Ptr 0 0) = Some n"
  "NUL \<notin> set x \<Longrightarrow> cstring (sample_execs n x fs) (Ptr (Suc 0) 0) = Some x"
  "may_write (sample_execs n x fs) path" "writable_name (sample_execs n x fs) m"
  "files (sample_execs n x fs) = fs"
  by (auto simp: sample_execs_def sample_fsys_def fsys.defs execs.defs exec_ok_def fs_ok_def log_ok_def
      wf_mem_def str_block_def path_of_def c_str_exact clean_mem_def content_def writable_name_def
      split: if_splits)

text \<open>
  What a worker writes it reads back: after the operation \<^verbatim>\<open>FILE_WRITE\<close> with the argument
  \<^verbatim>\<open>name;data\<close> the operation \<^verbatim>\<open>FILE_READ\<close> with the name gives exactly the data and its length,
  for data that fits the read buffer, and the mutex is free again. The name must not have the
  separator; the data may. The memory must be zero, because the copies are not terminated.
\<close>

theorem exec_write_read:
  assumes "exec_ok s" and "clean_mem s" and "cstring s a = Some (n @ CHR '';'' # x)"
    and "cstring s b = Some n" and "CHR '';'' \<notin> set n" and "length n + 2 < 2 ^ 32"
    and "writable_name s n" and "length (show_nat (length x)) < 10" and "fits READ_SIZE 0 x"
    and "length x + 1 < 2 ^ 32"
  shows "wp (cseq (f_exec B sh FILE_WRITE a) (f_exec B sh FILE_READ b))
    (\<lambda>out t. gives t out x \<and> content t n = Some x \<and> exec_ok t) s"
  unfolding wp_cseq
proof (rule exec_write_then [OF assms(1-3,5-8)])
  fix out t
  assume t: "exec_frame s t" "files t = (files s)(path_of s n \<mapsto> x)"
  note m = exec_frame_mgrows [OF t(1)] and ok = exec_ok_frame [OF assms(1) t(1)]
  have po: "path_of t n = path_of s n" by (rule exec_path_of [OF assms(1) t(1)])
  have x: "content t n = Some x" by (simp add: content_def po t(2))
  show "wp (f_exec B sh FILE_READ b) (\<lambda>out t. gives t out x \<and> content t n = Some x \<and> exec_ok t) t"
  proof (rule exec_read_then [OF ok clean_mgrows [OF m assms(2)] mgrows_cstring [OF m assms(4)] x assms(9)])
    show "NUL \<notin> set x" using cstring_no_nul [OF assms(3)] by simp
    fix out u assume u: "exec_frame t u" "files u = files t" "gives u out x"
    have "path_of u n = path_of t n" by (rule exec_path_of [OF ok u(1)])
    then show "gives u out x \<and> content u n = Some x \<and> exec_ok u"
      using u(2,3) x exec_ok_frame [OF ok u(1)] by (simp add: content_def)
  qed (rule assms(10))
qed

theorem exec_write_read_witness:
  "wp (cseq (f_exec test_build (\<lambda>_ fs. fs) FILE_WRITE (Ptr 0 0))
      (f_exec test_build (\<lambda>_ fs. fs) FILE_READ (Ptr 1 0)))
     (\<lambda>out t. gives t out ''a;b'' \<and> content t ''f'' = Some ''a;b'') (sample_execs ''f;a;b'' ''f'' (\<lambda>_. None))"
proof (rule wp_mono [OF exec_write_read [where n = "''f''" and x = "''a;b''"]])
  show "fits READ_SIZE 0 ''a;b''" by (rule fits_short) (simp_all add: READ_SIZE_def)
qed (simp_all add: show_nat.simps del: cstring.simps)

text \<open>
  Reading a file that does not exist crashes the worker: the null pointer that says so is
  taken for a string.
\<close>

theorem exec_read_missing:
  assumes "exec_ok s" and "cstring s a = Some n" and "content s n = None"
  shows "f_exec B sh FILE_READ a s = Inl NullDeref"
  using assms by (rule exec_read_missing_run)

theorem exec_read_missing_witness:
  "f_exec test_build (\<lambda>_ fs. fs) FILE_READ (Ptr 0 0) (sample_execs ''f'' [] (\<lambda>_. None)) = Inl NullDeref"
  by (rule exec_read_missing [where n = "''f''"]) (simp_all del: cstring.simps)

end
