(* ===== verification/Worker.thy ===== *)
theory Worker
  imports File_Exec
begin

text \<open>
  The worker: its command line (\<^verbatim>\<open>src/server/argument.c\<close>), its start and registration
  (\<^verbatim>\<open>src/server/boot.c\<close>, \<^verbatim>\<open>get_ip\<close> of \<^verbatim>\<open>lib/comm.c\<close>) and its server
  (\<^verbatim>\<open>src/server/server.c\<close>) in the build without threads. The endless loop of \<^verbatim>\<open>main\<close> is
  modelled by its body.
\<close>

section \<open>State\<close>

text \<open>
  The error message of the command line, the output of \<^verbatim>\<open>hostname -I\<close>, and what the variable
  \<^verbatim>\<open>op\<close> of the handler holds before it is assigned.
\<close>

record worker = execs +
  arg_err :: ptr
  host_output :: string
  stack_op :: u16

type_synonym ('a, 'z) wcmd = "('a, 'z worker_scheme) cmd"

section \<open>The command line\<close>

definition reset_error_msg :: "string \<Rightarrow> (unit, 'z) wcmd" where
  "reset_error_msg new_err =
     cbind (cget arg_err) (\<lambda>e.
     cseq (cwhen (e \<noteq> Null) (cseq (free e) (cmodify (\<lambda>s. s\<lparr>arg_err := Null\<rparr>))))
     (cbind (literal new_err) (\<lambda>l.
      cbind (strlen l) (\<lambda>n.
      cbind (malloc (n + 1)) (\<lambda>m.
      cseq (cmodify (\<lambda>s. s\<lparr>arg_err := m\<rparr>)) (strcpy m l))))))"

definition parse_to_ip :: "ptr list \<Rightarrow> (ptr, 'z) wcmd" where
  "parse_to_ip argv =
     (if length argv < 2 then cseq (reset_error_msg ''Missing IP argument.'') (cret Null)
      else
        cseq (cwhen (2 < length argv) (reset_error_msg ''Only IP argument is required.''))
          (cret (argv ! 1)))"

definition get_parse_error :: "(ptr, 'z) wcmd" where
  "get_parse_error = cget arg_err"

section \<open>Start and registration\<close>

definition WORKER_DIR :: "build \<Rightarrow> string" where
  "WORKER_DIR B = (if debug B then ''.'' else ''~/.PekarDrive'')"

definition BOOT_MASTER_PORT :: "build \<Rightarrow> u16" where
  "BOOT_MASTER_PORT B = (if debug B then get_dbg_port else get_port)"

text \<open>
  \<^verbatim>\<open>fscanf(prog, "%[0-9.]", host)\<close> stores the digits and dots at the start of the output,
  however many there are, and nothing at all when there are none.
\<close>

definition get_ip :: "build \<Rightarrow> (ptr, 'z) wcmd" where
  "get_ip B =
     (if debug B then literal ''127.0.0.1''
      else
        cseq (log_event (Ran ''hostname -I''))
        (cbind (malloc 16) (\<lambda>host.
         cbind (cget host_output) (\<lambda>t.
         cseq (cwhen (takeWhile ip_char t \<noteq> []) (store host (takeWhile ip_char t @ [NUL])))
           (cret host)))))"

definition data_init :: "build \<Rightarrow> shell \<Rightarrow> (unit, 'z) fcmd" where
  "data_init B sh =
     cbind (literal (WORKER_DIR B)) (\<lambda>dir.
     cbind (strlen dir) (\<lambda>n.
     cbind (malloc (n + 10)) (\<lambda>command.
     cseq (sprintf command [Txt ''mkdir '', PStr dir])
     (cseq (run_shell sh command)
     (cseq (free command) (set_dir dir))))))"

text \<open>
  The result of the write is kept in an unsigned variable, so the loop goes on only after 0:
  a failed write ends it as well. Two rounds bound it because \<^verbatim>\<open>send\<close> never returns 0 for a
  message of 40 bytes.
\<close>

definition register_body :: "build \<Rightarrow> conn \<Rightarrow> packet \<Rightarrow> unit \<Rightarrow> (unit + unit, 'z) ocmd" where
  "register_body B worker p u =
     cbind (p_encode p) (\<lambda>pk.
     cbind (conn_write B worker pk 40) (\<lambda>bs.
     cret (if (word_of_int bs :: u32) \<le> 0 then Inl () else Inr ())))"

definition boot_register :: "build \<Rightarrow> ptr \<Rightarrow> (bool, 'z) wcmd" where
  "boot_register B master =
     cbind (client_init master (BOOT_MASTER_PORT B)) (\<lambda>worker.
     if c_error worker \<noteq> 0 then
       cseq (cwhen (verbose B) (cseq (logger ERROR COMP_WORKER (PStr (error_msg worker))) cskip))
         (cret False)
     else
       cbind (malloc 21) (\<lambda>msg.
       cbind (get_ip B) (\<lambda>ip.
       cseq (sprintf msg [PStr ip, Txt '';'', PInt (int (unat get_port))])
       (cbind (p_init 0 msg REGISTER) (\<lambda>p.
        cseq (cloop 2 (register_body B worker (attach_token (WORKER_TKN B) p)) ())
        (cseq (free msg)
        (cbind (conn_close B worker) (\<lambda>_. cret True))))))))"

definition boot :: "build \<Rightarrow> shell \<Rightarrow> ptr \<Rightarrow> (bool, 'z) wcmd" where
  "boot B sh master =
     cseq (log_text B MESSAGE COMP_WORKER ''Worker booting...'')
     (cseq (data_init B sh) (boot_register B master))"

definition worker_terminate :: "build \<Rightarrow> (unit, 'z) lcmd" where
  "worker_terminate B = log_text B MESSAGE COMP_WORKER ''Worker shutdown...''"

section \<open>Answers\<close>

definition WORKER_READ_SIZE :: nat where "WORKER_READ_SIZE = 10000"

definition create_packet :: "build \<Rightarrow> u32 \<Rightarrow> ptype \<Rightarrow> ptr \<Rightarrow> (packet, 'z) mcmd" where
  "create_packet B seq t a = cbind (p_init seq a t) (\<lambda>p. cret (attach_token (WORKER_TKN B) p))"

definition answer_client :: "build \<Rightarrow> conn \<Rightarrow> u32 \<Rightarrow> ptype \<Rightarrow> f_out \<Rightarrow> (unit, 'z) ocmd" where
  "answer_client B client seq t output =
     cbind (if f_error output then
         cbind (literal (case t of WRITE \<Rightarrow> ''Write error'' | READ \<Rightarrow> ''Read error''
           | APPEND \<Rightarrow> ''Append error'' | _ \<Rightarrow> ''Error''))
           (\<lambda>m. p_error seq m t (WORKER_TKN B))
       else create_packet B seq t (f_text output)) (\<lambda>p.
     cbind (p_encode p) (\<lambda>pk.
     cseq (conn_write B client pk (sizeof_packet + unat (f_len output) + 1)) cskip))"

definition strcat :: "ptr \<Rightarrow> string \<Rightarrow> (unit, 'z) mcmd" where
  "strcat p t = cbind (strlen p) (\<lambda>n. store (padd p n) (t @ [NUL]))"

text \<open>
  The text starts as one byte that was never written; the block has no room for the line
  break that follows every name but the last.
\<close>

fun join_names :: "ptr list \<Rightarrow> ptr \<Rightarrow> (ptr, 'z) mcmd" where
  "join_names [] text = cret text"
| "join_names (d # ds) text =
     cbind (strlen text) (\<lambda>a.
     cbind (strlen d) (\<lambda>b.
     cbind (realloc text (a + 1 + b)) (\<lambda>text.
     cbind (get_str d) (\<lambda>name.
     cseq (strcat text name)
     (cseq (strcat text (if ds = [] then [] else [CHR 0x0A])) (join_names ds text))))))"

definition file_list_to_str :: "ptr list \<Rightarrow> (ptr, 'z) mcmd" where
  "file_list_to_str fl =
     (if fl = [] then literal [] else cbind (malloc 1) (join_names fl))"

section \<open>The handler\<close>

text \<open>What the packet asks for, after its token has been checked.\<close>

definition perform :: "build \<Rightarrow> shell \<Rightarrow> conn \<Rightarrow> packet \<Rightarrow> (unit, 'z) wcmd" where
  "perform B sh client p =
     (case msg_type p of
        PING \<Rightarrow>
          cbind (literal ''1'') (\<lambda>one.
          cbind (p_init (seq_number p + 1) one PING) (\<lambda>r.
          cbind (p_encode r) (\<lambda>pk.
          cseq (conn_write B client pk 13)
            (cwhen (verbose_2 B) (log_text B MESSAGE COMP_WORKER ''PING!'')))))
      | LS \<Rightarrow>
          cbind (file_list B (WORKER_DIR B)) (\<lambda>fl.
          cbind (file_list_to_str fl) (\<lambda>ls_output.
          cbind (p_init (seq_number p + 1) ls_output LS) (\<lambda>r.
          cbind (p_encode r) (\<lambda>pk.
          cbind (strlen ls_output) (\<lambda>n.
          cseq (conn_write B client pk (n + sizeof_packet)) cskip)))))
      | t \<Rightarrow>
          cbind (case t of
              READ \<Rightarrow> cret FILE_READ
            | WRITE \<Rightarrow> cret FILE_WRITE
            | APPEND \<Rightarrow> cret FILE_APPEND
            | DELETE \<Rightarrow> cret FILE_DELETE
            | _ \<Rightarrow> cseq (answer_client B client (seq_number p + 1) (Other (- 1))
                \<lparr>f_error = True, f_text = Null, f_len = 0\<rparr>) (cget stack_op)) (\<lambda>oper.
          cbind (f_exec B sh oper (arg p)) (\<lambda>output.
          answer_client B client (seq_number p + 1) t output)))"

definition serve :: "build \<Rightarrow> shell \<Rightarrow> conn \<Rightarrow> ptr \<Rightarrow> packet \<Rightarrow> (unit, 'z) wcmd" where
  "serve B sh client buffer p =
     (if token p \<noteq> MASTER_TKN B then
        cseq (log_text B WARNING COMP_WORKER ''Message not from client.'')
        (cseq (free buffer) (cseq (p_cleanup p) (cseq (conn_close B client) cskip)))
      else
        cseq (perform B sh client p)
        (cseq (p_cleanup p) (cseq (conn_close B client) (free buffer))))"

definition worker_handle_client :: "build \<Rightarrow> shell \<Rightarrow> conn \<Rightarrow> (unit, 'z) wcmd" where
  "worker_handle_client B sh client =
     cbind (malloc WORKER_READ_SIZE) (\<lambda>buffer.
     cbind (conn_read B client buffer WORKER_READ_SIZE) (\<lambda>n.
     if n \<le> 0 then
       cseq (log_text B ERROR COMP_WORKER ''Error reading client.'')
       (cseq (free buffer) (cseq (conn_close B client) cskip))
     else cbind (p_decode buffer) (serve B sh client buffer)))"

section \<open>The main program\<close>

text \<open>\<^verbatim>\<open>main\<close> up to its loop: the exit code, or the descriptor that the loop starts with.\<close>

definition worker_start :: "build \<Rightarrow> shell \<Rightarrow> ptr list \<Rightarrow> (int + int, 'z) wcmd" where
  "worker_start B sh argv =
     cbind (parse_to_ip argv) (\<lambda>ip.
     if ip = Null then
       cbind get_parse_error (\<lambda>e. cseq (logger ERROR COMP_WORKER (PStr e)) (cret (Inl 1)))
     else cbind (boot B sh ip) (\<lambda>ok.
       if \<not> ok then cret (Inl 1)
       else cbind sys_socket (\<lambda>f.
         if f = 0 then
           cseq (log_text B ERROR COMP_WORKER ''Connection setup failed.'') (cret (Inl 1))
         else cret (Inr f))))"

text \<open>A round of the loop: the descriptor for the next one.\<close>

definition worker_round :: "build \<Rightarrow> shell \<Rightarrow> int \<Rightarrow> (int, 'z) wcmd" where
  "worker_round B sh server_fd =
     cbind (conn_listen B server_fd get_port) (\<lambda>client.
     if c_error client \<noteq> 0 then
       cseq (cwhen (verbose_2 B)
         (cbind (malloc 100) (\<lambda>msg.
          cseq (sprintf msg [Txt ''Client connection refused: '', PStr (error_msg client)])
          (cseq (logger WARNING COMP_WORKER (PStr msg)) (free msg)))))
       (cbind (conn_close B client) (\<lambda>_.
        cseq (sys_close server_fd) sys_socket))
     else cseq (worker_handle_client B sh client) (cret server_fd))"

declare join_names.simps [simp del]

end
