(* ===== verification/Stable_Worker.thy ===== *)
theory Stable_Worker
  imports Stability Worker
begin

text \<open>
  The commands on files: those of the worker that only read them, and all of them.
\<close>

section \<open>Commands that only read files\<close>

locale file_readers = log_commands R for R :: "'z fsys_scheme \<Rightarrow> 'z fsys_scheme \<Rightarrow> bool" +
  assumes opened: "R s (s\<lparr>streams := n\<rparr>)"
begin

lemma messages [stable]: "obeys R (log_text B lt c t)"
  unfolding log_text_def by (intro stable)

lemma open_read [stable]: "obeys R (open_path n ModeR)" "obeys R fclose"
  by (auto simp: obeys_def open_path_def fclose_def cbind_def cseq_def cget_def cret_def cmodify_def opened refl
      split: if_splits)

lemma open_stream [stable]: "obeys R (fopen p ModeR)"
  unfolding fopen_def by (intro stable)

lemma read_loop [stable]: "obeys R (read_chars cs p n)"
  by (induction cs arbitrary: p n) (auto simp: read_chars.simps intro!: stable)

lemma reading_files [stable]: "obeys R (set_path p)" "obeys R (file_exists p)" "obeys R (fs_read_file B p)"
  "obeys R (read_file B p)"
  unfolding set_path_def file_exists_def fs_read_file_def read_file_def by (intro stable)+

lemma parts [stable]: "obeys R (find_sep p)" "obeys R (arg_file_name p)" "obeys R (arg_buffer p)"
  unfolding find_sep_def find_sep_body_def arg_file_name_def arg_buffer_def by (intro stable)+

lemma names [stable]: "obeys R (copy_names ds ns)"
  by (induction ds arbitrary: ns) (auto simp: copy_names.simps intro!: stable)

lemma joining [stable]: "obeys R (join_names ps p)"
  by (induction ps arbitrary: p) (auto simp: join_names.simps strcat_def intro!: stable)

lemma texts [stable]: "obeys R (file_list_to_str ps)"
  unfolding file_list_to_str_def by (intro stable)

lemma answering [stable]: "obeys R (answer_client B c w t out)"
  unfolding answer_client_def create_packet_def by (intro stable)

end

section \<open>Commands of the worker that only read files\<close>

locale worker_readers = file_readers R for R :: "'z worker_scheme \<Rightarrow> 'z worker_scheme \<Rightarrow> bool" +
  assumes locked: "R s (s\<lparr>exec_held := m\<rparr>)"
begin

lemma locking [stable]: "obeys R exec_lock" "obeys R exec_unlock"
  by (auto simp: obeys_def exec_lock_def exec_unlock_def cmodify_def locked split: if_splits)

lemma listing [stable]: "obeys R (file_list B dir)"
  unfolding file_list_def by (intro stable)

lemma own_address [stable]: "obeys R (get_ip B)" "obeys R get_parse_error"
  unfolding get_ip_def get_parse_error_def by (intro stable)+

lemma registering [stable]: "obeys R (boot_register B p)"
  unfolding boot_register_def register_body_def by (intro stable)

text \<open>What the worker does for a packet that asks for nothing but what it knows.\<close>

lemma exec_reads: "obeys R (f_exec B sh FILE_READ p)"
proof -
  have "FILE_READ AND FILE_READ \<noteq> 0" "FILE_READ AND FILE_WRITE = 0" "FILE_READ AND FILE_APPEND = 0"
    "FILE_READ AND FILE_DELETE = 0"
    by (simp_all add: FILE_READ_def FILE_WRITE_def FILE_APPEND_def FILE_DELETE_def)
  then show ?thesis unfolding f_exec_def by (simp, intro stable)
qed

lemma performs_reads:
  assumes "msg_type p \<in> {PING, LS, READ}"
  shows "obeys R (perform B sh c p)"
proof -
  consider "msg_type p = PING" | "msg_type p = LS" | "msg_type p = READ" using assms by auto
  then show ?thesis
    by cases (simp_all add: perform_def cbind_cret, (intro stable exec_reads)+)
qed

lemma ends [stable]: "obeys R (cseq (p_cleanup p) (cseq (conn_close B c) (free b)))"
  by (intro stable)

end

section \<open>All commands of the worker\<close>

locale worker_commands = worker_readers R for R :: "'z worker_scheme \<Rightarrow> 'z worker_scheme \<Rightarrow> bool" +
  assumes stored: "R s (s\<lparr>files := fs\<rparr>)"
    and errors: "R s (s\<lparr>arg_err := p\<rparr>)" "R s (s\<lparr>work_dir := p\<rparr>)"
begin

lemma updates [stable]:
  "obeys R (cmodify (\<lambda>s. s\<lparr>files := g s\<rparr>))" "obeys R (cmodify (\<lambda>s. s\<lparr>arg_err := p\<rparr>))"
  "obeys R (cmodify (\<lambda>s. s\<lparr>work_dir := p\<rparr>))"
  by (simp_all add: obeys_def cmodify_def stored errors)

lemma open_any [stable]: "obeys R (open_path n m)"
proof -
  have "R s (s\<lparr>streams := k, files := fs\<rparr>)" for s k fs
    using trans [OF opened [of s k] stored [of "s\<lparr>streams := k\<rparr>" fs]] by simp
  then show ?thesis
    by (auto simp: obeys_def open_path_def cbind_def cseq_def cget_def cret_def cmodify_def refl split: if_splits)
qed

lemma streams_any [stable]:
  "obeys R (fopen p m)" "obeys R (fprint_str n p)" "obeys R (run_shell sh p)" "obeys R (set_dir p)"
  unfolding fopen_def fprint_str_def run_shell_def set_dir_def by (intro stable)+

lemma writing_files [stable]:
  "obeys R (fs_create_file p)" "obeys R (fs_delete_file sh p)" "obeys R (write_path B p q a r)"
  "obeys R (fs_write_file B p q a)" "obeys R (write_file B p q a)" "obeys R (delete_file sh p)"
  "obeys R (f_exec B sh oper p)"
  unfolding fs_create_file_def fs_delete_file_def write_path_def fs_write_file_def write_file_def
    delete_file_def f_exec_def
  by (intro stable)+

lemma starting [stable]:
  "obeys R (reset_error_msg m)" "obeys R (parse_to_ip argv)" "obeys R (data_init B sh)"
  unfolding reset_error_msg_def parse_to_ip_def data_init_def by (intro stable)+

lemma performing [stable]: "obeys R (perform B sh c p)"
  unfolding perform_def by (intro stable)

lemma rounds:
  "obeys R (worker_start B sh argv)" "obeys R (worker_handle_client B sh c)" "obeys R (worker_round B sh f)"
  unfolding worker_start_def boot_def worker_round_def worker_handle_client_def serve_def
  by (intro stable)+

end

end
