(* ===== verification/Interface.thy ===== *)
theory Interface
  imports Exchange
begin

text \<open>
  The library of the clients (\<^verbatim>\<open>lib/interface.c\<close>): listing, reading, writing and deleting files
  through the master.
\<close>

section \<open>Operations\<close>

definition CLIENT_READ_SIZE :: nat where "CLIENT_READ_SIZE = 1000"

text \<open>
  The loop goes on as long as a read fills its part of the buffer; every such read takes bytes
  that arrived, so their number bounds the rounds.
\<close>

definition read_all_body :: "build \<Rightarrow> conn \<Rightarrow> ptr \<times> u32 \<Rightarrow> ((ptr \<times> u32) + ptr, 'z) ocmd" where
  "read_all_body B client = (\<lambda>(buffer, i).
     cbind (conn_read B client (padd buffer (unat (i * 1000))) CLIENT_READ_SIZE) (\<lambda>n.
     if n = int CLIENT_READ_SIZE then
       cbind (realloc buffer (unat (1000 * (i + 1 + 1)))) (\<lambda>buffer. cret (Inl (buffer, i + 1)))
     else cret (Inr buffer)))"

definition read_all :: "build \<Rightarrow> conn \<Rightarrow> (ptr, 'z) ocmd" where
  "read_all B client =
     cbind (malloc CLIENT_READ_SIZE) (\<lambda>buffer.
     cbind (cget (pending_fd (fd client))) (\<lambda>n.
     cloop (n + 2) (read_all_body B client) (buffer, 0)))"

text \<open>A connection that failed: the verbose builds print why.\<close>

definition refused :: "build \<Rightarrow> conn \<Rightarrow> 'a \<Rightarrow> ('a, 'z) ocmd" where
  "refused B client r =
     cseq (cwhen (verbose B) (cbind (get_str (error_msg client))
       (\<lambda>m. log_event (Printed (m @ [CHR 0x0A])))))
     (cret r)"

definition ls :: "build \<Rightarrow> ptr \<Rightarrow> u16 \<Rightarrow> (ptr, 'z) ocmd" where
  "ls B host prt =
     cbind (literal []) (\<lambda>e.
     cbind (p_init 0 e LS) (\<lambda>p.
     cbind (client_init host prt) (\<lambda>client.
     if c_error client \<noteq> 0 then refused B client Null
     else
       cbind (p_encode p) (\<lambda>pk.
       cseq (conn_write B client pk (sizeof_packet + 3))
       (cbind (read_all B client) (\<lambda>buffer.
        cbind (conn_close B client) (\<lambda>_. cret buffer)))))))"

definition file_read :: "build \<Rightarrow> ptr \<Rightarrow> ptr \<Rightarrow> u16 \<Rightarrow> (ptr, 'z) ocmd" where
  "file_read B file_name host prt =
     cbind (p_init 0 file_name READ) (\<lambda>p.
     cbind (client_init host prt) (\<lambda>client.
     if c_error client \<noteq> 0 then refused B client Null
     else
       cbind (p_encode p) (\<lambda>pk.
       cbind (strlen file_name) (\<lambda>n.
       cseq (conn_write B client pk (sizeof_packet + n))
       (cbind (read_all B client) (\<lambda>buffer.
        cbind (conn_close B client) (\<lambda>_. cret buffer)))))))"

definition gen_write_arg :: "ptr \<Rightarrow> ptr \<Rightarrow> (ptr, 'z) mcmd" where
  "gen_write_arg file data =
     cbind (strlen file) (\<lambda>a.
     cbind (strlen data) (\<lambda>b.
     cbind (malloc (a + b + 2)) (\<lambda>arg.
     cseq (sprintf arg [PStr file, Txt '';'', PStr data]) (cret arg))))"

text \<open>
  The number that the answer starts with. The text is read before the connection is closed, and
  the buffer freed after.
\<close>

definition number_received :: "build \<Rightarrow> conn \<Rightarrow> (int, 'z) ocmd" where
  "number_received B client =
     cbind (read_all B client) (\<lambda>received.
     cbind (get_str received) (\<lambda>t.
     cbind (conn_close B client) (\<lambda>_.
     cseq (free received) (cret (atoi t)))))"

text \<open>The parameter \<open>len\<close> is not used: the data end at their first NUL.\<close>

definition file_write :: "build \<Rightarrow> ptr \<Rightarrow> ptr \<Rightarrow> u64 \<Rightarrow> bool \<Rightarrow> ptr \<Rightarrow> u16 \<Rightarrow> (u64, 'z) ocmd" where
  "file_write B file_name buffer len append_it host prt =
     cbind (gen_write_arg file_name buffer) (\<lambda>a.
     cbind (p_init 0 a (if append_it then APPEND else WRITE)) (\<lambda>p.
     cbind (client_init host prt) (\<lambda>client.
     if c_error client \<noteq> 0 then refused B client (- 1)
     else
       cbind (p_encode p) (\<lambda>pk.
       cbind (strlen (arg p)) (\<lambda>n.
       cseq (conn_write B client pk (sizeof_packet + n + 1))
       (cbind (number_received B client) (\<lambda>written. cret (word_of_int written))))))))"

definition file_delete :: "build \<Rightarrow> ptr \<Rightarrow> ptr \<Rightarrow> u16 \<Rightarrow> (u16, 'z) ocmd" where
  "file_delete B file_name host prt =
     cbind (p_init 0 file_name DELETE) (\<lambda>p.
     cbind (client_init host prt) (\<lambda>client.
     if c_error client \<noteq> 0 then refused B client 0
     else
       cbind (p_encode p) (\<lambda>pk.
       cbind (strlen (arg p)) (\<lambda>n.
       cseq (conn_write B client pk (sizeof_packet + n + 1))
       (cbind (number_received B client) (\<lambda>deleted. cret (word_of_int deleted)))))))"

end
