(* ===== verification/Arg_Parser.thy ===== *)
theory Arg_Parser
  imports Fs
begin

text \<open>
  The command line of the client (\<^verbatim>\<open>src/client/arg_parser.c\<close>): which operation is asked for,
  whether it has the arguments it needs, and the message about it.
\<close>

section \<open>State and operations\<close>

record parse_state = fsys +
  parse_error_msg :: ptr

type_synonym ('a, 'z) xcmd = "('a, 'z parse_state_scheme) cmd"

definition set_err_msg :: "string \<Rightarrow> (unit, 'z) xcmd" where
  "set_err_msg m =
     cbind (literal m) (\<lambda>msg.
     cbind (cget parse_error_msg) (\<lambda>old.
     cseq (cwhen (old \<noteq> Null) (free old))
     (cbind (strlen msg) (\<lambda>n.
      cbind (malloc (n + 1)) (\<lambda>new.
      cseq (cmodify (\<lambda>s. s\<lparr>parse_error_msg := new\<rparr>)) (strcpy new msg))))))"

definition cli_error_msg :: "(ptr, 'z) xcmd" where
  "cli_error_msg = cget parse_error_msg"

definition parse_ls :: "u16 \<Rightarrow> (bool, 'z) xcmd" where
  "parse_ls arg_count =
     cseq (cwhen (2 < arg_count) (set_err_msg ''No arguments to 'ls'needed.'')) (cret True)"

definition parse_read :: "u16 \<Rightarrow> (bool, 'z) xcmd" where
  "parse_read arg_count =
     (if arg_count < 3 then cseq (set_err_msg ''Missing file name to read from.'') (cret False)
      else cseq (cwhen (3 < arg_count) (set_err_msg '''read' requires only one argument.'')) (cret True))"

definition parse_write :: "u16 \<Rightarrow> (bool, 'z) xcmd" where
  "parse_write arg_count =
     (if arg_count < 4 then cseq (set_err_msg '''write' requires file name and data to write.'') (cret False)
      else cseq (cwhen (4 < arg_count) (set_err_msg '''write' requires only two arguments.'')) (cret True))"

definition parse_append :: "u16 \<Rightarrow> (bool, 'z) xcmd" where
  "parse_append arg_count =
     (if arg_count < 4 then cseq (set_err_msg '''append' requires file name and data to write.'') (cret False)
      else cseq (cwhen (4 < arg_count) (set_err_msg '''write' requires only two arguments.'')) (cret True))"

definition parse_delete :: "u16 \<Rightarrow> (bool, 'z) xcmd" where
  "parse_delete arg_count =
     (if arg_count < 3 then cseq (set_err_msg ''Missing file name to delete.'') (cret False)
      else cseq (cwhen (3 < arg_count) (set_err_msg '''delete' requires only one argument.'')) (cret True))"

definition parse_set_ip :: "u16 \<Rightarrow> (bool, 'z) xcmd" where
  "parse_set_ip arg_count =
     (if arg_count < 3 then cseq (set_err_msg ''Missing IP address.'') (cret False)
      else cseq (cwhen (3 < arg_count) (set_err_msg '''set-ip' requires only one argument.'')) (cret True))"

definition parse_set_port :: "u16 \<Rightarrow> (bool, 'z) xcmd" where
  "parse_set_port arg_count =
     (if arg_count < 3 then cseq (set_err_msg ''Missing port number.'') (cret False)
      else cseq (cwhen (3 < arg_count) (set_err_msg '''set-port' requires only one argument.'')) (cret True))"

definition parse_operation :: "ptr list \<Rightarrow> u16 \<Rightarrow> (bool, 'z) xcmd" where
  "parse_operation args arg_count =
     cbind (get_str (args ! 1)) (\<lambda>t.
     if t = ''ls'' then parse_ls arg_count
     else if t = ''read'' then parse_read arg_count
     else if t = ''write'' then parse_write arg_count
     else if t = ''append'' then parse_append arg_count
     else if t = ''delete'' then parse_delete arg_count
     else if t = ''set-ip'' then parse_set_ip arg_count
     else if t = ''set-port'' then parse_set_port arg_count
     else cseq (set_err_msg ''Unrecognized operation.'') (cret False))"

text \<open>The count becomes an \<^verbatim>\<open>unsigned short\<close> on the way.\<close>

definition parse_args :: "ptr list \<Rightarrow> (bool, 'z) xcmd" where
  "parse_args argv =
     (if length argv < 2 then cseq (set_err_msg ''Not enough arguments.'') (cret False)
      else parse_operation argv (of_nat (length argv)))"

section \<open>Laws\<close>

definition msg_ok :: "'z parse_state_scheme \<Rightarrow> bool" where
  "msg_ok s \<longleftrightarrow> wf_mem s \<and> (case parse_error_msg s of Null \<Rightarrow> True | Ptr b i \<Rightarrow> i = 0 \<and> live s (Ptr b 0))"

text \<open>What is left of the state when the message is replaced: all but the old message.\<close>

definition msg_frame :: "'z parse_state_scheme \<Rightarrow> 'z parse_state_scheme \<Rightarrow> bool" where
  "msg_frame s t \<longleftrightarrow> msg_ok t \<and> mem.more t = mem.more (s\<lparr>parse_error_msg := parse_error_msg t\<rparr>) \<and>
     next_id s \<le> next_id t \<and> junk t = junk s \<and> spare t = spare s \<and> room t = room s \<and>
     (\<forall>b k. blocks s b = Some k \<longrightarrow> parse_error_msg s \<noteq> Ptr b 0 \<longrightarrow> blocks t b = Some k)"

lemma msg_updates [simp]:
  "mgrows s (t\<lparr>parse_error_msg := p\<rparr>) = mgrows s t" "wf_mem (t\<lparr>parse_error_msg := p\<rparr>) = wf_mem t"
  "cstring (t\<lparr>parse_error_msg := p\<rparr>) q = cstring t q"
  by (cases q; simp add: mgrows_def wf_mem_def)+

lemma msg_fields [simp]:
  "parse_error_msg (add_block k s) = parse_error_msg s" "parse_error_msg (del_block b s) = parse_error_msg s"
  "parse_error_msg (put p x s) = parse_error_msg s"
  by (cases p; simp add: add_block_def del_block_def put.simps set_block_def split: option.split)+

lemma msg_block_updates [simp]:
  "add_block k (s\<lparr>parse_error_msg := p\<rparr>) = (add_block k s)\<lparr>parse_error_msg := p\<rparr>"
  "writable (s\<lparr>parse_error_msg := p\<rparr>) q n = writable s q n"
  "put q x (s\<lparr>parse_error_msg := p\<rparr>) = (put q x s)\<lparr>parse_error_msg := p\<rparr>"
  by (cases q; simp add: add_block_def put.simps set_block_def split: option.split)+

lemma msg_more:
  "mem.more u = mem.more s \<Longrightarrow> p = q \<Longrightarrow>
    mem.more (u\<lparr>parse_error_msg := p\<rparr>) = mem.more (s\<lparr>parse_error_msg := q\<rparr>)"
  by (cases u, cases s) simp

lemma new_msg_then:
  assumes wf: "wf_mem u" and l: "cstring u l = Some m" and no: "NUL \<notin> set m"
    and Q: "Q () ((add_block (filled (length m + 1) (m @ [NUL]) u) u)\<lparr>parse_error_msg := Ptr (next_id u) 0\<rparr>)"
  shows "wp (cbind (strlen l) (\<lambda>n. cbind (malloc (n + 1)) (\<lambda>new.
    cseq (cmodify (\<lambda>s. s\<lparr>parse_error_msg := new\<rparr>)) (strcpy new l)))) Q u"
proof -
  let ?k = "fresh_block (length m + 1) u"
  have "cstring (add_block ?k u) l = Some m" by (rule cstring_add_block [OF wf l])
  then show ?thesis using l Q by (simp add: wp_simps filled_def)
qed

lemma set_err_msg_then:
  assumes ok: "msg_ok s" and no: "NUL \<notin> set m"
    and Q: "\<And>t. \<lbrakk>msg_frame s t; cstring t (parse_error_msg t) = Some m\<rbrakk> \<Longrightarrow> Q () t"
  shows "wp (set_err_msg m) Q s"
proof -
  let ?l = "add_block (lit_block m s) s" and ?i = "Ptr (next_id s) 0"
  have wf: "wf_mem s" using ok by (simp add: msg_ok_def)
  have wl: "wf_mem ?l" by (rule wf_add_block [OF wf]) (simp add: lit_block_def)
  have i: "cstring ?l ?i = Some m" using no by (simp add: lit_block_def c_str_nul)
  have fin: "Q () ((add_block (filled (length m + 1) (m @ [NUL]) u) u)\<lparr>parse_error_msg := Ptr (next_id u) 0\<rparr>)"
    if u: "wf_mem u" "next_id u = next_id ?l" "junk u = junk s" "spare u = spare s" "room u = room s"
      "mem.more u = mem.more s"
      "\<And>b k. blocks s b = Some k \<Longrightarrow> parse_error_msg s \<noteq> Ptr b 0 \<Longrightarrow> blocks u b = Some k" for u
  proof (rule Q)
    let ?t = "(add_block (filled (length m + 1) (m @ [NUL]) u) u)\<lparr>parse_error_msg := Ptr (next_id u) 0\<rparr>"
    have g: "grows u (add_block (filled (length m + 1) (m @ [NUL]) u) u)" by (rule grows_filled [OF u(1)]) simp
    have "mem.more ?t = mem.more (s\<lparr>parse_error_msg := parse_error_msg ?t\<rparr>)"
      using grows_more [OF g] u(6) by (intro msg_more) simp_all
    moreover have "msg_ok ?t" using grows_wf [OF g] by (simp add: msg_ok_def)
    ultimately show "msg_frame s ?t"
      using u wf_mem_next [OF wf] by (auto simp: msg_frame_def add_block_def dest: wf_mem_blocks [OF wf])
    show "cstring ?t (parse_error_msg ?t) = Some m" using cstring_filled_nul [OF no] by simp
  qed
  show ?thesis
  proof (cases "parse_error_msg s")
    case Null
    have "wp (cbind (strlen ?i) (\<lambda>n. cbind (malloc (n + 1)) (\<lambda>new.
        cseq (cmodify (\<lambda>s. s\<lparr>parse_error_msg := new\<rparr>)) (strcpy new ?i)))) Q ?l"
      by (rule new_msg_then [OF wl i no], rule fin [OF wl])
        (use wf_mem_next [OF wf] in \<open>auto simp: add_block_def\<close>)
    with Null show ?thesis by (simp add: set_err_msg_def wp_simps)
  next
    case (Ptr b j)
    have j: "j = 0" "live s (Ptr b 0)" using ok Ptr by (simp_all add: msg_ok_def)
    then have lb: "live ?l (Ptr b 0)" "b \<noteq> next_id s" using wf_mem_blocks [OF wf] by auto
    have wd: "wf_mem (del_block b ?l)" by (rule wf_del_block [OF wl])
    have "cstring (del_block b ?l) ?i = Some m" using i lb(2) by simp
    then have "wp (cbind (strlen ?i) (\<lambda>n. cbind (malloc (n + 1)) (\<lambda>new.
        cseq (cmodify (\<lambda>s. s\<lparr>parse_error_msg := new\<rparr>)) (strcpy new ?i)))) Q (del_block b ?l)"
      by (rule new_msg_then [OF wd _ no], intro fin [OF wd])
        (use Ptr j wf_mem_next [OF wf] in \<open>auto simp: add_block_def del_block_def\<close>)
    with Ptr j lb(1) show ?thesis
      by (simp add: set_err_msg_def wp_cbind wp_cseq wp_literal wp_cget wp_cwhen wp_free wp_funs del: live.simps)
  qed
qed

section \<open>The table of operations\<close>

text \<open>
  For every operation: how many words its command line has, the program's name included, and
  the messages when there are fewer and when there are more.
\<close>

definition operations :: "(string \<times> nat \<times> string \<times> string) list" where
  "operations =
    [(''ls'', 2, [], ''No arguments to 'ls'needed.''),
     (''read'', 3, ''Missing file name to read from.'', '''read' requires only one argument.''),
     (''write'', 4, '''write' requires file name and data to write.'', '''write' requires only two arguments.''),
     (''append'', 4, '''append' requires file name and data to write.'', '''write' requires only two arguments.''),
     (''delete'', 3, ''Missing file name to delete.'', '''delete' requires only one argument.''),
     (''set-ip'', 3, ''Missing IP address.'', '''set-ip' requires only one argument.''),
     (''set-port'', 3, ''Missing port number.'', '''set-port' requires only one argument.'')]"

definition check_count :: "nat \<Rightarrow> nat \<times> string \<times> string \<Rightarrow> bool \<times> string option" where
  "check_count n = (\<lambda>(needed, missing, surplus).
     if n < needed then (False, Some missing)
     else (True, if needed < n then Some surplus else None))"

definition check_words :: "string list \<Rightarrow> bool \<times> string option" where
  "check_words ws =
     (if length ws < 2 then (False, Some ''Not enough arguments.'')
      else case map_of operations (ws ! 1) of
        None \<Rightarrow> (False, Some ''Unrecognized operation.'')
      | Some entry \<Rightarrow> check_count (length ws) entry)"

text \<open>What a run of the parser is to do: the verdict, and the message if there is one.\<close>

definition verdict :: "'z parse_state_scheme \<Rightarrow> bool \<times> string option \<Rightarrow> bool \<Rightarrow> 'z parse_state_scheme \<Rightarrow> bool" where
  "verdict s r ok t \<longleftrightarrow> ok = fst r \<and>
     (case snd r of None \<Rightarrow> t = s | Some m \<Rightarrow> msg_frame s t \<and> cstring t (parse_error_msg t) = Some m)"

lemma refuse_then:
  assumes "msg_ok s" and "NUL \<notin> set m"
  shows "wp (cseq (set_err_msg m) (cret ok)) (verdict s (ok, Some m)) s"
  using set_err_msg_then [OF assms] by (simp add: wp_cseq wp_cret verdict_def wp_funs)

lemma warn_then:
  assumes "msg_ok s" and "NUL \<notin> set m"
  shows "wp (cseq (cwhen b (set_err_msg m)) (cret True)) (verdict s (True, if b then Some m else None)) s"
  using refuse_then [OF assms, of True] by (cases b) (simp_all add: wp_cseq wp_cret wp_cwhen verdict_def)

lemma word_counts:
  assumes "n < 65536" and "j < 65536"
  shows "(of_nat n :: u16) < of_nat j \<longleftrightarrow> n < j"
  using assms by (simp add: word_less_nat_alt unsigned_of_nat take_bit_nat_eq_self)

lemma arity_then:
  assumes ok: "msg_ok s" and no: "NUL \<notin> set missing" "NUL \<notin> set surplus"
    and n: "n < 65536" "j < 65536"
  shows "wp (if of_nat n < (of_nat j :: u16) then cseq (set_err_msg missing) (cret False)
      else cseq (cwhen (of_nat j < (of_nat n :: u16)) (set_err_msg surplus)) (cret True))
    (verdict s (check_count n (j, missing, surplus))) s"
  using refuse_then [OF ok no(1), of False] warn_then [OF ok no(2), of "j < n"] n
  by (simp add: word_counts check_count_def)

lemma operations_entries:
  "map_of operations ''ls'' = Some (2, [], ''No arguments to 'ls'needed.'')"
  "map_of operations ''read'' = Some (3, ''Missing file name to read from.'', '''read' requires only one argument.'')"
  "map_of operations ''write'' = Some (4, '''write' requires file name and data to write.'', '''write' requires only two arguments.'')"
  "map_of operations ''append'' = Some (4, '''append' requires file name and data to write.'', '''write' requires only two arguments.'')"
  "map_of operations ''delete'' = Some (3, ''Missing file name to delete.'', '''delete' requires only one argument.'')"
  "map_of operations ''set-ip'' = Some (3, ''Missing IP address.'', '''set-ip' requires only one argument.'')"
  "map_of operations ''set-port'' = Some (3, ''Missing port number.'', '''set-port' requires only one argument.'')"
  by (simp_all add: operations_def)

lemma operations_none:
  "w \<notin> {''ls'', ''read'', ''write'', ''append'', ''delete'', ''set-ip'', ''set-port''} \<Longrightarrow>
    map_of operations w = None"
  by (simp add: operations_def)

text \<open>Each parser checks the count against its entry of the table.\<close>

definition checks :: "'z parse_state_scheme \<Rightarrow> nat \<Rightarrow> string \<Rightarrow> (bool, 'z) xcmd \<Rightarrow> bool" where
  "checks s n w m \<longleftrightarrow> wp m (verdict s (check_count n (the (map_of operations w)))) s"

lemma parsers_check:
  assumes ok: "msg_ok s" and n: "2 \<le> n" "n < 65536"
  shows "checks s n ''ls'' (parse_ls (of_nat n))" "checks s n ''read'' (parse_read (of_nat n))"
    "checks s n ''write'' (parse_write (of_nat n))" "checks s n ''append'' (parse_append (of_nat n))"
    "checks s n ''delete'' (parse_delete (of_nat n))" "checks s n ''set-ip'' (parse_set_ip (of_nat n))"
    "checks s n ''set-port'' (parse_set_port (of_nat n))"
proof -
  note arity = arity_then [OF ok _ _ n(2), where j = 3, unfolded of_nat_numeral]
    arity_then [OF ok _ _ n(2), where j = 4, unfolded of_nat_numeral]
  have two: "2 < (of_nat n :: u16) \<longleftrightarrow> 2 < n" using word_counts [of 2 n] n by simp
  show "checks s n ''ls'' (parse_ls (of_nat n))"
    using warn_then [OF ok, of "''No arguments to 'ls'needed.''" "2 < n"] n(1)
    by (simp add: checks_def parse_ls_def two operations_entries check_count_def)
  show "checks s n ''read'' (parse_read (of_nat n))"
    unfolding checks_def operations_entries option.sel parse_read_def by (rule arity(1)) simp_all
  show "checks s n ''write'' (parse_write (of_nat n))"
    unfolding checks_def operations_entries option.sel parse_write_def by (rule arity(2)) simp_all
  show "checks s n ''append'' (parse_append (of_nat n))"
    unfolding checks_def operations_entries option.sel parse_append_def by (rule arity(2)) simp_all
  show "checks s n ''delete'' (parse_delete (of_nat n))"
    unfolding checks_def operations_entries option.sel parse_delete_def by (rule arity(1)) simp_all
  show "checks s n ''set-ip'' (parse_set_ip (of_nat n))"
    unfolding checks_def operations_entries option.sel parse_set_ip_def by (rule arity(1)) simp_all
  show "checks s n ''set-port'' (parse_set_port (of_nat n))"
    unfolding checks_def operations_entries option.sel parse_set_port_def by (rule arity(1)) simp_all
qed

lemma parse_run:
  assumes ok: "msg_ok s" and argv: "list_all2 (\<lambda>p w. cstring s p = Some w) argv ws"
    and len: "length argv < 65536"
  shows "wp (parse_args argv) (verdict s (check_words ws)) s"
proof (cases "length argv < 2")
  case True
  then show ?thesis
    using refuse_then [OF ok, of "''Not enough arguments.''" False] list_all2_lengthD [OF argv]
    by (simp add: parse_args_def check_words_def)
next
  case False
  let ?n = "length argv" and ?w = "ws ! 1"
  have l: "length ws = ?n" using list_all2_lengthD [OF argv] by simp
  have op: "cstring s (argv ! 1) = Some ?w" using list_all2_nthD [OF argv, of 1] False by simp
  have p: "parse_args argv = parse_operation argv (of_nat ?n)" using False by (simp add: parse_args_def)
  show ?thesis
  proof (cases "map_of operations ?w")
    case None
    have "wp (cseq (set_err_msg ''Unrecognized operation.'') (cret False))
        (verdict s (False, Some ''Unrecognized operation.'')) s"
      by (rule refuse_then [OF ok]) simp
    moreover have "?w \<notin> {''ls'', ''read'', ''write'', ''append'', ''delete'', ''set-ip'', ''set-port''}"
      using None operations_entries by auto
    ultimately show ?thesis
      using None op False by (simp add: p parse_operation_def wp_cbind wp_get_str check_words_def l)
  next
    case (Some e)
    have w: "?w \<in> {''ls'', ''read'', ''write'', ''append'', ''delete'', ''set-ip'', ''set-port''}"
      using Some operations_none by fastforce
    have c: "check_words ws = check_count ?n (the (map_of operations ?w))"
      using False Some by (simp add: check_words_def l)
    have "2 \<le> ?n" using False by simp
    note checks = parsers_check [OF ok this len, unfolded checks_def]
    show ?thesis
      unfolding p c parse_operation_def using w op checks
      by (auto simp: wp_cbind wp_get_str)
  qed
qed

section \<open>Properties\<close>

text \<open>
  C15. The parser decides by the table of operations: a command line is accepted exactly when its
  operation is one of the seven and has the words it needs, and a message is left exactly when
  it is refused or has words too many; then it is the one of the table.
\<close>

theorem parse_args_table:
  assumes "msg_ok s" and "list_all2 (\<lambda>p w. cstring s p = Some w) argv ws" and "length argv < 65536"
  shows "wp (parse_args argv) (\<lambda>ok t. ok = fst (check_words ws) \<and>
    (case snd (check_words ws) of
       None \<Rightarrow> t = s
     | Some m \<Rightarrow> msg_frame s t \<and> cstring t (parse_error_msg t) = Some m)) s"
  using parse_run [OF assms] by (rule wp_mono) (simp add: verdict_def)

definition sample_cli :: "string list \<Rightarrow> parse_state" where
  "sample_cli ws = fsys.extend ((sample_fsys [] [] (\<lambda>_. None))
     \<lparr>blocks := (\<lambda>b. if b < length ws then Some (str_block (ws ! b)) else None), next_id := length ws,
      work_dir := Null\<rparr>) (parse_state.fields Null)"

theorem parse_args_table_witness:
  "wp (parse_args [Ptr 0 0, Ptr 1 0, Ptr 2 0]) (\<lambda>ok t. \<not> ok \<and>
      cstring t (parse_error_msg t) = Some '''write' requires file name and data to write.'')
    (sample_cli [''pekar'', ''write'', ''f''])"
proof (rule wp_mono [OF parse_args_table [where ws = "[''pekar'', ''write'', ''f'']"]])
  let ?s = "sample_cli [''pekar'', ''write'', ''f'']"
  show "msg_ok ?s"
    by (auto simp: sample_cli_def sample_fsys_def fsys.defs parse_state.defs msg_ok_def wf_mem_def
        str_block_def less_Suc_eq)
  show "list_all2 (\<lambda>p w. cstring ?s p = Some w) [Ptr 0 0, Ptr 1 0, Ptr 2 0] [''pekar'', ''write'', ''f'']"
    by (simp add: sample_cli_def sample_fsys_def fsys.defs parse_state.defs str_block_def c_str_exact)
qed (simp_all add: check_words_def operations_def check_count_def)

end
