(* ===== verification/Settings.thy ===== *)
theory Settings
  imports Arg_Parser
begin

text \<open>
  The settings of the client (\<^verbatim>\<open>src/client/settings.c\<close>): the address of the master in a file of
  two lines, the host and the port.
\<close>

section \<open>State and operations\<close>

text \<open>What the variable \<^verbatim>\<open>port\<close> holds before \<^verbatim>\<open>fscanf\<close> has stored to it.\<close>

record client = parse_state +
  stack_port :: u32

type_synonym ('a, 'z) clcmd = "('a, 'z client_scheme) cmd"

definition CONFIG_FILE :: "build \<Rightarrow> string" where
  "CONFIG_FILE B = (if debug B then ''config'' else ''~/.PekarDrive/config'')"

abbreviation NL :: char where "NL \<equiv> CHR 0x0A"

definition config_text :: "build \<Rightarrow> (string, 'z) fcmd" where
  "config_text B = cget (\<lambda>s. case files s (CONFIG_FILE B) of None \<Rightarrow> [] | Some t \<Rightarrow> t)"

definition set_master_address :: "build \<Rightarrow> ptr \<Rightarrow> u16 \<Rightarrow> (unit, 'z) fcmd" where
  "set_master_address B host prt =
     cbind (open_path (CONFIG_FILE B) ModeW) (\<lambda>f.
     if \<not> f then cskip
     else
       cbind (format [if host = Null then Txt ''unknown'' else PStr host, Txt [NL], PInt (int (unat prt)), Txt [NL]])
         (\<lambda>t. cseq (cmodify (\<lambda>s. s\<lparr>files := (files s)(CONFIG_FILE B \<mapsto>
            (case files s (CONFIG_FILE B) of None \<Rightarrow> t | Some old \<Rightarrow> old @ t))\<rparr>)) fclose))"

text \<open>\<^verbatim>\<open>fscanf(f, "%[0-9.]", ip)\<close> stores nothing when the text starts with another character.\<close>

definition get_master_host :: "build \<Rightarrow> (ptr, 'z) fcmd" where
  "get_master_host B =
     cbind (open_path (CONFIG_FILE B) ModeR) (\<lambda>f.
     if \<not> f then cret Null
     else
       cbind (malloc 16) (\<lambda>host.
       cbind (config_text B) (\<lambda>t.
       cseq (cwhen (takeWhile ip_char t \<noteq> []) (store host (takeWhile ip_char t @ [NUL])))
       (cseq fclose (cret host)))))"

definition host_char :: "char \<Rightarrow> bool" where
  "host_char c \<longleftrightarrow> ip_char c \<or>
     (65 \<le> (of_char c :: nat) \<and> (of_char c :: nat) \<le> 90) \<or> (97 \<le> (of_char c :: nat) \<and> (of_char c :: nat) \<le> 122)"

text \<open>\<^verbatim>\<open>%d\<close> of \<^verbatim>\<open>scanf\<close>: nothing is stored when no digit follows.\<close>

definition scan_int :: "string \<Rightarrow> u32 option" where
  "scan_int t =
     (let r = dropWhile is_space t;
          d = (if r \<noteq> [] \<and> (hd r = CHR ''-'' \<or> hd r = CHR ''+'') then tl r else r)
      in if d \<noteq> [] \<and> is_digit (hd d) then Some (word_of_int (atol r)) else None)"

text \<open>\<^verbatim>\<open>fscanf(f, "%[0-9.A-Za-z]\n%d", ip, &port)\<close>; the stream is never closed.\<close>

definition get_master_port :: "build \<Rightarrow> (u16, 'z) clcmd" where
  "get_master_port B =
     cbind (open_path (CONFIG_FILE B) ModeR) (\<lambda>f.
     if \<not> f then cret 0
     else
       cbind (malloc 16) (\<lambda>host.
       cbind (config_text B) (\<lambda>t.
       cbind (cget stack_port) (\<lambda>old.
       cbind (if takeWhile host_char t = [] then cret old
          else cseq (store host (takeWhile host_char t @ [NUL]))
            (cret (case scan_int (dropWhile host_char t) of None \<Rightarrow> old | Some v \<Rightarrow> v))) (\<lambda>prt.
       cseq (free host) (cret (ucast prt)))))))"

definition set_master_host :: "build \<Rightarrow> ptr \<Rightarrow> (unit, 'z) clcmd" where
  "set_master_host B host = cbind (get_master_port B) (set_master_address B host)"

definition set_master_port :: "build \<Rightarrow> u16 \<Rightarrow> (unit, 'z) clcmd" where
  "set_master_port B prt = cbind (get_master_host B) (\<lambda>host. set_master_address B host prt)"

section \<open>The file\<close>

text \<open>The text of a configuration.\<close>

definition config :: "string \<Rightarrow> u16 \<Rightarrow> string" where
  "config h prt = h @ NL # show_nat (unat prt) @ [NL]"

definition good_host :: "string \<Rightarrow> bool" where
  "good_host h \<longleftrightarrow> h \<noteq> [] \<and> list_all ip_char h \<and> length h \<le> 15"

lemma NL_chars: "\<not> ip_char NL" "\<not> host_char NL" "is_space NL" "\<not> is_digit NL"
  by (simp_all add: ip_char_def host_char_def is_space_def is_digit_def)

lemma scan_host:
  assumes "list_all P h" and "\<not> P NL"
  shows "takeWhile P (config h prt) = h" "dropWhile P (config h prt) = NL # show_nat (unat prt) @ [NL]"
  using assms by (simp_all add: config_def list_all_iff takeWhile_append2 dropWhile_append2)

lemma scan_port:
  "scan_int (NL # show_nat (unat prt) @ [NL]) = Some (word_of_int (int (unat (prt :: u16))))"
proof -
  let ?t = "show_nat (unat prt) @ [NL]"
  obtain c cs where c: "show_nat (unat prt) = c # cs" using show_nat_nonempty by (meson neq_Nil_conv)
  then have d: "is_digit c" using show_nat_digits [of c "unat prt"] by simp
  have "unat prt < 2 ^ 16" using unsigned_less [of prt, where ?'a = nat] by simp
  moreover have "int n < 2 ^ 63" if "n < 2 ^ 16" for n :: nat using that by simp
  ultimately have lt: "int (unat prt) < 2 ^ 63" by blast
  have low: "- (2 ^ 63) \<le> int (unat prt)" by (rule order_trans [of _ 0]) (simp, rule of_nat_0_le_iff)
  have "dropWhile is_space (NL # ?t) = ?t" using digit_not_special [OF d] by (simp add: c NL_chars)
  moreover have "atol ?t = int (unat prt)"
    using atol_show_int [OF _ low lt, of "[NL]"] by (simp add: show_int_def stops_digits_def NL_chars)
  ultimately show ?thesis
    using d digit_not_special [OF d] by (simp add: scan_int_def c)
qed

section \<open>Reading and writing it\<close>

lemma fsys_block_updates [simp]:
  "set_block b k (t\<lparr>streams := i\<rparr>) = (set_block b k t)\<lparr>streams := i\<rparr>"
  "del_block b (t\<lparr>streams := i\<rparr>) = (del_block b t)\<lparr>streams := i\<rparr>"
  "filled n x (t\<lparr>streams := i\<rparr>) = filled n x t"
  by (simp_all add: set_block_def del_block_def filled_def fresh_bytes_def)

lemma fs_frame_del: "fs_frame s t \<Longrightarrow> blocks s b = None \<Longrightarrow> fs_frame s (del_block b t)"
  by (simp add: fs_frame_def mgrows_del_block) (simp add: del_block_def)

text \<open>The host that a pointer stands for: a null pointer is written as a word.\<close>

definition host_text :: "'z mem_scheme \<Rightarrow> ptr \<Rightarrow> string option" where
  "host_text s host = (if host = Null then Some ''unknown'' else cstring s host)"

lemma set_address_then:
  assumes wf: "wf_mem s" and w: "may_write s (CONFIG_FILE B)" and h: "host_text s host = Some h"
    and Q: "\<And>t. \<lbrakk>fs_frame s t; files t = (files s)(CONFIG_FILE B \<mapsto> config h prt); streams t = streams s\<rbrakk>
      \<Longrightarrow> Q () t"
  shows "wp (set_master_address B host prt) Q s"
proof -
  let ?s = "s\<lparr>streams := Suc (streams s), files := (files s)(CONFIG_FILE B \<mapsto> [])\<rparr>"
  have "text_of ?s [if host = Null then Txt ''unknown'' else PStr host, Txt [NL], PInt (int (unat prt)), Txt [NL]] =
      Some (config h prt)"
    using h by (auto simp: host_text_def config_def show_int_def simp del: cstring.simps)
  then show ?thesis
    using w Q fs_frame_refl [OF wf] by (simp add: set_master_address_def wp_simps del: text_of.simps)
qed

lemma get_host_then:
  assumes wf: "wf_mem s" and f: "files s (CONFIG_FILE B) = Some (config h prt)" and h: "good_host h"
    and Q: "\<And>p t. \<lbrakk>fs_frame s t; files t = files s; cstring t p = Some h; p \<noteq> Null\<rbrakk> \<Longrightarrow> Q p t"
  shows "wp (get_master_host B) Q s"
proof -
  let ?s = "s\<lparr>streams := Suc (streams s)\<rparr>" and ?p = "Ptr (next_id s) 0"
  let ?t = "(add_block (filled 16 (h @ [NUL]) s) s)\<lparr>streams := streams s\<rparr>"
  have t: "takeWhile ip_char (config h prt) = h"
    using scan_host(1) [of ip_char h] h NL_chars by (simp add: good_host_def)
  have no: "NUL \<notin> set h" using h by (auto simp: good_host_def list_all_iff ip_char_def is_digit_def)
  have g: "grows s (add_block (filled 16 (h @ [NUL]) s) s)"
    using h by (intro grows_filled wf) (simp add: good_host_def)
  have "Q ?p ?t"
    by (rule Q) (use grows_fs_frame [OF g] cstring_filled_nul [OF no] in simp_all)
  then show ?thesis
    using f h t by (simp add: get_master_host_def config_text_def wp_simps good_host_def filled_def)
qed

lemma get_port_then:
  assumes wf: "wf_mem s" and f: "files s (CONFIG_FILE B) = Some (config h prt)"
    and h: "h \<noteq> []" "list_all host_char h" "length h \<le> 15"
    and Q: "\<And>t. \<lbrakk>fs_frame s t; files t = files s\<rbrakk> \<Longrightarrow> Q prt t"
  shows "wp (get_master_port B) Q s"
proof -
  let ?b = "next_id s"
  let ?t = "(del_block ?b (add_block (filled 16 (h @ [NUL]) s) s))\<lparr>streams := Suc (streams s)\<rparr>"
  have g: "grows s (add_block (filled 16 (h @ [NUL]) s) s)" using h by (intro grows_filled wf) simp
  have "fs_frame s ?t"
    by (simp add: fs_frame_del [OF grows_fs_frame [OF g]] wf_mem_next [OF wf])
  then have "Q prt ?t" by (rule Q) simp
  moreover have "ucast (word_of_int (int (unat prt)) :: u32) = prt"
    by (simp add: unsigned_ucast_eq take_bit_word_eq_self)
  ultimately show ?thesis
    using f h scan_host [of host_char h] NL_chars
    by (simp add: get_master_port_def config_text_def wp_simps scan_port filled_def)
qed

text \<open>The two commands of the client that change the settings.\<close>

lemma good_host_chars: "good_host h \<Longrightarrow> h \<noteq> [] \<and> list_all host_char h \<and> length h \<le> 15"
  by (auto simp: good_host_def host_char_def list_all_iff)

lemma set_host_then:
  assumes wf: "wf_mem s" and w: "may_write s (CONFIG_FILE B)"
    and f: "files s (CONFIG_FILE B) = Some (config h prt)" and h: "good_host h"
    and p: "cstring s p = Some h'"
    and Q: "\<And>t. \<lbrakk>fs_frame s t; files t = (files s)(CONFIG_FILE B \<mapsto> config h' prt)\<rbrakk> \<Longrightarrow> Q () t"
  shows "wp (set_master_host B p) Q s"
  unfolding set_master_host_def wp_cbind
proof (rule get_port_then [OF wf f])
  fix t assume t: "fs_frame s t" "files t = files s"
  have "p \<noteq> Null" using p by auto
  then have ht: "host_text t p = Some h'"
    using mgrows_cstring [OF fs_frame_mgrows [OF t(1)] p] by (simp add: host_text_def del: cstring.simps)
  show "wp (set_master_address B p prt) Q t"
    by (rule set_address_then [OF mgrows_wf [OF fs_frame_mgrows [OF t(1)]] _ ht])
      (use t w Q fs_frame_trans [OF t(1)] in \<open>simp_all add: fs_frame_def\<close>)
qed (use good_host_chars [OF h] in simp_all)

lemma set_port_then:
  assumes wf: "wf_mem s" and w: "may_write s (CONFIG_FILE B)"
    and f: "files s (CONFIG_FILE B) = Some (config h prt)" and h: "good_host h"
    and Q: "\<And>t. \<lbrakk>fs_frame s t; files t = (files s)(CONFIG_FILE B \<mapsto> config h prt')\<rbrakk> \<Longrightarrow> Q () t"
  shows "wp (set_master_port B prt') Q s"
  unfolding set_master_port_def wp_cbind
proof (rule get_host_then [OF wf f h])
  fix p t assume t: "fs_frame s t" "files t = files s" "cstring t p = Some h" "p \<noteq> Null"
  have ht: "host_text t p = Some h" using t(3,4) by (simp add: host_text_def)
  show "wp (set_master_address B p prt') Q t"
    by (rule set_address_then [OF mgrows_wf [OF fs_frame_mgrows [OF t(1)]] _ ht])
      (use t w Q fs_frame_trans [OF t(1)] in \<open>simp_all add: fs_frame_def\<close>)
qed

section \<open>A sequence of commands\<close>

datatype setting = SetHost ptr | SetPort u16

fun run_settings :: "build \<Rightarrow> setting list \<Rightarrow> (unit, 'z) clcmd" where
  "run_settings B [] = cskip"
| "run_settings B (SetHost p # cs) = cseq (set_master_host B p) (run_settings B cs)"
| "run_settings B (SetPort q # cs) = cseq (set_master_port B q) (run_settings B cs)"

text \<open>The abstract settings: a pair of a host and a port.\<close>

fun settle :: "(ptr \<Rightarrow> string) \<Rightarrow> setting list \<Rightarrow> string \<times> u16 \<Rightarrow> string \<times> u16" where
  "settle name [] a = a"
| "settle name (SetHost p # cs) (h, q) = settle name cs (name p, q)"
| "settle name (SetPort q' # cs) (h, q) = settle name cs (h, q')"

lemma settle_cong:
  "(\<And>p. SetHost p \<in> set cs \<Longrightarrow> f p = g p) \<Longrightarrow> settle f cs a = settle g cs a"
  by (induction f cs a rule: settle.induct) auto

lemma settle_good:
  "good_host (fst a) \<Longrightarrow> (\<And>p. SetHost p \<in> set cs \<Longrightarrow> good_host (name p)) \<Longrightarrow>
    good_host (fst (settle name cs a))"
  by (induction name cs a rule: settle.induct) auto

definition holds_settings :: "build \<Rightarrow> string \<times> u16 \<Rightarrow> 'z fsys_scheme \<Rightarrow> bool" where
  "holds_settings B a s \<longleftrightarrow> files s (CONFIG_FILE B) = Some (config (fst a) (snd a)) \<and> good_host (fst a)"

lemma settings_step:
  fixes s t :: "'z client_scheme"
  assumes IH: "\<And>a (u :: 'z client_scheme). \<lbrakk>wf_mem u; may_write u (CONFIG_FILE B); holds_settings B a u;
      \<And>p. SetHost p \<in> set cs \<Longrightarrow> \<exists>h. cstring u p = Some h \<and> good_host h\<rbrakk>
    \<Longrightarrow> wp (run_settings B cs) (\<lambda>_ v. fs_frame u v \<and> holds_settings B (settle (\<lambda>p. the (cstring u p)) cs a) v) u"
    and w: "may_write s (CONFIG_FILE B)" and t: "fs_frame s t" "holds_settings B a t"
    and hosts: "\<And>p. SetHost p \<in> set cs \<Longrightarrow> \<exists>h. cstring s p = Some h \<and> good_host h"
  shows "wp (run_settings B cs) (\<lambda>_ u. fs_frame s u \<and>
    holds_settings B (settle (\<lambda>p. the (cstring s p)) cs a) u) t"
proof -
  note m = fs_frame_mgrows [OF t(1)]
  have names: "\<exists>h. cstring s x = Some h \<and> cstring t x = Some h \<and> good_host h" if "SetHost x \<in> set cs" for x
    using hosts [OF that] mgrows_cstring [OF m] by auto
  have "wp (run_settings B cs) (\<lambda>_ u. fs_frame t u \<and>
      holds_settings B (settle (\<lambda>p. the (cstring t p)) cs a) u) t"
  proof (rule IH [OF mgrows_wf [OF m] _ t(2)])
    show "may_write t (CONFIG_FILE B)" using w t(1) by (simp add: fs_frame_def)
    show "\<exists>h. cstring t x = Some h \<and> good_host h" if "SetHost x \<in> set cs" for x
      using names [OF that] by blast
  qed
  moreover have "settle (\<lambda>p. the (cstring t p)) cs a = settle (\<lambda>p. the (cstring s p)) cs a"
    by (rule settle_cong) (use names in fastforce)
  ultimately show ?thesis by (auto elim!: wp_mono intro: fs_frame_trans [OF t(1)])
qed

lemma settings_then:
  assumes "wf_mem s" and "may_write s (CONFIG_FILE B)" and "holds_settings B a s"
    and "\<And>p. SetHost p \<in> set cs \<Longrightarrow> \<exists>h. cstring s p = Some h \<and> good_host h"
  shows "wp (run_settings B cs) (\<lambda>_ t. fs_frame s t \<and>
    holds_settings B (settle (\<lambda>p. the (cstring s p)) cs a) t) s"
  using assms
proof (induction B cs arbitrary: a s rule: run_settings.induct)
  case (1 B)
  then show ?case by (simp add: wp_cskip fs_frame_refl)
next
  case (2 B p cs)
  obtain h q where a: "a = (h, q)" by (cases a)
  obtain h' where h': "cstring s p = Some h'" "good_host h'" using "2.prems"(4) [of p] by auto
  have f: "files s (CONFIG_FILE B) = Some (config h q)" "good_host h"
    using "2.prems"(3) by (simp_all add: holds_settings_def a)
  show ?case unfolding run_settings.simps wp_cseq
  proof (rule set_host_then [OF "2.prems"(1,2) f h'(1)])
    fix t assume t: "fs_frame s t" "files t = (files s)(CONFIG_FILE B \<mapsto> config h' q)"
    have st: "holds_settings B (h', q) t" using t(2) h'(2) by (simp add: holds_settings_def)
    have "wp (run_settings B cs) (\<lambda>_ u. fs_frame s u \<and>
        holds_settings B (settle (\<lambda>p. the (cstring s p)) cs (h', q)) u) t"
      by (rule settings_step [OF "2.IH" "2.prems"(2) t(1) st]) (assumption+, use "2.prems"(4) in simp)
    moreover have "settle (\<lambda>p. the (cstring s p)) (SetHost p # cs) a = settle (\<lambda>p. the (cstring s p)) cs (h', q)"
      using h' by (simp add: a del: cstring.simps)
    ultimately show "wp (run_settings B cs) (\<lambda>_ u. fs_frame s u \<and>
        holds_settings B (settle (\<lambda>p. the (cstring s p)) (SetHost p # cs) a) u) t" by simp
  qed
next
  case (3 B q' cs)
  obtain h q where a: "a = (h, q)" by (cases a)
  have f: "files s (CONFIG_FILE B) = Some (config h q)" "good_host h"
    using "3.prems"(3) by (simp_all add: holds_settings_def a)
  show ?case unfolding run_settings.simps wp_cseq
  proof (rule set_port_then [OF "3.prems"(1,2) f])
    fix t assume t: "fs_frame s t" "files t = (files s)(CONFIG_FILE B \<mapsto> config h q')"
    have st: "holds_settings B (h, q') t" using t(2) f(2) by (simp add: holds_settings_def)
    have "wp (run_settings B cs) (\<lambda>_ u. fs_frame s u \<and>
        holds_settings B (settle (\<lambda>p. the (cstring s p)) cs (h, q')) u) t"
      by (rule settings_step [OF "3.IH" "3.prems"(2) t(1) st]) (assumption+, use "3.prems"(4) in simp)
    moreover have "settle (\<lambda>p. the (cstring s p)) (SetPort q' # cs) a = settle (\<lambda>p. the (cstring s p)) cs (h, q')"
      by (simp add: a)
    ultimately show "wp (run_settings B cs) (\<lambda>_ u. fs_frame s u \<and>
        holds_settings B (settle (\<lambda>p. the (cstring s p)) (SetPort q' # cs) a) u) t" by simp
  qed
qed

text \<open>When no host was ever set, a second port takes the place of the word that stands for it.\<close>

lemma unset_host_then:
  assumes wf: "wf_mem s" and clean: "clean_mem s" and w: "may_write s (CONFIG_FILE B)"
    and f: "files s (CONFIG_FILE B) = Some (config ''unknown'' prt)"
    and Q: "\<And>t. \<lbrakk>fs_frame s t; files t = (files s)(CONFIG_FILE B \<mapsto> config [] prt')\<rbrakk> \<Longrightarrow> Q () t"
  shows "wp (set_master_port B prt') Q s"
proof -
  let ?t = "(add_block (fresh_block 16 s) s)\<lparr>streams := streams s\<rparr>" and ?p = "Ptr (next_id s) 0"
  have none: "takeWhile ip_char (config ''unknown'' prt) = []"
    by (simp add: config_def ip_char_def is_digit_def)
  have fr: "fs_frame s ?t"
    using grows_fs_frame [OF grows_add_block [OF grows_refl [OF wf]]] by simp
  have "fresh_bytes 16 s \<noteq> []" "set (fresh_bytes 16 s) \<subseteq> {NUL}"
    using clean by (auto simp: fresh_bytes_def clean_mem_def)
  then have "c_str (fresh_bytes 16 s) = Some []" by (cases "fresh_bytes 16 s") simp_all
  then have "host_text ?t ?p = Some []" by (simp add: host_text_def)
  then have "wp (set_master_address B ?p prt') Q ?t"
    using w fr by (intro set_address_then [where h = "[]"])
      (auto intro!: Q intro: fs_frame_trans [OF fr] mgrows_wf [OF fs_frame_mgrows])
  then show ?thesis
    using f none by (simp add: set_master_port_def get_master_host_def config_text_def wp_simps)
qed

lemma lost_port:
  assumes "files s (CONFIG_FILE B) = Some (config [] prt)"
  shows "wp (get_master_port B) (\<lambda>r t. r = ucast (stack_port s)) s"
proof -
  have "takeWhile host_char (config [] prt) = []" using NL_chars by (simp add: config_def)
  then show ?thesis using assms by (simp add: get_master_port_def config_text_def wp_simps add_block_def)
qed

lemma ports_only:
  assumes wf: "wf_mem s" and clean: "clean_mem s" and w: "may_write s (CONFIG_FILE B)"
    and f: "files s (CONFIG_FILE B) = None"
  shows "wp (cseq (set_master_port B p) (cseq (set_master_port B q) (get_master_port B)))
    (\<lambda>r t. r = ucast (stack_port s)) s"
proof -
  let ?rest = "cseq (set_master_port B q) (get_master_port B)" and ?Q = "\<lambda>r t. r = ucast (stack_port s)"
  have more: "stack_port t = stack_port s" if "fs_frame s t" for t
    using that by (cases s, cases t) (simp add: fs_frame_def)
  have "wp (set_master_address B Null p) (\<lambda>_. wp ?rest ?Q) s"
  proof (rule set_address_then [OF wf w])
    show "host_text s Null = Some ''unknown''" by (simp add: host_text_def)
    fix t assume t: "fs_frame s t" "files t = (files s)(CONFIG_FILE B \<mapsto> config ''unknown'' p)"
    note m = fs_frame_mgrows [OF t(1)]
    show "wp ?rest ?Q t" unfolding wp_cseq
    proof (rule unset_host_then [OF mgrows_wf [OF m] clean_mgrows [OF m clean]])
      show "may_write t (CONFIG_FILE B)" using w t(1) by (simp add: fs_frame_def)
      show "files t (CONFIG_FILE B) = Some (config ''unknown'' p)" by (simp add: t(2))
      fix u assume u: "fs_frame t u" "files u = (files t)(CONFIG_FILE B \<mapsto> config [] q)"
      have "files u (CONFIG_FILE B) = Some (config [] q)" by (simp add: u(2))
      then show "wp (get_master_port B) ?Q u"
        using lost_port more [OF fs_frame_trans [OF t(1) u(1)]] by fastforce
    qed
  qed
  then show ?thesis
    using f by (simp add: wp_cseq set_master_port_def [of B p] get_master_host_def wp_cbind wp_open_path wp_cret wp_funs)
qed

section \<open>Properties\<close>

text \<open>
  C14. The settings refine a pair of a host and a port: after any sequence of the commands
  \<^verbatim>\<open>set-ip\<close> and \<^verbatim>\<open>set-port\<close> on a file that holds an address, with addresses of at most 15 digits
  and dots, the getters return the host and the port that were set last, or the old ones.
\<close>

theorem settings_refine_pair:
  fixes s :: "'z client_scheme"
  assumes "wf_mem s" and "may_write s (CONFIG_FILE B)" and "holds_settings B a s"
    and "\<And>p. SetHost p \<in> set cs \<Longrightarrow> \<exists>h. cstring s p = Some h \<and> good_host h"
  shows "wp (cseq (run_settings B cs)
      (cbind (get_master_host B) (\<lambda>p. cbind (get_master_port B) (\<lambda>q. cret (p, q)))))
    (\<lambda>(p, q) t. cstring t p = Some (fst (settle (\<lambda>p. the (cstring s p)) cs a)) \<and>
       q = snd (settle (\<lambda>p. the (cstring s p)) cs a)) s"
  unfolding wp_cseq
proof (rule wp_mono [OF settings_then [OF assms]])
  fix x and t :: "'z client_scheme"
  let ?a = "settle (\<lambda>p. the (cstring s p)) cs a"
  assume "fs_frame s t \<and> holds_settings B ?a t"
  then have t: "wf_mem t" "files t (CONFIG_FILE B) = Some (config (fst ?a) (snd ?a))" "good_host (fst ?a)"
    using mgrows_wf [OF fs_frame_mgrows] by (auto simp: holds_settings_def)
  show "wp (cbind (get_master_host B) (\<lambda>p. cbind (get_master_port B) (\<lambda>q. cret (p, q))))
      (\<lambda>(p, q) t. cstring t p = Some (fst ?a) \<and> q = snd ?a) t"
    unfolding wp_cbind
  proof (rule get_host_then [OF t])
    fix p u assume u: "fs_frame t u" "files u = files t" "cstring u p = Some (fst ?a)"
    have f: "files u (CONFIG_FILE B) = Some (config (fst ?a) (snd ?a))" by (simp add: u(2) t(2))
    have "wp (get_master_port B) (\<lambda>q v. cstring v p = Some (fst ?a) \<and> q = snd ?a) u"
      by (rule get_port_then [OF mgrows_wf [OF fs_frame_mgrows [OF u(1)]] f])
        (use good_host_chars [OF t(3)] mgrows_cstring [OF fs_frame_mgrows] u(3) in blast)+
    then show "wp (get_master_port B) (\<lambda>q. wp (cret (p, q))
        (\<lambda>(p, q) t. cstring t p = Some (fst ?a) \<and> q = snd ?a)) u"
      by (simp add: wp_funs)
  qed
qed

definition sample_client :: "string list \<Rightarrow> file_map \<Rightarrow> client" where
  "sample_client ws fs = parse_state.extend (sample_cli ws\<lparr>files := fs\<rparr>) (client.fields 7)"

lemma sample_client_simps [simp]:
  "wf_mem (sample_client ws fs)" "clean_mem (sample_client ws fs)" "may_write (sample_client ws fs) path"
  "files (sample_client ws fs) = fs" "stack_port (sample_client ws fs) = 7"
  "i < length ws \<Longrightarrow> cstring (sample_client ws fs) (Ptr i 0) = c_str (ws ! i @ [NUL])"
  "msg_ok (sample_client ws fs)" "fds (sample_client ws fs) = []" "trace (sample_client ws fs) = []"
  by (auto simp: sample_client_def sample_cli_def sample_fsys_def fsys.defs parse_state.defs client.defs
      wf_mem_def clean_mem_def str_block_def msg_ok_def split: if_splits)

theorem settings_refine_pair_witness:
  "wp (cseq (run_settings test_build [SetPort 1, SetHost (Ptr 0 0), SetPort 55442])
      (cbind (get_master_host test_build) (\<lambda>p. cbind (get_master_port test_build) (\<lambda>q. cret (p, q)))))
    (\<lambda>(p, q) t. cstring t p = Some ''10.0.0.2'' \<and> q = 55442)
    (sample_client [''10.0.0.2''] [''config'' \<mapsto> config ''10.0.0.1'' 0])"
proof (rule wp_mono [OF settings_refine_pair [where a = "(''10.0.0.1'', 0)"]])
  let ?s = "sample_client [''10.0.0.2''] [''config'' \<mapsto> config ''10.0.0.1'' 0]"
  have g: "good_host ''10.0.0.1''" "good_host ''10.0.0.2''"
    by (simp_all add: good_host_def ip_char_def is_digit_def)
  have c: "cstring ?s (Ptr 0 0) = Some ''10.0.0.2''" by (simp add: c_str_exact del: cstring.simps)
  show "holds_settings test_build (''10.0.0.1'', 0) ?s" by (simp add: holds_settings_def CONFIG_FILE_def g)
  show "\<exists>h. cstring ?s p = Some h \<and> good_host h"
    if "SetHost p \<in> set [SetPort 1, SetHost (Ptr 0 0), SetPort 55442]" for p
    using that c g(2) by auto
  fix r :: "ptr \<times> u16" and t :: client
  let ?a = "settle (\<lambda>p. the (cstring ?s p)) [SetPort 1, SetHost (Ptr 0 0), SetPort 55442] (''10.0.0.1'', 0)"
  assume "(\<lambda>(p, q) t. cstring t p = Some (fst ?a) \<and> q = snd ?a) r t"
  then show "(\<lambda>(p, q) t. cstring t p = Some ''10.0.0.2'' \<and> q = 55442) r t"
    by (cases r) (simp add: c del: cstring.simps)
qed simp_all

text \<open>
  Setting the port twice before any host is set loses it: the second command reads the word
  that stands for no host as an address, gets a buffer that was never written, and writes an
  empty host; from then on the port that is read is what the stack happens to hold.
\<close>

theorem second_port_lost:
  fixes s :: "'z client_scheme"
  assumes "wf_mem s" and "clean_mem s" and "may_write s (CONFIG_FILE B)"
    and "files s (CONFIG_FILE B) = None"
  shows "wp (cseq (set_master_port B p) (cseq (set_master_port B q) (get_master_port B)))
    (\<lambda>r t. r = ucast (stack_port s)) s"
  using assms by (rule ports_only)

theorem second_port_lost_witness:
  "wp (cseq (set_master_port test_build 1) (cseq (set_master_port test_build 2) (get_master_port test_build)))
    (\<lambda>r t. r = 7) (sample_client [] (\<lambda>_. None))"
  by (rule wp_mono [OF second_port_lost]) simp_all

end
