(* ===== verification/Client.thy ===== *)
theory Client
  imports Interface Settings
begin

text \<open>
  The client program (\<^verbatim>\<open>src/client/client.c\<close>). The address of the master is read from the
  settings wherever the code names it.
\<close>

section \<open>Operations\<close>

text \<open>A message of the builds with \<^verbatim>\<open>VERBOSE_2\<close>.\<close>

definition announce_op :: "build \<Rightarrow> string \<Rightarrow> (unit, 'z) lcmd" where
  "announce_op B m = cwhen (verbose_2 B) (cseq (logger MESSAGE COMP_CLIENT (Txt m)) cskip)"

definition print :: "string \<Rightarrow> (unit, 'z) ocmd" where
  "print m = log_event (Printed m)"

definition print_result :: "ptr \<Rightarrow> (unit, 'z) ocmd" where
  "print_result res =
     cwhen (res \<noteq> Null) (cbind (get_str res) (\<lambda>t. print (t @ [NL])))"

definition exec_ls :: "build \<Rightarrow> (unit, 'z) clcmd" where
  "exec_ls B =
     cseq (announce_op B ''Executing 'ls'...'')
     (cbind (get_master_host B) (\<lambda>host.
      cbind (get_master_port B) (\<lambda>prt.
      cbind (ls B host prt) print_result)))"

definition exec_read :: "build \<Rightarrow> ptr \<Rightarrow> (unit, 'z) clcmd" where
  "exec_read B file =
     cseq (announce_op B ''Executing 'read'...'')
     (cbind (get_master_host B) (\<lambda>host.
      cbind (get_master_port B) (\<lambda>prt.
      cbind (file_read B file host prt) print_result)))"

definition exec_write_append :: "build \<Rightarrow> ptr \<Rightarrow> ptr \<Rightarrow> bool \<Rightarrow> (unit, 'z) clcmd" where
  "exec_write_append B file data isappend =
     cseq (announce_op B (if isappend then ''Executing 'append'...'' else ''Executing 'write'...''))
     (cbind (strlen data) (\<lambda>n.
      cbind (get_master_host B) (\<lambda>host.
      cbind (get_master_port B) (\<lambda>prt.
      cbind (file_write B file data (of_nat n) isappend host prt) (\<lambda>bs.
      print (''Wrote '' @ show_int (sint (ucast bs :: u32)) @ '' bytes'' @ [NL]))))))"

definition exec_delete :: "build \<Rightarrow> ptr \<Rightarrow> (unit, 'z) clcmd" where
  "exec_delete B file =
     cseq (announce_op B ''Executing 'delete'...'')
     (cbind (get_master_host B) (\<lambda>host.
      cbind (get_master_port B) (\<lambda>prt.
      cbind (file_delete B file host prt) (\<lambda>deleted.
      print (''File was '' @ (if deleted \<noteq> 0 then ''deleted'' else ''not deleted'') @ ''.'' @ [NL])))))"

definition exec_set_ip :: "build \<Rightarrow> ptr \<Rightarrow> (unit, 'z) clcmd" where
  "exec_set_ip B host = set_master_host B host"

definition exec_set_port :: "build \<Rightarrow> u16 \<Rightarrow> (unit, 'z) clcmd" where
  "exec_set_port B prt = set_master_port B prt"

definition operation_handler :: "build \<Rightarrow> ptr \<Rightarrow> ptr \<Rightarrow> ptr \<Rightarrow> (unit, 'z) clcmd" where
  "operation_handler B oper arg1 arg2 =
     cbind (get_str oper) (\<lambda>t.
     if t = ''ls'' then exec_ls B
     else if t = ''read'' then exec_read B arg1
     else if t = ''write'' \<or> t = ''append'' then exec_write_append B arg1 arg2 (t = ''append'')
     else if t = ''delete'' then exec_delete B arg1
     else if t = ''set-ip'' then exec_set_ip B arg1
     else if t = ''set-port'' then
       cbind (get_str arg1) (\<lambda>n. exec_set_port B (word_of_int (atoi n)))
     else cskip)"

text \<open>\<^verbatim>\<open>main\<close> with its exit code.\<close>

definition client_main :: "build \<Rightarrow> ptr list \<Rightarrow> (int, 'z) clcmd" where
  "client_main B argv =
     cbind (parse_args argv) (\<lambda>ok.
     if \<not> ok then
       cbind cli_error_msg (\<lambda>e. cseq (logger ERROR COMP_CLIENT (PStr e)) (cret 1))
     else
       cbind (get_str (argv ! 1)) (\<lambda>t.
       cbind (if t \<noteq> ''set-ip'' \<and> t \<noteq> ''set-port'' then get_master_host B else cret (argv ! 1)) (\<lambda>h.
       if h = Null then
         cseq (logger MESSAGE COMP_CLIENT
           (Txt ''Use 'set-ip' and 'set-port' to specify master IP and port number, repectively.'')) (cret 1)
       else
         cseq (operation_handler B (argv ! 1) (if 3 \<le> length argv then argv ! 2 else Null)
           (if 4 \<le> length argv then argv ! 3 else Null)) (cret 0))))"

end
