(* ===== verification/Stable_Client.thy ===== *)
theory Stable_Client
  imports Stable_Worker Client
begin

text \<open>The commands of the client; the only file it writes is the one with the settings.\<close>

locale client_commands = file_readers R for R :: "'z client_scheme \<Rightarrow> 'z client_scheme \<Rightarrow> bool" +
  fixes B :: build
  assumes errors: "R s (s\<lparr>parse_error_msg := p\<rparr>)"
    and settings: "obeys R (set_master_address B h w)"
begin

declare settings [stable]

lemma set_error [stable]: "obeys R (cmodify (\<lambda>s. s\<lparr>parse_error_msg := p\<rparr>))"
  by (simp add: obeys_def cmodify_def errors)

lemma parsing [stable]: "obeys R (parse_args argv)" "obeys R cli_error_msg"
  unfolding parse_args_def parse_operation_def parse_ls_def parse_read_def parse_write_def
    parse_append_def parse_delete_def parse_set_ip_def parse_set_port_def cli_error_msg_def set_err_msg_def
  by (intro stable)+

lemma getters [stable]: "obeys R (get_master_host B)" "obeys R (get_master_port B)"
  unfolding get_master_host_def get_master_port_def config_text_def by (intro stable)+

lemma setters [stable]: "obeys R (set_master_host B p)" "obeys R (set_master_port B w)"
  unfolding set_master_host_def set_master_port_def by (intro stable)+

lemma interface [stable]:
  "obeys R (read_all C c)" "obeys R (refused C c r)" "obeys R (gen_write_arg p q)"
  "obeys R (number_received C c)" "obeys R (ls C p w)" "obeys R (file_read C q p w)"
  "obeys R (file_write C q d n a p w)" "obeys R (file_delete C q p w)"
  unfolding read_all_def read_all_body_def refused_def gen_write_arg_def number_received_def ls_def
    file_read_def file_write_def file_delete_def split_def
  by (intro stable)+

lemma program: "obeys R (client_main B argv)"
  unfolding client_main_def operation_handler_def exec_ls_def exec_read_def exec_write_append_def
    exec_delete_def exec_set_ip_def exec_set_port_def announce_op_def print_result_def print_def
  by (intro stable)

end

end
