(* ===== verification/Evolution.thy ===== *)
theory Evolution
  imports Stable_Worker Stable_Client
begin

text \<open>
  What no command takes back and what it leaves alone: the events of a worker's run only grow in
  number, a client changes no file but the one with its settings, and a worker that only answers
  changes no file.
\<close>

section \<open>Events are not taken back\<close>

definition extends :: "'z os_scheme \<Rightarrow> 'z os_scheme \<Rightarrow> bool" where
  "extends s t \<longleftrightarrow> (\<exists>es. trace t = trace s @ es)"

lemma extends_refl: "extends s s"
  by (simp add: extends_def)

lemma extends_trans: "extends s t \<Longrightarrow> extends t u \<Longrightarrow> extends s u"
  by (auto simp: extends_def)

lemma extends_same: "trace t = trace s \<Longrightarrow> extends s t"
  by (simp add: extends_def)

lemma extends_effects: "extends s t \<Longrightarrow> \<exists>es. effects (trace t) = effects (trace s) @ es"
  by (auto simp: extends_def)

interpretation ext: os_commands extends
proof unfold_locales
  show "obeys extends (malloc n)" "obeys extends (literal t)" for n t
    by (auto simp: obeys_def malloc_def literal_def intro!: extends_same)
  show "obeys extends (free p)" "obeys extends (realloc p n)" "obeys extends (store p t)" for p n t
    by (cases p; auto simp: obeys_def malloc_def intro!: extends_same split: option.splits if_splits)+
qed (auto intro: extends_refl extends_trans extends_same simp: extends_def)

interpretation ext_log: log_commands extends
  by unfold_locales (simp add: extends_same)

interpretation ext_files: file_readers extends
  by unfold_locales (simp add: extends_same)

interpretation ext_worker: worker_commands extends
  by unfold_locales (simp_all add: extends_same)

section \<open>Which files can change\<close>

interpretation kept: beyond_os "\<lambda>s. files s |` A" for A
  by unfold_locales (rule arg_cong [of _ _ "\<lambda>fs. fs |` A"], rule fsys_more(1) [OF logst_more(2)])

interpretation kept_log: log_commands "\<lambda>s t. files t |` A = files s |` A" for A
  by unfold_locales simp

interpretation kept_files: file_readers "\<lambda>s t. files t |` A = files s |` A" for A
  by unfold_locales simp

interpretation kept_worker: worker_readers "\<lambda>s t. files t |` A = files s |` A" for A
  by unfold_locales simp

lemma kept_settings:
  assumes "CONFIG_FILE B \<notin> A"
  shows "obeys (\<lambda>s t. files t |` A = files s |` A) (set_master_address B p w)"
proof -
  have w: "obeys (\<lambda>s t. files t |` A = files s |` A) (open_path (CONFIG_FILE B) m)" for m
    using assms by (auto simp: obeys_def open_path_def cbind_def cseq_def cget_def cret_def cmodify_def
        split: if_splits)
  have "obeys (\<lambda>s t. files t |` A = files s |` A) (cmodify (\<lambda>s. s\<lparr>files := (files s)(CONFIG_FILE B \<mapsto> f s)\<rparr>))"
    for f
    using assms by (simp add: obeys_def cmodify_def)
  with w show ?thesis unfolding set_master_address_def by (intro stable)
qed

interpretation kept_client: client_commands "\<lambda>s t. files t |` (- {CONFIG_FILE B}) = files s |` (- {CONFIG_FILE B})" B
  for B
  by unfold_locales (simp_all add: kept_settings)

lemma serve_keeps_files:
  assumes "token p \<noteq> MASTER_TKN B \<or> msg_type p \<in> {PING, LS, READ}"
  shows "obeys (\<lambda>s t. files t |` A = files s |` A) (serve B sh c b p)"
proof (cases "token p = MASTER_TKN B")
  case True
  then have "msg_type p \<in> {PING, LS, READ}" using assms by simp
  then show ?thesis using True unfolding serve_def by (simp, intro stable kept_worker.performs_reads) simp
next
  case False
  then show ?thesis unfolding serve_def by (simp, intro stable)
qed

end
