(* ===== verification/Server_Table.thy ===== *)
theory Server_Table
  imports Logger
begin

text \<open>
  \<^verbatim>\<open>src/server_table.c\<close>: the master's table of workers, an array that is reallocated on
  every change, with a 16-bit count, behind a mutex. The array is a list of cells (\<open>None\<close>
  is a cell that was never written); a pointer into it is an index together with the
  number of reallocations at the time it was taken, so that a pointer kept across a change
  of the table is dead. The mutex is the default kind: locking it twice is a deadlock.
\<close>

section \<open>State\<close>

record file_server =
  srv_id :: u64
  srv_size :: int
  ip :: ptr
  port :: u16

record tables = logst +
  server_table :: "file_server option list"
  server_count :: u16
  table_gen :: nat
  mutex_held :: bool

type_synonym ('a, 'z) tcmd = "('a, 'z tables_scheme) cmd"

datatype srv_ref = NoServer | Slot nat nat

definition mutex_lock :: "(unit, 'z) tcmd" where
  "mutex_lock s = (if mutex_held s then Inl Deadlock else Inr ((), s\<lparr>mutex_held := True\<rparr>))"

definition mutex_unlock :: "(unit, 'z) tcmd" where
  "mutex_unlock = cmodify (\<lambda>s. s\<lparr>mutex_held := False\<rparr>)"

text \<open>\<^verbatim>\<open>realloc(server_table, sizeof(struct file_server) * n)\<close>.\<close>

definition resize_table :: "nat \<Rightarrow> (unit, 'z) tcmd" where
  "resize_table n = cmodify (\<lambda>s. s\<lparr>server_table :=
       take n (server_table s) @ replicate (n - length (server_table s)) None,
     table_gen := Suc (table_gen s)\<rparr>)"

text \<open>Reading and writing \<^verbatim>\<open>server_table[i]\<close>; an array of no elements is a null pointer.\<close>

definition read_slot :: "nat \<Rightarrow> (file_server, 'z) tcmd" where
  "read_slot i s =
     (if server_table s = [] then Inl NullDeref
      else if i < length (server_table s) then
        (case server_table s ! i of None \<Rightarrow> Inl ReadOutside | Some x \<Rightarrow> Inr (x, s))
      else Inl ReadOutside)"

definition write_slot :: "int \<Rightarrow> file_server \<Rightarrow> (unit, 'z) tcmd" where
  "write_slot i x s =
     (if server_table s = [] then Inl NullDeref
      else if 0 \<le> i \<and> nat i < length (server_table s)
      then Inr ((), s\<lparr>server_table := (server_table s)[nat i := Some x]\<rparr>)
      else Inl Overflow)"

text \<open>Access through a pointer into the array.\<close>

fun deref :: "srv_ref \<Rightarrow> (file_server, 'z) tcmd" where
  "deref NoServer s = Inl NullDeref"
| "deref (Slot g i) s = (if g = table_gen s then read_slot i s else Inl UseAfterFree)"

section \<open>Operations\<close>

definition add_server :: "file_server \<Rightarrow> (unit, 'z) tcmd" where
  "add_server server =
     cblock
       [mutex_lock,
        cmodify (\<lambda>s. s\<lparr>server_count := server_count s + 1\<rparr>),
        cbind (cget server_count) (\<lambda>n. resize_table (unat n)),
        cbind (cget server_count) (\<lambda>n. write_slot (int (unat n) - 1) server),
        mutex_unlock]"

text \<open>\<^verbatim>\<open>indexof\<close> from index \<open>i\<close> on, with \<open>n\<close> the count of servers; \<open>-1\<close> for none.\<close>

function indexof_from :: "u64 \<Rightarrow> nat \<Rightarrow> nat \<Rightarrow> (int, 'z) tcmd" where
  "indexof_from sid n i =
     (if i < n then
        cbind (read_slot i) (\<lambda>x. if srv_id x = sid then cret (int i) else indexof_from sid n (i + 1))
      else cret (- 1))"
  by pat_completeness auto
termination
  by (relation "measure (\<lambda>(sid, n, i). n - i)") auto

definition indexof :: "u64 \<Rightarrow> (int, 'z) tcmd" where
  "indexof sid = cbind (cget server_count) (\<lambda>n. indexof_from sid (unat n) 0)"

text \<open>The loop that moves the later servers one place forward.\<close>

function shift_down :: "nat \<Rightarrow> nat \<Rightarrow> (unit, 'z) tcmd" where
  "shift_down n i =
     (if i + 1 < n then
        cseq (cbind (read_slot (i + 1)) (\<lambda>x. write_slot (int i) x)) (shift_down n (i + 1))
      else cskip)"
  by pat_completeness auto
termination
  by (relation "measure (\<lambda>(n, i). n - i)") auto

definition remove_server :: "u64 \<Rightarrow> (unit, 'z) tcmd" where
  "remove_server sid =
     cseq mutex_lock
     (cbind (indexof sid) (\<lambda>idx.
      if idx < 0 then mutex_unlock
      else cblock
        [cbind (cget server_count) (\<lambda>n. shift_down (unat n) (nat idx)),
         cmodify (\<lambda>s. s\<lparr>server_count := server_count s - 1\<rparr>),
         cbind (cget server_count) (\<lambda>n. resize_table (unat n)),
         mutex_unlock]))"

text \<open>
  The loop of \<^verbatim>\<open>for_each_server\<close> reads the count in every round; it is a 16-bit number, so
  65536 rounds are enough.
\<close>

definition for_each_body :: "(srv_ref \<Rightarrow> (unit, 'z) tcmd) \<Rightarrow> nat \<Rightarrow> (nat + unit, 'z) tcmd" where
  "for_each_body apply_fn i =
     cbind (cget (\<lambda>s. (server_count s, table_gen s))) (\<lambda>(n, g).
     if i < unat n then cseq (apply_fn (Slot g i)) (cret (Inl (i + 1))) else cret (Inr ()))"

definition for_each_server :: "(srv_ref \<Rightarrow> (unit, 'z) tcmd) \<Rightarrow> (unit, 'z) tcmd" where
  "for_each_server apply_fn =
     cseq mutex_lock (cseq (cloop 65537 (for_each_body apply_fn) 0) mutex_unlock)"

text \<open>The first index from \<open>i\<close> on whose server satisfies \<open>p\<close>: the loop of both lookups.\<close>

function find_from :: "(file_server \<Rightarrow> bool) \<Rightarrow> nat \<Rightarrow> nat \<Rightarrow> (srv_ref, 'z) tcmd" where
  "find_from p n i =
     (if i < n then
        cbind (read_slot i) (\<lambda>x.
        if p x then cseq mutex_unlock (cbind (cget table_gen) (\<lambda>g. cret (Slot g i)))
        else find_from p n (i + 1))
      else cseq mutex_unlock (cret NoServer))"
  by pat_completeness auto
termination
  by (relation "measure (\<lambda>(p, n, i). n - i)") auto

definition getfs_id :: "u64 \<Rightarrow> (srv_ref, 'z) tcmd" where
  "getfs_id sid =
     cseq mutex_lock (cbind (cget server_count) (\<lambda>n. find_from (\<lambda>x. srv_id x = sid) (unat n) 0))"

definition getfs_pred :: "(file_server \<Rightarrow> bool) \<Rightarrow> (srv_ref, 'z) tcmd" where
  "getfs_pred pred =
     cseq mutex_lock (cbind (cget server_count) (\<lambda>n. find_from pred (unat n) 0))"

text \<open>The index is compared with the count before the mutex is taken.\<close>

definition getfs_index :: "nat \<Rightarrow> (srv_ref, 'z) tcmd" where
  "getfs_index index =
     cbind (cget server_count) (\<lambda>n.
     if unat n \<le> index then cret NoServer
     else cseq mutex_lock
       (cbind (cget table_gen) (\<lambda>g. cseq mutex_unlock (cret (Slot g index)))))"

definition table_count :: "(u16, 'z) tcmd" where
  "table_count = cget server_count"

declare indexof_from.simps [simp del] shift_down.simps [simp del] find_from.simps [simp del]

section \<open>Laws of the state\<close>

lemma wp_mutex_lock [wp_simps]:
  "wp mutex_lock Q s = (\<not> mutex_held s \<and> Q () (s\<lparr>mutex_held := True\<rparr>))"
  by (simp add: wp_def mutex_lock_def)

lemma wp_mutex_unlock [wp_simps]: "wp mutex_unlock Q s = Q () (s\<lparr>mutex_held := False\<rparr>)"
  by (simp add: mutex_unlock_def wp_simps)

lemma wp_resize_table [wp_simps]:
  "wp (resize_table n) Q s = Q () (s\<lparr>server_table :=
       take n (server_table s) @ replicate (n - length (server_table s)) None,
     table_gen := Suc (table_gen s)\<rparr>)"
  by (simp add: resize_table_def wp_simps)

lemma wp_write_slot [wp_simps]:
  "wp (write_slot i x) Q s =
     (0 \<le> i \<and> nat i < length (server_table s) \<and>
      Q () (s\<lparr>server_table := (server_table s)[nat i := Some x]\<rparr>))"
  by (auto simp: wp_def write_slot_def)

lemma wp_read_slot [wp_simps]:
  "wp (read_slot i) Q s =
     (i < length (server_table s) \<and>
      (case server_table s ! i of None \<Rightarrow> False | Some x \<Rightarrow> Q x s))"
  by (auto simp: wp_def read_slot_def split: option.split)

lemma wp_deref [wp_simps]:
  "wp (deref r) Q s =
     (case r of NoServer \<Rightarrow> False
      | Slot g i \<Rightarrow> g = table_gen s \<and> wp (read_slot i) Q s)"
  by (cases r) (auto simp: wp_def split: sum.split)

section \<open>The table as a list\<close>

text \<open>
  Between operations the mutex is free, the array has exactly \<^verbatim>\<open>server_count\<close> cells and
  all are written; the table then stands for the list of its servers.
\<close>

definition servers :: "'z tables_scheme \<Rightarrow> file_server list" where
  "servers s = map the (server_table s)"

definition table_ok :: "'z tables_scheme \<Rightarrow> bool" where
  "table_ok s \<longleftrightarrow> \<not> mutex_held s \<and> length (server_table s) = unat (server_count s) \<and>
     None \<notin> set (server_table s)"

definition set_servers :: "file_server list \<Rightarrow> 'z tables_scheme \<Rightarrow> 'z tables_scheme" where
  "set_servers xs s = s\<lparr>server_table := map Some xs, server_count := of_nat (length xs),
     table_gen := Suc (table_gen s)\<rparr>"

lemma table_ok_cells: "table_ok s \<Longrightarrow> server_table s = map Some (servers s)"
  by (auto simp: table_ok_def servers_def intro!: nth_equalityI) (metis nth_mem option.exhaust_sel)

lemma table_ok_count:
  assumes "table_ok s"
  shows "unat (server_count s) = length (servers s)" "server_count s = of_nat (length (servers s))"
    "length (servers s) < 65536"
proof -
  show c: "unat (server_count s) = length (servers s)"
    using assms by (simp add: table_ok_def servers_def)
  show "server_count s = of_nat (length (servers s))" by (simp add: c [symmetric])
  have "unat (server_count s) < 2 ^ LENGTH(16)" by (rule unsigned_less)
  then show "length (servers s) < 65536" using c by simp
qed

lemma servers_set_servers [simp]: "servers (set_servers xs s) = xs"
  by (simp add: servers_def set_servers_def comp_def)

lemma table_ok_set_servers:
  "length xs < 65536 \<Longrightarrow> \<not> mutex_held s \<Longrightarrow> table_ok (set_servers xs s)"
  by (auto simp: table_ok_def set_servers_def unsigned_of_nat take_bit_nat_eq_self)

lemma same_mem_set_servers [simp]: "same_mem s (set_servers xs s)"
  by (simp add: same_mem_def set_servers_def)

text \<open>The table does not live in the memory of the blocks.\<close>

lemma tables_fields_blocks [simp]:
  "server_table (add_block k s) = server_table s" "server_count (add_block k s) = server_count s"
  "table_gen (add_block k s) = table_gen s" "mutex_held (add_block k s) = mutex_held s"
  "server_table (set_block b k s) = server_table s" "server_count (set_block b k s) = server_count s"
  "table_gen (set_block b k s) = table_gen s" "mutex_held (set_block b k s) = mutex_held s"
  "server_table (del_block b s) = server_table s" "server_count (del_block b s) = server_count s"
  "table_gen (del_block b s) = table_gen s" "mutex_held (del_block b s) = mutex_held s"
  by (simp_all add: add_block_def set_block_def del_block_def)

lemma tables_more:
  assumes "logst.more t = logst.more s"
  shows "server_table t = server_table s" "server_count t = server_count s"
    "table_gen t = table_gen s" "mutex_held t = mutex_held s" "tables.more t = tables.more s"
  using assms by (cases s, cases t, simp)+

lemma table_ok_more:
  assumes "logst.more t = logst.more s"
  shows "table_ok t = table_ok s \<and> servers t = servers s"
  by (simp add: table_ok_def servers_def tables_more(1,2,4) [OF assms])

lemma table_ok_io:
  assumes "io_mem s t"
  shows "table_ok t = table_ok s \<and> servers t = servers s"
proof -
  have "os.more t = os.more s" using assms by (simp add: io_mem_def)
  then show ?thesis by (rule table_ok_more [OF logst_more(2)])
qed

lemma table_ok_grows: "grows s t \<Longrightarrow> table_ok t = table_ok s \<and> servers t = servers s"
  by (rule table_ok_io [OF grows_io_mem])

text \<open>Adding: one more cell, filled with the server.\<close>

lemma add_server_run:
  assumes ok: "table_ok s" and room: "length (servers s) < 65535"
  shows "add_server x s = Inr ((), set_servers (servers s @ [x]) s)"
proof -
  let ?xs = "servers s"
  have t: "server_table s = map Some ?xs" by (rule table_ok_cells [OF ok])
  have c: "server_count s = of_nat (length ?xs)" by (rule table_ok_count(2) [OF ok])
  define w where "w = server_count s + 1"
  have w: "w = of_nat (Suc (length ?xs))" by (simp add: w_def c)
  have u: "unat w = Suc (length ?xs)"
    using room unfolding w by (simp only: unsigned_of_nat) (simp add: take_bit_nat_eq_self)
  have i: "int (unat w) - 1 = int (length ?xs)" by (simp only: u of_nat_Suc add_diff_cancel_left')
  have held: "\<not> mutex_held s" using ok by (simp add: table_ok_def)
  have s: "s\<lparr>mutex_held := False\<rparr> = s" using held by simp
  show ?thesis
    unfolding runs_wp add_server_def set_servers_def
    by (simp add: wp_simps t held list_update_append u i flip: w_def del: of_nat_unat)
      (simp add: w held)
qed

text \<open>
  At 65535 servers the 16-bit count wraps around to 0: the array is freed and the write
  goes through a null pointer.
\<close>

lemma add_server_full:
  assumes ok: "table_ok s" and full: "length (servers s) = 65535"
  shows "add_server x s = Inl NullDeref"
proof -
  have c: "server_count s + 1 = 0"
    using table_ok_count(2) [OF ok] full by simp
  have held: "\<not> mutex_held s" using ok by (simp add: table_ok_def)
  show ?thesis
    using c held by (simp add: add_server_def cblock.simps cseq_def cbind_def mutex_lock_def cmodify_def
        cget_def resize_table_def write_slot_def)
qed

lemma shift_down_wp:
  "i < length xs \<Longrightarrow> server_table s = map Some xs \<Longrightarrow>
   wp (shift_down (length xs) i) Q s =
     Q () (s\<lparr>server_table := map Some (remove_nth i xs @ [last xs])\<rparr>)"
proof (induction "length xs" i arbitrary: xs s rule: shift_down.induct)
  case (1 i xs s)
  show ?case
  proof (cases "i + 1 < length xs")
    case False
    then have l: "length xs = Suc i" using "1.prems"(1) by simp
    then have "remove_nth i xs @ [last xs] = xs"
      by (cases xs rule: rev_cases) (simp_all add: remove_nth_def)
    moreover have "s\<lparr>server_table := map Some xs\<rparr> = s" by (simp flip: "1.prems"(2))
    ultimately show ?thesis
      using False by (simp add: shift_down.simps [of _ i] wp_simps)
  next
    case True
    let ?ys = "xs[i := xs ! Suc i]"
    have "take (Suc i) ?ys = take i xs @ [xs ! Suc i]"
      using True by (simp add: take_Suc_conv_app_nth)
    moreover have "drop (Suc i) xs = xs ! Suc i # drop (Suc (Suc i)) xs"
      using True by (simp add: Cons_nth_drop_Suc)
    moreover have "last ?ys = last xs" using True by (subst last_list_update) auto
    ultimately have same: "remove_nth (Suc i) ?ys @ [last ?ys] = remove_nth i xs @ [last xs]"
      by (simp add: remove_nth_def)
    let ?s = "s\<lparr>server_table := map Some ?ys\<rparr>"
    have "wp (shift_down (length ?ys) (i + 1)) Q ?s =
        Q () (?s\<lparr>server_table := map Some (remove_nth (i + 1) ?ys @ [last ?ys])\<rparr>)"
      by (rule "1.hyps") (use True in simp_all)
    then have ih: "wp (shift_down (length xs) (Suc i)) Q ?s =
        Q () (s\<lparr>server_table := map Some (remove_nth i xs @ [last xs])\<rparr>)"
      unfolding same [symmetric] by simp
    have "wp (shift_down (length xs) i) Q s = wp (shift_down (length xs) (Suc i)) Q
        (s\<lparr>server_table := map Some ?ys\<rparr>)"
      using True "1.prems"(2) by (simp add: shift_down.simps [of "length xs" i] wp_simps map_update)
    then show ?thesis unfolding ih .
  qed
qed

lemma indexof_from_wp:
  "server_table s = map Some xs \<Longrightarrow>
   wp (indexof_from sid (length xs) i) Q s =
     Q (case first_idx (\<lambda>x. srv_id x = sid) (drop i xs) of None \<Rightarrow> - 1 | Some j \<Rightarrow> int (i + j)) s"
proof (induction sid "length xs" i rule: indexof_from.induct)
  case (1 sid i)
  show ?case
  proof (cases "i < length xs")
    case False
    then show ?thesis by (subst indexof_from.simps) (simp add: wp_simps)
  next
    case True
    then have d: "drop i xs = xs ! i # drop (Suc i) xs" by (simp add: Cons_nth_drop_Suc)
    show ?thesis
      using True "1.hyps" [OF True] "1.prems"
      by (subst indexof_from.simps) (auto simp: wp_simps d ac_simps split: option.split)
  qed
qed

lemma find_from_wp:
  "server_table s = map Some xs \<Longrightarrow>
   wp (find_from p (length xs) i) Q s =
     Q (case first_idx p (drop i xs) of None \<Rightarrow> NoServer | Some j \<Rightarrow> Slot (table_gen s) (i + j))
       (s\<lparr>mutex_held := False\<rparr>)"
proof (induction p "length xs" i rule: find_from.induct)
  case (1 p i)
  show ?case
  proof (cases "i < length xs")
    case False
    then show ?thesis by (subst find_from.simps) (simp add: wp_simps)
  next
    case True
    then have d: "drop i xs = xs ! i # drop (Suc i) xs" by (simp add: Cons_nth_drop_Suc)
    show ?thesis
      using True "1.hyps" [OF True] "1.prems"
      by (subst find_from.simps) (auto simp: wp_simps d ac_simps split: option.split)
  qed
qed

text \<open>Removing: the first server with the identifier goes, the others keep their order.\<close>

definition remove_id :: "u64 \<Rightarrow> file_server list \<Rightarrow> file_server list" where
  "remove_id sid xs =
     (case first_idx (\<lambda>x. srv_id x = sid) xs of None \<Rightarrow> xs | Some i \<Rightarrow> remove_nth i xs)"

lemma free_mutex: "table_ok s \<Longrightarrow> s\<lparr>mutex_held := False\<rparr> = s"
  by (simp add: table_ok_def)

lemma remove_server_run:
  assumes ok: "table_ok s"
  shows "remove_server sid s = Inr ((),
    if \<exists>x \<in> set (servers s). srv_id x = sid then set_servers (remove_id sid (servers s)) s else s)"
proof -
  let ?xs = "servers s"
  have t: "server_table s = map Some ?xs" by (rule table_ok_cells [OF ok])
  have u: "unat (server_count s) = length ?xs" by (rule table_ok_count(1) [OF ok])
  have c: "server_count s = of_nat (length ?xs)" by (rule table_ok_count(2) [OF ok])
  have held: "\<not> mutex_held s" using ok by (simp add: table_ok_def)
  let ?l = "s\<lparr>mutex_held := True\<rparr>"
  have find: "wp (indexof sid) Q ?l =
      Q (case first_idx (\<lambda>x. srv_id x = sid) ?xs of None \<Rightarrow> - 1 | Some j \<Rightarrow> int j) ?l" for Q
    using indexof_from_wp [of ?l ?xs sid 0] t
    by (simp add: indexof_def wp_simps u cong: option.case_cong)
  show ?thesis
  proof (cases "first_idx (\<lambda>x. srv_id x = sid) ?xs")
    case None
    then have "\<not> (\<exists>x \<in> set ?xs. srv_id x = sid)" by (simp add: first_idx_None)
    with None show ?thesis
      unfolding runs_wp remove_server_def
      by (simp add: wp_cseq wp_mutex_lock wp_cbind find held wp_simps free_mutex [OF ok])
  next
    case (Some i)
    have i: "i < length ?xs" "srv_id (?xs ! i) = sid" using first_idx_Some [OF Some] by auto
    have ex: "\<exists>x \<in> set ?xs. srv_id x = sid" using i nth_mem by blast
    define w where "w = server_count s - 1"
    have w: "w = of_nat (length ?xs - 1)" using i by (simp add: w_def c of_nat_diff)
    have uw: "unat w = length ?xs - 1"
      using table_ok_count(3) [OF ok] unfolding w
      by (simp only: unsigned_of_nat) (simp add: take_bit_nat_eq_self)
    have n: "0 < length ?xs" using i by auto
    have shift: "wp (shift_down (length ?xs) i) Q ?l =
        Q () (?l\<lparr>server_table := map Some (remove_nth i ?xs @ [last ?xs])\<rparr>)" for Q
      by (rule shift_down_wp) (use i t in simp_all)
    show ?thesis
      unfolding runs_wp remove_server_def
      using n i(1) ex
      by (simp add: wp_cseq wp_mutex_lock wp_cbind find held wp_simps Some u shift
          uw remove_id_def set_servers_def flip: w_def)
        (simp add: w held)
  qed
qed

lemma table_ok_remove:
  assumes "table_ok s" and "remove_server sid s = Inr ((), t)"
  shows "table_ok t \<and> servers t = remove_id sid (servers s)"
proof -
  have "length (remove_id sid (servers s)) \<le> length (servers s)"
    by (auto simp: remove_id_def remove_nth_def split: option.split)
  then have "length (remove_id sid (servers s)) < 65536"
    using table_ok_count(3) [OF assms(1)] by simp
  then have set: "table_ok (set_servers (remove_id sid (servers s)) s)"
    using assms(1) by (intro table_ok_set_servers) (simp_all add: table_ok_def)
  have "remove_id sid (servers s) = servers s" if "\<not> (\<exists>x \<in> set (servers s). srv_id x = sid)"
    using that by (simp add: remove_id_def first_idx_None [THEN iffD2])
  then show ?thesis
    using assms set by (auto simp: remove_server_run split: if_splits)
qed

text \<open>The lookups.\<close>

definition ref_of :: "nat option \<Rightarrow> 'z tables_scheme \<Rightarrow> srv_ref" where
  "ref_of r s = (case r of None \<Rightarrow> NoServer | Some i \<Rightarrow> Slot (table_gen s) i)"

lemma find_run:
  assumes ok: "table_ok s"
  shows "cseq mutex_lock (cbind (cget server_count) (\<lambda>n. find_from p (unat n) 0)) s =
    Inr (ref_of (first_idx p (servers s)) s, s)"
proof -
  have t: "server_table s = map Some (servers s)" by (rule table_ok_cells [OF ok])
  have held: "\<not> mutex_held s" using ok by (simp add: table_ok_def)
  show ?thesis
    unfolding runs_wp
    using find_from_wp [of "s\<lparr>mutex_held := True\<rparr>" "servers s" p 0] t
    by (simp add: wp_simps table_ok_count(1) [OF ok] held free_mutex [OF ok] ref_of_def
        cong: option.case_cong)
qed

lemma getfs_id_run:
  "table_ok s \<Longrightarrow> getfs_id sid s = Inr (ref_of (first_idx (\<lambda>x. srv_id x = sid) (servers s)) s, s)"
  unfolding getfs_id_def by (rule find_run)

lemma getfs_pred_run:
  "table_ok s \<Longrightarrow> getfs_pred p s = Inr (ref_of (first_idx p (servers s)) s, s)"
  unfolding getfs_pred_def by (rule find_run)

lemma getfs_index_run:
  assumes ok: "table_ok s"
  shows "getfs_index i s = Inr (ref_of (if i < length (servers s) then Some i else None) s, s)"
proof -
  have held: "\<not> mutex_held s" using ok by (simp add: table_ok_def)
  show ?thesis
    unfolding runs_wp
    by (auto simp: getfs_index_def wp_simps table_ok_count(1) [OF ok] held free_mutex [OF ok]
        ref_of_def)
qed

lemma table_count_run: "table_ok s \<Longrightarrow> table_count s = Inr (of_nat (length (servers s)), s)"
  by (simp add: table_count_def cget_def table_ok_count(2))

lemma deref_run:
  assumes "table_ok s" and "i < length (servers s)"
  shows "deref (Slot (table_gen s) i) s = Inr (servers s ! i, s)"
proof -
  have "server_table s = map Some (servers s)" by (rule table_ok_cells [OF assms(1)])
  then show ?thesis using assms(2) by (auto simp: read_slot_def)
qed

section \<open>Visiting every server\<close>

lemma for_each_then:
  assumes ok: "table_ok s"
    and start: "J 0 (s\<lparr>mutex_held := True\<rparr>)"
    and step: "\<And>i u. \<lbrakk>i < length (servers s); J i u; server_count u = server_count s;
        table_gen u = table_gen s\<rbrakk> \<Longrightarrow>
      wp (apply_fn (Slot (table_gen s) i))
        (\<lambda>_ v. J (Suc i) v \<and> server_count v = server_count s \<and> table_gen v = table_gen s) u"
    and Q: "\<And>u. J (length (servers s)) u \<Longrightarrow> Q () (u\<lparr>mutex_held := False\<rparr>)"
  shows "wp (for_each_server apply_fn) Q s"
proof -
  let ?n = "length (servers s)"
  have held: "\<not> mutex_held s" using ok by (simp add: table_ok_def)
  have n: "unat (server_count s) = ?n" by (rule table_ok_count(1) [OF ok])
  have le: "?n < 65536" by (rule table_ok_count(3) [OF ok])
  let ?I = "\<lambda>i u. i \<le> ?n \<and> J i u \<and> server_count u = server_count s \<and> table_gen u = table_gen s"
  have "wp (cloop 65537 (for_each_body apply_fn) 0) (\<lambda>_. wp mutex_unlock Q) (s\<lparr>mutex_held := True\<rparr>)"
  proof (rule wp_cloop [where I = ?I and \<mu> = "\<lambda>i. ?n - i"])
    show "?I 0 (s\<lparr>mutex_held := True\<rparr>)" using start by simp
    show "?n - 0 < 65537" using le by simp
    fix i u assume I: "?I i u"
    show "wp (for_each_body apply_fn i) (\<lambda>r t. case r of Inl x \<Rightarrow> ?I x t \<and> ?n - x < ?n - i
        | Inr y \<Rightarrow> wp mutex_unlock Q t) u"
    proof (cases "i < ?n")
      case True
      have "wp (apply_fn (Slot (table_gen s) i)) (\<lambda>_ t. ?I (Suc i) t \<and> ?n - Suc i < ?n - i) u"
        by (rule wp_mono [OF step [OF True]]) (use True I in auto)
      with True I show ?thesis by (simp add: for_each_body_def wp_cbind wp_cget wp_cseq n)
          (erule wp_mono, simp add: wp_cret)
    next
      case False
      with I have "i = ?n" by simp
      with I False Q show ?thesis by (simp add: for_each_body_def wp_simps n)
    qed
  qed
  then show ?thesis by (simp add: for_each_server_def wp_cseq wp_mutex_lock held)
qed

lemma for_each_first_fault:
  assumes ok: "table_ok s" and ne: "servers s \<noteq> []"
    and fault: "apply_fn (Slot (table_gen s) 0) (s\<lparr>mutex_held := True\<rparr>) = Inl e"
  shows "for_each_server apply_fn s = Inl e"
proof -
  have "0 < unat (server_count s)" using table_ok_count(1) [OF ok] ne by simp
  then have "for_each_body apply_fn 0 (s\<lparr>mutex_held := True\<rparr>) = Inl e"
    using fault by (simp add: for_each_body_def cseq_def cbind_def cget_def)
  then have "cloop (Suc 65536) (for_each_body apply_fn) 0 (s\<lparr>mutex_held := True\<rparr>) = Inl e"
    unfolding cloop.simps by (simp add: cbind_def)
  then have "cloop 65537 (for_each_body apply_fn) 0 (s\<lparr>mutex_held := True\<rparr>) = Inl e" by simp
  moreover have "\<not> mutex_held s" using ok by (simp add: table_ok_def)
  ultimately show ?thesis
    by (simp add: for_each_server_def cseq_def cbind_def mutex_lock_def)
qed

section \<open>The interface of the table\<close>

text \<open>
  What the master relies on: the registry is a list, adding appends, removing takes the
  first server with the identifier away, looking an identifier up gives a reference to
  the first server that has it. The consequences for a registry with distinct identifiers
  are proved once from these laws.
\<close>

locale server_registry =
  fixes ok :: "'s \<Rightarrow> bool"
    and content :: "'s \<Rightarrow> file_server list"
    and capacity :: nat
    and add :: "file_server \<Rightarrow> (unit, 's) cmd"
    and remove :: "u64 \<Rightarrow> (unit, 's) cmd"
    and lookup :: "u64 \<Rightarrow> ('r, 's) cmd"
    and get :: "'r \<Rightarrow> (file_server, 's) cmd"
    and missing :: 'r
  assumes add_law: "ok s \<Longrightarrow> length (content s) < capacity \<Longrightarrow>
      wp (add x) (\<lambda>_ t. ok t \<and> content t = content s @ [x]) s"
    and remove_law: "ok s \<Longrightarrow>
      wp (remove i) (\<lambda>_ t. ok t \<and> content t = remove_id i (content s)) s"
    and lookup_law: "ok s \<Longrightarrow> find (\<lambda>x. srv_id x = i) (content s) = Some x \<Longrightarrow>
      wp (lookup i) (\<lambda>r t. t = s \<and> wp (get r) (\<lambda>y u. u = s \<and> y = x) s) s"
    and missing_law: "ok s \<Longrightarrow> find (\<lambda>x. srv_id x = i) (content s) = None \<Longrightarrow>
      wp (lookup i) (\<lambda>r t. t = s \<and> r = missing) s"
begin

definition ids :: "'s \<Rightarrow> u64 list" where
  "ids s = map srv_id (content s)"

lemma ids_remove_id: "map srv_id (remove_id i xs) = remove1 i (map srv_id xs)"
proof (induction xs)
  case Nil
  then show ?case by (simp add: remove_id_def)
next
  case (Cons x xs)
  then show ?case
    by (auto simp: remove_id_def remove_nth_def split: option.splits)
qed

lemma distinct_add:
  assumes "ok s" "length (content s) < capacity" "distinct (ids s)" "srv_id x \<notin> set (ids s)"
  shows "wp (add x) (\<lambda>_ t. ok t \<and> distinct (ids t)) s"
  by (rule wp_mono [OF add_law]) (use assms in \<open>auto simp: ids_def\<close>)

lemma distinct_remove:
  assumes "ok s" "distinct (ids s)"
  shows "wp (remove i) (\<lambda>_ t. ok t \<and> distinct (ids t) \<and> ids t = remove1 i (ids s)) s"
  by (rule wp_mono [OF remove_law])
    (use assms in \<open>auto simp: ids_def ids_remove_id distinct_remove1\<close>)

lemma find_ids_None: "find (\<lambda>x. srv_id x = i) xs = None \<longleftrightarrow> i \<notin> set (map srv_id xs)"
  by (auto simp: find_None_iff)

lemma added_found:
  assumes "ok s" "length (content s) < capacity" "srv_id x \<notin> set (ids s)"
  shows "wp (cseq (add x) (cbind (lookup (srv_id x)) get)) (\<lambda>y t. y = x \<and> ok t) s"
  unfolding wp_cseq
proof (rule wp_mono [OF add_law [OF assms(1,2)]], elim conjE)
  fix u t assume t: "ok t" "content t = content s @ [x]"
  have "find (\<lambda>y. srv_id y = srv_id x) (content t) = Some x"
    using assms(3) find_ids_None [of "srv_id x" "content s"]
    by (simp add: t ids_def find_append)
  from lookup_law [OF t(1) this]
  show "wp (cbind (lookup (srv_id x)) get) (\<lambda>y t. y = x \<and> ok t) t"
    unfolding wp_cbind by (rule wp_mono) (auto elim!: wp_mono simp: t)
qed

lemma removed_missing:
  assumes "ok s" "distinct (ids s)"
  shows "wp (cseq (remove i) (lookup i)) (\<lambda>r t. r = missing \<and> ok t) s"
  unfolding wp_cseq
proof (rule wp_mono [OF distinct_remove [OF assms]], elim conjE)
  fix u t assume t: "ok t" "ids t = remove1 i (ids s)"
  have "find (\<lambda>y. srv_id y = i) (content t) = None"
    unfolding find_ids_None using t(2) assms(2) by (simp add: ids_def)
  from missing_law [OF t(1) this] show "wp (lookup i) (\<lambda>r t. r = missing \<and> ok t) t"
    by (rule wp_mono) (simp add: t)
qed

end

text \<open>The master's table provides the interface.\<close>

lemma find_ref:
  assumes "table_ok s"
  shows "find p (servers s) = Some x \<Longrightarrow>
      wp (deref (ref_of (first_idx p (servers s)) s)) (\<lambda>y u. u = s \<and> y = x) s"
    and "find p (servers s) = None \<Longrightarrow> ref_of (first_idx p (servers s)) s = NoServer"
proof -
  assume f: "find p (servers s) = Some x"
  then obtain i where i: "first_idx p (servers s) = Some i" "servers s ! i = x"
    using first_idx_find [of "servers s" p] by (auto simp: map_option_eq_Some)
  have "i < length (servers s)" using first_idx_Some [OF i(1)] by simp
  then show "wp (deref (ref_of (first_idx p (servers s)) s)) (\<lambda>y u. u = s \<and> y = x) s"
    using deref_run [OF assms] i by (simp add: ref_of_def wp_eq)
next
  assume "find p (servers s) = None"
  then show "ref_of (first_idx p (servers s)) s = NoServer"
    using first_idx_find [of "servers s" p] by (simp add: ref_of_def)
qed

interpretation st: server_registry table_ok servers 65535 add_server remove_server getfs_id deref
  NoServer
proof unfold_locales
  fix s :: "'a tables_scheme" and x i
  assume ok: "table_ok s"
  show "wp (remove_server i) (\<lambda>_ t. table_ok t \<and> servers t = remove_id i (servers s)) s"
    using remove_server_run [OF ok, of i] table_ok_remove [OF ok, of i] by (simp add: wp_def)
  show "length (servers s) < 65535 \<Longrightarrow>
      wp (add_server x) (\<lambda>_ t. table_ok t \<and> servers t = servers s @ [x]) s"
    using add_server_run [OF ok, of x] ok table_ok_set_servers [of "servers s @ [x]" s]
    by (simp add: wp_eq table_ok_def [of s])
next
  fix s :: "'a tables_scheme" and x i
  assume ok: "table_ok s"
  show "find (\<lambda>x. srv_id x = i) (servers s) = Some x \<Longrightarrow>
      wp (getfs_id i) (\<lambda>r t. t = s \<and> wp (deref r) (\<lambda>y u. u = s \<and> y = x) s) s"
    using getfs_id_run [OF ok, of i] find_ref(1) [OF ok] by (simp add: wp_eq)
  show "find (\<lambda>x. srv_id x = i) (servers s) = None \<Longrightarrow>
      wp (getfs_id i) (\<lambda>r t. t = s \<and> r = NoServer) s"
    using getfs_id_run [OF ok, of i] find_ref(2) [OF ok] by (simp add: wp_eq)
qed

section \<open>Properties\<close>

definition server_ids :: "'z tables_scheme \<Rightarrow> u64 list" where
  "server_ids s = map srv_id (servers s)"

lemma st_ids: "st.ids s = server_ids s"
  by (simp add: st.ids_def server_ids_def)

definition sample_server :: "u64 \<Rightarrow> file_server" where
  "sample_server i = \<lparr>srv_id = i, srv_size = 0, ip = Null, port = 55443\<rparr>"

definition sample_tables :: "file_server list \<Rightarrow> tables" where
  "sample_tables xs = \<lparr>blocks = (\<lambda>_. None), next_id = 0,
     junk = (\<lambda>_ _. CHR ''j''), spare = (\<lambda>_. 0), room = (\<lambda>_. 0),
     fds = [], net = [], trace = [], log_msg = Null,
     server_table = map Some xs, server_count = of_nat (length xs), table_gen = 0,
     mutex_held = False\<rparr>"

lemma sample_tables_ok: "length xs < 65536 \<Longrightarrow> table_ok (sample_tables xs)"
  by (auto simp: table_ok_def sample_tables_def unsigned_of_nat take_bit_nat_eq_self)

lemma servers_sample [simp]: "servers (sample_tables xs) = xs"
  by (simp add: servers_def sample_tables_def comp_def)

text \<open>
  A server that was added is found under its identifier, if no other server had it
  and the table was not full.
\<close>

theorem add_then_getfs_id:
  assumes "table_ok s" and "length (servers s) < 65535" and "srv_id x \<notin> set (server_ids s)"
  shows "wp (cseq (add_server x) (cbind (getfs_id (srv_id x)) deref)) (\<lambda>y t. y = x \<and> table_ok t) s"
  using assms unfolding st_ids [symmetric] by (rule st.added_found)

theorem add_then_getfs_id_witness:
  "wp (cseq (add_server (sample_server 7)) (cbind (getfs_id 7) deref))
     (\<lambda>y t. y = sample_server 7 \<and> table_ok t) (sample_tables [sample_server 3])"
  using add_then_getfs_id [OF sample_tables_ok, of "[sample_server 3]" "sample_server 7"]
  by (simp add: server_ids_def sample_server_def)

text \<open>
  A server that was removed is not found any more, in a table with distinct
  identifiers; the other identifiers stay, in order.
\<close>

theorem remove_then_getfs_id:
  assumes "table_ok s" and "distinct (server_ids s)"
  shows "wp (cseq (remove_server i) (getfs_id i)) (\<lambda>r t. r = NoServer \<and> table_ok t) s \<and>
    wp (remove_server i)
      (\<lambda>_ t. table_ok t \<and> distinct (server_ids t) \<and> server_ids t = remove1 i (server_ids s)) s"
  using st.removed_missing [OF assms(1)] st.distinct_remove [OF assms(1)] assms(2)
  by (simp add: st_ids)

theorem remove_then_getfs_id_witness:
  "wp (remove_server 7) (\<lambda>_ t. server_ids t = [3, 9])
     (sample_tables (map sample_server [3, 7, 9]))"
  by (rule wp_mono [OF remove_then_getfs_id [OF sample_tables_ok, THEN conjunct2]])
    (simp_all add: server_ids_def sample_server_def)

text \<open>A sequence of additions and removals, and what it does to the list of servers.\<close>

datatype table_op = Add file_server | Remove u64

primrec run_op :: "table_op \<Rightarrow> (unit, 'z) tcmd" where
  "run_op (Add x) = add_server x"
| "run_op (Remove i) = remove_server i"

primrec abs_op :: "table_op \<Rightarrow> file_server list \<Rightarrow> file_server list" where
  "abs_op (Add x) = (\<lambda>xs. xs @ [x])"
| "abs_op (Remove i) = remove_id i"

lemma run_op_sim:
  assumes "table_ok s" and "length (servers s) < 65535"
  shows "wp (run_op a) (\<lambda>_ t. table_ok t \<and> servers t = abs_op a (servers s)) s"
  using st.add_law [OF assms] st.remove_law [OF assms(1)] by (cases a) simp_all

lemma length_abs_op: "length (abs_op a xs) \<le> Suc (length xs)"
  by (cases a) (auto simp: remove_id_def remove_nth_def split: option.split)

text \<open>
  C10. The table refines a list: after any sequence of additions and removals that leaves
  room for its additions, the table is well formed, its servers are what the sequence makes
  of the list, and a lookup by identifier, by index or by predicate answers from that list.
\<close>

theorem table_refines_list:
  assumes "table_ok s" and "length (servers s) + length ops \<le> 65535"
  shows "wp (cblock (map run_op ops)) (\<lambda>_ t. table_ok t \<and> servers t = fold abs_op ops (servers s) \<and>
      wp (getfs_index k) (\<lambda>r u. r = NoServer \<longleftrightarrow> length (servers t) \<le> k) t \<and>
      wp (getfs_pred p) (\<lambda>r u. r = NoServer \<longleftrightarrow> (\<forall>x \<in> set (servers t). \<not> p x)) t \<and>
      wp table_count (\<lambda>n u. unat n = length (servers t)) t) s"
  using assms
proof (induction ops arbitrary: s)
  case Nil
  have "ref_of (first_idx p (servers s)) s = NoServer \<longleftrightarrow> (\<forall>x \<in> set (servers s). \<not> p x)"
    by (auto simp: ref_of_def first_idx_None split: option.split dest!: first_idx_Some)
  then show ?case
    using Nil table_ok_count [OF Nil(1)]
    by (auto simp: wp_simps wp_eq [OF getfs_index_run] wp_eq [OF getfs_pred_run]
        wp_eq [OF table_count_run] ref_of_def)
next
  case (Cons a ops)
  then have room: "length (servers s) < 65535" by simp
  show ?case
    unfolding list.map wp_cblock_Cons
    by (rule wp_mono [OF run_op_sim [OF Cons.prems(1) room]], elim conjE)
      (use Cons.IH Cons.prems(2) length_abs_op [of a "servers s"] in fastforce)
qed

theorem table_refines_list_witness:
  "wp (cblock (map run_op [Add (sample_server 4), Remove 3]))
     (\<lambda>_ t. servers t = [sample_server 4]) (sample_tables [sample_server 3])"
  by (rule wp_mono [OF table_refines_list [OF sample_tables_ok, where k = 0 and p = "\<lambda>_. True"]])
    (auto simp add: remove_id_def remove_nth_def sample_server_def)

text \<open>
  A pointer that a lookup returned is dead once another server is added: the array
  has been reallocated under it.
\<close>

theorem getfs_id_stale:
  assumes "table_ok s" and "length (servers s) < 65535" and "i \<in> set (server_ids s)"
  shows "cbind (getfs_id i) (\<lambda>r. cseq (add_server x) (deref r)) s = Inl UseAfterFree"
proof -
  obtain j where "first_idx (\<lambda>x. srv_id x = i) (servers s) = Some j"
    using assms(3) by (cases "first_idx (\<lambda>x. srv_id x = i) (servers s)")
      (auto simp: first_idx_None server_ids_def)
  then show ?thesis
    using assms by (simp add: cbind_def cseq_def getfs_id_run add_server_run ref_of_def
        set_servers_def)
qed

theorem getfs_id_stale_witness:
  "cbind (getfs_id 3) (\<lambda>r. cseq (add_server (sample_server 4)) (deref r))
     (sample_tables [sample_server 3]) = Inl UseAfterFree"
  by (rule getfs_id_stale) (simp_all add: sample_tables_ok server_ids_def sample_server_def)

text \<open>
  C37. The count of servers is a 16-bit number: adding to a table of 65535 servers wraps
  it around to 0, frees the array and writes through a null pointer.
\<close>

theorem add_server_overflow:
  assumes "table_ok s" and "length (servers s) = 65535"
  shows "add_server x s = Inl NullDeref"
  using assms by (rule add_server_full)

theorem add_server_overflow_witness:
  "add_server (sample_server 1) (sample_tables (replicate 65535 (sample_server 0))) = Inl NullDeref"
  by (rule add_server_overflow) (simp_all add: sample_tables_ok)

text \<open>
  A visit of a table that is not empty whose callback starts by removing a server
  stops in a deadlock: \<^verbatim>\<open>for_each_server\<close> holds the mutex while it calls back.
\<close>

theorem for_each_remove_deadlocks:
  assumes "table_ok s" and "servers s \<noteq> []"
  shows "for_each_server (\<lambda>r. cbind (deref r) (\<lambda>x. remove_server (srv_id x))) s = Inl Deadlock"
proof (rule for_each_first_fault [OF assms])
  have "server_table s = map Some (servers s)" by (rule table_ok_cells [OF assms(1)])
  then show "cbind (deref (Slot (table_gen s) 0)) (\<lambda>x. remove_server (srv_id x))
      (s\<lparr>mutex_held := True\<rparr>) = Inl Deadlock"
    using assms(2) by (simp add: cbind_def cseq_def read_slot_def remove_server_def mutex_lock_def)
qed

theorem for_each_remove_deadlocks_witness:
  "for_each_server (\<lambda>r. cbind (deref r) (\<lambda>x. remove_server (srv_id x)))
     (sample_tables [sample_server 3]) = Inl Deadlock"
  by (rule for_each_remove_deadlocks) (simp_all add: sample_tables_ok)

end
