(* ===== verification/Worker_Admin.thy ===== *)
theory Worker_Admin
  imports Exchange Server_Table
begin

text \<open>
  \<^verbatim>\<open>src/balance.c\<close> and \<^verbatim>\<open>src/worker_admin.c\<close>: the part of the master that talks to the
  workers. What its thread does in a round is \<open>admin_round\<close>; the thread with its clock is in the
  theory Manager.
\<close>

section \<open>Balance\<close>

definition least_load :: "(srv_ref, 'z) tcmd" where
  "least_load = cbind table_count (\<lambda>n. if n = 0 then cret NoServer else getfs_index 0)"

section \<open>State and small operations\<close>

record admin = tables +
  update_time :: u32

type_synonym ('a, 'z) acmd = "('a, 'z admin_scheme) cmd"

definition WORKER_READ_LEN :: nat where "WORKER_READ_LEN = 5000"

definition set_admin_update_time :: "u32 \<Rightarrow> (unit, 'z) acmd" where
  "set_admin_update_time seconds = cmodify (\<lambda>s. s\<lparr>update_time := seconds\<rparr>)"

definition get_admin_update_time :: "(u32, 'z) acmd" where
  "get_admin_update_time = cget update_time"

definition add_worker :: "file_server \<Rightarrow> (unit, 'z) tcmd" where
  "add_worker worker = add_server worker"

definition worker_count :: "(u16, 'z) tcmd" where
  "worker_count = table_count"

text \<open>
  The verbose builds form a message in a new buffer of a fixed size, log it, and free the
  buffer; the others do nothing.
\<close>

definition say :: "build \<Rightarrow> nat \<Rightarrow> log_t \<Rightarrow> piece list \<Rightarrow> (unit, 'z) lcmd" where
  "say B n lt ps =
     cwhen (verbose B)
       (cbind (malloc n) (\<lambda>msg.
        cseq (sprintf msg ps)
        (cseq (logger lt COMP_MASTER (PStr msg)) (free msg))))"

definition say_text :: "build \<Rightarrow> log_t \<Rightarrow> string \<Rightarrow> (unit, 'z) lcmd" where
  "say_text B lt m = cwhen (verbose B) (cseq (logger lt COMP_MASTER (Txt m)) cskip)"

text \<open>
  Signal \<open>-9\<close> is no signal: \<^verbatim>\<open>pthread_kill\<close> answers \<^verbatim>\<open>EINVAL\<close> and the thread goes on.
\<close>

definition EINVAL :: int where "EINVAL = 22"

definition pthread_kill :: "int \<Rightarrow> int" where
  "pthread_kill sig = (if sig < 0 \<or> 64 < sig then EINVAL else 0)"

definition end_admin :: "build \<Rightarrow> (unit, 'z) lcmd" where
  "end_admin B = (if pthread_kill (- 9) \<noteq> 0 then say_text B ERROR ''Could not kill admin thread.'' else cskip)"

section \<open>Packets to workers\<close>

text \<open>A packet for a worker: \<^verbatim>\<open>p_init(0, arg, type)\<close> with the token of the master, encoded.\<close>

definition master_packet :: "build \<Rightarrow> ptr \<Rightarrow> ptype \<Rightarrow> (ptr, 'z) mcmd" where
  "master_packet B a t =
     cbind (p_init 0 a t) (\<lambda>p. p_encode (attach_token (MASTER_TKN B) p))"

definition handle_ping_response :: "build \<Rightarrow> conn \<Rightarrow> file_server \<Rightarrow> (unit, 'z) tcmd" where
  "handle_ping_response B worker worker_server =
     cbind (malloc (sizeof_packet + 10)) (\<lambda>buffer.
     cbind (conn_read B worker buffer (sizeof_packet + 10)) (\<lambda>n.
     cseq (cwhen (n \<le> 0)
       (cseq (remove_server (srv_id worker_server))
         (say B 50 WARNING [Txt ''Worker (file descriptor: '', PInt (fd worker), Txt '') has failed.''])))
     (cbind (p_decode buffer) (\<lambda>p.
      if msg_type p \<noteq> PING then
        cseq (remove_server (srv_id worker_server))
          (say B 100 MESSAGE [Txt ''Received response from worker (file descriptor: '',
            PInt (fd worker), Txt ''), but not from ping.''])
      else
        say B 50 MESSAGE [Txt ''Successful response from worker (file descriptor: '',
          PInt (fd worker), Txt '').'']))))"

definition ping_server :: "build \<Rightarrow> srv_ref \<Rightarrow> (unit, 'z) tcmd" where
  "ping_server B r =
     cbind (deref r) (\<lambda>server.
     cseq (say B 50 MESSAGE [Txt ''Ping to '', PInt (sint (ucast (srv_id server) :: u32)),
       Txt '' ('', PStr (ip server), Txt '':'', PInt (int (unat (port server))), Txt '').''])
     (cbind (client_init (ip server) (port server)) (\<lambda>worker.
      cbind (literal '''') (\<lambda>e.
      cbind (master_packet B e PING) (\<lambda>pk.
      cseq (conn_write B worker pk (sizeof_packet + 10))
        (handle_ping_response B worker server))))))"

text \<open>One round of the manager thread.\<close>

definition admin_round :: "build \<Rightarrow> (unit, 'z) tcmd" where
  "admin_round B = for_each_server (ping_server B)"

section \<open>Requests of clients\<close>

definition worker_ls_index :: "build \<Rightarrow> nat \<Rightarrow> (ptr, 'z) tcmd" where
  "worker_ls_index B index =
     cbind (getfs_index index) (\<lambda>r.
     cbind (deref r) (\<lambda>worker.
     cbind (client_init (ip worker) (port worker)) (\<lambda>client.
     cbind (malloc (WORKER_READ_LEN + sizeof_packet)) (\<lambda>buffer.
     cbind (literal '''') (\<lambda>e.
     cbind (master_packet B e LS) (\<lambda>pk.
     cbind (conn_write B client pk (sizeof_packet + 1)) (\<lambda>n.
     if n \<le> 0 then cseq (free buffer) (cret Null)
     else cbind (conn_read B client buffer (WORKER_READ_LEN + sizeof_packet)) (\<lambda>n.
       if n \<le> 0 then cseq (free buffer) (cret Null)
       else cbind (p_decode buffer) (\<lambda>p. cseq (free buffer) (cret (arg p)))))))))))"

text \<open>\<^verbatim>\<open>strstr(hay, needle) != NULL\<close>.\<close>

fun occurs :: "string \<Rightarrow> string \<Rightarrow> bool" where
  "occurs needle [] = (needle = [])"
| "occurs needle (c # cs) = (take (length needle) (c # cs) = needle \<or> occurs needle cs)"

definition strstr :: "ptr \<Rightarrow> ptr \<Rightarrow> (bool, 'z) mcmd" where
  "strstr hay needle = cbind (get_str hay) (\<lambda>h. cbind (get_str needle) (\<lambda>n. cret (occurs n h)))"

function find_file_from :: "build \<Rightarrow> ptr \<Rightarrow> nat \<Rightarrow> nat \<Rightarrow> (srv_ref, 'z) tcmd" where
  "find_file_from B file n i =
     (if i < n then
        cbind (worker_ls_index B i) (\<lambda>ls.
        cbind (strstr ls file) (\<lambda>found.
        if found then getfs_index i else find_file_from B file n (i + 1)))
      else cret NoServer)"
  by pat_completeness auto
termination
  by (relation "measure (\<lambda>(B, file, n, i). n - i)") auto

definition find_by_file :: "build \<Rightarrow> ptr \<Rightarrow> (srv_ref, 'z) tcmd" where
  "find_by_file B file = cbind worker_count (\<lambda>n. find_file_from B file (unat n) 0)"

text \<open>
  The listing starts with a byte that was never written, read as a string. In
  \<^verbatim>\<open>sprintf(result, "%s\n%s", result, ls)\<close> the text is formed before it is written.
\<close>

function ls_from :: "build \<Rightarrow> nat \<Rightarrow> nat \<Rightarrow> ptr \<Rightarrow> (ptr, 'z) tcmd" where
  "ls_from B n i result =
     (if i < n then
        cbind (worker_ls_index B i) (\<lambda>ls.
        if ls = Null then ls_from B n (i + 1) result
        else
          cbind (strlen result) (\<lambda>a.
          cbind (strlen ls) (\<lambda>b.
          cbind (realloc result (a + b + 2)) (\<lambda>result.
          cseq (sprintf result [PStr result, Txt [CHR 0x0A], PStr ls])
            (ls_from B n (i + 1) result)))))
      else cret result)"
  by pat_completeness auto
termination
  by (relation "measure (\<lambda>(B, n, i, r). n - i)") auto

definition worker_ls :: "build \<Rightarrow> (ptr, 'z) tcmd" where
  "worker_ls B =
     cbind worker_count (\<lambda>n.
     cbind (malloc 1) (\<lambda>result.
     cbind (ls_from B (unat n) 0 result) (\<lambda>result.
     cbind (strlen result) (\<lambda>m.
     cbind (realloc result (m + 1)) (\<lambda>result.
     cseq (sprintf result [PStr result]) (cret result))))))"

definition written_bytes :: "build \<Rightarrow> conn \<Rightarrow> (int, 'z) ocmd" where
  "written_bytes B worker =
     cbind (malloc (sizeof_packet + 10)) (\<lambda>buffer.
     cbind (conn_read B worker buffer (sizeof_packet + 10)) (\<lambda>n.
     if n < 0 then cseq (free buffer) (cret (- 1))
     else
       cbind (p_decode buffer) (\<lambda>p.
       cbind (get_str (arg p)) (\<lambda>t.
       cseq (p_cleanup p) (cret (atol t))))))"

definition worker_write :: "build \<Rightarrow> ptr \<Rightarrow> ptr \<Rightarrow> (int, 'z) tcmd" where
  "worker_write B file data =
     cbind least_load (\<lambda>fs.
     if fs = NoServer then
       cseq (say_text B ERROR ''No workers registrered.'') (cret (- 1))
     else
       cbind (strlen file) (\<lambda>a.
       cbind (strlen data) (\<lambda>b.
       cbind (malloc (a + b + 2)) (\<lambda>buffer.
       cseq (sprintf buffer [PStr file, Txt '';'', PStr data])
       (cbind (p_init 0 buffer WRITE) (\<lambda>p.
        cbind (deref fs) (\<lambda>server.
        cbind (client_init (ip server) (port server)) (\<lambda>worker.
        cbind (p_encode (attach_token (MASTER_TKN B) p)) (\<lambda>pk.
        cbind (strlen buffer) (\<lambda>n.
        cseq (conn_write B worker pk (n + sizeof_packet + 1))
        (cseq (free buffer)
        (cbind (written_bytes B worker) (\<lambda>bs.
         cbind (conn_close B worker) (\<lambda>_. cret bs))))))))))))))"

definition worker_append :: "ptr \<Rightarrow> ptr \<Rightarrow> (int, 'z) tcmd" where
  "worker_append file data = cret (- 1)"

definition worker_read :: "ptr \<Rightarrow> (ptr, 'z) tcmd" where
  "worker_read file = cret Null"

definition worker_delete :: "build \<Rightarrow> ptr \<Rightarrow> (unit, 'z) tcmd" where
  "worker_delete B file =
     cbind (find_by_file B file) (\<lambda>w.
     if w = NoServer then say_text B ERROR ''No workers with that file.''
     else
       cbind (p_init 0 file DELETE) (\<lambda>p.
       cbind (deref w) (\<lambda>server.
       cbind (client_init (ip server) (port server)) (\<lambda>worker.
       cbind (p_encode (attach_token (MASTER_TKN B) p)) (\<lambda>pk.
       cbind (strlen file) (\<lambda>n.
       cseq (conn_write B worker pk (sizeof_packet + n))
       (cbind (conn_close B worker) (\<lambda>_. cskip))))))))"

declare find_file_from.simps [simp del] ls_from.simps [simp del]

end
