(* ===== verification/Master.thy ===== *)
theory Master
  imports Worker_Admin
begin

text \<open>
  \<^verbatim>\<open>src/master.c\<close>: the main program of the master. It serves one request per connection:
  workers register, clients have their requests passed on to the workers. The endless loop
  of \<^verbatim>\<open>main\<close> is modelled by its body (\<open>master_round\<close>).
\<close>

section \<open>State and strings\<close>

record master = admin +
  worker_id :: u32

type_synonym ('a, 'z) ccmd = "('a, 'z master_scheme) cmd"

definition READ_SZ :: nat where "READ_SZ = 10000"

definition MASTER_PORT :: "build \<Rightarrow> u16" where
  "MASTER_PORT B = (if debug B then get_dbg_port else get_port)"

text \<open>
  \<^verbatim>\<open>char_at\<close> counts with an unsigned number and compares it with the length only after it
  has looked at a byte: in the empty string it goes on behind the NUL. Within \<open>2 ^ 32\<close>
  rounds the counter has every value, so the loop ends or leaves the memory before.
\<close>

definition char_at_body :: "ptr \<Rightarrow> char \<Rightarrow> u32 \<Rightarrow> u32 \<Rightarrow> (u32 + int, 'z) mcmd" where
  "char_at_body str c sz index =
     cbind (load (padd str (unat index)) 1) (\<lambda>x.
     if x = [c] then cret (Inr (int (unat index)))
     else if index + 1 = sz then cret (Inr (- 1))
     else cret (Inl (index + 1)))"

definition char_at :: "ptr \<Rightarrow> char \<Rightarrow> (int, 'z) mcmd" where
  "char_at str c =
     cbind (strlen str) (\<lambda>n. cloop (2 ^ 32) (char_at_body str c (of_nat n)) 0)"

text \<open>A \<^verbatim>\<open>long\<close> where a \<^verbatim>\<open>size_t\<close> is expected.\<close>

definition as_size :: "int \<Rightarrow> nat" where
  "as_size i = unat (word_of_int i :: u64)"

definition long2str :: "int \<Rightarrow> (ptr, 'z) mcmd" where
  "long2str val = cbind (malloc 10) (\<lambda>strval. cseq (sprintf strval [PInt val]) (cret strval))"

definition parse_ip :: "ptr \<Rightarrow> (ptr, 'z) mcmd" where
  "parse_ip str =
     cbind (strlen str) (\<lambda>n.
     cbind (malloc n) (\<lambda>ip.
     cbind (char_at str (CHR '';'')) (\<lambda>i.
     cseq (strncpy ip str (as_size i)) (cret ip))))"

definition parse_port :: "ptr \<Rightarrow> (u16, 'z) mcmd" where
  "parse_port str =
     cbind (char_at str (CHR '';'')) (\<lambda>i.
     cbind (get_str (padd str (nat (i + 1)))) (\<lambda>t.
     cret (word_of_int (atoi t))))"

section \<open>Requests\<close>

definition exec_str :: "build \<Rightarrow> ptype \<Rightarrow> ptr \<Rightarrow> (ptr, 'z) tcmd" where
  "exec_str B t a =
     (case t of
        LS \<Rightarrow> worker_ls B
      | READ \<Rightarrow> worker_read a
      | _ \<Rightarrow> literal ''Server error.'')"

definition exec_long :: "build \<Rightarrow> ptype \<Rightarrow> ptr \<Rightarrow> (ptr, 'z) tcmd" where
  "exec_long B t a =
     cbind (char_at a (CHR '';'')) (\<lambda>separator.
     if separator < 0 then literal ''Server error.''
     else
       cbind (malloc (nat separator)) (\<lambda>file.
       cbind (strlen a) (\<lambda>n.
       cbind (malloc (as_size (int n - separator))) (\<lambda>data.
       cseq (strncpy file a (nat separator))
       (cseq (strcpy data (padd a (nat (separator + 1))))
       (case t of
          WRITE \<Rightarrow> cbind (worker_write B file data) long2str
        | APPEND \<Rightarrow> cbind (worker_append file data) long2str
        | _ \<Rightarrow> literal ''Server error.''))))))"

definition handle_request :: "build \<Rightarrow> ptype \<Rightarrow> ptr \<Rightarrow> (ptr, 'z) tcmd" where
  "handle_request B t a =
     (case t of
        LS \<Rightarrow> exec_str B t a
      | READ \<Rightarrow> exec_str B t a
      | WRITE \<Rightarrow> exec_long B t a
      | APPEND \<Rightarrow> exec_long B t a
      | DELETE \<Rightarrow> cseq (worker_delete B a) (literal ''1'')
      | _ \<Rightarrow> literal ''Server error.'')"

definition service_available :: "build \<Rightarrow> conn \<Rightarrow> (bool, 'z) tcmd" where
  "service_available B client =
     cbind worker_count (\<lambda>n.
     if n = 0 then
       cbind (literal ''Service unavailable.'') (\<lambda>m.
       cseq (conn_write B client m 21) (cret False))
     else cret True)"

text \<open>
  A registration. The message about it is never compiled: its guard reads
  \<^verbatim>\<open>#ifdef defined(VERBOSE_1)\<close>, which tests for a macro with the name \<^verbatim>\<open>defined\<close>.
\<close>

definition next_worker_id :: "(u64, 'z) ccmd" where
  "next_worker_id =
     cbind (cget worker_id) (\<lambda>i. cseq (cmodify (\<lambda>s. s\<lparr>worker_id := i + 1\<rparr>)) (cret (ucast i)))"

definition register_worker :: "packet \<Rightarrow> (unit, 'z) ccmd" where
  "register_worker p =
     cbind next_worker_id (\<lambda>i.
     cbind (malloc 16) (\<lambda>ip.
     cbind (parse_port (arg p)) (\<lambda>port.
     cbind (parse_ip (arg p)) (\<lambda>parsed.
     cseq (strcpy ip parsed)
       (add_worker \<lparr>srv_id = i, srv_size = 0, ip = ip, port = port\<rparr>)))))"

text \<open>What is done with a decoded packet, and the whole handler.\<close>

definition serve_packet :: "build \<Rightarrow> conn \<Rightarrow> ptr \<Rightarrow> packet \<Rightarrow> (unit, 'z) ccmd" where
  "serve_packet B client buffer p =
     cbind (if msg_type p \<noteq> REGISTER then service_available B client else cret True) (\<lambda>ok.
     if \<not> ok then free buffer
     else if msg_type p = REGISTER then
       (if token p \<noteq> WORKER_TKN B then
          cseq (say_text B WARNING ''Non-worker attempted to register.'') (free buffer)
        else cseq (register_worker p) (free buffer))
     else
       cbind (handle_request B (msg_type p) (arg p)) (\<lambda>ret_val.
       cbind (strlen ret_val) (\<lambda>m.
       cseq (conn_write B client ret_val (m + 1)) (free buffer))))"

definition handle_client :: "build \<Rightarrow> conn \<Rightarrow> (unit, 'z) ccmd" where
  "handle_client B client =
     cbind (malloc READ_SZ) (\<lambda>buffer.
     cbind (conn_read B client buffer READ_SZ) (\<lambda>n.
     if n \<le> 0 then free buffer
     else cbind (p_decode buffer) (serve_packet B client buffer)))"

section \<open>The main loop\<close>

definition server_restart :: "build \<Rightarrow> conn \<Rightarrow> int \<Rightarrow> (int, 'z) ocmd" where
  "server_restart B client f =
     cbind (conn_close B client) (\<lambda>_. cseq (sys_close f) sys_socket)"

definition master_round :: "build \<Rightarrow> int \<Rightarrow> (int, 'z) ccmd" where
  "master_round B master_fd =
     cbind (conn_listen B master_fd (MASTER_PORT B)) (\<lambda>client.
     if c_error client \<noteq> 0 then
       cseq (cwhen (verbose B) (cseq (logger ERROR COMP_MASTER (PStr (error_msg client))) cskip))
         (server_restart B client master_fd)
     else cseq (handle_client B client) (server_restart B client master_fd))"

section \<open>Searching a character\<close>

definition index_of :: "char \<Rightarrow> string \<Rightarrow> int" where
  "index_of c t = (case first_idx (\<lambda>x. x = c) t of None \<Rightarrow> - 1 | Some i \<Rightarrow> int i)"

lemma char_at_loop:
  assumes str: "cstring s p = Some t" and len: "length t < 2 ^ 32"
    and "j < length t" and "\<forall>i < j. t ! i \<noteq> c" and "length t - j < fuel" and "w = of_nat j"
  shows "wp (cloop fuel (char_at_body p c (of_nat (length t))) w) Q s = Q (index_of c t) s"
  using assms(3-)
proof (induction "length t - j" arbitrary: j fuel w)
  case 0
  then show ?case by simp
next
  case (Suc x)
  obtain f where f: "fuel = Suc f" using Suc.prems(3) by (cases fuel) auto
  have small: "unat (of_nat i :: u32) = i" if "i \<le> length t" for i
    using that len by (simp only: unsigned_of_nat) (simp add: take_bit_nat_eq_self)
  have u: "unat w = j" using Suc.prems small [of j] by simp
  have ld: "peek s (padd p j) 1 = Some [t ! j]" by (rule cstring_at [OF str Suc.prems(1)])
  have next_eq: "w + 1 = of_nat (length t) \<longleftrightarrow> Suc j = length t"
  proof -
    have w1: "w + 1 = of_nat (Suc j)" using Suc.prems(4) by simp
    show ?thesis unfolding w1
      using small [of "Suc j"] small [of "length t"] Suc.prems(1) by (metis Suc_leI order_refl)
  qed
  show ?case
  proof (cases "t ! j = c")
    case True
    have "first_idx (\<lambda>x. x = c) t = Some j"
    proof (cases "first_idx (\<lambda>x. x = c) t")
      case None
      then show ?thesis using True Suc.prems(1) nth_mem by (auto simp: first_idx_None)
    next
      case (Some i)
      have i: "t ! i = c" "\<forall>k < i. t ! k \<noteq> c" using first_idx_Some [OF Some] by auto
      have "i = j" using i Suc.prems(2) True by (cases i j rule: linorder_cases) auto
      then show ?thesis using Some by simp
    qed
    then show ?thesis
      using ld True by (simp add: f wp_cloop_Suc char_at_body_def wp_simps u index_of_def)
  next
    case False
    have below: "\<forall>i < Suc j. t ! i \<noteq> c" using Suc.prems(2) False by (simp add: less_Suc_eq)
    show ?thesis
    proof (cases "Suc j = length t")
      case True
      have "first_idx (\<lambda>x. x = c) t = None"
        unfolding first_idx_None using below True by (metis in_set_conv_nth)
      then show ?thesis
        using ld False True by (simp add: f wp_cloop_Suc char_at_body_def wp_simps u next_eq index_of_def)
    next
      case more: False
      have "wp (cloop f (char_at_body p c (of_nat (length t))) (w + 1)) Q s = Q (index_of c t) s"
        by (rule Suc.hyps(1) [of "Suc j"]) (use Suc more below f in simp_all)
      then show ?thesis
        using ld False more by (simp add: f wp_cloop_Suc char_at_body_def wp_simps u next_eq)
    qed
  qed
qed

lemma wp_char_at:
  assumes "cstring s p = Some t" and "t \<noteq> []" and "length t < 2 ^ 32"
  shows "wp (char_at p c) Q s = Q (index_of c t) s"
  using char_at_loop [OF assms(1,3), of 0 c "2 ^ 32" 0 Q] assms
  by (simp add: char_at_def wp_simps)

section \<open>Registrations\<close>

text \<open>A registration is the address, a semicolon, and the port.\<close>

definition address :: "string \<Rightarrow> nat \<Rightarrow> string" where
  "address a prt = a @ CHR '';'' # show_nat prt"

lemma index_of_split: "CHR '';'' \<notin> set a \<Longrightarrow> index_of (CHR '';'') (a @ CHR '';'' # r) = int (length a)"
proof -
  assume "CHR '';'' \<notin> set a"
  then have "first_idx (\<lambda>x. x = CHR '';'') (a @ CHR '';'' # r) = Some (length a)"
    by (induction a) auto
  then show ?thesis by (simp add: index_of_def)
qed

lemma show_int_nat: "show_int (int n) = show_nat n"
  by (simp add: show_int_def)

lemma parse_port_then:
  assumes str: "cstring s p = Some (address a prt @ r)" and a: "CHR '';'' \<notin> set a"
    and r: "stops_digits r" and len: "length (address a prt @ r) < 2 ^ 32" and prt: "prt < 65536"
  shows "wp (parse_port p) Q s = Q (of_nat prt) s"
proof -
  let ?t = "address a prt @ r"
  have t: "?t = a @ CHR '';'' # (show_nat prt @ r)" by (simp add: address_def)
  have d: "cstring s (padd p (Suc (length a))) = Some (show_nat prt @ r)"
    using cstring_drop [OF str, of "Suc (length a)"] by (simp add: t)
  have "atoi (show_int (int prt) @ r) = int prt"
    by (rule atoi_show_int [OF r]) (use prt in simp_all)
  moreover have "nat (int (length a) + 1) = Suc (length a)" by simp
  ultimately show ?thesis
    using wp_char_at [OF str _ len] d
    by (simp add: parse_port_def wp_simps index_of_split [OF a] show_int_nat address_def)
qed

lemma parse_ip_then:
  assumes wf: "wf_mem s" and str: "cstring s p = Some (a @ CHR '';'' # r)" and a: "CHR '';'' \<notin> set a"
    and len: "length (a @ CHR '';'' # r) < 2 ^ 32"
  shows "wp (parse_ip p) Q s =
    Q (Ptr (next_id s) 0) (add_block (filled (length (a @ CHR '';'' # r)) a s) s)"
proof -
  let ?t = "a @ CHR '';'' # r" and ?n = "length (a @ CHR '';'' # r)"
  let ?s = "add_block (fresh_block ?n s) s"
  have str': "cstring ?s p = Some ?t" by (rule cstring_add_block [OF wf str])
  have big: "length a < 2 ^ 64" using len by simp
  have sz: "as_size (int (length a)) = length a"
    using big by (simp add: as_size_def) (simp only: unsigned_of_nat, simp add: take_bit_nat_eq_self)
  show ?thesis
    using wp_char_at [OF str' _ len] wp_strncpy_prefix [OF str', of "length a"]
    by (simp add: parse_ip_def wp_simps str index_of_split [OF a] sz filled_def
        del: wp_strncpy)
qed

lemma master_updates [simp]:
  "wf_mem (s\<lparr>worker_id := x\<rparr>) = wf_mem s" "cstring (s\<lparr>worker_id := x\<rparr>) p = cstring s p"
  "peek (s\<lparr>worker_id := x\<rparr>) p n = peek s p n"
  "table_ok (s\<lparr>worker_id := x\<rparr>) = table_ok s" "servers (s\<lparr>worker_id := x\<rparr>) = servers s"
  "fresh_block n (s\<lparr>worker_id := x\<rparr>) = fresh_block n s"
  "filled n t (s\<lparr>worker_id := x\<rparr>) = filled n t s"
  by (cases p; simp add: wf_mem_def table_ok_def servers_def fresh_block_def fresh_bytes_def filled_def)+

lemma master_fields [simp]:
  "worker_id (add_block k s) = worker_id s" "worker_id (set_block b k s) = worker_id s"
  "worker_id (del_block b s) = worker_id s" "worker_id (set_servers xs s) = worker_id s"
  by (simp_all add: add_block_def set_block_def del_block_def set_servers_def)

lemma set_servers_mem [simp]:
  "blocks (set_servers xs s) = blocks s" "next_id (set_servers xs s) = next_id s"
  "wf_mem (set_servers xs s) = wf_mem s" "fds (set_servers xs s) = fds s"
  "trace (set_servers xs s) = trace s" "log_msg (set_servers xs s) = log_msg s"
  by (simp_all add: set_servers_def wf_mem_def)

lemma cstring_set_servers [simp]: "cstring (set_servers xs s) p = cstring s p"
  by (cases p) simp_all

text \<open>
  The address is copied twice: the first copy is not terminated, so the second is right
  only if the allocator's memory happens to hold a NUL behind the first.
\<close>

lemma register_worker_then:
  assumes wf: "wf_mem s" and ok: "table_ok s" "length (servers s) < 65535"
    and str: "cstring s (arg p) = Some (address a prt @ r)" and a: "CHR '';'' \<notin> set a" "length a < 16"
    and r: "stops_digits r" and len: "length (address a prt @ r) < 2 ^ 32" and prt: "prt < 65536"
    and zero: "junk s (Suc (next_id s)) (length a) = NUL"
    and Q: "\<And>b t. \<lbrakk>wf_mem t; table_ok t; worker_id t = worker_id s + 1; log_msg t = log_msg s;
        fds t = fds s; trace t = trace s; next_id s \<le> b; cstring t (Ptr b 0) = Some a;
        servers t = servers s @ [\<lparr>srv_id = ucast (worker_id s), srv_size = 0, ip = Ptr b 0,
          port = of_nat prt\<rparr>];
        mgrows s t; net t = net s\<rbrakk> \<Longrightarrow> Q () t"
  shows "wp (register_worker p) Q s"
proof -
  let ?b = "next_id s" and ?t = "address a prt @ r"
  let ?i = "s\<lparr>worker_id := worker_id s + 1\<rparr>"
  let ?s1 = "add_block (fresh_block 16 s) ?i"
  let ?s2 = "add_block (filled (length ?t) a ?s1) ?s1"
  let ?s3 = "set_block ?b (filled 16 (a @ [NUL]) s) ?s2"
  let ?x = "\<lparr>srv_id = ucast (worker_id s), srv_size = 0, ip = Ptr ?b 0, port = of_nat prt\<rparr>"
  have t: "?t = a @ CHR '';'' # (show_nat prt @ r)" by (simp add: address_def)
  have wf1: "wf_mem ?s1" by (rule wf_add_block) (simp_all add: wf)
  have str1: "cstring ?s1 (arg p) = Some ?t" by (rule cstring_add_block) (simp_all add: wf str)
  have l: "length a < length ?t" by (simp add: address_def)
  have "drop (length a) (fresh_bytes (length ?t) ?s1) = NUL # drop (Suc (length a)) (fresh_bytes (length ?t) ?s1)"
    using zero l by (subst Cons_nth_drop_Suc [symmetric]) (simp_all add: fresh_bytes_def)
  moreover have "NUL \<notin> set a" using cstring_no_nul [OF str] by (simp add: address_def)
  ultimately have ipstr: "cstring ?s2 (Ptr (Suc ?b) 0) = Some a"
    by (simp add: bytes_filled c_str_nul)
  have wf2: "wf_mem ?s2"
    by (rule wf_add_block [OF wf1]) (use l in \<open>simp add: bytes_filled\<close>)
  have keep: "blocks ?s3 b' = Some k" if "blocks s b' = Some k" for b' k
    using that wf_mem_blocks [OF wf that] by simp
  have "wf_mem ?s3" using a(2) by (intro wf_set_block wf2) (simp_all add: less_SucI)
  moreover have "servers ?s3 = servers s" "table_ok ?s3"
    using ok by (simp_all add: servers_def table_ok_def)
  moreover have "cstring ?s3 (Ptr ?b 0) = Some a"
    using \<open>NUL \<notin> set a\<close> by (simp add: bytes_filled c_str_nul)
  moreover have "table_ok (set_servers (servers s @ [?x]) ?s3)"
    using ok by (intro table_ok_set_servers) (simp_all add: table_ok_def)
  ultimately have "Q () (set_servers (servers s @ [?x]) ?s3)"
  proof (intro Q)
    have "mgrows s ?s3" using \<open>wf_mem ?s3\<close> keep by (simp add: mgrows_def)
    then show "mgrows s (set_servers (servers s @ [?x]) ?s3)"
      by (rule mgrows_same_mem) (simp add: same_mem_def set_servers_def)
    show "net (set_servers (servers s @ [?x]) ?s3) = net s" by (simp add: set_servers_def)
  qed (simp_all del: blocks_set_block cstring.simps)
  moreover have "wp (add_worker ?x) Q ?s3 = Q () (set_servers (servers s @ [?x]) ?s3)"
    using add_server_run [of ?s3 ?x] ok \<open>servers ?s3 = servers s\<close> \<open>table_ok ?s3\<close>
    by (simp add: add_worker_def wp_eq)
  ultimately have add: "wp (add_worker ?x) Q ?s3" by simp
  show ?thesis
    unfolding register_worker_def
    using parse_port_then [OF str1 a(1) r len prt] parse_ip_then [OF wf1 str1 [unfolded t] a(1) len [unfolded t]] ipstr a(2) add
    by (simp add: wp_simps next_worker_id_def t filled_def del: cstring.simps)
qed

section \<open>Handling a request\<close>

text \<open>
  From the start of the handler to the decoded packet: the buffer is a new block, the
  argument a newer one; a request has been taken off the connection and nothing else
  has changed.
\<close>

lemma handle_client_then:
  assumes wf: "wf_mem s" and p: "has_packet c READ_SZ bs s"
    and Q: "\<And>b a t. \<lbrakk>io_mem s t; net t = net s; effects (trace t) = effects (trace s);
        next_id s \<le> b; live t (Ptr b 0); live t (Ptr a 0);
        \<exists>k. descriptor (fds t) (fd c) = Some k \<and> accepts k \<and> peer k = Caller;
        clean_mem s \<Longrightarrow> NUL \<notin> set (wire_body bs) \<Longrightarrow> cstring t (Ptr a 0) = Some (wire_body bs)\<rbrakk>
      \<Longrightarrow> wp (serve_packet B c (Ptr b 0) (decoded bs (Ptr a 0))) Q t"
  shows "wp (handle_client B c) Q s"
  unfolding handle_client_def by (rule packet_arrives_then [OF wf p], rule Q)

end
