(* ===== verification/Admin_Facts.thy ===== *)
theory Admin_Facts
  imports Master
begin

text \<open>
  What the master's side of the conversation with the workers does: a ping that is not
  answered, and a file that is written to the worker with the least load.
\<close>

section \<open>Messages in the verbose builds\<close>

lemma log_frame_free:
  assumes f: "log_frame s t" and b: "next_id s \<le> b" and ok: "log_ok s" and ne: "log_msg t \<noteq> Ptr b 0"
  shows "log_frame s (del_block b t)"
  using assms
  by (auto simp: log_frame_def log_ok_def wf_del_block dest: wf_mem_blocks)

lemma say_then:
  assumes ok: "log_ok s" and m: "text_of s ps = Some m" and lt: "lt \<noteq> BadKind"
    and no: "NUL \<notin> set m" and len: "length m < n" "length m < 900"
    and Q: "\<And>t. \<lbrakk>log_frame s t; effects (trace t) = effects (trace s)\<rbrakk> \<Longrightarrow> Q () t"
  shows "wp (say B n lt ps) Q s"
proof (cases "verbose B")
  case False
  then show ?thesis using Q [OF log_frame_refl [OF ok]] by (simp add: say_def wp_simps)
next
  case True
  let ?b = "next_id s"
  let ?s = "add_block (filled n (m @ [NUL]) s) s"
  have wf: "wf_mem s" using ok by (simp add: log_ok_def)
  have g: "grows s ?s" using len by (intro grows_filled wf) simp
  have fr: "log_frame s ?s" by (rule log_frame_new [OF ok g])
  have cs: "cstring ?s (Ptr ?b 0) = Some m" by (rule cstring_filled_nul [OF no])
  have ne: "log_msg ?s \<noteq> Ptr ?b 0"
    using ok wf_mem_next [OF wf] by (auto simp: log_ok_def)
  have mt: "text_of (add_block (fresh_block n s) s) ps = Some m"
    by (rule text_of_mono [OF _ m]) (intro mgrows_add_block mgrows_refl wf, simp)
  have "wp (logger lt COMP_MASTER (PStr (Ptr ?b 0))) (\<lambda>_. wp (free (Ptr ?b 0)) Q) ?s"
  proof (rule logger_then [OF _ _ lt])
    show "log_ok ?s" using fr by (simp add: log_frame_def)
    show "text_of ?s [PStr (Ptr ?b 0)] = Some m" using cs by simp
    fix t assume t: "log_frame ?s t" "effects (trace t) = effects (trace ?s)"
    have lv: "live t (Ptr ?b 0)" "log_msg t \<noteq> Ptr ?b 0"
      using log_frame_live [OF t(1) _ ne] by simp_all
    have "log_frame s (del_block ?b t)"
      by (rule log_frame_free [OF log_frame_trans [OF fr t(1)] _ ok lv(2)]) simp
    then show "wp (free (Ptr ?b 0)) Q t" using lv(1) t(2) Q by (simp add: wp_free del: live.simps)
  qed (use no len in auto)
  then show ?thesis
    using True len
    by (simp add: say_def wp_cwhen wp_cbind wp_malloc wp_cseq wp_sprintf wp_format mt wp_funs filled_def)
qed

section \<open>A ping that is not answered\<close>

text \<open>
  The message of a verbose build fits into its 50 bytes: at most 11 characters for the
  identifier, 15 for the address, 5 for the port.
\<close>

definition ping_pieces :: "file_server \<Rightarrow> piece list" where
  "ping_pieces w = [Txt ''Ping to '', PInt (sint (ucast (srv_id w) :: u32)), Txt '' ('',
     PStr (ip w), Txt '':'', PInt (int (unat (port w))), Txt '').'']"

lemma ping_text:
  assumes "cstring s (ip w) = Some a" and "length a \<le> 15"
  obtains m where "text_of s (ping_pieces w) = Some m" "NUL \<notin> set m" "length m < 50"
proof
  let ?i = "show_int (sint (ucast (srv_id w) :: u32))" and ?p = "show_int (int (unat (port w)))"
  show "text_of s (ping_pieces w) = Some (''Ping to '' @ ?i @ '' ('' @ a @ '':'' @ ?p @ '').'')"
    using assms(1) by (simp add: ping_pieces_def)
  show "NUL \<notin> set (''Ping to '' @ ?i @ '' ('' @ a @ '':'' @ ?p @ '').'')"
    using cstring_no_nul [OF assms(1)] show_int_no_nul by auto
  show "length (''Ping to '' @ ?i @ '' ('' @ a @ '':'' @ ?p @ '').'') < 50"
    using assms(2) length_show_int32 [of "ucast (srv_id w)"] length_show_port [of "port w"] by simp
qed

definition silent :: "sock \<Rightarrow> bool" where
  "silent d \<longleftrightarrow> accepts d \<and> (incoming d = [] \<or> (\<exists>q. incoming d = Timeout # q))"

lemma silent_peer [simp]: "silent (d\<lparr>peer := p\<rparr>) = silent d"
  by (simp add: silent_def)

lemma no_response:
  assumes wf: "wf_mem s" and held: "mutex_held s"
    and d: "descriptor (fds s) (fd c) = Some k" "silent k"
  shows "handle_ping_response B c w s = Inl Deadlock"
  unfolding handle_ping_response_def
proof (rule wp_fault)
  let ?n = "sizeof_packet + 10" and ?t = "add_block (fresh_block (sizeof_packet + 10) s) s"
  let ?K = "\<lambda>b n. cseq (cwhen (n \<le> 0) (cseq (remove_server (srv_id w))
        (say B 50 WARNING [Txt ''Worker (file descriptor: '', PInt (fd c), Txt '') has failed.''])))
     (cbind (p_decode b) (\<lambda>p. if msg_type p \<noteq> PING then
        cseq (remove_server (srv_id w))
          (say B 100 MESSAGE [Txt ''Received response from worker (file descriptor: '',
            PInt (fd c), Txt ''), but not from ping.''])
      else say B 50 MESSAGE [Txt ''Successful response from worker (file descriptor: '',
          PInt (fd c), Txt '').'']))"
  have "wp (conn_read B c b ?n) (\<lambda>n t. ?K b n t = Inl Deadlock) ?t" for b
  proof (rule conn_read_none)
    show "incoming j = [] \<or> (\<exists>q. incoming j = Timeout # q)"
      if "descriptor (fds ?t) (fd c) = Some j" for j
      using that d by (simp add: silent_def)
    fix r :: int and u assume r: "r \<le> 0" and u: "io ?t u"
    have "mutex_held u"
      using held tables_more(4) [OF logst_more(2), of u ?t] u by (simp add: io_def)
    then show "?K b r u = Inl Deadlock"
      using r by (simp add: cseq_def cwhen_def cbind_def remove_server_def mutex_lock_def)
  qed
  then show "wp (malloc ?n) (\<lambda>b t. cbind (conn_read B c b ?n) (?K b) t = Inl Deadlock) s"
    by (simp add: wp_malloc wp_fault)
qed

text \<open>
  The address and the port of each worker of the table; a ping to one of them, with the 28 bytes
  behind the packet that are sent with it.
\<close>

definition addresses :: "'z tables_scheme \<Rightarrow> (string \<times> u16) list" where
  "addresses s = map (\<lambda>w. (the (cstring s (ip w)), port w)) (servers s)"

lemma addresses_kept:
  fixes s t :: "'z tables_scheme"
  assumes "servers t = servers s" and "mgrows s t"
    and "\<And>w. w \<in> set (servers s) \<Longrightarrow> \<exists>a. cstring s (ip w) = Some a \<and> P a"
  shows "addresses t = addresses s"
  using assms(3) mgrows_cstring [OF assms(2)] by (fastforce simp: addresses_def assms(1))

lemma length_addresses [simp]: "length (addresses s) = length (servers s)"
  by (simp add: addresses_def)

definition pings :: "build \<Rightarrow> string \<times> u16 \<Rightarrow> event \<Rightarrow> bool" where
  "pings B h e \<longleftrightarrow> (\<exists>g leak. length leak = 28 \<and>
     e = Sent g (Host (fst h) (snd h)) (wire_msg 0 PING (MASTER_TKN B) [] @ leak))"

text \<open>What the ping does after its message: it connects and sends, and handles the response.\<close>

definition ping_connect :: "build \<Rightarrow> file_server \<Rightarrow> (conn, 'z) tcmd" where
  "ping_connect B w =
     cbind (client_init (ip w) (port w)) (\<lambda>worker.
     cbind (literal '''') (\<lambda>e.
     cbind (master_packet B e PING) (\<lambda>pk.
     cseq (conn_write B worker pk (sizeof_packet + 10)) (cret worker))))"

lemma ping_server_parts:
  assumes "deref r s = Inr (w, s)"
  shows "ping_server B r s = cseq (say B 50 MESSAGE (ping_pieces w))
    (cbind (ping_connect B w) (\<lambda>c. handle_ping_response B c w)) s"
  using assms
  by (simp add: ping_server_def ping_connect_def ping_pieces_def cbind_def cseq_def cret_def
      split: sum.split)

lemma connect_then:
  assumes wf: "wf_mem t" and a: "cstring t (ip w) = Some a" "inet_pton4 a"
    and net: "net t = Opens d # rs" "accepts d" and room: "\<And>j. 27 \<le> spare t j + room t j"
    and Q: "\<And>c e x. \<lbrakk>io_mem t x; net x = rs;
        fds x = install (lowest_free (fds t)) (d\<lparr>peer := Host a (port w)\<rparr>) (fds t);
        fd c = int (lowest_free (fds t)); effects (trace x) = effects (trace t) @ [e]; pings B (a, port w) e\<rbrakk> \<Longrightarrow> Q c x"
  shows "wp (ping_connect B w) Q t"
  unfolding ping_connect_def wp_cbind
proof (rule client_init_then [OF wf a net(1)])
  fix msg u
  let ?d = "d\<lparr>peer := Host a (port w)\<rparr>"
  assume u: "io_mem t u" "net u = rs" "fds u = install (lowest_free (fds t)) ?d (fds t)" "trace u = trace t"
  let ?c = "\<lparr>c_error = 0, error_msg = msg, fd = int (lowest_free (fds t)), max_bytes = 0\<rparr>"
  let ?v = "add_block (lit_block [] u) u"
  have gv: "grows u ?v"
    by (intro grows_add_block grows_refl io_mem_wf [OF u(1)]) (simp add: lit_block_def)
  have tv: "io_mem t ?v" by (rule io_mem_grows [OF u(1) gv])
  have k: "descriptor (fds ?v) (fd ?c) = Some ?d" "accepts ?d" using net(2) by (simp_all add: u(3))
  have "wp (cbind (p_init 0 (Ptr (next_id u) 0) PING) (\<lambda>p. cbind (p_encode (attach_token (MASTER_TKN B) p))
      (\<lambda>pk. conn_write B ?c pk (sizeof_packet + 10)))) (\<lambda>_. Q ?c) ?v"
  proof (rule send_new_then [OF grows_wf [OF gv] _ _ k])
    show "cstring ?v (Ptr (next_id u) 0) = Some []" by (simp add: lit_block_def)
    show "sizeof_packet + 10 \<le> 23 + length [] + spare ?v j + room ?v j" for j
      using room [of j] by (simp add: sizeof_packet_def mgrows_oracles [OF io_mem_mgrows [OF u(1)]])
    fix leak x
    assume x: "io_mem ?v x" "fds x = fds ?v" "net x = net ?v" "length leak = sizeof_packet + 10 - (22 + length [])"
      "effects (trace x) = effects (trace ?v) @ [Sent (fd ?c) (peer ?d) (wire_msg 0 PING (MASTER_TKN B) [] @ leak)]"
    let ?e = "Sent (fd ?c) (peer ?d) (wire_msg 0 PING (MASTER_TKN B) [] @ leak)"
    have "pings B (a, port w) ?e" using x(4) by (auto simp: pings_def sizeof_packet_def)
    then show "Q ?c x" by (intro Q [where e = ?e, OF io_mem_trans [OF tv x(1)]]) (use x u in simp_all)
  qed (simp_all add: sizeof_packet_def)
  then show "wp (literal '''') (\<lambda>e. wp (master_packet B e PING) (\<lambda>pk.
      wp (cseq (conn_write B ?c pk (sizeof_packet + 10)) (cret ?c)) Q)) u"
    by (simp add: wp_literal master_packet_def cbind_assoc wp_cbind wp_funs)
qed

text \<open>Whatever goes wrong with the response of the first worker ends the round.\<close>

lemma ping_fault:
  fixes s :: "'z tables_scheme"
  assumes ok: "log_ok s" and held: "mutex_held s" and r: "deref r s = Inr (w, s)"
    and a: "ip w = Ptr b j" "cstring s (ip w) = Some a" "length a \<le> 15" "inet_pton4 a"
      "log_msg s \<noteq> Ptr b 0"
    and net: "net s = Opens d # rs" "accepts d"
    and room: "\<And>j. 27 \<le> spare s j + room s j"
    and H: "\<And>c (x :: 'z tables_scheme). \<lbrakk>wf_mem x; mutex_held x;
        descriptor (fds x) (fd c) = Some (d\<lparr>peer := Host a (port w)\<rparr>); spare x = spare s\<rbrakk>
      \<Longrightarrow> handle_ping_response B c w x = Inl e"
  shows "ping_server B r s = Inl e"
proof -
  obtain m where m: "text_of s (ping_pieces w) = Some m" "NUL \<notin> set m" "length m < 50"
    by (rule ping_text [OF a(2,3)])
  show ?thesis unfolding ping_server_parts [OF r]
  proof (rule wp_fault_seq, rule say_then [OF ok m(1) _ m(2,3)])
    fix t assume t: "log_frame s t"
    show "cbind (ping_connect B w) (\<lambda>c. handle_ping_response B c w) t = Inl e"
    proof (rule wp_fault, rule connect_then [OF log_frame_wf [OF t] _ a(4) _ net(2)])
      show "cstring t (ip w) = Some a" using log_frame_cstring [OF t _ a(5)] a(1,2) by simp
      show "net t = Opens d # rs" using net t by (simp add: log_frame_def)
      show "27 \<le> spare t j + room t j" for j using room [of j] t by (simp add: log_frame_def)
      fix c :: conn and x assume x: "io_mem t x" "fds x = install (lowest_free (fds t)) (d\<lparr>peer := Host a (port w)\<rparr>) (fds t)"
        "fd c = int (lowest_free (fds t))"
      have "mutex_held x"
        using held t x(1) tables_more(4) [of t s] tables_more(4) [OF logst_more(2), of x t]
        by (simp add: log_frame_def io_mem_def)
      moreover have "spare x = spare s"
        using t mgrows_oracles [OF io_mem_mgrows [OF x(1)]] by (simp add: log_frame_def)
      ultimately show "handle_ping_response B c w x = Inl e"
        using x by (intro H io_mem_wf [OF x(1)]) simp_all
    qed
  qed (use m(3) in auto)
qed

section \<open>Writing a file to a worker\<close>

text \<open>The number that a worker reports, as text in the argument of its answer.\<close>

lemma written_bytes_then:
  assumes wf: "wf_mem s" and clean: "clean_mem s"
    and d: "descriptor (fds s) (fd c) = Some k" "incoming k = Arrives bs # q"
    and len: "length bs \<le> 50" "header_size + unat (wire_len bs) \<le> length bs"
    and body: "wire_body bs = show_int v" and v: "- (2 ^ 63) \<le> v" "v < 2 ^ 63"
    and Q: "\<And>u. \<lbrakk>io_mem s u; net u = net s; effects (trace u) = effects (trace s);
        fds u = (fds s)[nat (fd c) := Some (k\<lparr>incoming := q\<rparr>)]\<rbrakk> \<Longrightarrow> Q v u"
  shows "wp (written_bytes B c) Q s"
  unfolding written_bytes_def
proof (rule read_message_then [OF wf d])
  show "length bs \<le> sizeof_packet + 10" using len(1) by (simp add: sizeof_packet_def)
  fix b u
  assume u: "io_mem s u" "peek u (Ptr b 0) (length bs) = Some bs" "net u = net s"
    "effects (trace u) = effects (trace s)" "fds u = (fds s)[nat (fd c) := Some (k\<lparr>incoming := q\<rparr>)]"
  have "wp (p_decode (Ptr b 0)) (\<lambda>p. wp (cbind (get_str (arg p)) (\<lambda>t. cseq (p_cleanup p) (cret (atol t)))) Q) u"
  proof (rule decode_message_then [OF u(1,2) len(2)])
    fix a t
    assume t: "grows u t" "io_mem s t" "next_id u \<le> a" "live t (Ptr a 0)"
      and str: "cstring t (Ptr a 0) = c_str (wire_body bs @ after (unat (wire_len bs)) u)"
    obtain r where "after (unat (wire_len bs)) u = NUL # r"
      by (rule clean_after [OF clean_mgrows [OF io_mem_mgrows [OF u(1)] clean]])
    then have cs: "cstring t (Ptr a 0) = Some (show_int v)"
      using str c_str_nul [OF show_int_no_nul] by (simp add: body)
    have new: "blocks s a = None"
      using wf_mem_fresh [OF wf, of a] t(3) mgrows_next [OF io_mem_mgrows [OF u(1)]] by simp
    have "io_mem s (del_block a t)"
      using mgrows_del_block [OF io_mem_mgrows [OF t(2)] new] t(2) by (simp add: io_mem_def)
    then have "Q v (del_block a t)" using u(3-5) by (intro Q) (simp_all add: grows_os [OF t(1)])
    then show "wp (cbind (get_str (arg (decoded bs (Ptr a 0)))) (\<lambda>t. cseq
        (p_cleanup (decoded bs (Ptr a 0))) (cret (atol t)))) Q t"
      using t(4) cs atol_show_int [of "[]" v] v
      by (simp add: decoded_def p_cleanup_def wp_simps stops_digits_def del: live.simps cstring.simps)
  qed
  then show "wp (if int (length bs) < 0 then cseq (free (Ptr b 0)) (cret (- 1))
      else cbind (p_decode (Ptr b 0)) (\<lambda>p. cbind (get_str (arg p)) (\<lambda>t. cseq (p_cleanup p)
        (cret (atol t))))) Q u"
    by (simp add: wp_cbind [of "p_decode _"])
qed

lemma least_load_run:
  assumes "table_ok s" and "servers s = w # ws"
  shows "least_load s = Inr (Slot (table_gen s) 0, s)"
proof -
  have "(of_nat (length (servers s)) :: u16) \<noteq> 0"
    using assms(2) table_ok_count(1,2) [OF assms(1)] by auto
  then show ?thesis
    using getfs_index_run [OF assms(1), of 0] assms(2)
    by (simp add: least_load_def cbind_def table_count_run [OF assms(1)] ref_of_def)
qed

text \<open>An answer that holds the number \<open>v\<close> and fits into the buffer of the master.\<close>

definition reports :: "string \<Rightarrow> int \<Rightarrow> bool" where
  "reports bs v \<longleftrightarrow> length bs \<le> 50 \<and> header_size + unat (wire_len bs) \<le> length bs \<and>
     wire_body bs = show_int v \<and> - (2 ^ 63) \<le> v \<and> v < 2 ^ 63"

lemma answer_then:
  assumes wf: "wf_mem s" and clean: "clean_mem s" and u: "io_mem s u"
    and b: "live u (Ptr b 0)" "next_id s \<le> b"
    and d: "descriptor (fds u) (fd c) = Some k" "incoming k = Arrives bs # q" and r: "reports bs v"
    and Q: "\<And>x. \<lbrakk>io_mem s x; net x = net u; effects (trace x) = effects (trace u) @ [Closed (fd c)];
        \<And>i. i \<noteq> fd c \<Longrightarrow> descriptor (fds x) i = descriptor (fds u) i\<rbrakk> \<Longrightarrow> Q v x"
  shows "wp (cseq (free (Ptr b 0)) (cbind (written_bytes B c) (\<lambda>n. cbind (conn_close B c) (\<lambda>_. cret n)))) Q u"
proof -
  let ?u = "del_block b u"
  have m: "io_mem s ?u" by (rule io_mem_free [OF wf u b(2)])
  have "wp (written_bytes B c) (\<lambda>n. wp (cbind (conn_close B c) (\<lambda>_. cret n)) Q) ?u"
  proof (rule written_bytes_then [OF io_mem_wf [OF m] clean_mgrows [OF io_mem_mgrows [OF m] clean] _ d(2)])
    fix x assume x: "io_mem ?u x" "net x = net ?u" "effects (trace x) = effects (trace ?u)"
      "fds x = (fds ?u)[nat (fd c) := Some (k\<lparr>incoming := q\<rparr>)]"
    have mx: "io_mem s x" by (rule io_mem_trans [OF m x(1)])
    show "wp (cbind (conn_close B c) (\<lambda>_. cret v)) Q x"
      unfolding wp_cbind
      by (rule conn_close_then [OF io_mem_wf [OF mx]])
        (use x io_mem_trans [OF mx] descriptor_nonneg [OF d(1)] in
          \<open>simp add: wp_cret Q descriptor_update\<close>)
  qed (use d r in \<open>simp_all add: reports_def\<close>)
  then show ?thesis using b(1) by (simp add: wp_cseq wp_free wp_cbind del: live.simps)
qed

lemma deliver_then:
  assumes wf: "wf_mem s" and clean: "clean_mem s" and u: "io_mem s u"
    and b: "live u (Ptr b 0)" "next_id s \<le> b" "cstring u (Ptr b 0) = Some t"
    and p: "msg_len p = of_nat (length t)" "peek u (arg p) (length t) = Some t"
    and len: "length t + 1 < 2 ^ 32" and room: "\<And>j. 18 \<le> spare s j + room s j"
    and d: "descriptor (fds u) (fd c) = Some k" "accepts k" "incoming k = Arrives bs # q"
    and r: "reports bs v"
    and Q: "\<And>leak x. \<lbrakk>io_mem s x; net x = net u; length leak = 19;
        effects (trace x) = effects (trace u) @ [Sent (fd c) (peer k) (wire p t @ leak), Closed (fd c)];
        \<And>i. i \<noteq> fd c \<Longrightarrow> descriptor (fds x) i = descriptor (fds u) i\<rbrakk> \<Longrightarrow> Q v x"
  shows "wp (cbind (p_encode p) (\<lambda>pk. cbind (strlen (Ptr b 0)) (\<lambda>n.
    cseq (conn_write B c pk (n + sizeof_packet + 1)) (cseq (free (Ptr b 0))
      (cbind (written_bytes B c) (\<lambda>n. cbind (conn_close B c) (\<lambda>_. cret n))))))) Q u"
  unfolding wp_cbind [of "p_encode p"]
proof (rule encoded_then [OF io_mem_wf [OF u], where n = "length t + 41"])
  have n: "unat (msg_len p) = length t" using len unat_length [of t] by (simp add: p(1))
  show "msg_len p \<noteq> - 1"
    using n len by (auto simp: unsigned_minus_1_eq_mask mask_eq_exp_minus_1)
  show "peek u (arg p) (unat (msg_len p)) = Some t" using p(2) n by simp
  show "22 + unat (msg_len p) \<le> length t + 41" using n by simp
  show "length t + 41 \<le> 23 + unat (msg_len p) + spare u (next_id u) + room u (next_id u)"
    using n room [of "next_id u"] by (simp add: mgrows_oracles [OF io_mem_mgrows [OF u]])
  fix leak a x
  assume x: "grows u x" "length leak = length t + 41 - (22 + unat (msg_len p))"
    "peek x (Ptr a 0) (length t + 41) = Some (wire p t @ leak)"
  have mx: "io_mem s x" by (rule io_mem_grows [OF u x(1)])
  have "wp (conn_write B c (Ptr a 0) (length t + 41)) (\<lambda>_. wp (cseq (free (Ptr b 0))
      (cbind (written_bytes B c) (\<lambda>n. cbind (conn_close B c) (\<lambda>_. cret n)))) Q) x"
  proof (rule conn_write_then [OF _ d(2) x(3)])
    show dx: "descriptor (fds x) (fd c) = Some k" using d(1) by (simp add: grows_os [OF x(1)])
    fix y
    assume y: "io x y" "fds y = fds x" "net y = net x"
      "effects (trace y) = effects (trace x) @ [Sent (fd c) (peer k) (wire p t @ leak)]"
    have my: "io_mem s y" by (rule io_mem_io [OF mx y(1)])
    have lv: "live y (Ptr b 0)"
      using grows_live [OF x(1) b(1)] y(1) by (simp add: io_def same_mem_def)
    show "wp (cseq (free (Ptr b 0)) (cbind (written_bytes B c)
        (\<lambda>n. cbind (conn_close B c) (\<lambda>_. cret n)))) Q y"
      by (rule answer_then [OF wf clean my lv b(2) _ d(3) r])
        (use dx y x(2) n in \<open>auto simp: grows_os [OF x(1)] intro!: Q\<close>)
  qed
  then show "wp (cbind (strlen (Ptr b 0)) (\<lambda>n. cseq (conn_write B c (Ptr a 0) (n + sizeof_packet + 1))
      (cseq (free (Ptr b 0)) (cbind (written_bytes B c) (\<lambda>n. cbind (conn_close B c) (\<lambda>_. cret n)))))) Q x"
    using grows_cstring [OF x(1) b(3)]
    by (simp add: wp_cbind wp_strlen wp_cseq sizeof_packet_def add.commute wp_funs del: cstring.simps)
qed

lemma wire_arg: "wire (p\<lparr>arg := a\<rparr>) t = wire p t"
  by (simp add: wire_def)

lemma worker_write_then:
  fixes s :: "'z tables_scheme"
  assumes wf: "wf_mem s" and clean: "clean_mem s" and ok: "table_ok s" and ws: "servers s = w # ws"
    and f: "cstring s file = Some f" and x: "cstring s data = Some x"
    and a: "cstring s (ip w) = Some a" "inet_pton4 a"
    and net: "net s = Opens d # rs" "accepts d" "incoming d = Arrives bs # q"
    and len: "length f + length x + 2 < 2 ^ 32" and room: "\<And>j. 18 \<le> spare s j + room s j"
    and r: "reports bs v"
    and Q: "\<And>leak u. \<lbrakk>io_mem s u; net u = rs; length leak = 19; effects (trace u) = effects (trace s) @
        [Sent (int (lowest_free (fds s))) (Host a (port w)) (wire_msg 0 WRITE (MASTER_TKN B) (f @ CHR '';'' # x) @ leak),
         Closed (int (lowest_free (fds s)))];
        \<And>i. i \<noteq> int (lowest_free (fds s)) \<Longrightarrow> descriptor (fds u) i = descriptor (fds s) i\<rbrakk> \<Longrightarrow> Q v u"
  shows "wp (worker_write B file data) Q s"
proof -
  let ?t = "f @ CHR '';'' # x" and ?b = "next_id s" and ?n = "length f + length x + 2"
  let ?s = "add_block (filled ?n (?t @ [NUL]) s) s"
  have no: "NUL \<notin> set ?t" using cstring_no_nul [OF f] cstring_no_nul [OF x] by auto
  have g: "grows s ?s" by (rule grows_filled [OF wf]) simp
  have cs: "cstring ?s (Ptr ?b 0) = Some ?t" by (rule cstring_filled_nul [OF no])
  have tx: "text_of (add_block (fresh_block ?n s) s) [PStr file, Txt '';'', PStr data] = Some ?t"
    using wf f x by simp
  let ?K = "\<lambda>p. cbind (deref (Slot (table_gen s) 0)) (\<lambda>server.
        cbind (client_init (ip server) (port server)) (\<lambda>worker.
        cbind (p_encode (attach_token (MASTER_TKN B) p)) (\<lambda>pk.
        cbind (strlen (Ptr ?b 0)) (\<lambda>n.
        cseq (conn_write B worker pk (n + sizeof_packet + 1))
        (cseq (free (Ptr ?b 0))
        (cbind (written_bytes B worker) (\<lambda>bs. cbind (conn_close B worker) (\<lambda>_. cret bs))))))))"
  have "wp (p_init 0 (Ptr ?b 0) WRITE) (\<lambda>p. wp (?K p) Q) ?s"
  proof (rule wp_p_init [OF grows_wf [OF g] cs])
    fix c t
    assume t: "grows ?s t" "peek t (Ptr c 0) (length ?t) = Some ?t"
    let ?p = "\<lparr>seq_number = 0, arg = Ptr c 0, msg_len = of_nat (length ?t), pk_error = 0,
       token = 0, msg_type = WRITE\<rparr> :: packet"
    have gt: "grows s t" by (rule grows_trans [OF g t(1)])
    have tab: "table_ok t" "servers t = w # ws" using table_ok_grows [OF gt] ok ws by simp_all
    have gen: "table_gen t = table_gen s" by (rule tables_more(3) [OF logst_more(2) [OF grows_os(4) [OF gt]]])
    have "wp (client_init (ip w) (port w)) (\<lambda>c. wp (cbind (p_encode (attach_token (MASTER_TKN B) ?p)) (\<lambda>pk.
        cbind (strlen (Ptr ?b 0)) (\<lambda>n. cseq (conn_write B c pk (n + sizeof_packet + 1))
        (cseq (free (Ptr ?b 0)) (cbind (written_bytes B c)
          (\<lambda>bs. cbind (conn_close B c) (\<lambda>_. cret bs))))))) Q) t"
    proof (rule client_init_then [OF grows_wf [OF gt] grows_cstring [OF gt a(1)] a(2)])
      show "net t = Opens d # rs" using net(1) by (simp add: grows_os [OF gt])
      fix m u
      assume u: "io_mem t u" "net u = rs" "trace u = trace t"
        "fds u = install (lowest_free (fds t)) (d\<lparr>peer := Host a (port w)\<rparr>) (fds t)"
      have su: "io_mem s u" by (rule io_mem_trans [OF grows_io_mem [OF gt] u(1)])
      have ft: "fds t = fds s" "trace t = trace s" by (simp_all add: grows_os [OF gt])
      show "wp (cbind (p_encode (attach_token (MASTER_TKN B) ?p)) (\<lambda>pk. cbind (strlen (Ptr ?b 0)) (\<lambda>n.
          cseq (conn_write B \<lparr>c_error = 0, error_msg = m, fd = int (lowest_free (fds t)), max_bytes = 0\<rparr> pk
            (n + sizeof_packet + 1)) (cseq (free (Ptr ?b 0)) (cbind (written_bytes B
            \<lparr>c_error = 0, error_msg = m, fd = int (lowest_free (fds t)), max_bytes = 0\<rparr>)
            (\<lambda>bs. cbind (conn_close B \<lparr>c_error = 0, error_msg = m, fd = int (lowest_free (fds t)),
              max_bytes = 0\<rparr>) (\<lambda>_. cret bs))))))) Q u"
      proof (rule deliver_then [OF wf clean su, where t = ?t and k = "d\<lparr>peer := Host a (port w)\<rparr>"])
        show "live u (Ptr ?b 0)"
          by (rule mgrows_live [OF io_mem_mgrows [OF u(1)] grows_live [OF t(1)]]) simp
        show "cstring u (Ptr ?b 0) = Some ?t"
          by (rule mgrows_cstring [OF io_mem_mgrows [OF u(1)] grows_cstring [OF t(1) cs]])
        show "peek u (arg (attach_token (MASTER_TKN B) ?p)) (length ?t) = Some ?t"
          using mgrows_peek [OF io_mem_mgrows [OF u(1)] t(2)] by (simp add: attach_token_def)
        fix leak y
        assume y: "io_mem s y" "net y = net u" "length leak = 19" "effects (trace y) =
            effects (trace u) @ [Sent (fd \<lparr>c_error = 0, error_msg = m, fd = int (lowest_free (fds t)),
              max_bytes = 0\<rparr>) (peer (d\<lparr>peer := Host a (port w)\<rparr>)) (wire (attach_token (MASTER_TKN B) ?p) ?t @ leak),
            Closed (fd \<lparr>c_error = 0, error_msg = m, fd = int (lowest_free (fds t)), max_bytes = 0\<rparr>)]"
          and other: "\<And>i. i \<noteq> fd \<lparr>c_error = 0, error_msg = m, fd = int (lowest_free (fds t)),
              max_bytes = 0\<rparr> \<Longrightarrow> descriptor (fds y) i = descriptor (fds u) i"
        have "wire (attach_token (MASTER_TKN B) ?p) ?t = wire_msg 0 WRITE (MASTER_TKN B) ?t"
          by (simp add: wire_msg_def attach_token_def wire_def)
        then show "Q v y" using y u(2-4) ft other
          by (intro Q [where leak = leak]) (simp_all add: descriptor_install_other)
      qed (use len room net u(4) r in \<open>simp_all add: attach_token_def\<close>)
    qed
    then show "wp (?K ?p) Q t"
      using deref_run [OF tab(1), of 0] tab(2) by (simp add: wp_cbind wp_eq gen)
  qed
  then show ?thesis
    using least_load_run [OF ok ws] wf f x
    by (simp add: worker_write_def wp_cbind wp_eq wp_strlen wp_malloc wp_cseq wp_sprintf wp_format tx
        wp_funs filled_def)
qed

section \<open>A round of the manager thread\<close>

lemma round_fault:
  fixes s :: "'z tables_scheme"
  assumes ok: "log_ok s" "table_ok s" and ws: "servers s = w # ws"
    and a: "ip w = Ptr b j" "cstring s (ip w) = Some a" "length a \<le> 15" "inet_pton4 a"
      "log_msg s \<noteq> Ptr b 0"
    and net: "net s = Opens d # rs" "accepts d"
    and room: "\<And>j. 27 \<le> spare s j + room s j"
    and H: "\<And>c (x :: 'z tables_scheme). \<lbrakk>wf_mem x; mutex_held x;
        descriptor (fds x) (fd c) = Some (d\<lparr>peer := Host a (port w)\<rparr>); spare x = spare s\<rbrakk>
      \<Longrightarrow> handle_ping_response B c w x = Inl e"
  shows "admin_round B s = Inl e"
  unfolding admin_round_def
proof (rule for_each_first_fault [OF ok(2)])
  let ?s = "s\<lparr>mutex_held := True\<rparr>"
  have t: "server_table s = map Some (w # ws)" using table_ok_cells [OF ok(2)] ws by simp
  show "ping_server B (Slot (table_gen s) 0) ?s = Inl e"
  proof (rule ping_fault [OF _ _ _ a(1) _ a(3,4) _ _ net(2)])
    show "log_ok ?s" using ok(1) by (simp add: log_ok_def wf_mem_def)
    show "deref (Slot (table_gen s) 0) ?s = Inr (w, ?s)" by (simp add: read_slot_def t)
    show "cstring ?s (ip w) = Some a" using a(1,2) by simp
  qed (use a net room H in simp_all)
qed (simp add: ws)

lemma round_deadlocks:
  assumes "log_ok s" "table_ok s" and "servers s = w # ws"
    and "ip w = Ptr b j" "cstring s (ip w) = Some a" "length a \<le> 15" "inet_pton4 a"
      "log_msg s \<noteq> Ptr b 0"
    and "net s = Opens d # rs" "silent d"
    and "\<And>j. 27 \<le> spare s j + room s j"
  shows "admin_round B s = Inl Deadlock"
proof (rule round_fault [OF assms(1-9)])
  show "accepts d" using assms(10) by (simp add: silent_def)
  fix c :: conn and x :: "'z tables_scheme"
  assume x: "wf_mem x" "mutex_held x" "descriptor (fds x) (fd c) = Some (d\<lparr>peer := Host a (port w)\<rparr>)"
  show "handle_ping_response B c w x = Inl Deadlock"
    by (rule no_response [OF x]) (simp add: assms(10))
qed (rule assms(11))

section \<open>Properties\<close>

text \<open>A state of the master for examples: memory that is zero, and one address in block 0.\<close>

definition sample_master :: "file_server list \<Rightarrow> sock option list \<Rightarrow> outcome list \<Rightarrow> master" where
  "sample_master xs ds script = \<lparr>blocks = [0 \<mapsto> \<lparr>usable = 10, bytes = ''127.0.0.1'' @ [NUL], on_heap = True\<rparr>],
     next_id = 1, junk = (\<lambda>_ _. NUL), spare = (\<lambda>_. 0), room = (\<lambda>_. 64),
     fds = ds, net = script, trace = [], log_msg = Null,
     server_table = map Some xs, server_count = of_nat (length xs), table_gen = 0,
     mutex_held = False, update_time = 60, worker_id = 1\<rparr>"

definition sample_worker :: file_server where
  "sample_worker = \<lparr>srv_id = 1, srv_size = 0, ip = Ptr 0 0, port = 55443\<rparr>"

text \<open>Another one on the same machine.\<close>

definition other_worker :: file_server where
  "other_worker = \<lparr>srv_id = 2, srv_size = 0, ip = Ptr 0 0, port = 55444\<rparr>"

lemma sample_master_simps [simp]:
  "wf_mem (sample_master xs ds script)" "log_ok (sample_master xs ds script)"
  "clean_mem (sample_master xs ds script)" "servers (sample_master xs ds script) = xs"
  "length xs < 65536 \<Longrightarrow> table_ok (sample_master xs ds script)"
  "fds (sample_master xs ds script) = ds" "net (sample_master xs ds script) = script"
  "trace (sample_master xs ds script) = []" "log_msg (sample_master xs ds script) = Null"
  "spare (sample_master xs ds script) j = 0" "room (sample_master xs ds script) j = 64"
  "cstring (sample_master xs ds script) (ip sample_worker) = Some ''127.0.0.1''"
  "cstring (sample_master xs ds script) (ip other_worker) = Some ''127.0.0.1''"
  "worker_id (sample_master xs ds script) = 1"
  by (auto simp: sample_master_def wf_mem_def log_ok_def clean_mem_def servers_def table_ok_def
      comp_def unsigned_of_nat take_bit_nat_eq_self sample_worker_def other_worker_def)

lemma sample_addresses:
  "addresses (sample_master [] ds script) = []"
  "addresses (sample_master (sample_worker # ws) ds script) =
     (''127.0.0.1'', 55443) # addresses (sample_master ws ds script)"
  "addresses (sample_master (other_worker # ws) ds script) =
     (''127.0.0.1'', 55444) # addresses (sample_master ws ds script)"
proof -
  have c: "cstring (sample_master xs ds script) p = cstring (sample_master [] [] []) p" for xs p
    by (cases p) (simp_all add: sample_master_def)
  have a: "addresses (sample_master xs ds script) =
      map (\<lambda>w. (the (cstring (sample_master [] [] []) (ip w)), port w)) xs" for xs
    by (simp add: addresses_def c [of xs] del: cstring.simps)
  have p: "port sample_worker = 55443" "port other_worker = 55444"
    by (simp_all add: sample_worker_def other_worker_def)
  show "addresses (sample_master [] ds script) = []"
    "addresses (sample_master (sample_worker # ws) ds script) =
       (''127.0.0.1'', 55443) # addresses (sample_master ws ds script)"
    "addresses (sample_master (other_worker # ws) ds script) =
       (''127.0.0.1'', 55444) # addresses (sample_master ws ds script)"
    by (simp_all add: a p del: cstring.simps)
qed

lemma sample_address: "inet_pton4 ''127.0.0.1''"
  by (simp add: inet_pton4_def octet_def is_digit_def Let_def)

text \<open>
  C24. When the first worker of the table accepts the ping but does not answer it, the
  manager thread stops for ever: the answer is handled while \<^verbatim>\<open>for_each_server\<close> holds the
  mutex, and \<^verbatim>\<open>remove_server\<close> locks it again.
\<close>

theorem silent_worker_deadlocks:
  assumes "log_ok s" and "table_ok s" and "servers s = w # ws" and "ip w = Ptr b j"
    and "cstring s (ip w) = Some a" and "length a \<le> 15" and "inet_pton4 a" and "log_msg s \<noteq> Ptr b 0"
    and "net s = Opens d # rs" and "silent d" and "\<And>j. 27 \<le> spare s j + room s j"
  shows "admin_round B s = Inl Deadlock"
  using assms by (rule round_deadlocks)

theorem silent_worker_deadlocks_witness:
  "admin_round test_build (sample_master [sample_worker] []
     [Opens \<lparr>incoming = [Timeout], accepts = True, peer = Caller\<rparr>]) = Inl Deadlock"
proof (rule silent_worker_deadlocks)
  show "ip sample_worker = Ptr 0 0" by (simp add: sample_worker_def)
  show "cstring (sample_master [sample_worker] [] [Opens \<lparr>incoming = [Timeout], accepts = True, peer = Caller\<rparr>])
      (ip sample_worker) = Some ''127.0.0.1''" by (rule sample_master_simps)
  show "inet_pton4 ''127.0.0.1''" by (rule sample_address)
  show "net (sample_master [sample_worker] [] [Opens \<lparr>incoming = [Timeout], accepts = True, peer = Caller\<rparr>]) =
      Opens \<lparr>incoming = [Timeout], accepts = True, peer = Caller\<rparr> # []" by simp
qed (simp_all add: silent_def)

end
