(* ===== verification/Master_Facts.thy ===== *)
theory Master_Facts
  imports Admin_Facts
begin

text \<open>
  What the master promises: registrations, requests without and with workers, and the
  search for a separator. The effects of a request are the trace without the messages
  that only the verbose builds print.
\<close>

section \<open>Steps of the handler\<close>

lemma say_text_then:
  assumes ok: "log_ok s" and lt: "lt \<noteq> BadKind" and no: "NUL \<notin> set m" and len: "length m < 900"
    and Q: "\<And>t. \<lbrakk>log_frame s t; effects (trace t) = effects (trace s)\<rbrakk> \<Longrightarrow> Q () t"
  shows "wp (say_text B lt m) Q s"
proof (cases "verbose B")
  case True
  have "wp (logger lt COMP_MASTER (Txt m)) (\<lambda>_. Q ()) s"
    by (rule logger_then [OF ok _ lt]) (use no len Q in auto)
  with True show ?thesis by (simp add: say_text_def wp_cwhen wp_cseq wp_cskip wp_funs)
next
  case False
  then show ?thesis using Q [OF log_frame_refl [OF ok]] by (simp add: say_text_def wp_simps)
qed

lemma master_more:
  assumes "tables.more t = tables.more s"
  shows "worker_id t = worker_id s"
  using assms by (cases s, cases t, simp)

lemma master_io:
  assumes "io_mem s t"
  shows "worker_id t = worker_id s" "log_msg t = log_msg s" "servers t = servers s"
    "table_ok t = table_ok s"
proof -
  have o: "os.more t = os.more s" using assms by (simp add: io_mem_def)
  show "worker_id t = worker_id s" by (rule master_more [OF tables_more(5) [OF logst_more(2) [OF o]]])
  show "log_msg t = log_msg s" by (rule logst_more(1) [OF o])
  show "servers t = servers s" "table_ok t = table_ok s" using table_ok_io [OF assms] by auto
qed

lemma master_log_frame:
  assumes "log_frame s t"
  shows "worker_id t = worker_id s" "servers t = servers s" "table_ok t = table_ok s"
proof -
  have l: "logst.more t = logst.more s" using assms by (simp add: log_frame_def)
  show "worker_id t = worker_id s" by (rule master_more [OF tables_more(5) [OF l]])
  show "servers t = servers s" "table_ok t = table_ok s" using table_ok_more [OF l] by auto
qed

lemma master_del_block [simp]:
  "servers (del_block b s) = servers s" "table_ok (del_block b s) = table_ok s"
  by (simp_all add: servers_def table_ok_def)

text \<open>
  What the requests leave as it is: the blocks of memory that are not the buffer of the logger, and
  the buffer stays one.
\<close>

definition retains :: "'z logst_scheme \<Rightarrow> 'z logst_scheme \<Rightarrow> bool" where
  "retains s t \<longleftrightarrow> log_ok t \<and> next_id s \<le> next_id t \<and> junk t = junk s \<and> spare t = spare s \<and> room t = room s \<and>
     (log_msg s \<noteq> Null \<longrightarrow> log_msg t = log_msg s) \<and>
     (\<forall>b k. blocks s b = Some k \<and> log_msg s \<noteq> Ptr b 0 \<longrightarrow> blocks t b = Some k \<and> log_msg t \<noteq> Ptr b 0)"

lemma retains_trans [trans]: "retains s t \<Longrightarrow> retains t u \<Longrightarrow> retains s u"
  unfolding retains_def by (intro conjI allI impI) (metis le_trans)+

lemma retains_mgrows: "log_ok s \<Longrightarrow> mgrows s t \<Longrightarrow> log_msg t = log_msg s \<Longrightarrow> retains s t"
  by (auto simp: retains_def mgrows_def log_ok_def)

lemma retains_io: "log_ok s \<Longrightarrow> io_mem s t \<Longrightarrow> retains s t"
  using logst_more(1) [of t s] by (intro retains_mgrows) (simp_all add: io_mem_def)

lemma retains_log: "log_frame s t \<Longrightarrow> retains s t"
  by (simp add: retains_def log_frame_def)

lemma retains_free:
  assumes "retains s t" and "wf_mem s" and "next_id s \<le> b" and "log_msg t \<noteq> Ptr b 0"
  shows "retains s (del_block b t)"
  using assms wf_mem_fresh [OF assms(2,3)] wf_del_block [of t b] by (auto simp: retains_def log_ok_def)

lemma retains_cstring:
  assumes "retains s t" and "cstring s (Ptr b i) = Some x" and "log_msg s \<noteq> Ptr b 0"
  shows "cstring t (Ptr b i) = Some x" "log_msg t \<noteq> Ptr b 0"
  using assms by (auto simp: retains_def split: option.splits)

lemma retains_ok:
  assumes "retains s t"
  shows "log_ok t" "wf_mem t" "clean_mem s \<Longrightarrow> clean_mem t" "spare t = spare s" "room t = room s"
  using assms by (simp_all add: retains_def log_ok_def clean_mem_def)

text \<open>A request to register that does not come from a worker.\<close>

lemma register_ignored:
  assumes wf: "wf_mem s" and log: "log_ok s" and p: "has_packet c READ_SZ bs s"
    and ty: "wire_type bs = REGISTER" and tok: "wire_token bs \<noteq> WORKER_TKN B"
  shows "wp (handle_client B c) (\<lambda>_ t. retains s t \<and> servers t = servers s \<and> table_ok t = table_ok s \<and>
      worker_id t = worker_id s \<and> net t = net s \<and> effects (trace t) = effects (trace s)) s"
    (is "wp _ ?Q s")
proof (rule handle_client_then [OF wf p])
  fix b a t
  assume t: "io_mem s t" "net t = net s" "effects (trace t) = effects (trace s)"
    "next_id s \<le> b" "live t (Ptr b 0)"
  have lok: "log_ok t" by (rule log_ok_io [OF log t(1)])
  have ne: "log_msg t \<noteq> Ptr b 0"
    using log_ok_below [OF log t(4)] by (simp add: master_io [OF t(1)])
  have "wp (say_text B WARNING ''Non-worker attempted to register.'') (\<lambda>_. wp (free (Ptr b 0)) ?Q) t"
  proof (rule say_text_then [OF lok])
    fix u assume u: "log_frame t u" "effects (trace u) = effects (trace t)"
    note lv = log_frame_live [OF u(1) t(5) ne]
    have "retains s u" by (rule retains_trans [OF retains_io [OF log t(1)] retains_log [OF u(1)]])
    then have "retains s (del_block b u)" by (rule retains_free [OF _ wf t(4) lv(2)])
    moreover have "net u = net t" using u(1) by (simp add: log_frame_def)
    ultimately show "wp (free (Ptr b 0)) ?Q u"
      using lv(1) t u(2)
      by (simp add: wp_free master_log_frame [OF u(1)] master_io [OF t(1)] del: live.simps)
  qed simp_all
  then show "wp (serve_packet B c (Ptr b 0) (decoded bs (Ptr a 0))) ?Q t"
    using ty tok by (simp add: serve_packet_def decoded_def wp_cbind wp_cret wp_cseq wp_funs)
qed

lemma register_refused:
  assumes wf: "wf_mem s" and log: "log_ok s" and p: "has_packet c READ_SZ bs s"
    and ty: "wire_type bs = REGISTER" and tok: "wire_token bs \<noteq> WORKER_TKN B"
  shows "wp (handle_client B c) (\<lambda>_ t. servers t = servers s \<and> table_ok t = table_ok s \<and>
      worker_id t = worker_id s \<and> net t = net s \<and> effects (trace t) = effects (trace s)) s"
  by (rule wp_mono [OF register_ignored [OF assms]]) simp

text \<open>A request when no worker is registered.\<close>

lemma unavailable_sent:
  assumes wf: "wf_mem s" and ok: "table_ok s" and none: "servers s = []"
    and p: "has_packet c READ_SZ bs s" and ty: "wire_type bs \<noteq> REGISTER"
  shows "wp (handle_client B c) (\<lambda>_ t. io_mem s t \<and> net t = net s \<and>
      effects (trace t) = effects (trace s) @ [Sent (fd c) Caller (''Service unavailable.'' @ [NUL])]) s"
    (is "wp _ ?Q s")
proof (rule handle_client_then [OF wf p])
  fix b a t
  assume t: "io_mem s t" "effects (trace t) = effects (trace s)" "live t (Ptr b 0)" "net t = net s" "next_id s \<le> b"
    and d: "\<exists>k. descriptor (fds t) (fd c) = Some k \<and> accepts k \<and> peer k = Caller"
  obtain k where k: "descriptor (fds t) (fd c) = Some k" "accepts k" "peer k = Caller" using d by blast
  define m where "m = ''Service unavailable.''"
  let ?t = "add_block (lit_block m t) t"
  have t0: "table_ok t" "servers t = []" using ok none by (simp_all add: master_io [OF t(1)])
  have io2: "io_mem t ?t"
    using io_mem_wf [OF t(1)] by (simp add: io_mem_def lit_block_def mgrows_add_block mgrows_refl)
  have m21: "peek ?t (Ptr (next_id t) 0) 21 = Some (m @ [NUL])"
    by (simp add: lit_block_def m_def)
  have "wp (conn_write B c (Ptr (next_id t) 0) 21) (\<lambda>_. wp (free (Ptr b 0)) ?Q) ?t"
  proof (rule conn_write_then [OF _ k(2) m21, unfolded k(3)])
    show "descriptor (fds ?t) (fd c) = Some k" using k(1) by simp
    fix u assume u: "io ?t u" "net u = net ?t" "effects (trace u) = effects (trace ?t) @ [Sent (fd c) Caller (m @ [NUL])]"
    have tu: "io_mem t u" by (rule io_mem_io [OF io2 u(1)])
    have "live u (Ptr b 0)" using mgrows_live [OF io_mem_mgrows [OF tu] t(3)] .
    moreover have "io_mem s (del_block b u)" by (rule io_mem_free [OF wf io_mem_trans [OF t(1) tu] t(5)])
    ultimately show "wp (free (Ptr b 0)) ?Q u"
      using t(2,4) u(2,3) by (simp add: wp_free m_def del: live.simps)
  qed
  then show "wp (serve_packet B c (Ptr b 0) (decoded bs (Ptr a 0))) ?Q t"
    using ty t0 table_count_run [OF t0(1)]
    by (simp add: serve_packet_def service_available_def worker_count_def decoded_def wp_cbind wp_eq
        wp_literal wp_cret wp_cseq wp_funs flip: m_def)
qed

lemma unavailable_answer:
  assumes wf: "wf_mem s" and ok: "table_ok s" and none: "servers s = []"
    and p: "has_packet c READ_SZ bs s" and ty: "wire_type bs \<noteq> REGISTER"
  shows "wp (handle_client B c) (\<lambda>_ t. servers t = [] \<and> table_ok t \<and> worker_id t = worker_id s \<and>
      effects (trace t) = effects (trace s) @ [Sent (fd c) Caller (''Service unavailable.'' @ [NUL])]) s"
  by (rule wp_mono [OF unavailable_sent [OF assms]]) (use ok none in \<open>auto simp: master_io\<close>)

section \<open>Runs that fault\<close>

text \<open>
  The handler up to the decoded packet, as a command of its own: nothing when the read
  fails, otherwise the buffer and the packet.
\<close>

definition received :: "build \<Rightarrow> conn \<Rightarrow> ((ptr \<times> packet) option, 'z) ocmd" where
  "received B client =
     cbind (malloc READ_SZ) (\<lambda>buffer.
     cbind (conn_read B client buffer READ_SZ) (\<lambda>n.
     if n \<le> 0 then cseq (free buffer) (cret None)
     else cbind (p_decode buffer) (\<lambda>p. cret (Some (buffer, p)))))"

lemma handle_client_received:
  "handle_client B c = cbind (received B c)
     (\<lambda>r. case r of None \<Rightarrow> cskip | Some (b, p) \<Rightarrow> serve_packet B c b p)"
  by (rule ext) (simp add: handle_client_def received_def cbind_def cseq_def cret_def cskip_def
      split: sum.split)

lemma received_then:
  assumes wf: "wf_mem s" and p: "has_packet c READ_SZ bs s"
    and Q: "\<And>b a t. \<lbrakk>io_mem s t; net t = net s;
        clean_mem s \<Longrightarrow> NUL \<notin> set (wire_body bs) \<Longrightarrow> cstring t (Ptr a 0) = Some (wire_body bs)\<rbrakk>
      \<Longrightarrow> Q (Some (Ptr b 0, decoded bs (Ptr a 0))) t"
  shows "wp (received B c) Q s"
  unfolding received_def
  by (rule packet_arrives_then [OF wf p]) (simp add: wp_cret Q del: live.simps)

lemma read_crashes:
  assumes wf: "wf_mem s" and ok: "table_ok s" and some: "servers s \<noteq> []"
    and p: "has_packet c READ_SZ bs s" and ty: "wire_type bs = READ"
  shows "handle_client B c s = Inl NullDeref"
  unfolding handle_client_received
proof (rule wp_fault, rule received_then [OF wf p])
  fix b a t assume t: "io_mem s t"
  have ok': "table_ok t" using ok by (simp add: master_io [OF t])
  have "(of_nat (length (servers t)) :: u16) \<noteq> 0"
    using some table_ok_count(2) [OF ok'] table_ok_count(1) [OF ok'] by (auto simp: master_io [OF t])
  then show "(case Some (Ptr b 0, decoded bs (Ptr a 0)) of None \<Rightarrow> cskip
      | Some (b, p) \<Rightarrow> serve_packet B c b p) t = Inl NullDeref"
    using ty table_count_run [OF ok']
    by (simp add: serve_packet_def service_available_def worker_count_def decoded_def handle_request_def
        exec_str_def worker_read_def strlen_def cbind_def cret_def)
qed

section \<open>A worker registers\<close>

lemma registered:
  fixes s :: "'z master_scheme"
  assumes wf: "wf_mem s" and clean: "clean_mem s" and ok: "table_ok s" "length (servers s) < 65535"
    and p: "has_packet c READ_SZ bs s" and ty: "wire_type bs = REGISTER"
    and tok: "wire_token bs = WORKER_TKN B" and body: "wire_body bs = address a prt"
    and a: "CHR '';'' \<notin> set a" "NUL \<notin> set a" "length a < 16" and prt: "prt < 65536"
  shows "wp (handle_client B c) (\<lambda>_ t. mgrows s t \<and> log_msg t = log_msg s \<and> net t = net s \<and>
      table_ok t \<and> worker_id t = worker_id s + 1 \<and> effects (trace t) = effects (trace s) \<and>
      (\<exists>j. next_id s \<le> j \<and> cstring t (Ptr j 0) = Some a \<and> servers t = servers s @
        [\<lparr>srv_id = ucast (worker_id s), srv_size = 0, ip = Ptr j 0, port = of_nat prt\<rparr>])) s"
    (is "wp _ ?Q s")
proof (rule handle_client_then [OF wf p])
  fix b x t
  assume t: "io_mem s t" "effects (trace t) = effects (trace s)" "live t (Ptr b 0)" "net t = net s" "next_id s \<le> b"
    and str: "clean_mem s \<Longrightarrow> NUL \<notin> set (wire_body bs) \<Longrightarrow> cstring t (Ptr x 0) = Some (wire_body bs)"
  have digits: "NUL \<notin> set (show_nat prt)"
    using show_int_no_nul [of "int prt"] by (simp add: show_int_nat)
  have str': "cstring t (Ptr x 0) = Some (address a prt @ [])"
    using str [OF clean] a(2) digits by (simp add: body address_def)
  have "length (address a prt) = unat (wire_len bs)"
    using p by (auto simp: body [symmetric] wire_body_def has_packet_def)
  also have "\<dots> < 2 ^ 32" using unsigned_less [of "wire_len bs"] by simp
  finally have len: "length (address a prt @ []) < 2 ^ 32" by simp
  have clean_t: "clean_mem t" by (rule clean_mgrows [OF io_mem_mgrows [OF t(1)] clean])
  have "wp (register_worker (decoded bs (Ptr x 0))) (\<lambda>_. wp (free (Ptr b 0)) ?Q) t"
  proof (rule register_worker_then [OF io_mem_wf [OF t(1)]])
    fix i and u :: "'z master_scheme"
    assume u: "wf_mem u" "table_ok u" "worker_id u = worker_id t + 1" "trace u = trace t"
      "next_id t \<le> i" "cstring u (Ptr i 0) = Some a"
      "servers u = servers t @ [\<lparr>srv_id = ucast (worker_id t), srv_size = 0, ip = Ptr i 0,
          port = of_nat prt\<rparr>]"
      "mgrows t u" "log_msg u = log_msg t" "net u = net t"
    have "live u (Ptr b 0)" by (rule mgrows_live [OF u(8) t(3)])
    moreover have "b < next_id t" using t(3) by (auto dest: wf_mem_blocks [OF io_mem_wf [OF t(1)]])
    then have "cstring (del_block b u) (Ptr i 0) = Some a" using u(5,6) by simp
    moreover have "mgrows s (del_block b u)"
      by (rule mgrows_del_block [OF mgrows_trans [OF io_mem_mgrows [OF t(1)] u(8)] wf_mem_fresh [OF wf t(5)]])
    moreover have "next_id s \<le> i" using mgrows_next [OF io_mem_mgrows [OF t(1)]] u(5) by simp
    ultimately show "wp (free (Ptr b 0)) ?Q u"
      using u(2-4,7,9,10) t(2,4) by (auto simp: wp_free master_io [OF t(1)] simp del: live.simps cstring.simps)
  next
    show "cstring t (arg (decoded bs (Ptr x 0))) = Some (address a prt @ [])"
      using str' by (simp add: decoded_def)
    show "junk t (Suc (next_id t)) (length a) = NUL" using clean_t by (simp add: clean_mem_def)
  qed (use ok a prt len in \<open>simp_all add: master_io [OF t(1)] stops_digits_def\<close>)
  then show "wp (serve_packet B c (Ptr b 0) (decoded bs (Ptr x 0))) ?Q t"
    using ty tok by (simp add: serve_packet_def wp_cbind wp_cret wp_cseq wp_funs) (simp add: decoded_def)
qed

text \<open>A whole round: a peer connects, is served, and the sockets are closed and opened anew.\<close>

lemma restart_then:
  assumes wf: "wf_mem s"
    and Q: "\<And>g u. \<lbrakk>io_mem s u; net u = net s; descriptor (fds u) g = Some unconnected;
        effects (trace u) = effects (trace s) @ [Closed (fd c), Closed f]\<rbrakk> \<Longrightarrow> Q g u"
  shows "wp (server_restart B c f) Q s"
  unfolding server_restart_def wp_cbind
proof (rule conn_close_then [OF wf])
  fix m u assume u: "io_mem s u" "net u = net s" "effects (trace u) = effects (trace s) @ [Closed (fd c)]"
  then have "io_mem s (u\<lparr>trace := y, fds := x\<rparr>)" for x y by (simp add: io_mem_def)
  then show "wp (cseq (sys_close f) sys_socket) Q u"
    using u by (simp add: wp_simps sys_socket_def Q)
qed

lemma master_round_then:
  assumes wf: "wf_mem s" and f: "descriptor (fds s) f = Some k" and net: "net s = Opens d # rs"
    and H: "\<And>c u. \<lbrakk>io s u; net u = rs; effects (trace u) = effects (trace s);
        fd c = int (lowest_free (fds s)); descriptor (fds u) (fd c) = Some (d\<lparr>peer := Caller\<rparr>)\<rbrakk>
      \<Longrightarrow> wp (handle_client B c) (\<lambda>_ t. wf_mem t \<and> (\<forall>g v. io_mem t v \<longrightarrow> effects (trace v) =
            effects (trace t) @ [Closed (int (lowest_free (fds s))), Closed f] \<longrightarrow> Q g v)) u"
  shows "wp (master_round B f) Q s"
  unfolding master_round_def wp_cbind
proof (rule listen_then [OF f net])
  fix c :: conn and u
  assume u: "io s u" "net u = rs" "effects (trace u) = effects (trace s)"
    "fd c = int (lowest_free (fds s))" "descriptor (fds u) (fd c) = Some (d\<lparr>peer := Caller\<rparr>)" and ok: "c_error c = 0"
  have "wp (handle_client B c) (\<lambda>_. wp (server_restart B c f) Q) u"
    by (rule wp_mono [OF H [OF u]], elim conjE, rule restart_then) (use u(4) in auto)
  then show "wp (if c_error c \<noteq> 0
      then cseq (cwhen (verbose B) (cseq (logger ERROR COMP_MASTER (PStr (error_msg c))) cskip))
        (server_restart B c f)
      else cseq (handle_client B c) (server_restart B c f)) Q u"
    using ok by (simp add: wp_cseq)
qed

lemma round_registers:
  fixes s :: "'z master_scheme"
  assumes wf: "wf_mem s" and clean: "clean_mem s" and ok: "table_ok s" "length (servers s) < 65535"
    and f: "descriptor (fds s) f = Some k" and net: "net s = Opens d # rs"
    and inc: "incoming d = Arrives bs # q" "accepts d"
    and len: "length bs \<le> READ_SZ" "header_size + unat (wire_len bs) \<le> length bs"
    and ty: "wire_type bs = REGISTER" and tok: "wire_token bs = WORKER_TKN B"
    and body: "wire_body bs = address a prt"
    and a: "CHR '';'' \<notin> set a" "NUL \<notin> set a" "length a < 16" and prt: "prt < 65536"
  shows "wp (master_round B f) (\<lambda>_ t. wf_mem t \<and> table_ok t \<and> worker_id t = worker_id s + 1 \<and>
      effects (trace t) = effects (trace s) @ [Closed (int (lowest_free (fds s))), Closed f] \<and>
      (\<exists>i. cstring t i = Some a \<and> servers t = servers s @
        [\<lparr>srv_id = ucast (worker_id s), srv_size = 0, ip = i, port = of_nat prt\<rparr>])) s"
proof (rule master_round_then [OF wf f net])
  fix c :: conn and u :: "'z master_scheme"
  assume u: "io s u" "effects (trace u) = effects (trace s)" "descriptor (fds u) (fd c) = Some (d\<lparr>peer := Caller\<rparr>)"
  have m: "io_mem s u" by (rule io_io_mem [OF wf u(1)])
  have p: "has_packet c READ_SZ bs u" using u(3) inc len by (simp add: has_packet_def)
  show "wp (handle_client B c) (\<lambda>_ t. wf_mem t \<and> (\<forall>g v. io_mem t v \<longrightarrow> effects (trace v) =
          effects (trace t) @ [Closed (int (lowest_free (fds s))), Closed f] \<longrightarrow>
      wf_mem v \<and> table_ok v \<and> worker_id v = worker_id s + 1 \<and>
      effects (trace v) = effects (trace s) @ [Closed (int (lowest_free (fds s))), Closed f] \<and>
      (\<exists>i. cstring v i = Some a \<and> servers v = servers s @
        [\<lparr>srv_id = ucast (worker_id s), srv_size = 0, ip = i, port = of_nat prt\<rparr>]))) u"
    by (rule wp_mono [OF registered [OF io_mem_wf [OF m] clean_mgrows [OF io_mem_mgrows [OF m] clean]
            _ _ p ty tok body a prt]])
      (use ok u in \<open>auto simp: master_io [OF m] master_io(1,3,4) io_mem_wf mgrows_wf mgrows_cstring [OF io_mem_mgrows]
        simp del: cstring.simps\<close>)
qed

section \<open>A client writes a file\<close>

lemma clean_filled:
  assumes "clean_mem s" and "NUL \<notin> set t"
  shows "c_str (bytes (filled (length t) t s)) = Some t"
proof -
  obtain r where "after (length t) s = NUL # r" by (rule clean_after [OF assms(1)])
  then show ?thesis using c_str_nul [OF assms(2)] by (simp add: bytes_filled_exact)
qed

lemma as_size_nat: "n < 2 ^ 64 \<Longrightarrow> as_size (int n) = n"
  by (simp add: as_size_def) (simp only: unsigned_of_nat, simp add: take_bit_nat_eq_self)

text \<open>The argument of a write is split at its first separator.\<close>

lemma exec_long_then:
  assumes wf: "wf_mem s" and clean: "clean_mem s" and a: "cstring s a = Some (f @ CHR '';'' # x)"
    and f: "CHR '';'' \<notin> set f" and len: "length (f @ CHR '';'' # x) < 2 ^ 32"
    and Q: "\<And>p q t. \<lbrakk>grows s t; cstring t p = Some f; cstring t q = Some x\<rbrakk>
      \<Longrightarrow> wp (cbind (if app then worker_append p q else worker_write B p q) long2str) Q t"
  shows "wp (exec_long B (if app then APPEND else WRITE) a) Q s"
proof -
  let ?b = "next_id s" and ?m = "length f" and ?n = "Suc (length x)"
  let ?s1 = "add_block (fresh_block ?m s) s"
  let ?s2 = "add_block (fresh_block ?n ?s1) ?s1"
  let ?s3 = "set_block ?b (filled ?m f s) ?s2"
  let ?s4 = "set_block (Suc ?b) (filled ?n (x @ [NUL]) ?s1) ?s3"
  have new: "blocks s ?b = None" "blocks s (Suc ?b) = None"
    by (rule wf_mem_fresh [OF wf], simp)+
  have g2: "grows s ?s2" by (intro grows_add_block grows_refl wf) simp_all
  have g4: "grows s ?s4"
    by (intro grows_set_block [OF grows_set_block [OF g2 new(1)] new(2)]) simp_all
  have no: "NUL \<notin> set f" "NUL \<notin> set x" using cstring_no_nul [OF a] by auto
  have cf: "cstring ?s4 (Ptr ?b 0) = Some f" using clean_filled [OF clean no(1)] by simp
  have cx: "cstring ?s4 (Ptr (Suc ?b) 0) = Some x" using no(2) by (simp add: bytes_filled c_str_nul)
  have a2: "cstring ?s2 a = Some (f @ CHR '';'' # x)" by (rule grows_cstring [OF g2 a])
  have a3: "cstring ?s3 (padd a (Suc ?m)) = Some x"
    using cstring_drop [OF grows_cstring [OF grows_set_block [OF g2 new(1)] a], of _ "Suc ?m"] by simp
  have n: "as_size (int (Suc (?m + length x)) - int ?m) = ?n" "as_size (int ?m) = ?m"
    using as_size_nat [of ?n] as_size_nat [of ?m] len by simp_all
  have "nat (int ?m + 1) = Suc ?m" by simp
  moreover have "wp (cbind (if app then worker_append (Ptr ?b 0) (Ptr (Suc ?b) 0)
      else worker_write B (Ptr ?b 0) (Ptr (Suc ?b) 0)) long2str) Q ?s4"
    by (rule Q [OF g4 cf cx])
  ultimately show ?thesis
    using wp_char_at [OF a _ len] wp_strncpy_prefix [OF a2, of ?m] cstring_add_block [OF wf a] a3 n
    by (cases app; simp add: exec_long_def wp_cbind wp_malloc wp_strlen wp_cseq wp_strcpy index_of_split [OF f]
        wp_funs filled_def del: wp_strncpy cstring.simps)
qed

lemma exec_long_write_then:
  assumes wf: "wf_mem s" and clean: "clean_mem s" and a: "cstring s a = Some (f @ CHR '';'' # x)"
    and f: "CHR '';'' \<notin> set f" and len: "length (f @ CHR '';'' # x) < 2 ^ 32"
    and Q: "\<And>p q t. \<lbrakk>grows s t; cstring t p = Some f; cstring t q = Some x\<rbrakk>
      \<Longrightarrow> wp (cbind (worker_write B p q) long2str) Q t"
  shows "wp (exec_long B WRITE a) Q s"
  using exec_long_then [OF wf clean a f len, where app = False and Q = Q] Q by simp

lemma long2str_then:
  assumes wf: "wf_mem s" and len: "length (show_int v) < 10"
    and Q: "\<And>p t. \<lbrakk>grows s t; cstring t p = Some (show_int v)\<rbrakk> \<Longrightarrow> Q p t"
  shows "wp (long2str v) Q s"
proof -
  let ?t = "add_block (filled 10 (show_int v @ [NUL]) s) s"
  have "grows s ?t" using len by (intro grows_filled wf) simp
  then have "Q (Ptr (next_id s) 0) ?t" by (rule Q) (rule cstring_filled_nul [OF show_int_no_nul])
  then show ?thesis using len by (simp add: long2str_def wp_simps filled_def)
qed

text \<open>Sending a string with its NUL, as the handler answers.\<close>

lemma reply_then:
  assumes wf: "wf_mem s" and p: "cstring s p = Some t" and b: "live s (Ptr b 0)"
    and d: "descriptor (fds s) (fd c) = Some k" "accepts k" "peer k = Caller"
    and Q: "\<And>u. \<lbrakk>io_mem s u; net u = net s; effects (trace u) = effects (trace s) @ [Sent (fd c) Caller (t @ [NUL])]\<rbrakk>
      \<Longrightarrow> Q () (del_block b u)"
  shows "wp (cbind (strlen p) (\<lambda>m. cseq (conn_write B c p (m + 1)) (free (Ptr b 0)))) Q s"
proof -
  obtain i j k r where "p = Ptr i j" "blocks s i = Some k" "drop j (bytes k) = t @ NUL # r"
    "j + length t < length (bytes k)" by (rule cstring_split [OF p])
  then have pk: "peek s p (length t + 1) = Some (t @ [NUL])" by simp
  have "wp (conn_write B c p (length t + 1)) (\<lambda>_. wp (free (Ptr b 0)) Q) s"
  proof (rule conn_write_then [OF d(1,2) pk, unfolded d(3)])
    fix u assume u: "io s u" "net u = net s" "effects (trace u) = effects (trace s) @ [Sent (fd c) Caller (t @ [NUL])]"
    have m: "io_mem s u" by (rule io_io_mem [OF wf u(1)])
    have "live u (Ptr b 0)" by (rule mgrows_live [OF io_mem_mgrows [OF m] b])
    then show "wp (free (Ptr b 0)) Q u" using m u(2,3) by (simp add: wp_free Q del: live.simps)
  qed
  then show ?thesis by (simp add: wp_cbind wp_strlen p wp_cseq)
qed

text \<open>A request to a master that has workers, up to the answer.\<close>

lemma request_served_then:
  fixes s :: "'z master_scheme"
  assumes wf: "wf_mem s" and ok: "table_ok s" "servers s \<noteq> []"
    and p: "has_packet c READ_SZ bs s" and ty: "wire_type bs \<noteq> REGISTER"
    and Q: "\<And>b y k t. \<lbrakk>io_mem s t; net t = net s; effects (trace t) = effects (trace s); next_id s \<le> b;
        live t (Ptr b 0); descriptor (fds t) (fd c) = Some k; accepts k; peer k = Caller;
        clean_mem s \<Longrightarrow> NUL \<notin> set (wire_body bs) \<Longrightarrow> cstring t (Ptr y 0) = Some (wire_body bs);
        table_ok t; servers t = servers s; length (wire_body bs) + 22 \<le> READ_SZ\<rbrakk> \<Longrightarrow>
      wp (handle_request B (wire_type bs) (Ptr y 0))
        (\<lambda>p. wp (cbind (strlen p) (\<lambda>m. cseq (conn_write B c p (m + 1)) (free (Ptr b 0)))) Q) t"
  shows "wp (handle_client B c) Q s"
proof (rule handle_client_then [OF wf p])
  fix b y and t :: "'z master_scheme"
  assume t: "io_mem s t" "net t = net s" "effects (trace t) = effects (trace s)" "next_id s \<le> b" "live t (Ptr b 0)"
    and d: "\<exists>k. descriptor (fds t) (fd c) = Some k \<and> accepts k \<and> peer k = Caller"
    and str: "clean_mem s \<Longrightarrow> NUL \<notin> set (wire_body bs) \<Longrightarrow> cstring t (Ptr y 0) = Some (wire_body bs)"
  obtain k where k: "descriptor (fds t) (fd c) = Some k" "accepts k" "peer k = Caller" using d by blast
  have len: "length (wire_body bs) + 22 \<le> READ_SZ"
    using p by (auto simp: has_packet_def wire_body_def header_size_def)
  have tab: "table_ok t" "servers t = servers s" using ok by (simp_all add: master_io [OF t(1)])
  have n0: "(of_nat (length (servers t)) :: u16) \<noteq> 0"
    using ok(2) tab(2) table_ok_count(1,2) [OF tab(1)] by auto
  have "wp (handle_request B (wire_type bs) (Ptr y 0))
      (\<lambda>p. wp (cbind (strlen p) (\<lambda>m. cseq (conn_write B c p (m + 1)) (free (Ptr b 0)))) Q) t"
    by (rule Q [OF t k str tab len])
  then show "wp (serve_packet B c (Ptr b 0) (decoded bs (Ptr y 0))) Q t"
    using ty n0 table_count_run [OF tab(1)]
    by (simp add: serve_packet_def service_available_def worker_count_def decoded_def
        wp_cbind wp_eq wp_cret wp_funs)
qed

lemma write_forwarded:
  fixes s :: "'z master_scheme"
  assumes wf: "wf_mem s" and clean: "clean_mem s" and ok: "table_ok s" and ws: "servers s = w # ws"
    and p: "has_packet c READ_SZ bs s" and ty: "wire_type bs = WRITE"
    and body: "wire_body bs = f @ CHR '';'' # x" and f: "CHR '';'' \<notin> set f" "NUL \<notin> set (f @ x)"
    and a: "cstring s (ip w) = Some a" "inet_pton4 a"
    and net: "net s = Opens d # rs" "accepts d" "incoming d = Arrives rep # q"
    and room: "\<And>j. 18 \<le> spare s j + room s j" and r: "reports rep v" "length (show_int v) < 10"
  shows "wp (handle_client B c) (\<lambda>_ t. io_mem s t \<and> net t = rs \<and> (\<exists>g leak. g \<noteq> fd c \<and> length leak = 19 \<and>
      effects (trace t) = effects (trace s) @
        [Sent g (Host a (port w)) (wire_msg 0 WRITE (MASTER_TKN B) (f @ CHR '';'' # x) @ leak), Closed g,
         Sent (fd c) Caller (show_int v @ [NUL])])) s"
    (is "wp _ ?Q s")
proof (rule request_served_then [OF wf ok _ p, unfolded ty])
  fix b y k and t :: "'z master_scheme"
  assume t: "io_mem s t" "net t = net s" "effects (trace t) = effects (trace s)" "live t (Ptr b 0)" "next_id s \<le> b"
    and k: "descriptor (fds t) (fd c) = Some k" "accepts k" "peer k = Caller"
    and str: "clean_mem s \<Longrightarrow> NUL \<notin> set (wire_body bs) \<Longrightarrow> cstring t (Ptr y 0) = Some (wire_body bs)"
    and tab: "table_ok t" "servers t = servers s" and len': "length (wire_body bs) + 22 \<le> READ_SZ"
  let ?t = "f @ CHR '';'' # x"
  have mt: "mgrows s t" by (rule io_mem_mgrows [OF t(1)])
  have str': "cstring t (Ptr y 0) = Some ?t" using str [OF clean] f(2) by (simp add: body)
  have len: "length ?t + 22 \<le> READ_SZ" using len' by (simp add: body)
  have "wp (exec_long B WRITE (Ptr y 0))
      (\<lambda>p. wp (cbind (strlen p) (\<lambda>m. cseq (conn_write B c p (m + 1)) (free (Ptr b 0)))) ?Q) t"
  proof (rule exec_long_write_then [OF mgrows_wf [OF mt] clean_mgrows [OF mt clean] str' f(1)])
    show "length ?t < 2 ^ 32" using len by (simp add: READ_SZ_def)
    fix p1 p2 and u :: "'z master_scheme"
    assume u: "grows t u" "cstring u p1 = Some f" "cstring u p2 = Some x"
    have mu: "mgrows s u" by (rule mgrows_trans [OF mt grows_mgrows [OF u(1)]])
    have lk: "lowest_free (fds u) \<noteq> nat (fd c)"
      using k(1) lowest_free_None [of "fds t"] by (auto simp: grows_os [OF u(1)] descriptor_def split: if_splits)
    then have ne: "fd c \<noteq> int (lowest_free (fds u))" using descriptor_nonneg [OF k(1)] by auto
    show "wp (cbind (worker_write B p1 p2) long2str)
        (\<lambda>p. wp (cbind (strlen p) (\<lambda>m. cseq (conn_write B c p (m + 1)) (free (Ptr b 0)))) ?Q) u"
      unfolding wp_cbind [of "worker_write B p1 p2"]
    proof (rule worker_write_then [OF mgrows_wf [OF mu] clean_mgrows [OF mu clean] _ _ u(2,3) _ a(2)
          _ net(2,3) _ _ r(1)])
      show "table_ok u" "servers u = w # ws" using table_ok_grows [OF u(1)] tab ws by simp_all
      show "cstring u (ip w) = Some a" by (rule mgrows_cstring [OF mu a(1)])
      show "net u = Opens d # rs" using net(1) t(2) by (simp add: grows_os [OF u(1)])
      show "length f + length x + 2 < 2 ^ 32" using len by (simp add: READ_SZ_def)
      show "18 \<le> spare u j + room u j" for j using room [of j] by (simp add: mgrows_oracles [OF mu])
      fix leak and v' :: "'z master_scheme"
      assume v': "io_mem u v'" "length leak = 19" "net v' = rs" "effects (trace v') = effects (trace u) @
          [Sent (int (lowest_free (fds u))) (Host a (port w)) (wire_msg 0 WRITE (MASTER_TKN B) ?t @ leak),
           Closed (int (lowest_free (fds u)))]"
        and other: "\<And>i. i \<noteq> int (lowest_free (fds u)) \<Longrightarrow> descriptor (fds v') i = descriptor (fds u) i"
      show "wp (long2str v) (\<lambda>p. wp (cbind (strlen p) (\<lambda>m. cseq (conn_write B c p (m + 1))
          (free (Ptr b 0)))) ?Q) v'"
      proof (rule long2str_then [OF io_mem_wf [OF v'(1)] r(2)])
        fix p3 and z :: "'z master_scheme" assume z: "grows v' z" "cstring z p3 = Some (show_int v)"
        have lv: "live z (Ptr b 0)"
          by (rule grows_live [OF z(1) mgrows_live [OF io_mem_mgrows [OF v'(1)] grows_live [OF u(1) t(4)]]])
        have dz: "descriptor (fds z) (fd c) = Some k"
          using other [OF ne] k(1) by (simp add: grows_os [OF z(1)] grows_os [OF u(1)])
        have io: "io_mem t z" using io_mem_grows [OF io_mem_trans [OF grows_io_mem [OF u(1)] v'(1)] z(1)] .
        show "wp (cbind (strlen p3) (\<lambda>m. cseq (conn_write B c p3 (m + 1)) (free (Ptr b 0)))) ?Q z"
        proof (rule reply_then [OF grows_wf [OF z(1)] z(2) lv dz k(2,3)])
          fix e :: "'z master_scheme"
          assume e: "io_mem z e" "net e = net z" "effects (trace e) = effects (trace z) @ [Sent (fd c) Caller (show_int v @ [NUL])]"
          have "io_mem s (del_block b e)" by (rule io_mem_free [OF wf io_mem_trans [OF io_mem_trans [OF t(1) io] e(1)] t(5)])
          then show "?Q () (del_block b e)"
            using v'(2-4) e(2,3) ne t(3)
            by (auto simp: grows_os [OF z(1)] grows_os [OF u(1)]
                intro!: exI [of _ "int (lowest_free (fds u))"] exI [of _ leak])
        qed
      qed
    qed
  qed
  then show "wp (handle_request B WRITE (Ptr y 0))
      (\<lambda>p. wp (cbind (strlen p) (\<lambda>m. cseq (conn_write B c p (m + 1)) (free (Ptr b 0)))) ?Q) t"
    by (simp add: handle_request_def)
qed (use ws ty in simp_all)

lemma write_request:
  fixes s :: "'z master_scheme"
  assumes wf: "wf_mem s" and clean: "clean_mem s" and ok: "table_ok s" and ws: "servers s = w # ws"
    and p: "has_packet c READ_SZ bs s" and ty: "wire_type bs = WRITE"
    and body: "wire_body bs = f @ CHR '';'' # x" and f: "CHR '';'' \<notin> set f" "NUL \<notin> set (f @ x)"
    and a: "cstring s (ip w) = Some a" "inet_pton4 a"
    and net: "net s = Opens d # rs" "accepts d" "incoming d = Arrives rep # q"
    and room: "\<And>j. 18 \<le> spare s j + room s j" and r: "reports rep v" "length (show_int v) < 10"
  shows "wp (handle_client B c) (\<lambda>_ t. table_ok t \<and> servers t = servers s \<and>
      worker_id t = worker_id s \<and> (\<exists>g leak. g \<noteq> fd c \<and> length leak = 19 \<and>
      effects (trace t) = effects (trace s) @
        [Sent g (Host a (port w)) (wire_msg 0 WRITE (MASTER_TKN B) (f @ CHR '';'' # x) @ leak), Closed g,
         Sent (fd c) Caller (show_int v @ [NUL])])) s"
  by (rule wp_mono [OF write_forwarded [OF assms]]) (use ok in \<open>auto simp: master_io\<close>)

section \<open>Properties\<close>

lemma sample_has_packet:
  assumes "known_type ty" and "length str \<le> 1000"
  shows "has_packet sample_conn READ_SZ (wire_msg 0 ty tok str)
    (sample_master xs [Some (carries (wire_msg 0 ty tok str))] script)"
  using assms by (simp add: has_packet_def sample_conn_def descriptor_def READ_SZ_def header_size_def unat_length)

text \<open>
  C20. A worker registers: a round in which a peer connects and sends a registration with
  the workers' token and an argument \<^verbatim>\<open>address;port\<close> appends exactly one server to the table,
  with the next identifier, that address and that port, and closes the connection. That
  memory the allocator hands out is zero is needed, because the copies are not terminated.
\<close>

theorem register_adds_worker:
  assumes "wf_mem s" and "clean_mem s" and "table_ok s" and "length (servers s) < 65535"
    and "descriptor (fds s) f = Some k" and "net s = Opens d # rs"
    and "incoming d = Arrives bs # q" and "accepts d"
    and "length bs \<le> READ_SZ" and "header_size + unat (wire_len bs) \<le> length bs"
    and "wire_type bs = REGISTER" and "wire_token bs = WORKER_TKN B"
    and "wire_body bs = address a prt"
    and "CHR '';'' \<notin> set a" and "NUL \<notin> set a" and "length a < 16" and "prt < 65536"
  shows "wp (master_round B f) (\<lambda>_ t. wf_mem t \<and> table_ok t \<and> worker_id t = worker_id s + 1 \<and>
      effects (trace t) = effects (trace s) @ [Closed (int (lowest_free (fds s))), Closed f] \<and>
      (\<exists>i. cstring t i = Some a \<and> servers t = servers s @
        [\<lparr>srv_id = ucast (worker_id s), srv_size = 0, ip = i, port = of_nat prt\<rparr>])) s"
  using assms by (rule round_registers)

definition sample_registration :: string where
  "sample_registration = wire_msg 0 REGISTER 1 (address ''127.0.0.1'' 55443)"

lemma length_sample_address: "length (address ''127.0.0.1'' 55443) = 15"
  by (simp add: address_def show_nat.simps)

lemma sample_registration_simps [simp]:
  "wire_type sample_registration = REGISTER" "wire_token sample_registration = 1"
  "wire_len sample_registration = 15" "length sample_registration = 37"
  "wire_body sample_registration = address ''127.0.0.1'' 55443"
  using length_sample_address
  by (simp_all add: sample_registration_def header_size_def)

theorem register_adds_worker_witness:
  "wp (master_round test_build 0) (\<lambda>_ t. \<exists>i. cstring t i = Some ''127.0.0.1'' \<and>
      servers t = [\<lparr>srv_id = 1, srv_size = 0, ip = i, port = 55443\<rparr>])
     (sample_master [] [Some unconnected] [Opens (carries sample_registration)])"
proof (rule wp_mono [OF register_adds_worker [where a = "''127.0.0.1''" and prt = 55443]])
  show "net (sample_master [] [Some unconnected] [Opens (carries sample_registration)]) =
      Opens (carries sample_registration) # []" by simp
  show "incoming (carries sample_registration) = Arrives sample_registration # []" by simp
  show "descriptor (fds (sample_master [] [Some unconnected] [Opens (carries sample_registration)])) 0 =
      Some unconnected" by (simp add: descriptor_def)
qed (auto simp: READ_SZ_def header_size_def)

text \<open>
  A registration without the workers' token changes nothing: the table, the counter
  and the connections stay as they are, and nothing is sent.
\<close>

theorem register_needs_token:
  assumes "wf_mem s" and "log_ok s" and "has_packet c READ_SZ bs s"
    and "wire_type bs = REGISTER" and "wire_token bs \<noteq> WORKER_TKN B"
  shows "wp (handle_client B c) (\<lambda>_ t. servers t = servers s \<and> table_ok t = table_ok s \<and>
      worker_id t = worker_id s \<and> net t = net s \<and> effects (trace t) = effects (trace s)) s"
  using assms by (rule register_refused)

theorem register_needs_token_witness:
  "wp (handle_client test_build sample_conn) (\<lambda>_ t. servers t = [] \<and> effects (trace t) = [])
     (sample_master [] [Some (carries (wire_msg 0 REGISTER 2 ''127.0.0.1;80''))] [])"
  by (rule wp_mono [OF register_needs_token [OF _ _ sample_has_packet]]) simp_all

text \<open>
  Without workers every request but a registration is answered by the text
  \<^verbatim>\<open>Service unavailable.\<close> with its NUL and by nothing else, and the state is unchanged.
\<close>

theorem no_workers_unavailable:
  assumes "wf_mem s" and "table_ok s" and "servers s = []"
    and "has_packet c READ_SZ bs s" and "wire_type bs \<noteq> REGISTER"
  shows "wp (handle_client B c) (\<lambda>_ t. servers t = [] \<and> table_ok t \<and> worker_id t = worker_id s \<and>
      effects (trace t) = effects (trace s) @ [Sent (fd c) Caller (''Service unavailable.'' @ [NUL])]) s"
  using assms by (rule unavailable_answer)

theorem no_workers_unavailable_witness:
  "wp (handle_client test_build sample_conn)
     (\<lambda>_ t. effects (trace t) = [Sent 0 Caller (''Service unavailable.'' @ [NUL])])
     (sample_master [] [Some (carries (wire_msg 0 LS 0 []))] [])"
proof (rule wp_mono [OF no_workers_unavailable [OF _ _ _ sample_has_packet]])
  show "wire_type (wire_msg 0 LS 0 []) \<noteq> REGISTER" by (subst wire_msg_fields(5)) simp_all
qed (simp_all add: sample_conn_def)

text \<open>
  A request to read a file crashes the master as soon as a worker is registered:
  reading is not implemented, and the handler takes the length of the null pointer that
  stands for the missing result.
\<close>

theorem read_request_crashes:
  assumes "wf_mem s" and "table_ok s" and "servers s \<noteq> []"
    and "has_packet c READ_SZ bs s" and "wire_type bs = READ"
  shows "handle_client B c s = Inl NullDeref"
  using assms by (rule read_crashes)

theorem read_request_crashes_witness:
  "handle_client test_build sample_conn
     (sample_master [sample_worker] [Some (carries (wire_msg 0 READ 0 ''notes.txt''))] []) = Inl NullDeref"
  by (rule read_request_crashes [OF _ _ _ sample_has_packet]) simp_all

text \<open>
  \<^verbatim>\<open>char_at\<close> is the index of the first occurrence of the character, \<open>-1\<close> when there is
  none, for every string that is not empty and whose length is a 32-bit number.
\<close>

theorem char_at_first_index:
  assumes "cstring s p = Some t" and "t \<noteq> []" and "length t < 2 ^ 32"
  shows "char_at p c s = Inr (index_of c t, s)"
  unfolding runs_wp wp_char_at [OF assms] by simp

theorem char_at_first_index_witness:
  "char_at (Ptr 0 0) (CHR '';'') (sample_mem (''a;b;c'' @ [NUL])) = Inr (1, sample_mem (''a;b;c'' @ [NUL]))"
  using char_at_first_index [of "sample_mem (''a;b;c'' @ [NUL])" "Ptr 0 0" "''a;b;c''" "CHR '';''"]
  by (simp add: index_of_def)

text \<open>
  C17. A client writes a file: a request \<^verbatim>\<open>name;data\<close> is passed on to the first worker of the
  table, over a connection to its address and its port, as one packet with the same argument and
  the master's token (the 19 bytes behind it are whatever follows in memory), that connection is
  closed, and the client is sent the number that the worker reports. The split at the first
  separator and its reassembly give the argument back. That memory the allocator hands out is
  zero is needed (\<open>clean_mem\<close>), because the copies of the arguments are not terminated.
\<close>

theorem write_request_forwarded:
  assumes "wf_mem s" and "clean_mem s" and "table_ok s" and "servers s = w # ws"
    and "has_packet c READ_SZ bs s" and "wire_type bs = WRITE"
    and "wire_body bs = f @ CHR '';'' # x" and "CHR '';'' \<notin> set f" and "NUL \<notin> set (f @ x)"
    and "cstring s (ip w) = Some a" and "inet_pton4 a"
    and "net s = Opens d # rs" and "accepts d" and "incoming d = Arrives rep # q"
    and "\<And>j. 18 \<le> spare s j + room s j" and "reports rep v" and "length (show_int v) < 10"
  shows "wp (handle_client B c) (\<lambda>_ t. table_ok t \<and> servers t = servers s \<and>
      worker_id t = worker_id s \<and> (\<exists>g leak. g \<noteq> fd c \<and> length leak = 19 \<and>
      effects (trace t) = effects (trace s) @
        [Sent g (Host a (port w)) (wire_msg 0 WRITE (MASTER_TKN B) (f @ CHR '';'' # x) @ leak), Closed g,
         Sent (fd c) Caller (show_int v @ [NUL])])) s"
  using assms by (rule write_request)

definition sample_answer :: string where
  "sample_answer = wire_msg 1 WRITE 1 ''5''"

lemma show_int_5: "show_int 5 = ''5''"
  by (simp add: show_int_def show_nat.simps digit_def char_of_def bit_0)

lemma sample_answer_reports: "reports sample_answer 5"
  by (simp add: reports_def sample_answer_def header_size_def show_int_5)

theorem write_request_forwarded_witness:
  "wp (handle_client test_build sample_conn) (\<lambda>_ t. \<exists>g leak. length leak = 19 \<and>
      effects (trace t) = [Sent g (Host ''127.0.0.1'' 55443) (wire_msg 0 WRITE 2 ''notes;hello'' @ leak), Closed g,
        Sent 0 Caller (''5'' @ [NUL])])
     (sample_master [sample_worker, other_worker] [Some (carries (wire_msg 0 WRITE 0 ''notes;hello''))]
       [Opens (carries sample_answer)])"
    (is "wp _ _ ?s")
proof (rule wp_mono [OF write_request_forwarded [OF _ _ _ _ sample_has_packet, where f = "''notes''"
      and x = "''hello''" and d = "carries sample_answer" and rep = sample_answer and v = 5 and rs = "[]"
      and a = "''127.0.0.1''" and w = sample_worker and ws = "[other_worker]" and q = "[]"]])
  show "wire_type (wire_msg 0 WRITE 0 ''notes;hello'') = WRITE" by (rule wire_msg_fields(5)) simp
  show "inet_pton4 ''127.0.0.1''" by (rule sample_address)
  show "reports sample_answer 5" by (rule sample_answer_reports)
  show "cstring ?s (ip sample_worker) = Some ''127.0.0.1''" by (rule sample_master_simps)
next
  fix x :: unit and t
  assume "table_ok t \<and> servers t = servers ?s \<and> worker_id t = worker_id ?s \<and>
      (\<exists>g leak. g \<noteq> fd sample_conn \<and> length leak = 19 \<and> effects (trace t) = effects (trace ?s) @
        [Sent g (Host ''127.0.0.1'' (port sample_worker)) (wire_msg 0 WRITE (MASTER_TKN test_build) (''notes'' @ CHR '';'' # ''hello'') @ leak),
         Closed g, Sent (fd sample_conn) Caller (show_int 5 @ [NUL])])"
  then show "\<exists>g leak. length leak = 19 \<and>
      effects (trace t) = [Sent g (Host ''127.0.0.1'' 55443) (wire_msg 0 WRITE 2 ''notes;hello'' @ leak), Closed g,
        Sent 0 Caller (''5'' @ [NUL])]"
    by (auto simp: sample_conn_def sample_worker_def show_int_5)
qed (simp_all add: show_int_def show_nat.simps)

end
