(* ===== verification/Ping_Facts.thy ===== *)
theory Ping_Facts
  imports Master_Facts
begin

text \<open>
  Workers that answer the pings of the manager thread: what keeps them in the table, and what
  the message about it does in a verbose build.
\<close>

section \<open>An answer\<close>

text \<open>
  Only the type of the answer is looked at. It is enough that the first 12 bytes arrive and that
  the length they promise stays within the buffer of 50 bytes.
\<close>

definition good_ping :: "string \<Rightarrow> bool" where
  "good_ping bs \<longleftrightarrow> 12 \<le> length bs \<and> length bs \<le> 50 \<and> wire_type bs = PING \<and>
     header_size + unat (wire_len bs) \<le> 50"

definition answers :: "sock \<Rightarrow> bool" where
  "answers d \<longleftrightarrow> accepts d \<and> (\<exists>bs q. incoming d = Arrives bs # q \<and> good_ping bs)"

lemma answers_peer [simp]: "answers (d\<lparr>peer := p\<rparr>) = answers d"
  by (simp add: answers_def)

lemma wire_prefix:
  "8 \<le> length bs \<Longrightarrow> wire_len (bs @ tail) = wire_len bs"
  "12 \<le> length bs \<Longrightarrow> wire_type (bs @ tail) = wire_type bs"
  by (simp_all add: wire_len_def wire_type_def)

definition success_pieces :: "conn \<Rightarrow> piece list" where
  "success_pieces c = [Txt ''Successful response from worker (file descriptor: '', PInt (fd c), Txt '').'']"

lemma response_runs:
  assumes wf: "wf_mem s" and d: "descriptor (fds s) (fd c) = Some k" and k: "answers k"
  shows "\<exists>t q. handle_ping_response B c w s = say B 50 MESSAGE (success_pieces c) t \<and> io_mem s t \<and>
    net t = net s \<and> effects (trace t) = effects (trace s) \<and>
    fds t = (fds s)[nat (fd c) := Some (k\<lparr>incoming := q\<rparr>)]"
proof -
  obtain bs q where inc: "incoming k = Arrives bs # q" and bs: "good_ping bs"
    using k by (auto simp: answers_def)
  let ?n = "sizeof_packet + 10"
  let ?fail = "\<lambda>n :: int. cwhen (n \<le> 0) (cseq (remove_server (srv_id w))
    (say B 50 WARNING [Txt ''Worker (file descriptor: '', PInt (fd c), Txt '') has failed.'']))"
  let ?m = "cbind (malloc ?n) (\<lambda>b. cbind (conn_read B c b ?n) (\<lambda>n. cseq (?fail n) (p_decode b)))"
  let ?P = "\<lambda>p t. msg_type p = PING \<and> io_mem s t \<and> net t = net s \<and> effects (trace t) = effects (trace s) \<and>
    fds t = (fds s)[nat (fd c) := Some (k\<lparr>incoming := q\<rparr>)]"
  have n: "?n = 50" by (simp add: sizeof_packet_def)
  have "wp ?m ?P s"
  proof (rule read_buffer_then [OF wf d inc])
    show "length bs \<le> ?n" using bs unfolding n by (simp add: good_ping_def)
    fix b tail u
    assume u: "io_mem s u" "peek u (Ptr b 0) ?n = Some (bs @ tail)" "net u = net s"
      "effects (trace u) = effects (trace s)" "length tail = ?n - length bs"
      "fds u = (fds s)[nat (fd c) := Some (k\<lparr>incoming := q\<rparr>)]"
    have len: "length (bs @ tail) = ?n" using u(5) bs unfolding n by (simp add: good_ping_def)
    have "wp (p_decode (Ptr b 0)) ?P u"
    proof (rule decode_message_then [OF u(1)])
      show "peek u (Ptr b 0) (length (bs @ tail)) = Some (bs @ tail)" using u(2) unfolding len .
      show "header_size + unat (wire_len (bs @ tail)) \<le> length (bs @ tail)"
        using bs unfolding len n by (simp add: good_ping_def wire_prefix)
      fix a t assume t: "grows u t" "io_mem s t"
      have "wire_type (bs @ tail) = PING" using bs by (simp add: good_ping_def wire_prefix)
      then show "?P (decoded (bs @ tail) (Ptr a 0)) t"
        using t u by (simp add: decoded_def grows_os [OF t(1)])
    qed
    moreover have "\<not> int (length bs) \<le> 0" using bs by (auto simp: good_ping_def)
    ultimately show "wp (cseq (?fail (int (length bs))) (p_decode (Ptr b 0))) ?P u"
      by (simp add: wp_cseq wp_cwhen)
  qed
  then obtain p t where r: "?m s = Inr (p, t)" and p: "?P p t" unfolding wp_runs by blast
  let ?rest = "\<lambda>p. if msg_type p \<noteq> PING then cseq (remove_server (srv_id w))
      (say B 100 MESSAGE [Txt ''Received response from worker (file descriptor: '',
        PInt (fd c), Txt ''), but not from ping.''])
    else say B 50 MESSAGE [Txt ''Successful response from worker (file descriptor: '', PInt (fd c), Txt '').'']"
  have "handle_ping_response B c w = cbind ?m ?rest"
    by (simp add: handle_ping_response_def cbind_assoc cseq_def)
  then have "handle_ping_response B c w s = cbind ?m ?rest s" by (rule fun_cong)
  also have "\<dots> = ?rest p t" by (rule cbind_run [where m = ?m, OF r])
  finally have "handle_ping_response B c w s = ?rest p t" .
  then show ?thesis using p by (auto simp: success_pieces_def)
qed

text \<open>The message takes at least 54 bytes with its NUL, its buffer has 50.\<close>

lemma say_overflows:
  assumes wf: "wf_mem t" and v: "verbose B" and m: "text_of t ps = Some m"
    and len: "n + spare t (next_id t) \<le> length m"
  shows "say B n lt ps t = Inl Overflow"
proof -
  let ?t = "add_block (fresh_block n t) t"
  have "mgrows t ?t" by (intro mgrows_add_block mgrows_refl wf) simp
  then have "text_of ?t ps = Some m" using m by (rule text_of_mono)
  then have "wp (format ps) (\<lambda>x u. x = m \<and> u = ?t) ?t" by (simp add: wp_format)
  then have f: "format ps ?t = Inr (m, ?t)" unfolding wp_runs by blast
  then show ?thesis
    using v len by (simp add: say_def cwhen_def cbind_def cseq_def malloc_def sprintf_def)
qed

lemma success_overflows:
  assumes wf: "wf_mem s" and d: "descriptor (fds s) (fd c) = Some k" "answers k"
    and v: "verbose B" and spare: "spare s = (\<lambda>_. 0)"
  shows "handle_ping_response B c w s = Inl Overflow"
proof -
  obtain t where t: "handle_ping_response B c w s = say B 50 MESSAGE (success_pieces c) t" "io_mem s t"
    using response_runs [OF wf d] by blast
  let ?m = "''Successful response from worker (file descriptor: '' @ show_int (fd c) @ '').''"
  have "say B 50 MESSAGE (success_pieces c) t = Inl Overflow"
  proof (rule say_overflows [OF io_mem_wf [OF t(2)] v])
    show "text_of t (success_pieces c) = Some ?m" by (simp add: success_pieces_def)
    show "50 + spare t (next_id t) \<le> length ?m"
      using mgrows_oracles [OF io_mem_mgrows [OF t(2)]] by (simp add: spare)
  qed
  then show ?thesis by (simp add: t(1))
qed

section \<open>A round\<close>

text \<open>Every ping opens a connection, and none is closed.\<close>

definition opened :: "sock option list \<Rightarrow> nat" where
  "opened ds = length (filter (\<lambda>d. d \<noteq> None) ds)"

lemma opened_install: "opened (install (lowest_free ds) d ds) = Suc (opened ds)"
proof (induction ds rule: lowest_free.induct)
  case (3 e ds)
  then show ?case by (simp add: opened_def install_def split: if_splits)
qed (simp_all add: opened_def install_def)

lemma ping_keeps:
  fixes u :: "'z tables_scheme"
  assumes wf: "wf_mem u" and quiet: "\<not> verbose B" and r: "deref r u = Inr (w, u)"
    and a: "cstring u (ip w) = Some a" "inet_pton4 a"
    and net: "net u = Opens d # rs" "answers d"
    and room: "\<And>j. 27 \<le> spare u j + room u j"
    and Q: "\<And>e t. \<lbrakk>io_mem u t; net t = rs; opened (fds t) = Suc (opened (fds u));
        effects (trace t) = effects (trace u) @ [e]; pings B (a, port w) e\<rbrakk> \<Longrightarrow> Q () t"
  shows "wp (ping_server B r) Q u"
proof -
  have "wp (cbind (ping_connect B w) (\<lambda>c. handle_ping_response B c w)) Q u"
    unfolding wp_cbind
  proof (rule connect_then [OF wf a net(1)])
    show "accepts d" using net(2) by (simp add: answers_def)
    fix c :: conn and e x
    let ?d = "d\<lparr>peer := Host a (port w)\<rparr>"
    assume x: "io_mem u x" "net x = rs" "fds x = install (lowest_free (fds u)) ?d (fds u)"
      "fd c = int (lowest_free (fds u))" "effects (trace x) = effects (trace u) @ [e]" "pings B (a, port w) e"
    have "descriptor (fds x) (fd c) = Some ?d" "answers ?d" using net(2) by (simp_all add: x)
    then obtain t q where t: "handle_ping_response B c w x = say B 50 MESSAGE (success_pieces c) t"
      "io_mem x t" "net t = net x" "fds t = (fds x)[nat (fd c) := Some (?d\<lparr>incoming := q\<rparr>)]"
      "effects (trace t) = effects (trace x)"
      using response_runs [OF io_mem_wf [OF x(1)]] by blast
    have "Q () t"
      by (rule Q [OF io_mem_trans [OF x(1) t(2)] _ _ _ x(6)]) (simp_all add: t x opened_install)
    then show "wp (handle_ping_response B c w) Q x"
      using quiet by (simp add: wp_eq t(1) say_def cwhen_def wp_def cskip_def cret_def)
  qed (rule room)
  then show ?thesis
    using quiet by (simp add: wp_def ping_server_parts [OF r] say_def cwhen_def cskip_def cseq_def cbind_def cret_def)
qed

lemma round_runs:
  fixes s :: "'z tables_scheme"
  assumes ok: "wf_mem s" "table_ok s" and quiet: "\<not> verbose B"
    and ips: "\<And>w. w \<in> set (servers s) \<Longrightarrow> \<exists>a. cstring s (ip w) = Some a \<and> inet_pton4 a"
    and net: "net s = map Opens ds @ rs" "length ds = length (servers s)" "\<And>d. d \<in> set ds \<Longrightarrow> answers d"
    and room: "\<And>j. 27 \<le> spare s j + room s j"
  shows "wp (admin_round B) (\<lambda>_ t. (table_ok t \<and> servers t = servers s \<and> net t = rs \<and>
    opened (fds t) = opened (fds s) + length (servers s) \<and>
    (\<exists>es. effects (trace t) = effects (trace s) @ es \<and> list_all2 (pings B) (addresses s) es)) \<and>
    (\<exists>u. io_mem (s\<lparr>mutex_held := True\<rparr>) u \<and> t = u\<lparr>mutex_held := False\<rparr>)) s" (is "wp _ ?Q s")
  unfolding admin_round_def
proof (rule for_each_then [OF ok(2), where J = "\<lambda>i u. io_mem (s\<lparr>mutex_held := True\<rparr>) u \<and>
    net u = map Opens (drop i ds) @ rs \<and> opened (fds u) = opened (fds s) + i \<and>
    (\<exists>es. effects (trace u) = effects (trace s) @ es \<and> list_all2 (pings B) (take i (addresses s)) es)"])
  let ?s = "s\<lparr>mutex_held := True\<rparr>"
  have wf: "wf_mem ?s" using ok(1) by (simp add: wf_mem_def)
  show "io_mem ?s ?s \<and> net ?s = map Opens (drop 0 ds) @ rs \<and> opened (fds ?s) = opened (fds s) + 0 \<and>
      (\<exists>es. effects (trace ?s) = effects (trace s) @ es \<and> list_all2 (pings B) (take 0 (addresses s)) es)"
    using io_mem_refl [OF wf] net(1) by simp
  fix i u
  assume i: "i < length (servers s)" and u: "io_mem ?s u \<and> net u = map Opens (drop i ds) @ rs \<and>
      opened (fds u) = opened (fds s) + i \<and>
      (\<exists>es. effects (trace u) = effects (trace s) @ es \<and> list_all2 (pings B) (take i (addresses s)) es)" and c: "server_count u = server_count s" "table_gen u = table_gen s"
  have iu: "io_mem ?s u" and more: "logst.more u = logst.more ?s"
    using u logst_more(2) [of u ?s] by (simp_all add: io_mem_def)
  let ?w = "servers s ! i"
  have "server_table u = map Some (servers s)"
    using tables_more(1) [OF more] table_ok_cells [OF ok(2)] by simp
  then have r: "deref (Slot (table_gen s) i) u = Inr (?w, u)" using i by (auto simp: read_slot_def c)
  obtain a where a: "cstring s (ip ?w) = Some a" "inet_pton4 a" using ips [OF nth_mem [OF i]] by blast
  have "cstring ?s (ip ?w) = Some a" using a(1) by (cases "ip ?w") simp_all
  then have a': "cstring u (ip ?w) = Some a" by (rule mgrows_cstring [OF io_mem_mgrows [OF iu]])
  have ds: "drop i ds = ds ! i # drop (Suc i) ds" using i net(2) by (simp add: Cons_nth_drop_Suc)
  show "wp (ping_server B (Slot (table_gen s) i)) (\<lambda>_ v. (io_mem ?s v \<and>
      net v = map Opens (drop (Suc i) ds) @ rs \<and> opened (fds v) = opened (fds s) + Suc i \<and>
      (\<exists>es. effects (trace v) = effects (trace s) @ es \<and> list_all2 (pings B) (take (Suc i) (addresses s)) es)) \<and>
      server_count v = server_count s \<and> table_gen v = table_gen s) u"
  proof (rule ping_keeps [OF io_mem_wf [OF iu] quiet r a' a(2)])
    show "net u = Opens (ds ! i) # map Opens (drop (Suc i) ds) @ rs" using u ds by simp
    show "answers (ds ! i)" using i net(2) by (intro net(3)) simp
    show "27 \<le> spare u j + room u j" for j
      using room [of j] mgrows_oracles [OF io_mem_mgrows [OF iu]] by simp
    fix e v assume v: "io_mem u v" "net v = map Opens (drop (Suc i) ds) @ rs"
      "opened (fds v) = Suc (opened (fds u))" "effects (trace v) = effects (trace u) @ [e]" "pings B (a, port ?w) e"
    obtain es where es: "effects (trace u) = effects (trace s) @ es" "list_all2 (pings B) (take i (addresses s)) es"
      using u by blast
    have "take (Suc i) (addresses s) = take i (addresses s) @ [(a, port ?w)]"
      using i a(1) by (simp add: addresses_def take_Suc_conv_app_nth)
    then have es': "effects (trace v) = effects (trace s) @ es @ [e]"
      "list_all2 (pings B) (take (Suc i) (addresses s)) (es @ [e])"
      using es v(4,5) by (simp_all add: list_all2_appendI)
    have "logst.more v = logst.more u" using v(1) logst_more(2) [of v u] by (simp add: io_mem_def)
    then show "(io_mem ?s v \<and> net v = map Opens (drop (Suc i) ds) @ rs \<and>
        opened (fds v) = opened (fds s) + Suc i \<and>
        (\<exists>es. effects (trace v) = effects (trace s) @ es \<and> list_all2 (pings B) (take (Suc i) (addresses s)) es)) \<and>
        server_count v = server_count s \<and> table_gen v = table_gen s"
      using io_mem_trans [OF iu v(1)] v(2,3) u c tables_more(2,3) [of v u] es' by (intro conjI exI [of _ "es @ [e]"]) simp_all
  qed
next
  fix u assume u: "io_mem (s\<lparr>mutex_held := True\<rparr>) u \<and> net u = map Opens (drop (length (servers s)) ds) @ rs \<and>
    opened (fds u) = opened (fds s) + length (servers s) \<and>
    (\<exists>es. effects (trace u) = effects (trace s) @ es \<and>
      list_all2 (pings B) (take (length (servers s)) (addresses s)) es)"
  then have more: "logst.more u = logst.more (s\<lparr>mutex_held := True\<rparr>)"
    using logst_more(2) [of u "s\<lparr>mutex_held := True\<rparr>"] by (simp add: io_mem_def)
  show "?Q () (u\<lparr>mutex_held := False\<rparr>)"
    using u ok(2) tables_more(1,2) [OF more] net(2) by (auto simp: table_ok_def servers_def addresses_def)
qed

section \<open>Properties\<close>

text \<open>
  Workers that answer stay: a round of the manager thread of a quiet build in which every
  worker of the table accepts the ping and sends back enough of one keeps the table. Each worker
  gets one ping, at its address and port, in the order of the table. The round also
  leaves one more open descriptor for every worker, since no connection is closed.
\<close>

theorem answering_workers_stay:
  fixes s :: "'z tables_scheme"
  assumes "wf_mem s" and "table_ok s" and "\<not> verbose B"
    and "\<And>w. w \<in> set (servers s) \<Longrightarrow> \<exists>a. cstring s (ip w) = Some a \<and> inet_pton4 a"
    and "net s = map Opens ds @ rs" and "length ds = length (servers s)"
    and "\<And>d. d \<in> set ds \<Longrightarrow> answers d" and "\<And>j. 27 \<le> spare s j + room s j"
  shows "wp (admin_round B) (\<lambda>_ t. table_ok t \<and> servers t = servers s \<and> net t = rs \<and>
    opened (fds t) = opened (fds s) + length (servers s) \<and>
    (\<exists>es. effects (trace t) = effects (trace s) @ es \<and> list_all2 (pings B) (addresses s) es)) s"
  by (rule wp_mono [OF round_runs [OF assms]]) blast+

definition sample_ping :: sock where
  "sample_ping = carries (take 13 (wire_msg 1 PING 0 ''1''))"

lemma take_wire: "12 \<le> n \<Longrightarrow> wire_type (take n bs) = wire_type bs"
  "8 \<le> n \<Longrightarrow> wire_len (take n bs) = wire_len bs"
  by (simp_all add: wire_type_def wire_len_def drop_take min_def)

lemma sample_ping_answers: "answers sample_ping"
  by (simp add: answers_def sample_ping_def good_ping_def take_wire header_size_def)

theorem answering_workers_stay_witness:
  "wp (admin_round quiet_build) (\<lambda>_ t. servers t = [sample_worker, sample_worker] \<and> opened (fds t) = 2)
     (sample_master [sample_worker, sample_worker] [] [Opens sample_ping, Opens sample_ping])"
  by (rule wp_mono [OF answering_workers_stay [where ds = "[sample_ping, sample_ping]" and rs = "[]"]])
    (auto simp: sample_ping_answers sample_address opened_def simp del: cstring.simps)

text \<open>
  C19. In a verbose build the first worker that answers a ping makes the master write beyond a
  buffer of 50 bytes, when the allocator gives no more than it is asked for: the message of
  success is too long for it.
\<close>

theorem answered_ping_overflows:
  fixes s :: "'z tables_scheme"
  assumes "log_ok s" and "table_ok s" and "servers s = w # ws" and "ip w = Ptr b j"
    and "cstring s (ip w) = Some a" and "length a \<le> 15" and "inet_pton4 a" and "log_msg s \<noteq> Ptr b 0"
    and "net s = Opens d # rs" and "answers d" and "\<And>j. 27 \<le> spare s j + room s j"
    and "verbose B" and "spare s = (\<lambda>_. 0)"
  shows "admin_round B s = Inl Overflow"
proof (rule round_fault [OF assms(1-9)])
  show "accepts d" using assms(10) by (simp add: answers_def)
  fix c :: conn and x :: "'z tables_scheme"
  assume x: "wf_mem x" "descriptor (fds x) (fd c) = Some (d\<lparr>peer := Host a (port w)\<rparr>)" "spare x = spare s"
  show "handle_ping_response B c w x = Inl Overflow"
    by (rule success_overflows [OF x(1,2) _ assms(12)]) (simp_all add: x assms(10,13))
qed (rule assms(11))

theorem answered_ping_overflows_witness:
  "admin_round test_build (sample_master [sample_worker] [] [Opens sample_ping]) = Inl Overflow"
proof (rule answered_ping_overflows)
  show "ip sample_worker = Ptr 0 0" by (simp add: sample_worker_def)
  show "cstring (sample_master [sample_worker] [] [Opens sample_ping]) (ip sample_worker) =
      Some ''127.0.0.1''" by (rule sample_master_simps)
  show "inet_pton4 ''127.0.0.1''" by (rule sample_address)
  show "net (sample_master [sample_worker] [] [Opens sample_ping]) = Opens sample_ping # []" by simp
  show "answers sample_ping" by (rule sample_ping_answers)
qed (simp_all add: fun_eq_iff)

end
