(* ===== verification/Worker_Facts.thy ===== *)
theory Worker_Facts
  imports Worker
begin

text \<open>
  What a worker promises: whom it answers, what it answers to a ping and to a request to
  write, and that its registration is what the master expects.
\<close>

section \<open>Frames\<close>

lemma wp_cwhenI: "wp m Q s \<Longrightarrow> Q () s \<Longrightarrow> wp (cwhen b m) Q s"
  by (simp add: wp_cwhen)

lemma worker_more:
  assumes "logst.more t = logst.more s"
  shows "files t = files s" "work_dir t = work_dir s" "may_write t = may_write s"
    "exec_held t = exec_held s" "stack_op t = stack_op s" "host_output t = host_output s"
    "arg_err t = arg_err s"
  using assms by (cases s, cases t, simp)+

lemma files_os: "os.more t = os.more s \<Longrightarrow> files t = files s"
  by (rule fsys_more(1) [OF logst_more(2)])

lemma exec_ok_log: "exec_ok s \<Longrightarrow> log_ok s"
  by (simp add: exec_ok_def fs_ok_def)

lemma exec_ok_wf: "exec_ok s \<Longrightarrow> wf_mem s"
  by (simp add: exec_ok_def fs_ok_wf)

lemma exec_io:
  assumes "exec_ok s" and "io_mem s t"
  shows "exec_ok t" "files t = files s" "path_of t n = path_of s n" "content t n = content s n"
    "writable_name t n = writable_name s n"
proof -
  have o: "os.more t = os.more s" using assms(2) by (simp add: io_mem_def)
  note more = logst_more [OF o]
  have e: "exec_held t = exec_held s" "files t = files s" "work_dir t = work_dir s"
    "may_write t = may_write s"
    using fsys_more [OF more(2)] execs_more(1) [OF fsys_more(5) [OF more(2)]] by simp_all
  show "exec_ok t"
    using assms(1) io_mem_mgrows [OF assms(2)] more(1) e unfolding exec_ok_def fs_ok_def log_ok_def
    by (auto simp del: cstring.simps dest: mgrows_wf mgrows_blocks mgrows_cstring split: ptr.splits)
  show p: "path_of t n = path_of s n" for n
    using assms(1) io_mem_mgrows [OF assms(2)] e
    by (auto simp: path_of_def exec_ok_def fs_ok_def simp del: cstring.simps
        dest: mgrows_cstring split: ptr.splits)
  show "files t = files s" "content t n = content s n" "writable_name t n = writable_name s n"
    using e by (simp_all add: content_def writable_name_def p)
qed

lemma os_fields:
  fixes s :: "'z worker_scheme"
  assumes "os.more t = os.more s"
  shows "log_msg t = log_msg s" "work_dir t = work_dir s" "may_write t = may_write s" "exec_held t = exec_held s"
  using logst_more [OF assms] worker_more [OF logst_more(2) [OF assms]] by simp_all

text \<open>
  What a request leaves as it was: the memory of before, the next connections, where the files
  are, and every descriptor but the one of the connection.
\<close>

definition served :: "conn \<Rightarrow> 'z worker_scheme \<Rightarrow> 'z worker_scheme \<Rightarrow> bool" where
  "served c s t \<longleftrightarrow> mgrows s t \<and> net t = net s \<and> log_msg t = log_msg s \<and> work_dir t = work_dir s \<and>
     may_write t = may_write s \<and> exec_held t = exec_held s \<and>
     (\<forall>i. i \<noteq> fd c \<longrightarrow> descriptor (fds t) i = descriptor (fds s) i)"

lemma served_ok:
  assumes ok: "exec_ok s" and v: "served c s t"
  shows "exec_ok t" "clean_mem s \<Longrightarrow> clean_mem t" "path_of t = path_of s" "writable_name t = writable_name s"
    "spare t = spare s" "room t = room s"
proof -
  have m: "mgrows s t" using v by (simp add: served_def)
  show "exec_ok t"
    using ok v m unfolding exec_ok_def fs_ok_def log_ok_def served_def
    by (auto simp del: cstring.simps dest: mgrows_wf mgrows_blocks mgrows_cstring split: ptr.splits)
  show p: "path_of t = path_of s"
    using ok v m by (auto simp: fun_eq_iff path_of_def served_def exec_ok_def fs_ok_def simp del: cstring.simps
        dest: mgrows_cstring split: ptr.splits)
  show "clean_mem s \<Longrightarrow> clean_mem t" by (rule clean_mgrows [OF m])
  show "writable_name t = writable_name s" using v by (simp add: fun_eq_iff writable_name_def p served_def)
  show "spare t = spare s" "room t = room s" using mgrows_oracles [OF m] by simp_all
qed

text \<open>The end of the handler: argument and buffer are freed and the connection is closed.\<close>

definition finished :: "conn \<Rightarrow> nat \<Rightarrow> nat \<Rightarrow> 'z os_scheme \<Rightarrow> 'z os_scheme \<Rightarrow> bool" where
  "finished c a b u v \<longleftrightarrow> os.more v = os.more u \<and> net v = net u \<and>
     effects (trace v) = effects (trace u) @ [Closed (fd c)] \<and>
     (\<forall>i. i \<noteq> fd c \<longrightarrow> descriptor (fds v) i = descriptor (fds u) i) \<and>
     mgrows (del_block b (del_block a u)) v"

lemma finished_mgrows:
  assumes "finished c a b u v" and "mgrows s u" and "blocks s a = None" and "blocks s b = None"
  shows "mgrows s v"
  using assms mgrows_trans [OF mgrows_del_block [OF mgrows_del_block]] by (auto simp: finished_def)

lemma finish_then:
  assumes wf: "wf_mem u" and l: "live u (Ptr a 0)" "live u (Ptr b 0)" "a \<noteq> b"
    and Q: "\<And>v. finished c a b u v \<Longrightarrow> Q () v"
  shows "wp (cseq (p_cleanup (decoded bs (Ptr a 0))) (cseq (conn_close B c) (free (Ptr b 0)))) Q u"
    and "wp (cseq (free (Ptr b 0)) (cseq (p_cleanup (decoded bs (Ptr a 0)))
      (cseq (conn_close B c) cskip))) Q u"
proof -
  have lb: "live (del_block a u) (Ptr b 0)" "live (del_block b u) (Ptr a 0)" using l by auto
  have other: "descriptor (if 0 \<le> fd c then ds[nat (fd c) := None] else ds) i = descriptor ds i"
    if "i \<noteq> fd c" for ds i using that by (simp add: descriptor_update)
  have swap: "del_block a (del_block b u) = del_block b (del_block a u)"
    by (simp add: del_block_def fun_upd_twist [OF l(3)])
  have "wp (conn_close B c) (\<lambda>_. wp (free (Ptr b 0)) Q) (del_block a u)"
  proof (rule conn_close_then [OF wf_del_block [OF wf]])
    fix m v assume v: "io_mem (del_block a u) v" "net v = net (del_block a u)"
      "effects (trace v) = effects (trace (del_block a u)) @ [Closed (fd c)]"
      "fds v = (if 0 \<le> fd c then (fds (del_block a u))[nat (fd c) := None] else fds (del_block a u))"
    have "live v (Ptr b 0)" by (rule mgrows_live [OF io_mem_mgrows [OF v(1)] lb(1)])
    moreover have "mgrows (del_block b (del_block a u)) (del_block b v)"
      using io_mem_mgrows [OF v(1)] wf_del_block [OF io_mem_wf [OF v(1)], of b] by (auto simp: mgrows_def)
    then have "finished c a b u (del_block b v)"
      using v by (simp add: finished_def io_mem_def other)
    ultimately show "wp (free (Ptr b 0)) Q v" by (simp add: wp_free Q del: live.simps)
  qed
  then show "wp (cseq (p_cleanup (decoded bs (Ptr a 0))) (cseq (conn_close B c) (free (Ptr b 0)))) Q u"
    using l(1) by (simp add: wp_cseq p_cleanup_def decoded_def wp_free del: live.simps)
  have "wp (conn_close B c) (\<lambda>_. Q ()) (del_block a (del_block b u))"
    by (rule conn_close_then [OF wf_del_block [OF wf_del_block [OF wf]]], rule Q)
      (simp add: finished_def io_mem_def other swap)
  then show "wp (cseq (free (Ptr b 0)) (cseq (p_cleanup (decoded bs (Ptr a 0)))
      (cseq (conn_close B c) cskip))) Q u"
    using l lb by (simp add: wp_cseq p_cleanup_def decoded_def wp_free wp_cskip wp_funs del: live.simps)
qed

section \<open>Who is answered\<close>

lemma foreign_ignored:
  fixes s :: "'z worker_scheme"
  assumes ok: "exec_ok s" and p: "has_packet c WORKER_READ_SIZE bs s"
    and tok: "wire_token bs \<noteq> MASTER_TKN B"
  shows "wp (worker_handle_client B sh c) (\<lambda>_ t. files t = files s \<and>
      effects (trace t) = effects (trace s) @ [Closed (fd c)]) s" (is "wp _ ?Q s")
  unfolding worker_handle_client_def
proof (rule packet_arrives_then [OF exec_ok_wf [OF ok] p])
  fix b a and t :: "'z worker_scheme"
  assume t: "io_mem s t" "effects (trace t) = effects (trace s)" "next_id s \<le> b" "live t (Ptr b 0)"
    "live t (Ptr a 0)" "next_id s \<le> a" "a \<noteq> b"
  have log: "log_ok s" "log_ok t" using exec_ok_log [OF ok] log_ok_io [OF _ t(1)] by simp_all
  have m: "log_msg t = log_msg s" using logst_more(1) [of t s] t(1) by (simp add: io_mem_def)
  have ne: "log_msg t \<noteq> Ptr b 0" "log_msg t \<noteq> Ptr a 0"
    using log_ok_below [OF log(1) t(3)] log_ok_below [OF log(1) t(6)] by (simp_all add: m)
  have "wp (log_text B WARNING COMP_WORKER ''Message not from client.'')
      (\<lambda>_. wp (cseq (free (Ptr b 0)) (cseq (p_cleanup (decoded bs (Ptr a 0)))
        (cseq (conn_close B c) cskip))) ?Q) t"
  proof (rule log_text_then [OF log(2)])
    fix u assume u: "log_frame t u" "effects (trace u) = effects (trace t)"
    have "files u = files s"
      using u(1) exec_io(2) [OF ok t(1)] fsys_more(1) [of u t] by (simp add: log_frame_def)
    note l = log_frame_live(1) [OF u(1) t(5) ne(2)] log_frame_live(1) [OF u(1) t(4) ne(1)]
    show "wp (cseq (free (Ptr b 0)) (cseq (p_cleanup (decoded bs (Ptr a 0)))
        (cseq (conn_close B c) cskip))) ?Q u"
    proof (rule finish_then(2) [OF log_frame_wf [OF u(1)] l t(7)])
      fix v assume "finished c a b u v"
      then show "?Q () v" using files_os [of v u] \<open>files u = files s\<close> u(2) t(2) by (simp add: finished_def)
    qed
  qed simp_all
  then show "wp (serve B sh c (Ptr b 0) (decoded bs (Ptr a 0))) ?Q t"
    using tok by (simp add: serve_def decoded_def wp_cseq)
qed

text \<open>
  A request of the master: what is left to show is what \<^verbatim>\<open>perform\<close> does, between the packet
  and the end of the handler.
\<close>

lemma request_then:
  fixes s :: "'z worker_scheme"
  assumes ok: "exec_ok s" and p: "has_packet c WORKER_READ_SIZE bs s"
    and tok: "wire_token bs = MASTER_TKN B"
    and P: "\<And>b a t. \<lbrakk>io_mem s t; effects (trace t) = effects (trace s);
        \<exists>k. descriptor (fds t) (fd c) = Some k \<and> accepts k \<and> peer k = Caller; log_ok t;
        log_msg t \<noteq> Ptr b 0; log_msg t \<noteq> Ptr a 0; live t (Ptr b 0); live t (Ptr a 0);
        clean_mem s \<Longrightarrow> NUL \<notin> set (wire_body bs) \<Longrightarrow> cstring t (Ptr a 0) = Some (wire_body bs);
        net t = net s; blocks s a = None; blocks s b = None;
        \<And>i. i \<noteq> fd c \<Longrightarrow> descriptor (fds t) i = descriptor (fds s) i\<rbrakk>
      \<Longrightarrow> wp (perform B sh c (decoded bs (Ptr a 0))) (\<lambda>_ u. wf_mem u \<and> live u (Ptr b 0) \<and>
            live u (Ptr a 0) \<and> (\<forall>v. finished c a b u v \<longrightarrow> Q () v)) t"
  shows "wp (worker_handle_client B sh c) Q s"
  unfolding worker_handle_client_def
proof (rule packet_arrives_then [OF exec_ok_wf [OF ok] p])
  fix b a and t :: "'z worker_scheme"
  assume t: "io_mem s t" "effects (trace t) = effects (trace s)" "next_id s \<le> b" "live t (Ptr b 0)"
    "live t (Ptr a 0)" "next_id s \<le> a" "a \<noteq> b" "net t = net s"
    and other: "\<And>i. i \<noteq> fd c \<Longrightarrow> descriptor (fds t) i = descriptor (fds s) i"
    and d: "\<exists>k. descriptor (fds t) (fd c) = Some k \<and> accepts k \<and> peer k = Caller"
    and str: "clean_mem s \<Longrightarrow> NUL \<notin> set (wire_body bs) \<Longrightarrow> cstring t (Ptr a 0) = Some (wire_body bs)"
  have log: "log_ok s" "log_ok t" using exec_ok_log [OF ok] log_ok_io [OF _ t(1)] by simp_all
  have m: "log_msg t = log_msg s" using logst_more(1) [of t s] t(1) by (simp add: io_mem_def)
  have ne: "log_msg t \<noteq> Ptr b 0" "log_msg t \<noteq> Ptr a 0"
    using log_ok_below [OF log(1) t(3)] log_ok_below [OF log(1) t(6)] by (simp_all add: m)
  have "wp (perform B sh c (decoded bs (Ptr a 0))) (\<lambda>_. wp (cseq (p_cleanup (decoded bs (Ptr a 0)))
      (cseq (conn_close B c) (free (Ptr b 0)))) Q) t"
  proof (rule wp_mono [OF P [OF t(1,2) d log(2) ne t(4,5) str t(8)
        wf_mem_fresh [OF exec_ok_wf [OF ok] t(6)] wf_mem_fresh [OF exec_ok_wf [OF ok] t(3)] other]])
    fix x and u :: "'z worker_scheme"
    assume u: "wf_mem u \<and> live u (Ptr b 0) \<and> live u (Ptr a 0) \<and> (\<forall>v. finished c a b u v \<longrightarrow> Q () v)"
    then show "wp (cseq (p_cleanup (decoded bs (Ptr a 0))) (cseq (conn_close B c) (free (Ptr b 0)))) Q u"
      by (intro finish_then(1)) (use t(7) in auto)
  qed
  then show "wp (serve B sh c (Ptr b 0) (decoded bs (Ptr a 0))) Q t"
    using tok by (simp add: serve_def decoded_def wp_cseq)
qed

section \<open>The answer to a ping\<close>

text \<open>Only the first 13 bytes of the answer are sent: they end inside the error field.\<close>

lemma ping_answered:
  fixes s :: "'z worker_scheme"
  assumes ok: "exec_ok s" and p: "has_packet c WORKER_READ_SIZE bs s"
    and tok: "wire_token bs = MASTER_TKN B" and ty: "wire_type bs = PING"
  shows "wp (worker_handle_client B sh c) (\<lambda>_ t. files t = files s \<and> effects (trace t) = effects (trace s) @
    [Sent (fd c) Caller (take 13 (wire_msg (wire_seq bs + 1) PING 0 ''1'')), Closed (fd c)]) s"
    (is "wp _ ?Q s")
proof (rule request_then [OF ok p tok])
  fix b a and t :: "'z worker_scheme"
  assume t: "io_mem s t" "effects (trace t) = effects (trace s)" "log_ok t" "log_msg t \<noteq> Ptr b 0"
    "log_msg t \<noteq> Ptr a 0" "live t (Ptr b 0)" "live t (Ptr a 0)"
    and d: "\<exists>k. descriptor (fds t) (fd c) = Some k \<and> accepts k \<and> peer k = Caller"
  obtain k where k: "descriptor (fds t) (fd c) = Some k" "accepts k" "peer k = Caller" using d by blast
  let ?w = "wire_msg (wire_seq bs + 1) PING 0 ''1''" and ?l = "add_block (lit_block ''1'' t) t"
  let ?E = "\<lambda>u. wf_mem u \<and> live u (Ptr b 0) \<and> live u (Ptr a 0) \<and> (\<forall>v. finished c a b u v \<longrightarrow> ?Q () v)"
  have gl: "grows t ?l"
    by (intro grows_add_block grows_refl io_mem_wf [OF t(1)]) (simp add: lit_block_def)
  have one: "cstring ?l (Ptr (next_id t) 0) = Some ''1''" by (simp add: lit_block_def)
  have last: "wp (cwhen (verbose_2 B) (log_text B MESSAGE COMP_WORKER ''PING!'')) (\<lambda>_. ?E) u"
    if u: "io_mem t u" "effects (trace u) = effects (trace s) @ [Sent (fd c) Caller (take 13 ?w)]" for u
  proof -
    have lu: "live u (Ptr b 0)" "live u (Ptr a 0)"
      by (rule mgrows_live [OF io_mem_mgrows [OF u(1)] t(6)], rule mgrows_live [OF io_mem_mgrows [OF u(1)] t(7)])
    have fu: "files u = files s"
      using files_os [of u t] files_os [of t s] u(1) t(1) by (simp add: io_mem_def)
    have lm: "log_msg u = log_msg t" using logst_more(1) [of u t] u(1) by (simp add: io_mem_def)
    have E: "?E x" if x: "log_frame u x" "effects (trace x) = effects (trace u)" for x
    proof -
      have "files x = files s" using x(1) fu fsys_more(1) [of x u] by (simp add: log_frame_def)
      then have "?Q () v" if "finished c a b x v" for v
        using that files_os [of v x] x(2) u(2) by (simp add: finished_def)
      then show ?thesis
        using log_frame_wf [OF x(1)] log_frame_live(1) [OF x(1) lu(1)] log_frame_live(1) [OF x(1) lu(2)]
          t(4,5) unfolding lm by blast
    qed
    have lok: "log_ok u" by (rule log_ok_io [OF t(3) u(1)])
    have said: "wp (log_text B MESSAGE COMP_WORKER ''PING!'') (\<lambda>_. ?E) u"
    proof (rule log_text_then [OF lok])
      fix x assume "log_frame u x" "effects (trace x) = effects (trace u)"
      then show "?E x" by (rule E)
    qed simp_all
    have "?E u" by (rule E [OF log_frame_refl [OF lok] refl])
    with said show ?thesis by (rule wp_cwhenI)
  qed
  have "wp (p_init (wire_seq bs + 1) (Ptr (next_id t) 0) PING) (\<lambda>r. wp (cbind (p_encode r) (\<lambda>pk.
      cseq (conn_write B c pk 13) (cwhen (verbose_2 B) (log_text B MESSAGE COMP_WORKER ''PING!''))))
      (\<lambda>_. ?E)) ?l"
  proof (rule wp_p_init [OF grows_wf [OF gl] one])
    fix x u assume u: "grows ?l u" "peek u (Ptr x 0) (length ''1'') = Some ''1''"
    let ?p = "\<lparr>seq_number = wire_seq bs + 1, arg = Ptr x 0, msg_len = of_nat (length ''1''),
      pk_error = 0, token = 0, msg_type = PING\<rparr> :: packet"
    have w: "wire ?p ''1'' = ?w" by (simp add: wire_def wire_msg_def)
    show "wp (cbind (p_encode ?p) (\<lambda>pk. cseq (conn_write B c pk 13)
        (cwhen (verbose_2 B) (log_text B MESSAGE COMP_WORKER ''PING!'')))) (\<lambda>_. ?E) u"
      unfolding wp_cbind
    proof (rule encode_then [OF grows_wf [OF u(1)], where body = "''1''"])
      fix e v assume v: "grows u v" "peek v (Ptr e 0) (length (wire ?p ''1'')) = Some (wire ?p ''1'')"
      have tv: "grows t v" by (rule grows_trans [OF grows_trans [OF gl u(1)] v(1)])
      have pk: "peek v (Ptr e 0) 13 = Some (take 13 ?w)"
        by (rule peek_take [OF v(2) [unfolded w]]) (simp add: header_size_def)
      have "wp (conn_write B c (Ptr e 0) 13) (\<lambda>_. wp (cwhen (verbose_2 B)
          (log_text B MESSAGE COMP_WORKER ''PING!'')) (\<lambda>_. ?E)) v"
      proof (rule conn_write_then [OF _ k(2) pk, unfolded k(3)])
        show "descriptor (fds v) (fd c) = Some k" using k(1) by (simp add: grows_os [OF tv])
        fix y assume y: "io v y" "effects (trace y) = effects (trace v) @ [Sent (fd c) Caller (take 13 ?w)]"
        show "wp (cwhen (verbose_2 B) (log_text B MESSAGE COMP_WORKER ''PING!'')) (\<lambda>_. ?E) y"
          by (rule last [OF io_mem_io [OF grows_io_mem [OF tv] y(1)]]) (simp add: y(2) grows_os [OF tv] t(2))
      qed
      then show "wp (cseq (conn_write B c (Ptr e 0) 13) (cwhen (verbose_2 B)
          (log_text B MESSAGE COMP_WORKER ''PING!''))) (\<lambda>_. ?E) v" by (simp add: wp_cseq)
    qed (use u(2) in simp_all)
  qed
  then show "wp (perform B sh c (decoded bs (Ptr a 0))) (\<lambda>_. ?E) t"
    using ty by (simp add: perform_def decoded_def wp_cbind wp_literal)
qed

section \<open>The answer to a request to write\<close>

lemma answer_good_then:
  assumes wf: "wf_mem s" and out: "gives s out m" and len: "length m + 1 < 2 ^ 32"
    and d: "descriptor (fds s) (fd c) = Some k" "accepts k" "peer k = Caller"
    and room: "\<And>j. 18 \<le> spare s j + room s j"
    and Q: "\<And>leak u. \<lbrakk>io_mem s u; length leak = 19; effects (trace u) = effects (trace s) @
        [Sent (fd c) Caller (wire_msg seq ty (WORKER_TKN B) m @ leak)]; fds u = fds s; net u = net s\<rbrakk> \<Longrightarrow> Q () u"
  shows "wp (answer_client B c seq ty out) Q s"
proof -
  let ?n = "sizeof_packet + unat (f_len out) + 1"
  have n: "?n = 41 + length m"
    using out len unat_of_nat32 [of "length m"] by (simp add: gives_def sizeof_packet_def)
  have "wp (cbind (p_init seq (f_text out) ty) (\<lambda>p. cbind (p_encode (attach_token (WORKER_TKN B) p))
      (\<lambda>pk. conn_write B c pk ?n))) (\<lambda>_. Q ()) s"
  proof (rule send_new_then [OF wf _ len d(1,2), unfolded d(3)])
    show "cstring s (f_text out) = Some m" using out by (simp add: gives_def)
    show "22 + length m \<le> ?n" unfolding n by simp
    show "?n \<le> 23 + length m + spare s j + room s j" for j unfolding n using room [of j] by simp
    fix leak u assume u: "io_mem s u" "length leak = ?n - (22 + length m)" "effects (trace u) =
        effects (trace s) @ [Sent (fd c) Caller (wire_msg seq ty (WORKER_TKN B) m @ leak)]"
      and os: "fds u = fds s" "net u = net s"
    have "length leak = 19" using u(2) unfolding n by simp
    then show "Q () u" by (rule Q [OF u(1) _ u(3) os])
  qed
  then show ?thesis
    using out by (simp add: answer_client_def create_packet_def gives_def cbind_assoc cbind_cret
        wp_cbind wp_cseq wp_cskip wp_funs)
qed

text \<open>
  A request that is executed and answered: what is left to show is what the operation does.
\<close>

lemma executed_then:
  fixes s :: "'z worker_scheme"
  assumes ok: "exec_ok s" and clean: "clean_mem s" and p: "has_packet c WORKER_READ_SIZE bs s"
    and tok: "wire_token bs = MASTER_TKN B"
    and perform: "\<And>q. msg_type q = wire_type bs \<Longrightarrow> (perform B sh c q :: (unit, 'z) wcmd) =
      cbind (f_exec B sh oper (arg q)) (\<lambda>output. answer_client B c (seq_number q + 1) (wire_type bs) output)"
    and body: "NUL \<notin> set (wire_body bs)" and len: "length m + 1 < 2 ^ 32"
    and room: "\<And>j. 18 \<le> spare s j + room s j"
    and E: "\<And>a t. \<lbrakk>io_mem s t; exec_ok t; clean_mem t; cstring t (Ptr a 0) = Some (wire_body bs)\<rbrakk> \<Longrightarrow>
      wp (f_exec B sh oper (Ptr a 0)) (\<lambda>out u. exec_frame t u \<and> files u = F \<and>
        effects (trace u) = effects (trace t) @ evs \<and> gives u out m) t"
  shows "wp (worker_handle_client B sh c) (\<lambda>_ t. served c s t \<and> files t = F \<and>
      (\<exists>leak. length leak = 19 \<and> effects (trace t) = effects (trace s) @ evs @
        [Sent (fd c) Caller (wire_msg (wire_seq bs + 1) (wire_type bs) (WORKER_TKN B) m @ leak), Closed (fd c)])) s"
    (is "wp _ ?Q s")
proof (rule request_then [OF ok p tok])
  fix b a and t :: "'z worker_scheme"
  assume t: "io_mem s t" "effects (trace t) = effects (trace s)" "live t (Ptr b 0)" "live t (Ptr a 0)"
      "net t = net s" "blocks s a = None" "blocks s b = None"
    and d: "\<exists>k. descriptor (fds t) (fd c) = Some k \<and> accepts k \<and> peer k = Caller"
    and str: "clean_mem s \<Longrightarrow> NUL \<notin> set (wire_body bs) \<Longrightarrow> cstring t (Ptr a 0) = Some (wire_body bs)"
    and other: "\<And>i. i \<noteq> fd c \<Longrightarrow> descriptor (fds t) i = descriptor (fds s) i"
  obtain k where k: "descriptor (fds t) (fd c) = Some k" "accepts k" "peer k = Caller" using d by blast
  let ?E = "\<lambda>u. wf_mem u \<and> live u (Ptr b 0) \<and> live u (Ptr a 0) \<and> (\<forall>v. finished c a b u v \<longrightarrow> ?Q () v)"
  let ?answer = "answer_client B c (wire_seq bs + 1) (wire_type bs)"
  have "wp (f_exec B sh oper (Ptr a 0)) (\<lambda>out. wp (?answer out) (\<lambda>_. ?E)) t"
  proof (rule wp_mono [OF E [OF t(1) exec_io(1) [OF ok t(1)] clean_mgrows [OF io_mem_mgrows [OF t(1)] clean]
          str [OF clean body]]])
    fix out and u :: "'z worker_scheme"
    assume u: "exec_frame t u \<and> files u = F \<and> effects (trace u) = effects (trace t) @ evs \<and> gives u out m"
    have mu: "mgrows s u" using io_mem_mgrows [OF t(1)] exec_frame_mgrows u by (blast intro: mgrows_trans)
    have fu: "fds u = fds t" "net u = net t" "log_msg u = log_msg t" "work_dir u = work_dir t"
      "may_write u = may_write t" "exec_held u = exec_held t" using u by (simp_all add: exec_frame_def)
    have ot: "os.more t = os.more s" using t(1) by (simp add: io_mem_def)
    show "wp (?answer out) (\<lambda>_. ?E) u"
    proof (rule answer_good_then [OF mgrows_wf [OF mu] _ len _ k(2,3)])
      show "gives u out m" using u by simp
      show "descriptor (fds u) (fd c) = Some k" using k(1) by (simp add: fu)
      show "18 \<le> spare u j + room u j" for j using room [of j] by (simp add: mgrows_oracles [OF mu])
      fix leak and v :: "'z worker_scheme"
      assume v: "io_mem u v" "length leak = 19" "effects (trace v) = effects (trace u) @
          [Sent (fd c) Caller (wire_msg (wire_seq bs + 1) (wire_type bs) (WORKER_TKN B) m @ leak)]"
        "fds v = fds u" "net v = net u"
      have mv: "mgrows t v" using exec_frame_mgrows io_mem_mgrows [OF v(1)] u by (blast intro: mgrows_trans)
      have sv: "mgrows s v" by (rule mgrows_trans [OF mu io_mem_mgrows [OF v(1)]])
      have ov: "os.more v = os.more u" using v(1) by (simp add: io_mem_def)
      have "?Q () y" if y: "finished c a b v y" for y
      proof -
        have oy: "os.more y = os.more v" using y by (simp add: finished_def)
        have "served c s y"
          using y finished_mgrows [OF y sv t(6,7)] t(5) fu other v(4,5)
          by (simp add: served_def finished_def os_fields [OF oy] os_fields [OF ov] os_fields [OF ot])
        moreover have "files y = F" using files_os [OF oy] files_os [OF ov] u by simp
        ultimately show ?thesis using y v(2,3) u t(2) by (auto simp: finished_def)
      qed
      then show "?E v"
        using mgrows_wf [OF mv] mgrows_live [OF mv t(3)] mgrows_live [OF mv t(4)] by blast
    qed
  qed
  moreover have "(perform B sh c (decoded bs (Ptr a 0)) :: (unit, 'z) wcmd) = cbind (f_exec B sh oper (Ptr a 0)) ?answer"
    using perform [of "decoded bs (Ptr a 0)"] by (simp add: decoded_def)
  ultimately show "wp (perform B sh c (decoded bs (Ptr a 0))) (\<lambda>_. ?E) t" by (simp only: wp_cbind)
qed

lemma body_short:
  assumes "has_packet c WORKER_READ_SIZE bs s"
  shows "length (wire_body bs) \<le> 10000"
  using assms by (auto simp: has_packet_def wire_body_def WORKER_READ_SIZE_def)

definition write_type :: "bool \<Rightarrow> ptype" where
  "write_type a = (if a then APPEND else WRITE)"

lemma put_answered:
  fixes s :: "'z worker_scheme"
  assumes ok: "exec_ok s" and clean: "clean_mem s" and p: "has_packet c WORKER_READ_SIZE bs s"
    and tok: "wire_token bs = MASTER_TKN B" and ty: "wire_type bs = write_type a"
    and body: "wire_body bs = n @ CHR '';'' # x" and n: "CHR '';'' \<notin> set n" "NUL \<notin> set (n @ x)"
    and w: "writable_name s n" and room: "\<And>j. 18 \<le> spare s j + room s j"
  shows "wp (worker_handle_client B sh c) (\<lambda>_ t. served c s t \<and>
      files t = snd (abs_write (path_of s n) x a (files s)) \<and>
      (\<exists>leak. length leak = 19 \<and> effects (trace t) = effects (trace s) @ [] @
        [Sent (fd c) Caller (wire_msg (wire_seq bs + 1) (write_type a) (WORKER_TKN B)
           (show_int (fst (abs_write (path_of s n) x a (files s)))) @ leak), Closed (fd c)])) s"
proof -
  let ?r = "fst (abs_write (path_of s n) x a (files s))"
  have len: "length n + length x + 1 \<le> 10000" using body_short [OF p] by (simp add: body)
  have digits: "length (show_nat (length x)) < 10" using len length_show_nat [of "length x" 8] by simp
  show ?thesis
  proof (rule executed_then [OF ok clean p tok, unfolded ty, where oper = "write_flag a" and m = "show_int ?r"])
    show "perform B sh c q = cbind (f_exec B sh (write_flag a) (arg q))
        (\<lambda>output. answer_client B c (seq_number q + 1) (write_type a) output)" if "msg_type q = write_type a" for q
      using that by (cases a) (simp_all add: perform_def cbind_cret write_type_def write_flag_def)
    show "NUL \<notin> set (wire_body bs)" using n(2) by (simp add: body)
    have "length (show_int ?r) < 10"
      by (rule abs_write_count [OF _ digits, of _ "snd (abs_write (path_of s n) x a (files s))" "path_of s n" a "files s"]) simp
    then show "length (show_int ?r) + 1 < 2 ^ 32" by simp
    fix e and t :: "'z worker_scheme"
    assume t: "io_mem s t" "exec_ok t" "clean_mem t" "cstring t (Ptr e 0) = Some (wire_body bs)"
    note et = exec_io [OF ok t(1)]
    show "wp (f_exec B sh (write_flag a) (Ptr e 0)) (\<lambda>out u. exec_frame t u \<and>
        files u = snd (abs_write (path_of s n) x a (files s)) \<and>
        effects (trace u) = effects (trace t) @ [] \<and> gives u out (show_int ?r)) t"
    proof (rule exec_put_then [OF t(2,3) t(4) [unfolded body] n(1) _ _ digits])
      fix r out u
      assume u: "exec_frame t u" "(r, files u) = abs_write (path_of t n) x a (files t)" "trace u = trace t"
        "gives u out (show_int r)"
      have "abs_write (path_of s n) x a (files s) = (r, files u)" using u(2) unfolding et by (rule sym)
      then show "exec_frame t u \<and> files u = snd (abs_write (path_of s n) x a (files s)) \<and>
        effects (trace u) = effects (trace t) @ [] \<and> gives u out (show_int ?r)"
        using u(1,3,4) by simp
    qed (use len w in \<open>simp_all add: et\<close>)
  qed (rule room)
qed

lemma write_answered:
  fixes s :: "'z worker_scheme"
  assumes ok: "exec_ok s" and clean: "clean_mem s" and p: "has_packet c WORKER_READ_SIZE bs s"
    and tok: "wire_token bs = MASTER_TKN B" and ty: "wire_type bs = WRITE"
    and body: "wire_body bs = n @ CHR '';'' # x" and n: "CHR '';'' \<notin> set n" "NUL \<notin> set (n @ x)"
    and w: "writable_name s n" and room: "\<And>j. 18 \<le> spare s j + room s j"
  shows "wp (worker_handle_client B sh c) (\<lambda>_ t. files t = (files s)(path_of s n \<mapsto> x) \<and>
      (\<exists>leak. length leak = 19 \<and> effects (trace t) = effects (trace s) @
        [Sent (fd c) Caller (wire_msg (wire_seq bs + 1) WRITE (WORKER_TKN B) (show_nat (length x)) @ leak),
         Closed (fd c)])) s"
proof -
  have "wire_type bs = write_type False" using ty by (simp add: write_type_def)
  from put_answered [OF ok clean p tok this body n w room]
  show ?thesis by (rule wp_mono) (simp add: abs_write_def write_type_def show_int_def)
qed

section \<open>The answers to requests to read and to delete\<close>

lemma read_answered:
  fixes s :: "'z worker_scheme"
  assumes ok: "exec_ok s" and clean: "clean_mem s" and p: "has_packet c WORKER_READ_SIZE bs s"
    and tok: "wire_token bs = MASTER_TKN B" and ty: "wire_type bs = READ" and n: "NUL \<notin> set (wire_body bs)"
    and x: "content s (wire_body bs) = Some x" "fits READ_SIZE 0 x" "NUL \<notin> set x" "length x + 1 < 2 ^ 32"
    and room: "\<And>j. 18 \<le> spare s j + room s j"
  shows "wp (worker_handle_client B sh c) (\<lambda>_ t. served c s t \<and> files t = files s \<and>
      (\<exists>leak. length leak = 19 \<and> effects (trace t) = effects (trace s) @ [] @
        [Sent (fd c) Caller (wire_msg (wire_seq bs + 1) READ (WORKER_TKN B) x @ leak), Closed (fd c)])) s"
proof (rule executed_then [OF ok clean p tok, unfolded ty, where oper = FILE_READ])
  show "perform B sh c q = cbind (f_exec B sh FILE_READ (arg q))
      (\<lambda>output. answer_client B c (seq_number q + 1) READ output)" if "msg_type q = READ" for q
    using that by (simp add: perform_def cbind_cret)
  show "NUL \<notin> set (wire_body bs)" by (rule n)
  fix a and t :: "'z worker_scheme"
  assume t: "io_mem s t" "exec_ok t" "clean_mem t" "cstring t (Ptr a 0) = Some (wire_body bs)"
  note et = exec_io [OF ok t(1)]
  show "wp (f_exec B sh FILE_READ (Ptr a 0)) (\<lambda>out u. exec_frame t u \<and> files u = files s \<and>
      effects (trace u) = effects (trace t) @ [] \<and> gives u out x) t"
    by (rule exec_read_then [OF t(2-4) _ x(2-4)]) (use x(1) in \<open>simp_all add: et\<close>)
qed (rule x(4), rule room)

text \<open>A file that is not there is deleted without a command, and the answer is the same.\<close>

definition removal :: "'z fsys_scheme \<Rightarrow> string \<Rightarrow> event list" where
  "removal s n = (if content s n = None then [] else [Ran (''rm '' @ path_of s n)])"

lemma delete_answered:
  fixes s :: "'z worker_scheme"
  assumes ok: "exec_ok s" and clean: "clean_mem s" and p: "has_packet c WORKER_READ_SIZE bs s"
    and tok: "wire_token bs = MASTER_TKN B" and ty: "wire_type bs = DELETE" and n: "NUL \<notin> set (wire_body bs)"
    and sh: "content s (wire_body bs) = None \<or> rm_law sh \<and> plain (path_of s (wire_body bs))"
    and room: "\<And>j. 18 \<le> spare s j + room s j"
  shows "wp (worker_handle_client B sh c) (\<lambda>_ t. served c s t \<and>
      files t = (files s)(path_of s (wire_body bs) := None) \<and>
      (\<exists>leak. length leak = 19 \<and> effects (trace t) = effects (trace s) @ removal s (wire_body bs) @
        [Sent (fd c) Caller (wire_msg (wire_seq bs + 1) DELETE (WORKER_TKN B) [] @ leak), Closed (fd c)])) s"
proof (rule executed_then [OF ok clean p tok, unfolded ty, where oper = FILE_DELETE])
  show "perform B sh c q = cbind (f_exec B sh FILE_DELETE (arg q))
      (\<lambda>output. answer_client B c (seq_number q + 1) DELETE output)" if "msg_type q = DELETE" for q
    using that by (simp add: perform_def cbind_cret)
  show "NUL \<notin> set (wire_body bs)" by (rule n)
  fix a and t :: "'z worker_scheme"
  assume t: "io_mem s t" "exec_ok t" "clean_mem t" "cstring t (Ptr a 0) = Some (wire_body bs)"
  note et = exec_io [OF ok t(1)]
  show "wp (f_exec B sh FILE_DELETE (Ptr a 0)) (\<lambda>out u. exec_frame t u \<and>
      files u = (files s)(path_of s (wire_body bs) := None) \<and>
      effects (trace u) = effects (trace t) @ removal s (wire_body bs) \<and> gives u out []) t"
    by (rule exec_delete_then [OF t(2,4)]) (use sh in \<open>auto simp: et removal_def\<close>)
qed (simp, rule room)

section \<open>Requests that end in a fault\<close>

text \<open>The handler up to the decoded packet.\<close>

lemma handler_fault:
  fixes s :: "'z worker_scheme"
  assumes ok: "exec_ok s" and p: "has_packet c WORKER_READ_SIZE bs s" and tok: "wire_token bs = MASTER_TKN B"
    and F: "\<And>a t. \<lbrakk>io_mem s t; clean_mem s \<Longrightarrow> NUL \<notin> set (wire_body bs) \<Longrightarrow>
        cstring t (Ptr a 0) = Some (wire_body bs)\<rbrakk> \<Longrightarrow> perform B sh c (decoded bs (Ptr a 0)) t = Inl e"
  shows "worker_handle_client B sh c s = Inl e"
proof -
  let ?m = "cbind (malloc WORKER_READ_SIZE) (\<lambda>buffer. cbind (conn_read B c buffer WORKER_READ_SIZE) (\<lambda>n.
     if n \<le> 0 then cret None else cbind (p_decode buffer) (\<lambda>p. cret (Some (buffer, p)))))"
  let ?k = "\<lambda>r. case r of None \<Rightarrow> cskip | Some (b, p) \<Rightarrow> serve B sh c b p"
  have "wp ?m (\<lambda>r t. ?k r t = Inl e) s"
  proof (rule packet_arrives_then [OF exec_ok_wf [OF ok] p])
    fix b a and t :: "'z worker_scheme"
    assume t: "io_mem s t" "clean_mem s \<Longrightarrow> NUL \<notin> set (wire_body bs) \<Longrightarrow>
      cstring t (Ptr a 0) = Some (wire_body bs)"
    have "perform B sh c (decoded bs (Ptr a 0)) t = Inl e" by (rule F [OF t])
    then show "wp (cret (Some (Ptr b 0, decoded bs (Ptr a 0)))) (\<lambda>r t. ?k r t = Inl e) t"
      using tok by (simp add: wp_cret serve_def run_cseq_fault) (simp add: decoded_def run_cseq_fault)
  qed
  then obtain r t where r: "?m s = Inr (r, t)" "?k r t = Inl e" unfolding wp_runs by blast
  then show ?thesis
    unfolding worker_handle_client_def
    by (auto simp: cbind_def cret_def cskip_def split: sum.splits if_splits)
qed

lemma list_request_overflows:
  fixes s :: "'z worker_scheme"
  assumes ok: "exec_ok s" and p: "has_packet c WORKER_READ_SIZE bs s" and tok: "wire_token bs = MASTER_TKN B"
    and ty: "wire_type bs = LS" and d: "dirs s (WORKER_DIR B) = Some (x # xs)" and spare: "spare s = (\<lambda>_. 0)"
  shows "worker_handle_client B sh c s = Inl Overflow"
proof (rule handler_fault [OF ok p tok])
  fix a and t :: "'z worker_scheme" assume t: "io_mem s t"
  have "dirs t = dirs s" using t worker_more [of t s] logst_more(2) [of t s]
    by (cases s; cases t) (simp add: io_mem_def)
  then have "file_list B (WORKER_DIR B) t = Inl Overflow"
    using d spare mgrows_oracles [OF io_mem_mgrows [OF t]] exec_io(1) [OF ok t]
    by (intro file_list_overflow) (simp_all add: exec_ok_def)
  then show "perform B sh c (decoded bs (Ptr a 0)) t = Inl Overflow"
    using ty by (simp add: perform_def decoded_def run_cbind_fault)
qed

section \<open>The registration\<close>

text \<open>The address that the worker gives: fixed in the test build, else the output of a program.\<close>

definition own_address :: "build \<Rightarrow> 'z worker_scheme \<Rightarrow> string" where
  "own_address B s = (if debug B then ''127.0.0.1'' else takeWhile ip_char (host_output s))"

definition asks_host :: "build \<Rightarrow> event list" where
  "asks_host B = (if debug B then [] else [Ran ''hostname -I''])"

lemma own_address_no_nul: "NUL \<notin> set (own_address B s)" "CHR '';'' \<notin> set (own_address B s)"
  by (auto simp: own_address_def ip_char_def is_digit_def dest!: set_takeWhileD)

lemma worker_os_updates [simp]:
  "host_output (add_block k s) = host_output s" "host_output (s\<lparr>trace := tr\<rparr>) = host_output s"
  by (simp_all add: add_block_def)

lemma get_ip_then:
  assumes wf: "wf_mem s" and a: "own_address B s \<noteq> []" "length (own_address B s) \<le> 15"
    and Q: "\<And>p t. \<lbrakk>io_mem s t; fds t = fds s; net t = net s; cstring t p = Some (own_address B s);
        effects (trace t) = effects (trace s) @ asks_host B\<rbrakk> \<Longrightarrow> Q p t"
  shows "wp (get_ip B) Q s"
proof (cases "debug B")
  case True
  have "Q (Ptr (next_id s) 0) (add_block (lit_block ''127.0.0.1'' s) s)"
    by (rule Q)
      (use True wf in \<open>simp_all add: own_address_def asks_host_def io_mem_def lit_block_def
        mgrows_add_block mgrows_refl\<close>)
  with True show ?thesis by (simp add: get_ip_def wp_literal)
next
  case False
  let ?a = "own_address B s" and ?s = "s\<lparr>trace := trace s @ [Ran ''hostname -I'']\<rparr>"
  let ?t = "add_block (filled 16 (?a @ [NUL]) ?s) ?s"
  have "mgrows s ?t" using a(2) by (intro mgrows_add_block) (simp_all add: mgrows_refl wf)
  moreover have "cstring ?t (Ptr (next_id ?s) 0) = Some ?a"
    by (rule cstring_filled_nul [OF own_address_no_nul(1)])
  ultimately have "Q (Ptr (next_id s) 0) ?t"
    using False by (intro Q) (simp_all add: asks_host_def io_mem_def)
  moreover have "takeWhile ip_char (host_output s) = ?a" using False by (simp add: own_address_def)
  ultimately show ?thesis
    using False a by (simp add: get_ip_def wp_simps filled_def)
qed

text \<open>
  The loop ends in its first round, whether the message could be sent or not. What is sent
  are the first 40 bytes of the packet and of what follows it.
\<close>

lemma register_loop_then:
  assumes wf: "wf_mem s" and len: "unat (msg_len p) \<le> 21"
    and arg: "peek s (arg p) (unat (msg_len p)) = Some body"
    and d: "descriptor (fds s) (fd c) = Some k"
    and room: "17 \<le> unat (msg_len p) + spare s (next_id s) + room s (next_id s)"
    and Q: "\<And>leak u. \<lbrakk>io_mem s u; fds u = fds s; net u = net s;
        length leak = 40 - (22 + length body);
        effects (trace u) = effects (trace s) @
          (if accepts k then [Sent (fd c) (peer k) (take 40 (wire p body @ leak))] else [])\<rbrakk> \<Longrightarrow> Q () u"
  shows "wp (cloop 2 (register_body B c p) ()) Q s"
proof -
  have len': "msg_len p \<noteq> - 1"
    using len by (auto simp: unsigned_minus_1_eq_mask mask_eq_exp_minus_1)
  have two: "(2 :: nat) = Suc 1" by simp
  let ?R = "\<lambda>r t. case r of Inl x \<Rightarrow> wp (cloop 1 (register_body B c p) x) Q t | Inr y \<Rightarrow> Q y t"
  let ?K = "\<lambda>bs. ?R (if (word_of_int bs :: u32) \<le> 0 then Inl () else Inr ())"
  have "wp (p_encode p) (\<lambda>pk. wp (conn_write B c pk 40) ?K) s"
  proof (rule wp_p_encode [OF wf len' arg])
    fix m assume m: "m = unat (msg_len p) + 23"
    let ?w = "wire p body" and ?t = "add_block (filled m (wire p body) s) s"
    let ?leak = "take (40 - length ?w) (drop (length ?w) (fresh_bytes m s))"
    have lw: "length ?w = 22 + unat (msg_len p)" "length ?w = 22 + length body"
      using length_peek [OF arg] by (simp_all add: length_wire header_size_def)
    have g: "grows s ?t" by (rule grows_filled [OF wf]) (simp add: lw m)
    have ll: "length ?leak = 40 - (22 + length body)" using room len lw m by simp
    have pk: "peek ?t (Ptr (next_id s) 0) 40 = Some (take 40 (?w @ ?leak))"
      using room lw m by (simp add: bytes_filled)
    show "wp (conn_write B c (Ptr (next_id s) 0) 40) ?K ?t"
    proof (cases "accepts k")
      case True
      show ?thesis
      proof (rule conn_write_then [OF _ True pk])
        show "descriptor (fds ?t) (fd c) = Some k" using d by simp
        fix u assume u: "io ?t u" "fds u = fds ?t" "net u = net ?t"
          "effects (trace u) = effects (trace ?t) @ [Sent (fd c) (peer k) (take 40 (?w @ ?leak))]"
        have "Q () u"
          by (rule Q [OF io_mem_io [OF grows_io_mem [OF g] u(1)] _ _ ll]) (use u True in simp_all)
        then show "?K (int 40) u" by simp
      qed
    next
      case False
      show ?thesis
      proof (rule conn_write_fails)
        show "\<not> accepts j" if "descriptor (fds ?t) (fd c) = Some j" for j using that d False by simp
        fix u assume u: "io ?t u" "fds u = fds ?t" "net u = net ?t"
          "effects (trace u) = effects (trace ?t)"
        have "Q () u"
          by (rule Q [OF io_mem_io [OF grows_io_mem [OF g] u(1)] _ _ ll]) (use u False in simp_all)
        then show "?K (- 1) u" by simp
      qed
    qed
  qed
  then have "wp (register_body B c p ()) ?R s" by (simp add: register_body_def wp_funs)
  then show ?thesis unfolding two wp_cloop_Suc .
qed

text \<open>
  The worker writes its address and port into 21 bytes, which an address of up to 14
  characters fits, sends the message once, and reports success whatever became of it.
\<close>

definition own_message :: "build \<Rightarrow> 'z worker_scheme \<Rightarrow> string" where
  "own_message B s = own_address B s @ CHR '';'' # show_nat 55443"

lemma own_message_length: "length (own_message B s) = length (own_address B s) + 6"
  by (simp add: own_message_def show_nat.simps)

lemma own_message_no_nul: "NUL \<notin> set (own_message B s)"
  using own_address_no_nul(1) [of B s] show_int_no_nul [of 55443] by (simp add: own_message_def show_int_def)

lemma put_message_then:
  assumes wf: "wf_mem s" and t: "io_mem (add_block (fresh_block n s) s) t"
    and tx: "text_of t ps = Some m" and no: "NUL \<notin> set m" and len: "length m < n"
    and Q: "\<And>u. \<lbrakk>io_mem s u; cstring u (Ptr (next_id s) 0) = Some m; live u (Ptr (next_id s) 0); fds u = fds t; net u = net t;
        trace u = trace t\<rbrakk> \<Longrightarrow> Q (length m) u"
  shows "wp (sprintf (Ptr (next_id s) 0) ps) Q t"
proof -
  let ?m = "Ptr (next_id s) 0"
  let ?u = "put ?m (m @ [NUL]) t"
  have g: "mgrows s (add_block (fresh_block n s) s)" by (intro mgrows_add_block mgrows_refl wf) simp
  have st: "mgrows s t" by (rule mgrows_trans [OF g io_mem_mgrows [OF t]])
  have b: "blocks t (next_id s) = Some (fresh_block n s)"
    by (rule mgrows_blocks [OF io_mem_mgrows [OF t]]) simp
  have w: "writable t ?m (length (m @ [NUL]))" using b len by simp
  have u: "mgrows s ?u" by (rule mgrows_put [OF st refl _ w]) (simp add: wf_mem_fresh [OF wf])
  have "cstring ?u ?m = Some m" using b len no by (simp add: c_str_nul overwrite_zero)
  moreover have "live ?u ?m" using b by simp
  ultimately have "Q (length m) ?u" using u t by (intro Q) (simp_all add: io_mem_def)
  then show ?thesis using w by (simp add: wp_sprintf wp_format tx)
qed

lemma boot_register_then:
  fixes s :: "'z worker_scheme"
  assumes wf: "wf_mem s" and host: "cstring s h = Some master" "inet_pton4 master"
    and net: "net s = Opens d # rs"
    and a: "own_address B s \<noteq> []" "length (own_address B s) \<le> 14"
    and room: "\<And>j. 10 \<le> spare s j + room s j"
    and Q: "\<And>leak u. \<lbrakk>io_mem s u; net u = rs; length leak = 12 - length (own_address B s);
        effects (trace u) = effects (trace s) @ asks_host B @
          (if accepts d then [Sent (int (lowest_free (fds s))) (Host master (BOOT_MASTER_PORT B)) (take 40 (wire_msg 0 REGISTER (WORKER_TKN B) (own_message B s) @ leak))] else []) @
          [Closed (int (lowest_free (fds s)))];
        fds u = (install (lowest_free (fds s)) (d\<lparr>peer := Host master (BOOT_MASTER_PORT B)\<rparr>) (fds s))[lowest_free (fds s) := None]\<rbrakk> \<Longrightarrow> Q True u"
  shows "wp (boot_register B h) Q s"
  unfolding boot_register_def wp_cbind
proof (rule client_init_then [OF wf host net])
  let ?f = "int (lowest_free (fds s))" and ?d = "d\<lparr>peer := Host master (BOOT_MASTER_PORT B)\<rparr>"
  fix m t assume t: "io_mem s t" "net t = rs" "trace t = trace s"
    "fds t = install (lowest_free (fds s)) ?d (fds s)"
  let ?c = "\<lparr>c_error = 0, error_msg = m, fd = ?f, max_bytes = 0\<rparr> :: conn"
  let ?s = "add_block (fresh_block 21 t) t" and ?msg = "own_message B s" and ?b = "Ptr (next_id t) 0"
  let ?rest = "cbind (p_init 0 ?b REGISTER) (\<lambda>p.
    cseq (cloop 2 (register_body B ?c (attach_token (WORKER_TKN B) p)) ())
    (cseq (free ?b) (cbind (conn_close B ?c) (\<lambda>_. cret True))))"
  note wt = io_mem_wf [OF t(1)]
  have own: "own_address B ?s = own_address B s"
    using worker_more(6) [OF logst_more(2) [OF conjunct2 [OF t(1) [unfolded io_mem_def]]]]
    by (simp add: own_address_def)
  have d: "descriptor (fds t) ?f = Some ?d" by (simp add: t(4))
  have "wp (get_ip B) (\<lambda>i. wp (sprintf ?b [PStr i, Txt '';'', PInt (int (unat get_port))])
      (\<lambda>_. wp ?rest Q)) ?s"
  proof (rule get_ip_then)
    show "wf_mem ?s" by (rule wf_add_block [OF wt]) simp
    fix i u assume u: "io_mem ?s u" "fds u = fds ?s" "net u = net ?s"
      "cstring u i = Some (own_address B ?s)" "effects (trace u) = effects (trace ?s) @ asks_host B"
    have tx: "text_of u [PStr i, Txt '';'', PInt (int (unat get_port))] = Some ?msg"
      using u(4) own by (simp add: own_message_def get_port_def show_int_def)
    have len: "length ?msg < 21" using a(2) by (simp add: own_message_length)
    show "wp (sprintf ?b [PStr i, Txt '';'', PInt (int (unat get_port))]) (\<lambda>_. wp ?rest Q) u"
    proof (rule put_message_then [OF wt u(1) tx own_message_no_nul len])
      fix v assume v: "io_mem t v" "cstring v ?b = Some ?msg" "live v ?b" "fds v = fds u" "net v = net u"
        "trace v = trace u"
      show "wp ?rest Q v" unfolding wp_cbind
      proof (rule wp_p_init [OF io_mem_wf [OF v(1)] v(2)])
        fix x w assume w: "grows v w" "peek w (Ptr x 0) (length ?msg) = Some ?msg"
        let ?p = "attach_token (WORKER_TKN B) \<lparr>seq_number = 0, arg = Ptr x 0,
          msg_len = of_nat (length ?msg), pk_error = 0, token = 0, msg_type = REGISTER\<rparr>"
        have n: "unat (msg_len ?p) = length ?msg"
          using len unat_length [of ?msg] by (simp add: attach_token_def)
        have tw: "io_mem t w" by (rule io_mem_grows [OF v(1) w(1)])
        have dw: "descriptor (fds w) (fd ?c) = Some ?d" using d by (simp add: grows_os [OF w(1)] v(4) u(2))
        have "wp (cloop 2 (register_body B ?c ?p) ()) (\<lambda>_. wp (cseq (free ?b)
            (cbind (conn_close B ?c) (\<lambda>_. cret True))) Q) w"
        proof (rule register_loop_then [OF io_mem_wf [OF tw] _ _ dw, where body = ?msg])
          show "unat (msg_len ?p) \<le> 21" unfolding n using len by simp
          show "peek w (arg ?p) (unat (msg_len ?p)) = Some ?msg"
            unfolding n using w(2) by (simp add: attach_token_def)
          have "7 \<le> length ?msg" using a(1) by (cases "own_address B s") (simp_all add: own_message_length)
          then show "17 \<le> unat (msg_len ?p) + spare w (next_id w) + room w (next_id w)"
            unfolding n using room [of "next_id w"] mgrows_oracles [OF io_mem_mgrows [OF io_mem_trans [OF t(1) tw]]] by simp
          fix leak y
          assume y: "io_mem w y" "fds y = fds w" "net y = net w"
            "length leak = 40 - (22 + length ?msg)"
            "effects (trace y) = effects (trace w) @ (if accepts ?d
               then [Sent (fd ?c) (peer ?d) (take 40 (wire ?p ?msg @ leak))] else [])"
          have live: "live y ?b"
            by (rule mgrows_live [OF io_mem_mgrows [OF y(1)] grows_live [OF w(1) v(3)]])
          have z: "io_mem s (del_block (next_id t) y)"
            using mgrows_next [OF io_mem_mgrows [OF t(1)]]
            by (intro io_mem_free [OF wf]) (auto intro: io_mem_trans [OF t(1)] io_mem_trans [OF tw y(1)])
          have "wp (conn_close B ?c) (\<lambda>_. Q True) (del_block (next_id t) y)"
          proof (rule conn_close_then [OF io_mem_wf [OF z]])
            fix m' q assume q: "io_mem (del_block (next_id t) y) q" "net q = net (del_block (next_id t) y)"
              "effects (trace q) = effects (trace (del_block (next_id t) y)) @ [Closed (fd ?c)]"
              "fds q = (if 0 \<le> fd ?c then (fds (del_block (next_id t) y))[nat (fd ?c) := None]
                 else fds (del_block (next_id t) y))"
            have wire: "wire ?p ?msg = wire_msg 0 REGISTER (WORKER_TKN B) ?msg"
              by (simp add: wire_msg_def attach_token_def wire_def)
            have "length leak = 12 - length (own_address B s)" using y(4) by (simp add: own_message_length)
            then show "Q True q"
              by (intro Q [where leak = leak, OF io_mem_trans [OF z q(1)]])
                (use q y(1-3) y(5) [unfolded wire] v(4-6) u t in \<open>simp_all add: grows_os [OF w(1)]\<close>)
          qed
          then show "wp (cseq (free ?b) (cbind (conn_close B ?c) (\<lambda>_. cret True))) Q y"
            using live by (simp add: wp_cseq wp_free wp_funs del: live.simps)
        qed
        then show "wp (cseq (cloop 2 (register_body B ?c ?p) ()) (cseq (free ?b)
            (cbind (conn_close B ?c) (\<lambda>_. cret True)))) Q w" by (simp add: wp_cseq)
      qed
    qed
  qed (use a own in simp_all)
  then show "wp (if c_error ?c \<noteq> 0 then cseq (cwhen (verbose B) (cseq (logger ERROR COMP_WORKER
      (PStr (error_msg ?c))) cskip)) (cret False) else cbind (malloc 21) (\<lambda>msg. cbind (get_ip B)
      (\<lambda>i. cseq (sprintf msg [PStr i, Txt '';'', PInt (int (unat get_port))]) (cbind (p_init 0 msg REGISTER)
      (\<lambda>p. cseq (cloop 2 (register_body B ?c (attach_token (WORKER_TKN B) p)) ())
        (cseq (free msg) (cbind (conn_close B ?c) (\<lambda>_. cret True)))))))) Q t"
    by (simp add: wp_malloc wp_cbind wp_cseq wp_funs)
qed

section \<open>Properties\<close>

text \<open>A worker for examples: the address of the master and the working directory in memory.\<close>

definition sample_node :: "sock option list \<Rightarrow> outcome list \<Rightarrow> string \<Rightarrow> worker" where
  "sample_node ds script h =
    \<lparr>blocks = [0 \<mapsto> str_block ''10.0.0.1'', 1 \<mapsto> str_block ''dir''], next_id = 2,
     junk = (\<lambda>_ _. NUL), spare = (\<lambda>_. 0), room = (\<lambda>_. 64),
     fds = ds, net = script, trace = [], log_msg = Null,
     files = [''dir/f'' \<mapsto> ''x''], may_write = (\<lambda>_. True), streams = 0, work_dir = Ptr 1 0,
     exec_held = False, dirs = (\<lambda>_. None),
     stack_out = \<lparr>f_error = True, f_text = Null, f_len = 0\<rparr>,
     arg_err = Null, host_output = h, stack_op = 0\<rparr>"

lemma sample_node_simps [simp]:
  "exec_ok (sample_node ds script h)" "clean_mem (sample_node ds script h)"
  "wf_mem (sample_node ds script h)"
  "path_of (sample_node ds script h) n = ''dir/'' @ n" "writable_name (sample_node ds script h) n"
  "cstring (sample_node ds script h) (Ptr 0 0) = Some ''10.0.0.1''"
  "fds (sample_node ds script h) = ds" "net (sample_node ds script h) = script"
  "trace (sample_node ds script h) = []" "files (sample_node ds script h) = [''dir/f'' \<mapsto> ''x'']"
  "spare (sample_node ds script h) j = 0" "room (sample_node ds script h) j = 64"
  "host_output (sample_node ds script h) = h"
  by (auto simp: sample_node_def exec_ok_def fs_ok_def log_ok_def wf_mem_def str_block_def path_of_def
      c_str_exact clean_mem_def writable_name_def split: if_splits)

lemma sample_node_packet:
  assumes "known_type ty" and "length str \<le> 1000"
  shows "has_packet sample_conn WORKER_READ_SIZE (wire_msg q ty tok str)
    (sample_node [Some (carries (wire_msg q ty tok str))] script h)"
  using assms by (simp add: has_packet_def sample_conn_def descriptor_def WORKER_READ_SIZE_def
      header_size_def unat_length)

text \<open>
  C21. A worker obeys the master only: a packet of any type without the master's token changes
  no file and is answered by nothing but the end of the connection.
\<close>

theorem worker_ignores_foreign:
  assumes "exec_ok s" and "has_packet c WORKER_READ_SIZE bs s" and "wire_token bs \<noteq> MASTER_TKN B"
  shows "wp (worker_handle_client B sh c) (\<lambda>_ t. files t = files s \<and>
      effects (trace t) = effects (trace s) @ [Closed (fd c)]) s"
  using assms by (rule foreign_ignored)

theorem worker_ignores_foreign_witness:
  "wp (worker_handle_client test_build (\<lambda>_ fs. fs) sample_conn)
    (\<lambda>_ t. files t ''dir/f'' = Some ''x'' \<and> effects (trace t) = [Closed 0])
    (sample_node [Some (carries (wire_msg 0 DELETE 7 ''f''))] [] [])"
  by (rule wp_mono [OF worker_ignores_foreign [OF _ sample_node_packet]])
    (simp_all add: sample_conn_def)

text \<open>
  A ping of the master is answered by the first 13 bytes of a ping with the next sequence
  number, and no file is touched. The answer is complete up to its type only: the rest of
  the header and the argument are never sent.
\<close>

theorem worker_answers_ping:
  assumes "exec_ok s" and "has_packet c WORKER_READ_SIZE bs s" and "wire_token bs = MASTER_TKN B"
    and "wire_type bs = PING"
  shows "wp (worker_handle_client B sh c) (\<lambda>_ t. files t = files s \<and> effects (trace t) = effects (trace s) @
    [Sent (fd c) Caller (take 13 (wire_msg (wire_seq bs + 1) PING 0 ''1'')), Closed (fd c)]) s"
  using assms by (rule ping_answered)

theorem worker_answers_ping_witness:
  "wp (worker_handle_client test_build (\<lambda>_ fs. fs) sample_conn)
    (\<lambda>_ t. effects (trace t) = [Sent 0 Caller (take 13 (wire_msg 42 PING 0 ''1'')), Closed 0])
    (sample_node [Some (carries (wire_msg 41 PING 2 ''1''))] [] [])"
  by (rule wp_mono [OF worker_answers_ping [OF _ sample_node_packet]])
    (simp_all add: sample_conn_def)

text \<open>
  A request to write stores exactly the data under the name, changes no other file, and is
  answered by the number of bytes written, with the worker's token and the next sequence
  number. The packet is followed by 19 bytes of the memory behind it.
\<close>

theorem worker_stores_write:
  assumes "exec_ok s" and "clean_mem s" and "has_packet c WORKER_READ_SIZE bs s"
    and "wire_token bs = MASTER_TKN B" and "wire_type bs = WRITE"
    and "wire_body bs = n @ CHR '';'' # x" and "CHR '';'' \<notin> set n" and "NUL \<notin> set (n @ x)"
    and "writable_name s n" and "\<And>j. 18 \<le> spare s j + room s j"
  shows "wp (worker_handle_client B sh c) (\<lambda>_ t. files t = (files s)(path_of s n \<mapsto> x) \<and>
      (\<exists>leak. length leak = 19 \<and> effects (trace t) = effects (trace s) @
        [Sent (fd c) Caller (wire_msg (wire_seq bs + 1) WRITE (WORKER_TKN B) (show_nat (length x)) @ leak),
         Closed (fd c)])) s"
  using assms by (rule write_answered)

theorem worker_stores_write_witness:
  "wp (worker_handle_client test_build (\<lambda>_ fs. fs) sample_conn) (\<lambda>_ t.
      files t ''dir/g'' = Some ''hi'' \<and> files t ''dir/f'' = Some ''x'')
    (sample_node [Some (carries (wire_msg 0 WRITE 2 ''g;hi''))] [] [])"
  by (rule wp_mono [OF worker_stores_write [OF _ _ sample_node_packet, where n = "''g''" and x = "''hi''"]])
    (simp_all add: sample_conn_def)

text \<open>
  C38. The registration of a worker ends: its loop runs once, whether the peer takes the message
  or not, and success is reported in both cases; the message goes to the address of the master and
  the port that the build gives, the connection is closed and the memory
  keeps what it held. The address must fit the 21 bytes of the message.
\<close>

theorem registration_ends:
  fixes s :: "'z worker_scheme"
  assumes "wf_mem s" and "cstring s h = Some master" and "inet_pton4 master"
    and "net s = Opens d # rs"
    and "own_address B s \<noteq> []" and "length (own_address B s) \<le> 14"
    and "\<And>j. 10 \<le> spare s j + room s j"
  shows "\<exists>u leak. boot_register B h s = Inr (True, u) \<and> io_mem s u \<and> net u = rs \<and>
    length leak = 12 - length (own_address B s) \<and>
    effects (trace u) = effects (trace s) @ asks_host B @
      (if accepts d then [Sent (int (lowest_free (fds s))) (Host master (BOOT_MASTER_PORT B)) (take 40 (wire_msg 0 REGISTER (WORKER_TKN B) (own_message B s) @ leak))] else []) @
      [Closed (int (lowest_free (fds s)))]"
proof -
  let ?Q = "\<lambda>r u. r \<and> io_mem s u \<and> net u = rs \<and> (\<exists>leak. length leak = 12 - length (own_address B s) \<and>
    effects (trace u) = effects (trace s) @ asks_host B @
      (if accepts d then [Sent (int (lowest_free (fds s))) (Host master (BOOT_MASTER_PORT B)) (take 40 (wire_msg 0 REGISTER (WORKER_TKN B) (own_message B s) @ leak))] else []) @
      [Closed (int (lowest_free (fds s)))])"
  have "wp (boot_register B h) ?Q s" by (rule boot_register_then [OF assms]) blast
  then obtain r u where "boot_register B h s = Inr (r, u)" "?Q r u" unfolding wp_runs by blast
  then show ?thesis by (cases r) auto
qed

theorem registration_ends_witness:
  "\<exists>u. boot_register test_build (Ptr 0 0) (sample_node [] [Opens \<lparr>incoming = [], accepts = False, peer = Caller\<rparr>] []) =
      Inr (True, u) \<and> effects (trace u) = [Closed 0]"
proof -
  let ?d = "\<lparr>incoming = [], accepts = False, peer = Caller\<rparr>"
  let ?s = "sample_node [] [Opens ?d] []"
  have a: "own_address test_build ?s = ''127.0.0.1''" by (simp add: own_address_def)
  have i: "inet_pton4 ''10.0.0.1''" by (simp add: inet_pton4_def octet_def is_digit_def Let_def)
  have "\<exists>u leak. boot_register test_build (Ptr 0 0) ?s = Inr (True, u) \<and> io_mem ?s u \<and> net u = [] \<and>
    length leak = 12 - length (own_address test_build ?s) \<and>
    effects (trace u) = effects (trace ?s) @ asks_host test_build @
      (if accepts ?d then [Sent (int (lowest_free (fds ?s))) (Host ''10.0.0.1'' (BOOT_MASTER_PORT test_build)) (take 40 (wire_msg 0 REGISTER
         (WORKER_TKN test_build) (own_message test_build ?s) @ leak))] else []) @
      [Closed (int (lowest_free (fds ?s)))]"
    by (rule registration_ends [OF _ _ i]) (simp_all add: a del: cstring.simps)
  then show ?thesis by (auto simp: asks_host_def)
qed


text \<open>
  A request to read is answered by the content of the file, with the worker's token and the
  next sequence number, and no file changes; the content must fit the buffer of the reading
  loop. The packet is followed by 19 bytes of the memory behind it.
\<close>

theorem worker_serves_read:
  assumes "exec_ok s" and "clean_mem s" and "has_packet c WORKER_READ_SIZE bs s"
    and "wire_token bs = MASTER_TKN B" and "wire_type bs = READ" and "NUL \<notin> set (wire_body bs)"
    and "content s (wire_body bs) = Some x" and "fits READ_SIZE 0 x" and "NUL \<notin> set x"
    and "length x + 1 < 2 ^ 32" and "\<And>j. 18 \<le> spare s j + room s j"
  shows "wp (worker_handle_client B sh c) (\<lambda>_ t. files t = files s \<and>
      (\<exists>leak. length leak = 19 \<and> effects (trace t) = effects (trace s) @
        [Sent (fd c) Caller (wire_msg (wire_seq bs + 1) READ (WORKER_TKN B) x @ leak), Closed (fd c)])) s"
  by (rule wp_mono [OF read_answered [OF assms]]) simp

theorem worker_serves_read_witness:
  "wp (worker_handle_client test_build (\<lambda>_ fs. fs) sample_conn) (\<lambda>_ t. \<exists>leak. length leak = 19 \<and>
      effects (trace t) = [Sent 0 Caller (wire_msg 6 READ 1 ''x'' @ leak), Closed 0])
    (sample_node [Some (carries (wire_msg 5 READ 2 ''f''))] [] [])"
proof -
  have "fits READ_SIZE 0 ''x''" by (rule fits_short) (simp_all add: READ_SIZE_def)
  then show ?thesis
    by (intro wp_mono [OF worker_serves_read [OF _ _ sample_node_packet, where x = "''x''"]])
      (simp_all add: sample_conn_def content_def)
qed

text \<open>
  C36. The master lists the working directory of a worker by a request that ends the worker, as
  soon as the directory holds an entry: the listing is formed in a block of no size.
  Every directory holds the entries for itself and for its parent. The argument does not matter.
\<close>

theorem worker_list_overflows:
  assumes "exec_ok s" and "has_packet c WORKER_READ_SIZE bs s" and "wire_token bs = MASTER_TKN B"
    and "wire_type bs = LS" and "dirs s (WORKER_DIR B) = Some (x # xs)" and "spare s = (\<lambda>_. 0)"
  shows "worker_handle_client B sh c s = Inl Overflow"
  using assms by (rule list_request_overflows)

theorem worker_list_overflows_witness:
  "worker_handle_client test_build (\<lambda>_ fs. fs) sample_conn
    ((sample_node [Some (carries (wire_msg 5 LS 2 ''1''))] [] []) \<lparr>dirs := \<lambda>_. Some [''.'', ''..'']\<rparr>) =
    Inl Overflow"
proof (rule worker_list_overflows)
  let ?n = "sample_node [Some (carries (wire_msg 5 LS 2 ''1''))] [] []"
  show "exec_ok (?n\<lparr>dirs := \<lambda>_. Some [''.'', ''..'']\<rparr>)"
    using sample_node_simps(1) by (simp add: sample_node_def exec_ok_def fs_ok_def log_ok_def wf_mem_def)
  show "has_packet sample_conn WORKER_READ_SIZE (wire_msg 5 LS 2 ''1'') (?n\<lparr>dirs := \<lambda>_. Some [''.'', ''..'']\<rparr>)"
    using sample_node_packet [of LS "''1''" 5 2 "[]" "[]"] by (simp add: has_packet_def sample_node_def)
qed (simp_all add: sample_node_def)

end
