(* ===== verification/System.thy ===== *)
theory System
  imports Ping_Facts Worker_Facts
begin

text \<open>
  The master and the workers together: what one of them sends is what the other one needs. In
  the properties the bytes that one program sends are the bytes that arrive at the other.
\<close>

section \<open>Registration\<close>

lemma net_update [simp]:
  "wf_mem (s\<lparr>net := x\<rparr>) = wf_mem s" "clean_mem (s\<lparr>net := x\<rparr>) = clean_mem s"
  by (simp_all add: wf_mem_def clean_mem_def)

lemma table_net [simp]:
  "table_ok (s\<lparr>net := x\<rparr>) = table_ok s" "servers (s\<lparr>net := x\<rparr>) = servers s"
  "addresses (s\<lparr>net := x\<rparr>) = addresses s"
proof -
  show "table_ok (s\<lparr>net := x\<rparr>) = table_ok s" "servers (s\<lparr>net := x\<rparr>) = servers s"
    by (simp_all add: table_ok_def servers_def)
  then show "addresses (s\<lparr>net := x\<rparr>) = addresses s" by (simp add: addresses_def del: cstring.simps)
qed

lemma registration_bytes:
  assumes "length (own_address B s) \<le> 12" and "length leak = 12 - length (own_address B s)"
  defines "bs \<equiv> take 40 (wire_msg 0 REGISTER (WORKER_TKN B) (own_message B s) @ leak)"
  shows "length bs = 40" "header_size + unat (wire_len bs) \<le> 40" "wire_type bs = REGISTER"
    "wire_token bs = WORKER_TKN B" "wire_body bs = address (own_address B s) 55443"
proof -
  let ?m = "own_message B s"
  have l: "length ?m < 2 ^ 32" using assms(1) by (simp add: own_message_length)
  have bs: "bs = wire_msg 0 REGISTER (WORKER_TKN B) ?m @ leak"
    using assms by (simp add: header_size_def own_message_length)
  show "length bs = 40" "header_size + unat (wire_len bs) \<le> 40"
    using assms(1,2) unat_length [OF l] by (simp_all add: bs wire_msg_more header_size_def own_message_length)
  show "wire_type bs = REGISTER" "wire_token bs = WORKER_TKN B" by (simp_all add: bs wire_msg_more)
  show "wire_body bs = address (own_address B s) 55443"
    by (simp add: bs wire_msg_body [OF l]) (simp add: own_message_def address_def)
qed

lemma registration_cut:
  assumes "length leak = 12 - length (own_address B s)"
    and "12 < length (own_address B s)" and "length (own_address B s) \<le> 14"
  defines "bs \<equiv> take 40 (wire_msg 0 REGISTER (WORKER_TKN B) (own_message B s) @ leak)"
  shows "length bs = 40" "40 < header_size + unat (wire_len bs)"
    "drop header_size bs = take 18 (own_message B s)"
proof -
  let ?m = "own_message B s"
  have l: "length ?m < 2 ^ 32" using assms(3) by (simp add: own_message_length)
  have bs: "bs = take 40 (wire_msg 0 REGISTER (WORKER_TKN B) ?m)" using assms(1,2) by (simp add: bs_def)
  show "length bs = 40" using assms(2) by (simp add: bs header_size_def own_message_length)
  show "40 < header_size + unat (wire_len bs)"
    using assms(2,3) unat_length [OF l] by (simp add: bs take_wire header_size_def own_message_length)
  have "drop header_size (wire_msg 0 REGISTER (WORKER_TKN B) ?m) = ?m"
    by (simp add: wire_msg_def wire_def header_size_def)
  then show "drop header_size bs = take 18 ?m" by (simp add: bs drop_take header_size_def)
qed

lemma join_then:
  fixes s :: "'y worker_scheme" and m :: "'z master_scheme"
  assumes wf: "wf_mem s" and host: "cstring s h = Some master" "inet_pton4 master"
    and net: "net s = Opens d # rs" "accepts d"
    and a: "own_address B s \<noteq> []" "length (own_address B s) \<le> 12"
    and room: "\<And>j. 10 \<le> spare s j + room s j"
    and m: "wf_mem m" "clean_mem m" "table_ok m" "length (servers m) < 65535"
      "descriptor (fds m) f = Some k"
  shows "wp (boot_register B h) (\<lambda>ok t. ok \<and> (\<exists>g bs.
      effects (trace t) = effects (trace s) @ asks_host B @ [Sent g (Host master (BOOT_MASTER_PORT B)) bs, Closed g] \<and>
      wp (master_round B f) (\<lambda>_ u. table_ok u \<and> (\<exists>i. cstring u i = Some (own_address B s) \<and>
        servers u = servers m @ [\<lparr>srv_id = ucast (worker_id m), srv_size = 0, ip = i, port = 55443\<rparr>]))
        (m\<lparr>net := [Opens (carries bs)]\<rparr>))) s"
proof (rule boot_register_then [OF wf host net(1) a(1) _ room])
  show "length (own_address B s) \<le> 14" using a(2) by simp
  fix leak u
  let ?bs = "take 40 (wire_msg 0 REGISTER (WORKER_TKN B) (own_message B s) @ leak)"
  let ?m = "m\<lparr>net := [Opens (carries ?bs)]\<rparr>"
  assume u: "length leak = 12 - length (own_address B s)"
    "effects (trace u) = effects (trace s) @ asks_host B @
      (if accepts d then [Sent (int (lowest_free (fds s))) (Host master (BOOT_MASTER_PORT B)) ?bs] else []) @ [Closed (int (lowest_free (fds s)))]"
  note b = registration_bytes [OF a(2) u(1)]
  have "wp (master_round B f) (\<lambda>_ t. wf_mem t \<and> table_ok t \<and> worker_id t = worker_id ?m + 1 \<and>
      effects (trace t) = effects (trace ?m) @ [Closed (int (lowest_free (fds ?m))), Closed f] \<and>
      (\<exists>i. cstring t i = Some (own_address B s) \<and> servers t = servers ?m @
        [\<lparr>srv_id = ucast (worker_id ?m), srv_size = 0, ip = i, port = of_nat 55443\<rparr>])) ?m"
    by (rule round_registers [where bs = ?bs and d = "carries ?bs" and rs = "[]" and q = "[]"])
      (use m a b own_address_no_nul in \<open>simp_all add: READ_SZ_def\<close>)
  then have "wp (master_round B f) (\<lambda>_ u. table_ok u \<and> (\<exists>i. cstring u i = Some (own_address B s) \<and>
      servers u = servers m @ [\<lparr>srv_id = ucast (worker_id m), srv_size = 0, ip = i, port = 55443\<rparr>])) ?m"
    by (rule wp_mono) auto
  then show "True \<and> (\<exists>g bs. effects (trace u) = effects (trace s) @ asks_host B @ [Sent g (Host master (BOOT_MASTER_PORT B)) bs, Closed g] \<and>
      wp (master_round B f) (\<lambda>_ u. table_ok u \<and> (\<exists>i. cstring u i = Some (own_address B s) \<and>
        servers u = servers m @ [\<lparr>srv_id = ucast (worker_id m), srv_size = 0, ip = i, port = 55443\<rparr>]))
        (m\<lparr>net := [Opens (carries bs)]\<rparr>))"
    using u(2) net(2) by auto
qed

section \<open>Writing\<close>

lemma answer_reports:
  assumes "n < 10 ^ 9" and "length leak = 19"
  shows "reports (wire_msg seq ty tok (show_nat n) @ leak) (int n)"
proof -
  have l: "length (show_nat n) \<le> 9" using length_show_nat [of n 8] assms(1) by simp
  then have "length (show_nat n) < 2 ^ 32" by simp
  then show ?thesis
    using l assms unat_length [of "show_nat n"]
    by (simp add: reports_def wire_msg_more wire_msg_body header_size_def show_int_def)
qed

lemma packet_length:
  assumes "has_packet c N (wire_msg q ty tok str @ leak) s"
  shows "length str \<le> N"
  using assms by (simp add: has_packet_def)

lemma stored_then:
  fixes s :: "'y worker_scheme" and m :: "'z master_scheme"
  assumes ok: "exec_ok s" and clean: "clean_mem s"
    and p: "has_packet c WORKER_READ_SIZE (wire_msg 0 WRITE (MASTER_TKN B) (n @ CHR '';'' # x) @ leak) s"
    and n: "CHR '';'' \<notin> set n" "NUL \<notin> set (n @ x)" and w: "writable_name s n"
    and room: "\<And>j. 18 \<le> spare s j + room s j"
    and m: "wf_mem m" "clean_mem m" "table_ok m" "servers m = v # vs"
    and req: "has_packet c' READ_SZ bs m" "wire_type bs = WRITE" "wire_body bs = n @ CHR '';'' # x"
    and a: "cstring m (ip v) = Some a" "inet_pton4 a" and room': "\<And>j. 18 \<le> spare m j + room m j"
  shows "wp (worker_handle_client B sh c) (\<lambda>_ t. files t = (files s)(path_of s n \<mapsto> x) \<and>
      (\<exists>rep. effects (trace t) = effects (trace s) @ [Sent (fd c) Caller rep, Closed (fd c)] \<and>
        wp (handle_client B c') (\<lambda>_ u. \<exists>g leak. g \<noteq> fd c' \<and> effects (trace u) = effects (trace m) @
            [Sent g (Host a (port v)) (wire_msg 0 WRITE (MASTER_TKN B) (n @ CHR '';'' # x) @ leak), Closed g,
             Sent (fd c') Caller (show_nat (length x) @ [NUL])])
          (m\<lparr>net := [Opens (carries rep)]\<rparr>))) s"
proof (rule wp_mono [OF write_answered [OF ok clean p]])
  let ?b = "n @ CHR '';'' # x"
  have len: "length ?b \<le> WORKER_READ_SIZE" by (rule packet_length [OF p])
  then have l: "length ?b < 2 ^ 32" by (simp add: WORKER_READ_SIZE_def)
  show "wire_token (wire_msg 0 WRITE (MASTER_TKN B) ?b @ leak) = MASTER_TKN B"
    "wire_type (wire_msg 0 WRITE (MASTER_TKN B) ?b @ leak) = WRITE" by (simp_all add: wire_msg_more)
  show "wire_body (wire_msg 0 WRITE (MASTER_TKN B) ?b @ leak) = ?b" by (rule wire_msg_body [OF l])
  fix y :: unit and t
  let ?rep = "\<lambda>lk. wire_msg (wire_seq (wire_msg 0 WRITE (MASTER_TKN B) ?b @ leak) + 1) WRITE
    (WORKER_TKN B) (show_nat (length x)) @ lk"
  assume t: "files t = (files s)(path_of s n \<mapsto> x) \<and> (\<exists>lk. length lk = 19 \<and>
    effects (trace t) = effects (trace s) @ [Sent (fd c) Caller (?rep lk), Closed (fd c)])"
  then obtain lk where lk: "length lk = 19"
    "effects (trace t) = effects (trace s) @ [Sent (fd c) Caller (?rep lk), Closed (fd c)]" by blast
  let ?m = "m\<lparr>net := [Opens (carries (?rep lk))]\<rparr>"
  have x: "length x < 10000" using len by (simp add: WORKER_READ_SIZE_def)
  have "wp (handle_client B c') (\<lambda>_ u. table_ok u \<and> servers u = servers ?m \<and>
      worker_id u = worker_id ?m \<and> (\<exists>g leak. g \<noteq> fd c' \<and> length leak = 19 \<and>
      effects (trace u) = effects (trace ?m) @ [Sent g (Host a (port v)) (wire_msg 0 WRITE (MASTER_TKN B) ?b @ leak),
        Closed g, Sent (fd c') Caller (show_int (int (length x)) @ [NUL])])) ?m"
  proof (rule write_request [where bs = bs and f = n and x = x and a = a and w = v and ws = vs
      and d = "carries (?rep lk)" and rep = "?rep lk" and rs = "[]" and q = "[]"])
    show "reports (?rep lk) (int (length x))" by (rule answer_reports) (use x lk in simp_all)
    show "length (show_int (int (length x))) < 10"
      using x length_show_nat [of "length x" 3] by (simp add: show_int_def)
    show "has_packet c' READ_SZ bs ?m" using req(1) by (simp add: has_packet_def)
    show "cstring ?m (ip v) = Some a" using a(1) by (cases "ip v") simp_all
  qed (use m req a n room' in \<open>simp_all del: cstring.simps\<close>)
  then have "wp (handle_client B c') (\<lambda>_ u. \<exists>g leak. g \<noteq> fd c' \<and> effects (trace u) = effects (trace m) @
      [Sent g (Host a (port v)) (wire_msg 0 WRITE (MASTER_TKN B) ?b @ leak), Closed g,
       Sent (fd c') Caller (show_nat (length x) @ [NUL])]) ?m"
    by (rule wp_mono) (auto simp: show_int_def)
  then show "files t = (files s)(path_of s n \<mapsto> x) \<and>
      (\<exists>rep. effects (trace t) = effects (trace s) @ [Sent (fd c) Caller rep, Closed (fd c)] \<and>
        wp (handle_client B c') (\<lambda>_ u. \<exists>g leak. g \<noteq> fd c' \<and> effects (trace u) = effects (trace m) @
            [Sent g (Host a (port v)) (wire_msg 0 WRITE (MASTER_TKN B) ?b @ leak), Closed g,
             Sent (fd c') Caller (show_nat (length x) @ [NUL])])
          (m\<lparr>net := [Opens (carries rep)]\<rparr>))"
    using t lk(2) by blast
qed (use n w room in simp_all)

section \<open>Pings\<close>

lemma pinged_then:
  fixes s :: "'y worker_scheme" and m :: "'z admin_scheme"
  assumes worker: "exec_ok s" "has_packet c WORKER_READ_SIZE bs s" "wire_token bs = MASTER_TKN B" "wire_type bs = PING"
    and m: "wf_mem m" "table_ok m" "\<not> verbose B"
      "\<And>w. w \<in> set (servers m) \<Longrightarrow> \<exists>a. cstring m (ip w) = Some a \<and> inet_pton4 a" "\<And>j. 27 \<le> spare m j + room m j"
  shows "wp (worker_handle_client B sh c) (\<lambda>_ t. files t = files s \<and> (\<exists>rep.
    effects (trace t) = effects (trace s) @ [Sent (fd c) Caller rep, Closed (fd c)] \<and> length rep = 13 \<and>
    wp (admin_round B) (\<lambda>_ u. servers u = servers m \<and> table_ok u \<and> net u = [] \<and>
        (\<exists>es. effects (trace u) = effects (trace m) @ es \<and> list_all2 (pings B) (addresses m) es))
      (m\<lparr>net := replicate (length (servers m)) (Opens (carries rep))\<rparr>))) s"
proof (rule wp_mono [OF ping_answered [OF worker]])
  fix y :: unit and t
  let ?rep = "take 13 (wire_msg (wire_seq bs + 1) PING 0 ''1'')"
  let ?n = "length (servers m)"
  let ?m = "m\<lparr>net := replicate ?n (Opens (carries ?rep))\<rparr>"
  assume t: "files t = files s \<and> effects (trace t) = effects (trace s) @ [Sent (fd c) Caller ?rep, Closed (fd c)]"
  have rep: "length ?rep = 13" "answers (carries ?rep)"
    by (simp_all add: answers_def good_ping_def take_wire header_size_def)
  have "cstring ?m p = cstring m p" for p by simp
  then have "wp (admin_round B) (\<lambda>_ u. servers u = servers m \<and> table_ok u \<and> net u = [] \<and>
      (\<exists>es. effects (trace u) = effects (trace m) @ es \<and> list_all2 (pings B) (addresses m) es)) ?m"
    by (intro wp_mono [OF round_runs [where ds = "replicate ?n (carries ?rep)" and rs = "[]"]])
      (use m rep in \<open>auto simp: map_replicate simp del: cstring.simps\<close>)
  with t rep(1) show "files t = files s \<and> (\<exists>rep. effects (trace t) = effects (trace s) @
      [Sent (fd c) Caller rep, Closed (fd c)] \<and> length rep = 13 \<and>
      wp (admin_round B) (\<lambda>_ u. servers u = servers m \<and> table_ok u \<and> net u = [] \<and>
          (\<exists>es. effects (trace u) = effects (trace m) @ es \<and> list_all2 (pings B) (addresses m) es))
        (m\<lparr>net := replicate ?n (Opens (carries rep))\<rparr>))" by blast
qed

section \<open>Properties\<close>

text \<open>
  A worker joins: the bytes that a worker with an address of at most 12 characters sends to the
  master when it starts, arriving at a master with fewer than 65535 workers, append this worker to the
  table, with the next identifier, the address the worker gave and its port.
\<close>

theorem worker_joins_master:
  fixes s :: "'y worker_scheme" and m :: "'z master_scheme"
  assumes "wf_mem s" and "cstring s h = Some master" and "inet_pton4 master"
    and "net s = Opens d # rs" and "accepts d"
    and "own_address B s \<noteq> []" and "length (own_address B s) \<le> 12"
    and "\<And>j. 10 \<le> spare s j + room s j"
    and "wf_mem m" and "clean_mem m" and "table_ok m" and "length (servers m) < 65535"
    and "descriptor (fds m) f = Some k"
  shows "wp (boot_register B h) (\<lambda>ok t. ok \<and> (\<exists>g bs.
      effects (trace t) = effects (trace s) @ asks_host B @ [Sent g (Host master (BOOT_MASTER_PORT B)) bs, Closed g] \<and>
      wp (master_round B f) (\<lambda>_ u. table_ok u \<and> (\<exists>i. cstring u i = Some (own_address B s) \<and>
        servers u = servers m @ [\<lparr>srv_id = ucast (worker_id m), srv_size = 0, ip = i, port = 55443\<rparr>]))
        (m\<lparr>net := [Opens (carries bs)]\<rparr>))) s"
  using assms by (rule join_then)

theorem worker_joins_master_witness:
  "wp (boot_register test_build (Ptr 0 0)) (\<lambda>ok t. ok \<and> (\<exists>g bs. effects (trace t) = [Sent g (Host ''10.0.0.1'' 55442) bs, Closed g] \<and>
      wp (master_round test_build 0) (\<lambda>_ u. table_ok u \<and> (\<exists>i. cstring u i = Some ''127.0.0.1'' \<and>
        servers u = [\<lparr>srv_id = 1, srv_size = 0, ip = i, port = 55443\<rparr>]))
        ((sample_master [] [Some unconnected] [])\<lparr>net := [Opens (carries bs)]\<rparr>)))
    (sample_node [] [Opens (carries [])] [])"
proof -
  let ?s = "sample_node [] [Opens (carries [])] []" and ?m = "sample_master [] [Some unconnected] []"
  have a: "own_address test_build ?s = ''127.0.0.1''" by (simp add: own_address_def)
  have i: "inet_pton4 ''10.0.0.1''" by (simp add: inet_pton4_def octet_def is_digit_def Let_def)
  have "wp (boot_register test_build (Ptr 0 0)) (\<lambda>ok t. ok \<and> (\<exists>g bs.
      effects (trace t) = effects (trace ?s) @ asks_host test_build @ [Sent g (Host ''10.0.0.1'' (BOOT_MASTER_PORT test_build)) bs, Closed g] \<and>
      wp (master_round test_build 0) (\<lambda>_ u. table_ok u \<and> (\<exists>i. cstring u i = Some (own_address test_build ?s) \<and>
        servers u = servers ?m @ [\<lparr>srv_id = ucast (worker_id ?m), srv_size = 0, ip = i, port = 55443\<rparr>]))
        (?m\<lparr>net := [Opens (carries bs)]\<rparr>))) ?s"
    by (rule worker_joins_master [where d = "carries []" and rs = "[]" and k = unconnected, OF _ _ i])
      (simp_all add: a descriptor_def del: cstring.simps)
  then show ?thesis by (simp add: a asks_host_def BOOT_MASTER_PORT_def get_dbg_port_def del: cstring.simps)
qed

text \<open>
  C40. A worker with an address of 13 or 14 characters does not: the 40 bytes it sends to the master
  are not the whole packet. Of the message \<^verbatim>\<open>address;port\<close> only the first 18 characters are sent, which cuts
  the port, while the length in the header still promises all of it.
\<close>

theorem long_address_cut:
  fixes s :: "'z worker_scheme"
  assumes "wf_mem s" and "cstring s h = Some master" and "inet_pton4 master"
    and "net s = Opens d # rs" and "accepts d"
    and "12 < length (own_address B s)" and "length (own_address B s) \<le> 14"
    and "\<And>j. 10 \<le> spare s j + room s j"
  shows "wp (boot_register B h) (\<lambda>ok t. ok \<and> (\<exists>g bs.
      effects (trace t) = effects (trace s) @ asks_host B @ [Sent g (Host master (BOOT_MASTER_PORT B)) bs, Closed g] \<and>
      drop header_size bs = take 18 (own_address B s @ CHR '';'' # show_nat 55443) \<and>
      length bs < header_size + unat (wire_len bs))) s"
proof (rule boot_register_then [OF assms(1-4)])
  fix leak u
  assume leak: "length leak = 12 - length (own_address B s)"
    and u: "effects (trace u) = effects (trace s) @ asks_host B @
      (if accepts d then [Sent (int (lowest_free (fds s))) (Host master (BOOT_MASTER_PORT B))
        (take 40 (wire_msg 0 REGISTER (WORKER_TKN B) (own_message B s) @ leak))] else []) @
      [Closed (int (lowest_free (fds s)))]"
  show "True \<and> (\<exists>g bs. effects (trace u) = effects (trace s) @ asks_host B @ [Sent g (Host master (BOOT_MASTER_PORT B)) bs, Closed g] \<and>
      drop header_size bs = take 18 (own_address B s @ CHR '';'' # show_nat 55443) \<and>
      length bs < header_size + unat (wire_len bs))"
    using registration_cut [OF leak assms(6,7)] u assms(5) by (auto simp: own_message_def)
qed (use assms(6-8) in auto)

theorem long_address_cut_witness:
  "wp (boot_register quiet_build (Ptr 0 0)) (\<lambda>ok t. ok \<and> (\<exists>g bs.
      effects (trace t) = [Ran ''hostname -I'', Sent g (Host ''10.0.0.1'' 55443) bs, Closed g] \<and>
      drop header_size bs = ''192.168.1.100;5544''))
    (sample_node [] [Opens (carries [])] ''192.168.1.100 '')"
proof -
  let ?s = "sample_node [] [Opens (carries [])] ''192.168.1.100 ''"
  have a: "own_address quiet_build ?s = ''192.168.1.100''"
    by (simp add: own_address_def ip_char_def is_digit_def)
  have i: "inet_pton4 ''10.0.0.1''" by (simp add: inet_pton4_def octet_def is_digit_def Let_def)
  have "take 18 (''192.168.1.100'' @ CHR '';'' # show_nat 55443) = ''192.168.1.100;5544''"
    by (simp add: show_nat.simps digit_def char_of_def bit_iff_odd)
  moreover have "wp (boot_register quiet_build (Ptr 0 0)) (\<lambda>ok t. ok \<and> (\<exists>g bs.
      effects (trace t) = effects (trace ?s) @ asks_host quiet_build @ [Sent g (Host ''10.0.0.1'' (BOOT_MASTER_PORT quiet_build)) bs, Closed g] \<and>
      drop header_size bs = take 18 (own_address quiet_build ?s @ CHR '';'' # show_nat 55443) \<and>
      length bs < header_size + unat (wire_len bs))) ?s"
    by (rule long_address_cut [where d = "carries []" and rs = "[]", OF _ _ i])
      (simp_all add: a del: cstring.simps)
  ultimately show ?thesis
    by (auto simp: a asks_host_def BOOT_MASTER_PORT_def get_port_def simp del: cstring.simps elim!: wp_mono)
qed

text \<open>
  A write of a client, from end to end: when the packet that the master makes of the request
  arrives at a worker, the worker stores the data under the name and nothing else, and when the
  worker's answer arrives at the master, the client is told how many bytes were written.
\<close>

theorem write_through_master:
  fixes s :: "'y worker_scheme" and m :: "'z master_scheme"
  assumes "exec_ok s" and "clean_mem s"
    and "has_packet c WORKER_READ_SIZE (wire_msg 0 WRITE (MASTER_TKN B) (n @ CHR '';'' # x) @ leak) s"
    and "CHR '';'' \<notin> set n" and "NUL \<notin> set (n @ x)" and "writable_name s n"
    and "\<And>j. 18 \<le> spare s j + room s j"
    and "wf_mem m" and "clean_mem m" and "table_ok m" and "servers m = v # vs"
    and "has_packet c' READ_SZ bs m" and "wire_type bs = WRITE" and "wire_body bs = n @ CHR '';'' # x"
    and "cstring m (ip v) = Some a" and "inet_pton4 a" and "\<And>j. 18 \<le> spare m j + room m j"
  shows "wp (worker_handle_client B sh c) (\<lambda>_ t. files t = (files s)(path_of s n \<mapsto> x) \<and>
      (\<exists>rep. effects (trace t) = effects (trace s) @ [Sent (fd c) Caller rep, Closed (fd c)] \<and>
        wp (handle_client B c') (\<lambda>_ u. \<exists>g leak. g \<noteq> fd c' \<and> effects (trace u) = effects (trace m) @
            [Sent g (Host a (port v)) (wire_msg 0 WRITE (MASTER_TKN B) (n @ CHR '';'' # x) @ leak), Closed g,
             Sent (fd c') Caller (show_nat (length x) @ [NUL])])
          (m\<lparr>net := [Opens (carries rep)]\<rparr>))) s"
  using assms by (rule stored_then)

theorem write_through_master_witness:
  "wp (worker_handle_client test_build (\<lambda>_ fs. fs) sample_conn) (\<lambda>_ t. files t ''dir/g'' = Some ''hi'' \<and>
      (\<exists>rep. effects (trace t) = [Sent 0 Caller rep, Closed 0] \<and>
        wp (handle_client test_build sample_conn) (\<lambda>_ u. Sent 0 Caller (''2'' @ [NUL]) \<in> set (effects (trace u)))
          ((sample_master [sample_worker] [Some (carries (wire_msg 0 WRITE 0 ''g;hi''))] [])
            \<lparr>net := [Opens (carries rep)]\<rparr>)))
    (sample_node [Some (carries (wire_msg 0 WRITE 2 ''g;hi''))] [] [])"
proof -
  let ?s = "sample_node [Some (carries (wire_msg 0 WRITE 2 ''g;hi''))] [] []"
  let ?m = "sample_master [sample_worker] [Some (carries (wire_msg 0 WRITE 0 ''g;hi''))] []"
  have p: "has_packet sample_conn WORKER_READ_SIZE
      (wire_msg 0 WRITE (MASTER_TKN test_build) (''g'' @ CHR '';'' # ''hi'') @ []) ?s"
    using sample_node_packet [of WRITE "''g;hi''" 0 2 "[]" "[]"] by simp
  have q: "has_packet sample_conn READ_SZ (wire_msg 0 WRITE 0 ''g;hi'') ?m"
    by (rule sample_has_packet) simp_all
  have two: "show_nat (Suc (Suc 0)) = ''2''" by (simp add: show_nat.simps digit_def char_of_def bit_iff_odd)
  show ?thesis
    by (rule wp_mono [OF write_through_master [OF _ _ p _ _ _ _ _ _ _ _ q, where v = sample_worker and vs = "[]"
          and a = "''127.0.0.1''"]])
      (auto simp: sample_address sample_conn_def two simp del: cstring.simps elim!: wp_mono)
qed

text \<open>
  C27. A worker that is pinged stays in the table: it answers by 13 bytes of a packet of 23 and
  touches no file, and when every worker of a table answers the ping of the manager thread by these
  bytes, the round of the manager (in a build that is not verbose) removes none: it pings
  each worker of the table once, at its address and port, and the table is the same.
\<close>

theorem ping_accepted:
  fixes s :: "'y worker_scheme" and m :: "'z admin_scheme"
  assumes "exec_ok s" and "has_packet c WORKER_READ_SIZE bs s" and "wire_token bs = MASTER_TKN B"
    and "wire_type bs = PING"
    and "wf_mem m" and "table_ok m" and "\<not> verbose B"
    and "\<And>w. w \<in> set (servers m) \<Longrightarrow> \<exists>a. cstring m (ip w) = Some a \<and> inet_pton4 a"
    and "\<And>j. 27 \<le> spare m j + room m j"
  shows "wp (worker_handle_client B sh c) (\<lambda>_ t. files t = files s \<and> (\<exists>rep.
    effects (trace t) = effects (trace s) @ [Sent (fd c) Caller rep, Closed (fd c)] \<and> length rep = 13 \<and>
    wp (admin_round B) (\<lambda>_ u. servers u = servers m \<and> table_ok u \<and> net u = [] \<and>
        (\<exists>es. effects (trace u) = effects (trace m) @ es \<and> list_all2 (pings B) (addresses m) es))
      (m\<lparr>net := replicate (length (servers m)) (Opens (carries rep))\<rparr>))) s"
  using assms by (rule pinged_then)

theorem ping_accepted_witness:
  "wp (worker_handle_client quiet_build (\<lambda>_ fs. fs) sample_conn) (\<lambda>_ t. \<exists>rep.
      effects (trace t) = [Sent 0 Caller rep, Closed 0] \<and>
      wp (admin_round quiet_build) (\<lambda>_ u. servers u = [sample_worker, other_worker] \<and> net u = [])
        ((sample_master [sample_worker, other_worker] [] [])\<lparr>net := [Opens (carries rep), Opens (carries rep)]\<rparr>))
    (sample_node [Some (carries (wire_msg 41 PING 2 ''1''))] [] [])"
  by (rule wp_mono [OF ping_accepted [OF _ sample_node_packet,
        where m = "sample_master [sample_worker, other_worker] [] []"]])
    (auto simp: sample_conn_def sample_address simp del: cstring.simps elim!: wp_mono)

end
