(* ===== verification/Client_Facts.thy ===== *)
theory Client_Facts
  imports Client Streams System
begin

text \<open>
  What the clients get: the answer of the master as one text, and the outcome of a write from the
  command line to the worker and back.
\<close>

section \<open>Reading the answer\<close>

lemma wp_read_all_body:
  "wp (read_all_body B c (p, i)) R u =
     wp (conn_read B c (padd p (unat (i * 1000))) CLIENT_READ_SIZE) (\<lambda>n t.
       if n = int CLIENT_READ_SIZE then
         wp (realloc p (unat (1000 * (i + 1 + 1)))) (\<lambda>p'. R (Inl (p', i + 1))) t
       else R (Inr p) t) u"
  unfolding read_all_body_def prod.case wp_funs ..

lemma k1000: "unat (1000 :: u32) = 1000"
  by simp

lemma read_all_loop:
  assumes wf: "wf_mem s" and v: "valid_fd (fd c) s" and last: "length y < 1000"
    and "(length pre + length ds + 2) * 1000 < 2 ^ 32"
    and "reading s (fd c) k ((length pre + 1) * 1000) (concat pre) (map Arrives (ds @ [y]) @ rest) b u"
    and "\<forall>x \<in> set pre. length x = 1000" and "\<forall>x \<in> set ds. length x = 1000" and "length ds < fuel"
    and "\<And>b m t. reading s (fd c) k m (concat (pre @ ds) @ y) rest b t \<Longrightarrow> Q (Ptr b 0) t"
  shows "wp (cloop fuel (read_all_body B c) (Ptr b 0, of_nat (length pre))) Q u"
  using assms(4-)
proof (induction ds arbitrary: pre b u fuel)
  case Nil
  obtain f where f: "fuel = Suc f" using Nil.prems(5) by (cases fuel) auto
  have lp: "length (concat pre) = length pre * 1000" using Nil.prems(3) by (rule length_concat_same)
  have off: "unat (of_nat (length pre) * 1000 :: u32) = length (concat pre)"
    unfolding lp by (rule unat_offset) (use Nil.prems(1) in simp_all)
  have "wp (conn_read B c (Ptr b (length (concat pre))) CLIENT_READ_SIZE) (\<lambda>n t. n < 1000 \<and> Q (Ptr b 0) t) u"
  proof (rule read_chunk_then [OF v _ _ _ wf])
    show "reading s (fd c) k ((length pre + 1) * 1000) (concat pre) (Arrives y # rest) b u"
      using Nil.prems(2) by simp
    show "length (concat pre) + length y \<le> (length pre + 1) * 1000" "length y \<le> CLIENT_READ_SIZE"
      using lp last by (simp_all add: CLIENT_READ_SIZE_def)
    fix t assume "reading s (fd c) k ((length pre + 1) * 1000) (concat pre @ y) rest b t"
    then show "int (length y) < 1000 \<and> Q (Ptr b 0) t" using last by (auto intro!: Nil.prems(6))
  qed
  then show ?case
    unfolding f wp_cloop_Suc wp_read_all_body off padd.simps add_0_left
    by (rule wp_mono) (simp add: CLIENT_READ_SIZE_def)
next
  case (Cons x ds)
  obtain f where f: "fuel = Suc f" using Cons.prems(5) by (cases fuel) auto
  let ?j = "length pre"
  have lx: "length x = 1000" using Cons.prems(4) by simp
  have lp: "length (concat pre) = ?j * 1000" using Cons.prems(3) by (rule length_concat_same)
  have off: "unat (of_nat ?j * 1000 :: u32) = length (concat pre)"
    unfolding lp by (rule unat_offset) (use Cons.prems(1) in simp_all)
  have off2: "unat (1000 * (of_nat ?j + 1 + 1) :: u32) = (?j + 2) * 1000"
    using unat_offset [OF k1000, of "?j + 2"] Cons.prems(1) by (simp add: ac_simps)
  have "wp (conn_read B c (Ptr b (length (concat pre))) CLIENT_READ_SIZE)
      (\<lambda>n t. n = 1000 \<and> wp (realloc (Ptr b 0) ((?j + 2) * 1000))
        (\<lambda>p'. wp (cloop f (read_all_body B c) (p', of_nat (length (pre @ [x])))) Q) t) u"
  proof (rule read_chunk_then [OF v _ _ _ wf])
    show "reading s (fd c) k ((?j + 1) * 1000) (concat pre) (Arrives x # map Arrives (ds @ [y]) @ rest) b u"
      using Cons.prems(2) by simp
    show "length (concat pre) + length x \<le> (?j + 1) * 1000" "length x \<le> CLIENT_READ_SIZE"
      using lp lx by (simp_all add: CLIENT_READ_SIZE_def)
    fix t assume t: "reading s (fd c) k ((?j + 1) * 1000) (concat pre @ x) (map Arrives (ds @ [y]) @ rest) b t"
    have "wp (realloc (Ptr b 0) ((?j + 2) * 1000))
        (\<lambda>p'. wp (cloop f (read_all_body B c) (p', of_nat (length (pre @ [x])))) Q) t"
    proof (rule grow_buffer_then [OF wf t])
      fix b' w
      assume w: "reading s (fd c) k ((?j + 2) * 1000) (concat pre @ x) (map Arrives (ds @ [y]) @ rest) b' w"
      show "wp (cloop f (read_all_body B c) (Ptr b' 0, of_nat (length (pre @ [x])))) Q w"
        by (rule Cons.IH) (use w Cons.prems f lx in \<open>auto simp: ac_simps\<close>)
    qed simp_all
    with lx show "int (length x) = 1000 \<and> wp (realloc (Ptr b 0) ((?j + 2) * 1000))
        (\<lambda>p'. wp (cloop f (read_all_body B c) (p', of_nat (length (pre @ [x])))) Q) t" by simp
  qed
  then show ?case
    unfolding f wp_cloop_Suc wp_read_all_body off padd.simps add_0_left
    by (rule wp_mono) (use off2 in \<open>simp add: CLIENT_READ_SIZE_def ac_simps\<close>)
qed

text \<open>All the answer, in a buffer that ends where the answer does or behind it.\<close>

lemma read_all_then:
  assumes wf: "wf_mem s" and d: "descriptor (fds s) (fd c) = Some k"
    and inc: "incoming k = map Arrives (ds @ [y]) @ rest"
    and ds: "\<forall>x \<in> set ds. length x = 1000" "length y < 1000" "(length ds + 2) * 1000 < 2 ^ 32"
    and Q: "\<And>b m t. reading s (fd c) k m (concat ds @ y) rest b t \<Longrightarrow> Q (Ptr b 0) t"
  shows "wp (read_all B c) Q s"
proof -
  let ?s = "add_block (fresh_block 1000 s) s"
  note start = start_reading(1) [OF wf d] start_reading(2) [where n = 1000, OF wf d, unfolded inc]
  have "length (ds @ [y]) \<le> pending (incoming k)" unfolding inc by (rule pending_chunks)
  then have "wp (cloop (pending (incoming k) + 2) (read_all_body B c) (Ptr (next_id s) 0, of_nat (length ([] :: string list)))) Q ?s"
    by (intro read_all_loop [OF wf start(1) ds(2), where ds = ds and k = k and rest = rest])
      (use start(2) ds Q in simp_all)
  then show ?thesis
    using d by (simp add: read_all_def CLIENT_READ_SIZE_def wp_cbind wp_malloc wp_cget pending_fd_def)
qed

section \<open>Talking to the master\<close>

text \<open>
  The shape that all operations of the library share: one packet is sent on a connection of its
  own. They differ in how they compute the number of bytes to send and in what they do then.
\<close>

definition talk :: "build \<Rightarrow> ptr \<Rightarrow> ptype \<Rightarrow> (packet \<Rightarrow> (nat, 'z) ocmd) \<Rightarrow> ptr \<Rightarrow> u16 \<Rightarrow> 'a \<Rightarrow>
    (conn \<Rightarrow> ('a, 'z) ocmd) \<Rightarrow> ('a, 'z) ocmd" where
  "talk B a ty howmany host prt err finish =
     cbind (p_init 0 a ty) (\<lambda>p.
     cbind (client_init host prt) (\<lambda>client.
     if c_error client \<noteq> 0 then refused B client err
     else
       cbind (p_encode p) (\<lambda>pk.
       cbind (howmany p) (\<lambda>n.
       cseq (conn_write B client pk n) (finish client)))))"

lemma talk_then:
  assumes wf: "wf_mem s" and x: "cstring s a = Some x" and h: "cstring s host = Some h" "inet_pton4 h"
    and net: "net s = Opens d # rs" "accepts d"
    and len: "length x + 1 < 2 ^ 32" and n: "22 + length x \<le> n" "\<And>j. n \<le> 23 + length x + spare s j + room s j"
    and howmany: "\<And>p u. \<lbrakk>mgrows s u; cstring u (arg p) = Some x\<rbrakk> \<Longrightarrow> howmany p u = Inr (n, u)"
    and F: "\<And>c leak y. \<lbrakk>io_mem s y; net y = rs; descriptor (fds y) (fd c) = Some (d\<lparr>peer := Host h prt\<rparr>); length leak = n - (22 + length x);
        fd c = int (lowest_free (fds s));
        effects (trace y) = effects (trace s) @ [Sent (fd c) (Host h prt) (wire_msg 0 ty 0 x @ leak)]\<rbrakk> \<Longrightarrow> wp (finish c) Q y"
  shows "wp (talk B a ty howmany host prt err finish) Q s"
  unfolding talk_def wp_cbind [of "p_init _ _ _"]
proof (rule wp_p_init [OF wf x])
  fix e t assume t: "grows s t" "cstring t (Ptr e 0) = Some x" "peek t (Ptr e 0) (length x) = Some x"
  let ?p = "\<lparr>seq_number = 0, arg = Ptr e 0, msg_len = of_nat (length x), pk_error = 0,
     token = 0, msg_type = ty\<rparr> :: packet"
  have n0: "unat (msg_len ?p) = length x" using unat_length [of x] len by simp
  have top: "msg_len ?p \<noteq> - 1" using length_not_top [OF len] by simp
  have wire: "wire ?p x = wire_msg 0 ty 0 x" by (simp add: wire_msg_def wire_def)
  let ?d = "d\<lparr>peer := Host h prt\<rparr>"
  let ?do = "\<lambda>client. if c_error client \<noteq> 0 then refused B client err
     else cbind (p_encode ?p) (\<lambda>pk. cbind (howmany ?p) (\<lambda>n. cseq (conn_write B client pk n) (finish client)))"
  have "wp (client_init host prt) (\<lambda>client. wp (?do client) Q) t"
  proof (rule client_init_then [OF grows_wf [OF t(1)] grows_cstring [OF t(1) h(1)] h(2)])
    show "net t = Opens d # rs" using net(1) by (simp add: grows_os [OF t(1)])
    fix m u assume u: "io_mem t u" "net u = rs" "trace u = trace t" "fds u = install (lowest_free (fds t)) ?d (fds t)"
    let ?c = "\<lparr>c_error = 0, error_msg = m, fd = int (lowest_free (fds t)), max_bytes = 0\<rparr> :: conn"
    have su: "io_mem s u" by (rule io_mem_trans [OF grows_io_mem [OF t(1)] u(1)])
    have "wp (p_encode ?p) (\<lambda>pk. wp (cbind (howmany ?p) (\<lambda>n. cseq (conn_write B ?c pk n) (finish ?c))) Q) u"
    proof (rule encoded_then [OF io_mem_wf [OF su] top, where body = x and n = n])
      show "peek u (arg ?p) (unat (msg_len ?p)) = Some x"
        unfolding n0 using mgrows_peek [OF io_mem_mgrows [OF u(1)] t(3)] by simp
      show "n \<le> 23 + unat (msg_len ?p) + spare u (next_id u) + room u (next_id u)"
        unfolding n0 using n(2) [of "next_id u"] mgrows_oracles [OF io_mem_mgrows [OF su]] by simp
      show "22 + unat (msg_len ?p) \<le> n" unfolding n0 by (rule n(1))
      fix leak w v assume v: "grows u v" "length leak = n - (22 + unat (msg_len ?p))"
        "peek v (Ptr w 0) n = Some (wire ?p x @ leak)"
      have sv: "io_mem s v" by (rule io_mem_grows [OF su v(1)])
      have dv: "descriptor (fds v) (fd ?c) = Some ?d" "accepts ?d" using net(2) by (simp_all add: grows_os [OF v(1)] u(4))
      have "wp (conn_write B ?c (Ptr w 0) n) (\<lambda>_. wp (finish ?c) Q) v"
      proof (rule conn_write_then [OF dv v(3)])
        fix y assume y: "io v y" "fds y = fds v" "net y = net v"
          "effects (trace y) = effects (trace v) @ [Sent (fd ?c) (peer ?d) (wire ?p x @ leak)]"
        show "wp (finish ?c) Q y"
          by (rule F [OF io_mem_io [OF sv y(1)], of _ leak])
            (use dv(1) y(2,3) y(4) [unfolded wire] v(2) n0 u(2,3) in
              \<open>simp_all add: grows_os [OF v(1)] grows_os [OF t(1)]\<close>)
      qed
      moreover have "cstring v (arg ?p) = Some x"
        using grows_cstring [OF v(1) mgrows_cstring [OF io_mem_mgrows [OF u(1)] t(2)]] by simp
      note howmany [OF io_mem_mgrows [OF sv] this]
      ultimately show "wp (cbind (howmany ?p) (\<lambda>n. cseq (conn_write B ?c (Ptr w 0) n) (finish ?c))) Q v"
        by (simp add: wp_cbind wp_cseq wp_eq)
    qed
    then show "wp (?do ?c) Q u" by (simp add: wp_cbind)
  qed
  then show "wp (cbind (client_init host prt) ?do) Q t" by (simp add: wp_cbind)
qed

section \<open>Writing\<close>

lemma gen_write_arg_then:
  assumes wf: "wf_mem s" and f: "cstring s file = Some n" and x: "cstring s data = Some x"
    and Q: "\<And>b t. \<lbrakk>grows s t; cstring t (Ptr b 0) = Some (n @ CHR '';'' # x)\<rbrakk> \<Longrightarrow> Q (Ptr b 0) t"
  shows "wp (gen_write_arg file data) Q s"
proof -
  let ?x = "n @ CHR '';'' # x" and ?n = "length n + length x + 2"
  have no: "NUL \<notin> set ?x" using cstring_no_nul [OF f] cstring_no_nul [OF x] by auto
  have "Q (Ptr (next_id s) 0) (add_block (filled ?n (?x @ [NUL]) s) s)"
    by (rule Q [OF grows_filled [OF wf] cstring_filled_nul [OF no]]) simp
  moreover have "text_of (add_block (fresh_block ?n s) s) [PStr file, Txt '';'', PStr data] = Some ?x"
    using wf f x by simp
  ultimately show ?thesis
    using f x by (simp add: gen_write_arg_def wp_cbind wp_strlen wp_malloc wp_cseq wp_sprintf wp_format
        wp_cret wp_funs filled_def del: text_of.simps)
qed

lemma number_received_then:
  assumes wf: "wf_mem s" and d: "descriptor (fds s) (fd c) = Some k"
    and inc: "incoming k = Arrives (t @ NUL # r) # rest" and t: "NUL \<notin> set t" "length (t @ NUL # r) < 1000"
    and Q: "\<And>u. \<lbrakk>io_mem s u; net u = net s; effects (trace u) = effects (trace s) @ [Closed (fd c)]\<rbrakk>
      \<Longrightarrow> Q (atoi t) u"
  shows "wp (number_received B c) Q s"
  unfolding number_received_def wp_cbind
proof (rule read_all_then [OF wf d, where ds = "[]" and rest = rest])
  show "incoming k = map Arrives ([] @ [t @ NUL # r]) @ rest" using inc by simp
  show "length (t @ NUL # r) < 1000" by (rule t(2))
  fix b m u assume "reading s (fd c) k m (concat [] @ t @ NUL # r) rest b u"
  then have u: "reading s (fd c) k m (t @ NUL # r) rest b u" by simp
  note rd = readingD [OF u]
  have str: "cstring u (Ptr b 0) = Some t" by (rule reading_text [OF u t(1)])
  have "wp (conn_close B c) (\<lambda>_. wp (cseq (free (Ptr b 0)) (cret (atoi t))) Q) u"
  proof (rule conn_close_then [OF rd(1)])
    fix m' v assume v: "io_mem u v" "net v = net u" "effects (trace v) = effects (trace u) @ [Closed (fd c)]"
    have "live v (Ptr b 0)" by (rule mgrows_live [OF io_mem_mgrows [OF v(1)] rd(2)])
    moreover have "Q (atoi t) (del_block b v)"
      by (rule Q [OF io_mem_free [OF wf io_mem_trans [OF rd(4) v(1)] rd(5)]])
        (use u v in \<open>simp_all add: reading_def\<close>)
    ultimately show "wp (cseq (free (Ptr b 0)) (cret (atoi t))) Q v"
      by (simp add: wp_cseq wp_free wp_cret wp_funs del: live.simps)
  qed
  then show "wp (get_str (Ptr b 0)) (\<lambda>t. wp (conn_close B c) (\<lambda>_. wp (cseq (free (Ptr b 0)) (cret (atoi t))) Q)) u"
    using str by (simp add: wp_get_str del: cstring.simps)
qed simp_all

text \<open>The operations that are answered by a number.\<close>

definition with_nul :: "packet \<Rightarrow> (nat, 'z) ocmd" where
  "with_nul p = cbind (strlen (arg p)) (\<lambda>n. cret (sizeof_packet + n + 1))"

definition take_number :: "build \<Rightarrow> conn \<Rightarrow> ('a::len word, 'z) ocmd" where
  "take_number B client = cbind (number_received B client) (\<lambda>v. cret (word_of_int v))"

lemma file_write_talks:
  "file_write B file data l app host prt = cbind (gen_write_arg file data)
     (\<lambda>a. talk B a (if app then APPEND else WRITE) with_nul host prt (- 1) (take_number B))"
  unfolding file_write_def talk_def with_nul_def take_number_def cbind_assoc cbind_cret ..

lemma file_delete_talks: "file_delete B file host prt = talk B file DELETE with_nul host prt 0 (take_number B)"
  unfolding file_delete_def talk_def with_nul_def take_number_def cbind_assoc cbind_cret ..

lemma number_then:
  assumes wf: "wf_mem s" and f: "cstring s file = Some x"
    and a: "cstring s host = Some a" "inet_pton4 a"
    and net: "net s = Opens d # rs" "accepts d" "incoming d = Arrives (t @ NUL # r) # rest"
    and t: "NUL \<notin> set t" "length (t @ NUL # r) < 1000"
    and len: "length x + 1 < 2 ^ 32" and room: "\<And>j. 18 \<le> spare s j + room s j"
    and Q: "\<And>leak u. \<lbrakk>io_mem s u; net u = rs; length leak = 19;
        effects (trace u) = effects (trace s) @ [Sent (int (lowest_free (fds s))) (Host a prt) (wire_msg 0 ty 0 x @ leak),
          Closed (int (lowest_free (fds s)))]\<rbrakk> \<Longrightarrow> Q (word_of_int (atoi t)) u"
  shows "wp (talk B file ty with_nul host prt err (take_number B)) Q s"
proof (rule talk_then [OF wf f a net(1,2) len, where n = "41 + length x"])
  show "22 + length x \<le> 41 + length x" by simp
  show "41 + length x \<le> 23 + length x + spare s j + room s j" for j using room [of j] by simp
  show "with_nul p u = Inr (41 + length x, u)" if "mgrows s u" "cstring u (arg p) = Some x" for p u
    unfolding runs_wp using that(2)
    by (simp add: with_nul_def wp_cbind wp_strlen wp_cret sizeof_packet_def del: cstring.simps)
  fix c :: conn and leak y
  assume y: "io_mem s y" "net y = rs" "descriptor (fds y) (fd c) = Some (d\<lparr>peer := Host a prt\<rparr>)" "length leak = 41 + length x - (22 + length x)"
    "fd c = int (lowest_free (fds s))"
    "effects (trace y) = effects (trace s) @ [Sent (fd c) (Host a prt) (wire_msg 0 ty 0 x @ leak)]"
  have "wp (number_received B c) (\<lambda>v. Q (word_of_int v)) y"
  proof (rule number_received_then [OF io_mem_wf [OF y(1)] y(3) _ t])
    show "incoming (d\<lparr>peer := Host a prt\<rparr>) = Arrives (t @ NUL # r) # rest" using net(3) by simp
    fix z assume z: "io_mem y z" "net z = net y" "effects (trace z) = effects (trace y) @ [Closed (fd c)]"
    show "Q (word_of_int (atoi t)) z"
      by (rule Q [OF io_mem_trans [OF y(1) z(1)], of leak]) (use z y in simp_all)
  qed
  then show "wp (take_number B c) Q y" by (simp add: take_number_def wp_cbind wp_cret wp_funs)
qed

lemma file_write_then:
  assumes wf: "wf_mem s" and f: "cstring s file = Some n" and x: "cstring s data = Some x"
    and a: "cstring s host = Some a" "inet_pton4 a"
    and net: "net s = Opens d # rs" "accepts d" "incoming d = Arrives (t @ NUL # r) # rest"
    and t: "NUL \<notin> set t" "length (t @ NUL # r) < 1000"
    and len: "length n + length x + 2 < 2 ^ 32" and room: "\<And>j. 18 \<le> spare s j + room s j"
    and Q: "\<And>leak u. \<lbrakk>io_mem s u; net u = rs; length leak = 19;
        effects (trace u) = effects (trace s) @ [Sent (int (lowest_free (fds s))) (Host a prt)
          (wire_msg 0 (if app then APPEND else WRITE) 0 (n @ CHR '';'' # x) @ leak),
          Closed (int (lowest_free (fds s)))]\<rbrakk> \<Longrightarrow> Q (word_of_int (atoi t)) u"
  shows "wp (file_write B file data l app host prt) Q s"
  unfolding file_write_talks wp_cbind [of "gen_write_arg _ _"]
proof (rule gen_write_arg_then [OF wf f x])
  fix b u assume u: "grows s u" "cstring u (Ptr b 0) = Some (n @ CHR '';'' # x)"
  note os = grows_os [OF u(1)]
  show "wp (talk B (Ptr b 0) (if app then APPEND else WRITE) with_nul host prt (- 1) (take_number B)) Q u"
  proof (rule number_then [OF grows_wf [OF u(1)] u(2) grows_cstring [OF u(1) a(1)] a(2) _ net(2,3) t])
    show "net u = Opens d # rs" using net(1) by (simp add: os)
    show "length (n @ CHR '';'' # x) + 1 < 2 ^ 32" using len by simp
    show "18 \<le> spare u j + room u j" for j using room [of j] by (simp add: grows_oracles [OF u(1)])
    fix leak v assume v: "io_mem u v" "net v = rs" "length leak = 19" "effects (trace v) = effects (trace u) @
      [Sent (int (lowest_free (fds u))) (Host a prt) (wire_msg 0 (if app then APPEND else WRITE) 0 (n @ CHR '';'' # x) @ leak),
       Closed (int (lowest_free (fds u)))]"
    show "Q (word_of_int (atoi t)) v"
      by (rule Q [OF io_mem_trans [OF grows_io_mem [OF u(1)] v(1)] v(2,3)]) (use v(4) in \<open>simp add: os\<close>)
  qed
qed

section \<open>The program\<close>

lemma msg_ok_wf: "msg_ok s \<Longrightarrow> wf_mem s"
  by (simp add: msg_ok_def)

lemma announce_then:
  assumes ok: "log_ok s" and no: "NUL \<notin> set m" "length m < 900"
    and Q: "\<And>t. \<lbrakk>log_frame s t; effects (trace t) = effects (trace s)\<rbrakk> \<Longrightarrow> Q () t"
  shows "wp (announce_op B m) Q s"
proof (cases "verbose_2 B")
  case True
  have "wp (logger MESSAGE COMP_CLIENT (Txt m)) (\<lambda>_. Q ()) s"
    by (rule logger_then [OF ok, where m = m]) (use no Q in auto)
  with True show ?thesis by (simp add: announce_op_def wp_cwhen wp_cseq wp_cskip wp_funs)
next
  case False
  then show ?thesis using Q [OF log_frame_refl [OF ok]] by (simp add: announce_op_def wp_simps)
qed

text \<open>A string that is there before anything was logged stays.\<close>

lemma first_log:
  assumes "log_frame s t" and "log_msg s = Null"
  shows "cstring s p = Some x \<Longrightarrow> cstring t p = Some x"
  using assms log_frame_cstring [OF assms(1)] by (cases p) auto

lemma count_printed:
  assumes "- (2 ^ 31) \<le> v" and "v < 2 ^ 31"
  shows "sint (ucast (word_of_int (atoi (show_int v)) :: u64) :: u32) = v"
proof -
  have a: "atoi (show_int v) = v" using atoi_show_int [of "[]" v] assms by (simp add: stops_digits_def)
  have c: "ucast (word_of_int i :: u64) = (word_of_int i :: u32)" for i
    by transfer (simp add: take_bit_take_bit)
  have "sint (word_of_int v :: u32) = v"
    using assms by (simp add: sint_sbintrunc' signed_take_bit_int_eq_self)
  then show ?thesis unfolding a c .
qed

lemma length_count:
  assumes "- (2 ^ 31) \<le> v" "v < 2 ^ 31"
  shows "length (show_int v) \<le> 11"
  using length_show_int32 [of "word_of_int v"] assms
  by (simp add: sint_sbintrunc' signed_take_bit_int_eq_self)

text \<open>The settings are read twice, for the host and for the port.\<close>

lemma both_settings_then:
  assumes wf: "wf_mem s" and cfg: "holds_settings B (a, prt) s"
    and K: "\<And>h u. \<lbrakk>fs_frame s u; cstring u h = Some a\<rbrakk> \<Longrightarrow> wp (K h prt) Q u"
  shows "wp (cbind (get_master_host B) (\<lambda>host. cbind (get_master_port B) (K host))) Q s"
  unfolding wp_cbind [of "get_master_host _"]
proof (rule get_host_then [OF wf])
  show "files s (CONFIG_FILE B) = Some (config a prt)" "good_host a"
    using cfg by (simp_all add: holds_settings_def)
  then have h: "a \<noteq> []" "list_all host_char a" "length a \<le> 15" using good_host_chars by simp_all
  fix p u assume u: "fs_frame s u" "files u = files s" "cstring u p = Some a"
  have "wp (get_master_port B) (\<lambda>q. wp (K p q) Q) u"
  proof (rule get_port_then [OF mgrows_wf [OF fs_frame_mgrows [OF u(1)]] _ h])
    show "files u (CONFIG_FILE B) = Some (config a prt)" using cfg u(2) by (simp add: holds_settings_def)
    fix v assume v: "fs_frame u v"
    show "wp (K p prt) Q v"
      by (rule K [OF fs_frame_trans [OF u(1) v] mgrows_cstring [OF fs_frame_mgrows [OF v] u(3)]])
  qed
  then show "wp (cbind (get_master_port B) (K p)) Q u" by (simp add: wp_cbind)
qed

text \<open>What the commands have in common: an announcement, the settings, and then the operation.\<close>

lemma settled_then:
  fixes s :: "'z client_scheme"
  assumes ok: "log_ok s" "log_msg s = Null" and cfg: "holds_settings B (a, prt) s"
    and m: "NUL \<notin> set m" "length m < 900"
    and K: "\<And>h u. \<lbrakk>wf_mem u; cstring u h = Some a; net u = net s; spare u = spare s; room u = room s;
        effects (trace u) = effects (trace s); \<And>p y. cstring s p = Some y \<Longrightarrow> cstring u p = Some y\<rbrakk> \<Longrightarrow>
      wp (K h prt) Q u"
  shows "wp (cseq (announce_op B m) (cbind (get_master_host B) (\<lambda>host. cbind (get_master_port B) (K host)))) Q s"
  unfolding wp_cseq
proof (rule announce_then [OF ok(1) m])
  fix t assume t: "log_frame s t" "effects (trace t) = effects (trace s)"
  note keep = first_log [OF t(1) ok(2)]
  have tf: "files t = files s" "net t = net s" "spare t = spare s" "room t = room s"
    using t(1) fsys_more(1) [of t s] by (simp_all add: log_frame_def)
  show "wp (cbind (get_master_host B) (\<lambda>host. cbind (get_master_port B) (K host))) Q t"
  proof (rule both_settings_then [OF log_frame_wf [OF t(1)]])
    show "holds_settings B (a, prt) t" using cfg by (simp add: holds_settings_def tf)
    fix h u assume u: "fs_frame t u" "cstring u h = Some a"
    note mu = fs_frame_mgrows [OF u(1)]
    show "wp (K h prt) Q u"
      by (rule K [OF mgrows_wf [OF mu] u(2)])
        (use u tf t(2) mgrows_oracles [OF mu] mgrows_cstring [OF mu keep] in \<open>simp_all add: fs_frame_def\<close>)
  qed
qed

lemma cli_write_then:
  fixes s :: "'z client_scheme"
  assumes ok: "log_ok s" "log_msg s = Null" and f: "cstring s file = Some n" and x: "cstring s data = Some x"
    and cfg: "holds_settings B (a, prt) s" and a: "inet_pton4 a"
    and net: "net s = Opens d # rs" "accepts d" "incoming d = Arrives (show_int v @ [NUL]) # rest"
    and v: "- (2 ^ 31) \<le> v" "v < 2 ^ 31"
    and len: "length n + length x + 2 < 2 ^ 31" and room: "\<And>j. 18 \<le> spare s j + room s j"
    and Q: "\<And>g leak tr u. \<lbrakk>length leak = 19;
        effects (trace u) = effects (trace s) @ [Sent g (Host a prt)
          (wire_msg 0 (if app then APPEND else WRITE) 0 (n @ CHR '';'' # x) @ leak), Closed g];
        trace u = tr @ [Printed (''Wrote '' @ show_int v @ '' bytes'' @ [NL])]\<rbrakk> \<Longrightarrow> Q () u"
  shows "wp (exec_write_append B file data app) Q s"
  unfolding exec_write_append_def wp_cseq
proof (rule announce_then [OF ok(1)])
  fix t assume t: "log_frame s t" "effects (trace t) = effects (trace s)"
  note keep = first_log [OF t(1) ok(2)]
  have tf: "net t = net s" "spare t = spare s" "room t = room s" using t(1) by (simp_all add: log_frame_def)
  have cfg': "holds_settings B (a, prt) t"
    using cfg t(1) fsys_more(1) [of t s] by (simp add: holds_settings_def log_frame_def)
  let ?say = "\<lambda>bs :: u64. print (''Wrote '' @ show_int (sint (ucast bs :: u32)) @ '' bytes'' @ [NL])"
  have "wp (cbind (get_master_host B) (\<lambda>host. cbind (get_master_port B) (\<lambda>p.
      cbind (file_write B file data (of_nat (length x)) app host p) ?say))) Q t"
  proof (rule both_settings_then [OF log_frame_wf [OF t(1)] cfg'])
    fix h u assume u: "fs_frame t u" "cstring u h = Some a"
    note mu = fs_frame_mgrows [OF u(1)]
    have fu: "net u = net s" "trace u = trace t" using u(1) tf by (simp_all add: fs_frame_def)
    have "wp (file_write B file data (of_nat (length x)) app h prt) (\<lambda>bs. wp (?say bs) Q) u"
    proof (rule file_write_then [OF mgrows_wf [OF mu] mgrows_cstring [OF mu keep [OF f]]
          mgrows_cstring [OF mu keep [OF x]] u(2) a _ net(2,3) show_int_no_nul])
      show "net u = Opens d # rs" using net(1) by (simp add: fu)
      show "length (show_int v @ [NUL]) < 1000" using length_count [OF v] by simp
      show "length n + length x + 2 < 2 ^ 32" using len by simp
      show "18 \<le> spare u j + room u j" for j
        using room [of j] mgrows_oracles [OF mu] by (simp add: tf)
      fix leak and w :: "'z client_scheme" assume w: "length leak = 19" "effects (trace w) = effects (trace u) @
        [Sent (int (lowest_free (fds u))) (Host a prt) (wire_msg 0 (if app then APPEND else WRITE) 0 (n @ CHR '';'' # x) @ leak),
         Closed (int (lowest_free (fds u)))]"
      show "wp (?say (word_of_int (atoi (show_int v)))) Q w"
        unfolding count_printed [OF v] using w t(2) by (simp add: print_def wp_log_event fu Q)
    qed
    then show "wp (cbind (file_write B file data (of_nat (length x)) app h prt) ?say) Q u"
      by (simp add: wp_cbind)
  qed
  then show "wp (cbind (strlen data) (\<lambda>n. cbind (get_master_host B) (\<lambda>host. cbind (get_master_port B) (\<lambda>p.
      cbind (file_write B file data (of_nat n) app host p) ?say)))) Q t"
    using keep [OF x] by (simp add: wp_cbind [of "strlen _"] wp_strlen del: cstring.simps)
qed simp_all

lemma refused_command:
  fixes s :: "'z client_scheme"
  assumes ok: "log_ok s" "log_msg s = Null" "msg_ok s" "parse_error_msg s = Null"
    and argv: "list_all2 (\<lambda>p w. cstring s p = Some w) argv ws" "length argv < 65536"
    and bad: "check_words ws = (False, Some m)" and m: "NUL \<notin> set m" "length m < 900"
  shows "wp (client_main B argv) (\<lambda>r t. r = 1 \<and> effects (trace t) = effects (trace s) \<and>
    files t = files s \<and> fds t = fds s \<and>
    trace t = trace s @ log_print ERROR (COMP_CLIENT @ '': '' @ m)) s"
  unfolding client_main_def wp_cbind
proof (rule wp_mono [OF parse_run [OF ok(3) argv]])
  fix r t assume "verdict s (check_words ws) r t"
  then have r: "\<not> r" and t: "msg_frame s t" "cstring t (parse_error_msg t) = Some m"
    by (simp_all add: verdict_def bad)
  have more: "logst.more t = logst.more (s\<lparr>parse_error_msg := parse_error_msg t\<rparr>)" "log_msg t = log_msg s"
    "trace t = trace s" "fds t = fds s" "files t = files s"
    using t(1) by (cases s; cases t; simp add: msg_frame_def)+
  have lok: "log_ok t" using t(1) ok(2) more(2) by (simp add: log_ok_def msg_frame_def msg_ok_def)
  have "wp (logger ERROR COMP_CLIENT (PStr (parse_error_msg t))) (\<lambda>_ u. effects (trace u) = effects (trace s) \<and>
      files u = files s \<and> fds u = fds s \<and> trace u = trace s @ log_print ERROR (COMP_CLIENT @ '': '' @ m)) t"
  proof (rule wp_mono [OF logger_run [OF lok, where m = m]])
    show "text_of t [PStr (parse_error_msg t)] = Some m" using t(2) by simp
    fix p u
    assume u: "log_frame t u \<and> p = log_msg u \<and> cstring u p = Some (COMP_CLIENT @ '': '' @ m) \<and>
      trace u = trace t @ log_print ERROR (COMP_CLIENT @ '': '' @ m)"
    then show "effects (trace u) = effects (trace s) \<and> files u = files s \<and> fds u = fds s \<and>
        trace u = trace s @ log_print ERROR (COMP_CLIENT @ '': '' @ m)"
      using more fsys_more(1) [of u t] by (simp add: log_frame_def)
  qed (use m in auto)
  then have "wp (cseq (logger ERROR COMP_CLIENT (PStr (parse_error_msg t))) (cret 1))
      (\<lambda>r u. r = 1 \<and> effects (trace u) = effects (trace s) \<and> files u = files s \<and> fds u = fds s \<and>
        trace u = trace s @ log_print ERROR (COMP_CLIENT @ '': '' @ m)) t"
    by (simp add: wp_cseq wp_funs)
  then show "wp (if \<not> r then cbind cli_error_msg (\<lambda>e. cseq (logger ERROR COMP_CLIENT (PStr e)) (cret 1))
     else cbind (get_str (argv ! 1)) (\<lambda>t.
       cbind (if t \<noteq> ''set-ip'' \<and> t \<noteq> ''set-port'' then get_master_host B else cret (argv ! 1)) (\<lambda>h.
       if h = Null then cseq (logger MESSAGE COMP_CLIENT
           (Txt ''Use 'set-ip' and 'set-port' to specify master IP and port number, repectively.'')) (cret 1)
       else cseq (operation_handler B (argv ! 1) (if 3 \<le> length argv then argv ! 2 else Null)
           (if 4 \<le> length argv then argv ! 3 else Null)) (cret 0))))
    (\<lambda>r u. r = 1 \<and> effects (trace u) = effects (trace s) \<and> files u = files s \<and> fds u = fds s \<and>
      trace u = trace s @ log_print ERROR (COMP_CLIENT @ '': '' @ m)) t"
    using r by (simp add: cli_error_msg_def wp_cbind wp_cget)
qed

text \<open>
  A command line that is allowed and not about the settings: what is left to show is what the
  operation does once the settings have been looked at.
\<close>

lemma main_then:
  fixes s :: "'z client_scheme"
  assumes ok: "msg_ok s" and argv: "list_all2 (\<lambda>p w. cstring s p = Some w) argv ws" "length argv < 65536"
    and good: "check_words ws = (True, None)" "2 \<le> length ws" "ws ! 1 \<notin> {''set-ip'', ''set-port''}"
    and cfg: "holds_settings B (a, prt) s"
    and Q: "\<And>t. \<lbrakk>fs_frame s t; files t = files s\<rbrakk> \<Longrightarrow>
      wp (operation_handler B (argv ! 1) (if 3 \<le> length argv then argv ! 2 else Null)
        (if 4 \<le> length argv then argv ! 3 else Null)) (\<lambda>_. Q 0) t"
  shows "wp (client_main B argv) Q s"
proof -
  have c: "cstring s (argv ! 1) = Some (ws ! 1)" using argv(1) good(2) by (auto simp: list_all2_conv_all_nth)
  have cf: "files s (CONFIG_FILE B) = Some (config a prt)" "good_host a"
    using cfg by (simp_all add: holds_settings_def)
  let ?do = "\<lambda>h. if h = Null then cseq (logger MESSAGE COMP_CLIENT
      (Txt ''Use 'set-ip' and 'set-port' to specify master IP and port number, repectively.'')) (cret 1)
    else cseq (operation_handler B (argv ! 1) (if 3 \<le> length argv then argv ! 2 else Null)
      (if 4 \<le> length argv then argv ! 3 else Null)) (cret 0)"
  have "wp (get_master_host B) (\<lambda>h. wp (?do h) Q) s"
  proof (rule get_host_then [OF msg_ok_wf [OF ok] cf])
    fix h t assume "fs_frame s t" "files t = files s" "h \<noteq> Null"
    then show "wp (?do h) Q t" using Q by (simp add: wp_cseq wp_funs cong: if_cong)
  qed
  then have main: "wp (cbind (get_str (argv ! 1)) (\<lambda>t. cbind (if t \<noteq> ''set-ip'' \<and> t \<noteq> ''set-port''
      then get_master_host B else cret (argv ! 1)) ?do)) Q s"
    using c good(3) by (simp add: wp_cbind wp_get_str del: cstring.simps)
  show ?thesis unfolding client_main_def wp_cbind [of "parse_args _"]
  proof (rule wp_mono [OF parse_run [OF ok argv]])
    fix r t assume "verdict s (check_words ws) r t"
    then have "r" "t = s" by (simp_all add: verdict_def good(1))
    then show "wp (if \<not> r then cbind cli_error_msg (\<lambda>e. cseq (logger ERROR COMP_CLIENT (PStr e)) (cret 1))
      else cbind (get_str (argv ! 1)) (\<lambda>t. cbind (if t \<noteq> ''set-ip'' \<and> t \<noteq> ''set-port''
        then get_master_host B else cret (argv ! 1)) ?do)) Q t" using main by simp
  qed
qed

lemma log_ok_fs_frame: "fs_frame s t \<Longrightarrow> log_msg s = Null \<Longrightarrow> log_ok t \<and> log_msg t = Null"
  using mgrows_wf [OF fs_frame_mgrows [of s t]] by (simp add: log_ok_def fs_frame_def)

text \<open>From the command line: the words \<^verbatim>\<open>write\<close> or \<^verbatim>\<open>append\<close>, a name and the data.\<close>

lemma put_command:
  fixes s :: "'z client_scheme"
  assumes ok: "log_ok s" "log_msg s = Null" "msg_ok s"
    and argv: "list_all2 (\<lambda>p w. cstring s p = Some w) [p0, p1, p2, p3]
      [w0, if app then ''append'' else ''write'', n, x]"
    and cfg: "holds_settings B (a, prt) s" and a: "inet_pton4 a"
    and net: "net s = Opens d # rs" "accepts d" "incoming d = Arrives (show_int v @ [NUL]) # rest"
    and v: "- (2 ^ 31) \<le> v" "v < 2 ^ 31"
    and len: "length n + length x + 2 < 2 ^ 31" and room: "\<And>j. 18 \<le> spare s j + room s j"
  shows "wp (client_main B [p0, p1, p2, p3]) (\<lambda>r u. r = 0 \<and> (\<exists>g leak tr. length leak = 19 \<and>
      effects (trace u) = effects (trace s) @
        [Sent g (Host a prt) (wire_msg 0 (if app then APPEND else WRITE) 0 (n @ CHR '';'' # x) @ leak), Closed g] \<and>
      trace u = tr @ [Printed (''Wrote '' @ show_int v @ '' bytes'' @ [NL])])) s" (is "wp _ ?Q s")
proof (rule main_then [OF ok(3) argv _ _ _ _ cfg])
  have c: "cstring s p1 = Some (if app then ''append'' else ''write'')" "cstring s p2 = Some n" "cstring s p3 = Some x"
    using argv by simp_all
  show "check_words [w0, if app then ''append'' else ''write'', n, x] = (True, None)"
    by (simp add: check_words_def operations_entries check_count_def)
  fix t assume t: "fs_frame s t" "files t = files s"
  note m = fs_frame_mgrows [OF t(1)]
  note l = log_ok_fs_frame [OF t(1) ok(2)]
  have fr: "net t = net s" "fds t = fds s" "trace t = trace s" using t(1) by (simp_all add: fs_frame_def)
  have "wp (exec_write_append B p2 p3 app) (\<lambda>_. ?Q 0) t"
  proof (rule cli_write_then [OF conjunct1 [OF l] conjunct2 [OF l] mgrows_cstring [OF m c(2)]
        mgrows_cstring [OF m c(3)] _ a _ net(2,3) v len])
    show "holds_settings B (a, prt) t" using cfg t(2) by (simp add: holds_settings_def)
    show "net t = Opens d # rs" using net(1) by (simp add: fr)
    show "18 \<le> spare t j + room t j" for j using room [of j] mgrows_oracles [OF m] by simp
  qed (auto simp: fr)
  then show "wp (operation_handler B ([p0, p1, p2, p3] ! 1)
      (if 3 \<le> length [p0, p1, p2, p3] then [p0, p1, p2, p3] ! 2 else Null)
      (if 4 \<le> length [p0, p1, p2, p3] then [p0, p1, p2, p3] ! 3 else Null)) (\<lambda>_. ?Q 0) t"
    using mgrows_cstring [OF m c(1)]
    by (cases app; simp add: operation_handler_def wp_cbind wp_get_str numeral_2_eq_2 numeral_3_eq_3
      del: cstring.simps)
qed simp_all

lemma write_command:
  fixes s :: "'z client_scheme"
  assumes "log_ok s" "log_msg s = Null" "msg_ok s"
    and "list_all2 (\<lambda>p w. cstring s p = Some w) [p0, p1, p2, p3] [w0, ''write'', n, x]"
    and "holds_settings B (a, prt) s" and "inet_pton4 a"
    and "net s = Opens d # rs" "accepts d" "incoming d = Arrives (show_nat (length x) @ [NUL]) # rest"
    and "length n + length x + 2 < 2 ^ 31" and "\<And>j. 18 \<le> spare s j + room s j"
  shows "wp (client_main B [p0, p1, p2, p3]) (\<lambda>r u. r = 0 \<and> (\<exists>g leak tr. length leak = 19 \<and>
      effects (trace u) = effects (trace s) @ [Sent g (Host a prt) (wire_msg 0 WRITE 0 (n @ CHR '';'' # x) @ leak), Closed g] \<and>
      trace u = tr @ [Printed (''Wrote '' @ show_nat (length x) @ '' bytes'' @ [NL])])) s"
  using put_command [where app = False and v = "int (length x)", OF assms(1-3) _ assms(5-8) _ _ _ assms(10,11)] assms
  by (simp add: show_int_def)

text \<open>The command \<^verbatim>\<open>delete\<close>: it prints that the file is gone unless the number answered is 0.\<close>

definition delete_outcome :: "string \<Rightarrow> string" where
  "delete_outcome t = ''File was '' @ (if (word_of_int (atoi t) :: u16) \<noteq> 0 then ''deleted'' else ''not deleted'') @ ''.''"

lemma delete_command:
  fixes s :: "'z client_scheme"
  assumes ok: "log_ok s" "log_msg s = Null" "msg_ok s"
    and argv: "list_all2 (\<lambda>p w. cstring s p = Some w) [p0, p1, p2] [w0, ''delete'', n]"
    and cfg: "holds_settings B (a, prt) s" and a: "inet_pton4 a"
    and net: "net s = Opens d # rs" "accepts d" "incoming d = Arrives (t @ NUL # r) # rest"
    and t: "NUL \<notin> set t" "length (t @ NUL # r) < 1000"
    and len: "length n + 1 < 2 ^ 32" and room: "\<And>j. 18 \<le> spare s j + room s j"
  shows "wp (client_main B [p0, p1, p2]) (\<lambda>r u. r = 0 \<and> (\<exists>g leak tr. length leak = 19 \<and>
      effects (trace u) = effects (trace s) @ [Sent g (Host a prt) (wire_msg 0 DELETE 0 n @ leak), Closed g] \<and>
      trace u = tr @ [Printed (delete_outcome t @ [NL])])) s" (is "wp _ ?Q s")
proof (rule main_then [OF ok(3) argv _ _ _ _ cfg])
  have c: "cstring s p1 = Some ''delete''" "cstring s p2 = Some n" using argv by simp_all
  show "check_words [w0, ''delete'', n] = (True, None)"
    by (simp add: check_words_def operations_entries check_count_def)
  fix v assume v: "fs_frame s v" "files v = files s"
  note m = fs_frame_mgrows [OF v(1)]
  note l = log_ok_fs_frame [OF v(1) ok(2)]
  have fr: "net v = net s" "trace v = trace s" using v(1) by (simp_all add: fs_frame_def)
  let ?say = "\<lambda>deleted :: u16. print (''File was '' @ (if deleted \<noteq> 0 then ''deleted'' else ''not deleted'') @ ''.'' @ [NL])"
  have "wp (exec_delete B p2) (\<lambda>_. ?Q 0) v"
    unfolding exec_delete_def
  proof (rule settled_then [OF conjunct1 [OF l] conjunct2 [OF l]])
    show "holds_settings B (a, prt) v" using cfg v(2) by (simp add: holds_settings_def)
    fix h and u :: "'z client_scheme"
    assume u: "wf_mem u" "cstring u h = Some a" "net u = net v" "spare u = spare v" "room u = room v"
      "effects (trace u) = effects (trace v)" and keep: "\<And>p y. cstring v p = Some y \<Longrightarrow> cstring u p = Some y"
    have "wp (talk B p2 DELETE with_nul h prt 0 (take_number B)) (\<lambda>deleted. wp (?say deleted) (\<lambda>_. ?Q 0)) u"
    proof (rule number_then [OF u(1) keep [OF mgrows_cstring [OF m c(2)]] u(2) a _ net(2,3) t len])
      show "net u = Opens d # rs" using u(3) fr(1) net(1) by simp
      show "18 \<le> spare u j + room u j" for j using room [of j] mgrows_oracles [OF m] by (simp add: u)
      fix leak and z :: "'z client_scheme"
      assume z: "length leak = 19" "effects (trace z) = effects (trace u) @
        [Sent (int (lowest_free (fds u))) (Host a prt) (wire_msg 0 DELETE 0 n @ leak), Closed (int (lowest_free (fds u)))]"
      then show "wp (?say (word_of_int (atoi t))) (\<lambda>_. ?Q 0) z"
        using u(6) fr(2) by (auto simp: print_def wp_log_event delete_outcome_def
            intro!: exI [of _ "int (lowest_free (fds u))"] exI [of _ leak])
    qed
    then show "wp (cbind (file_delete B p2 h prt) ?say) (\<lambda>_. ?Q 0) u"
      by (simp add: file_delete_talks wp_cbind)
  qed simp_all
  then show "wp (operation_handler B ([p0, p1, p2] ! 1) (if 3 \<le> length [p0, p1, p2] then [p0, p1, p2] ! 2 else Null)
      (if 4 \<le> length [p0, p1, p2] then [p0, p1, p2] ! 3 else Null)) (\<lambda>_. ?Q 0) v"
    using mgrows_cstring [OF m c(1)]
    by (simp add: operation_handler_def wp_cbind wp_get_str numeral_2_eq_2 del: cstring.simps)
qed simp_all

section \<open>From the command line to the worker\<close>

lemma fds_update [simp]:
  "wf_mem (s\<lparr>fds := x\<rparr>) = wf_mem s" "clean_mem (s\<lparr>fds := x\<rparr>) = clean_mem s"
  "cstring (s\<lparr>fds := x\<rparr>) p = cstring s p"
  by (cases p; simp add: wf_mem_def clean_mem_def)+

lemma table_fds [simp]:
  "table_ok (s\<lparr>fds := x\<rparr>) = table_ok s" "servers (s\<lparr>fds := x\<rparr>) = servers s"
  "addresses (s\<lparr>fds := x\<rparr>) = addresses s"
  by (simp_all add: table_ok_def servers_def addresses_def del: cstring.simps)

lemma request_arrives:
  assumes "fd c = 0" and "42 + length n + length x \<le> READ_SZ" and "length leak = 19"
  defines "bs \<equiv> wire_msg 0 WRITE 0 (n @ CHR '';'' # x) @ leak"
  shows "has_packet c READ_SZ bs (m\<lparr>fds := [Some (carries bs)]\<rparr>)" "wire_type bs = WRITE"
    "wire_body bs = n @ CHR '';'' # x"
proof -
  let ?b = "n @ CHR '';'' # x"
  have l: "length ?b < 2 ^ 32" using assms(2) by (simp add: READ_SZ_def)
  show "has_packet c READ_SZ bs (m\<lparr>fds := [Some (carries bs)]\<rparr>)"
    using assms(1-3) unat_length [OF l]
    by (simp add: has_packet_def descriptor_def bs_def wire_msg_more header_size_def)
  show "wire_type bs = WRITE" by (simp add: bs_def wire_msg_more)
  show "wire_body bs = ?b" unfolding bs_def by (rule wire_msg_body [OF l])
qed

lemma end_to_end:
  fixes s :: "'x client_scheme" and m :: "'z master_scheme" and w :: "'y worker_scheme"
  assumes ok: "log_ok s" "log_msg s = Null" "msg_ok s"
    and argv: "list_all2 (\<lambda>p w. cstring s p = Some w) [p0, p1, p2, p3] [w0, ''write'', n, x]"
    and cfg: "holds_settings B (a, prt) s" and a: "inet_pton4 a"
    and net: "net s = Opens d # rs" "accepts d" "incoming d = Arrives (show_nat (length x) @ [NUL]) # rest"
    and len: "42 + length n + length x \<le> READ_SZ" and room: "\<And>j. 18 \<le> spare s j + room s j"
    and m: "wf_mem m" "clean_mem m" "table_ok m" "servers m = v # vs"
      "cstring m (ip v) = Some b" "inet_pton4 b" "\<And>j. 18 \<le> spare m j + room m j" "fd c' = 0"
    and w: "exec_ok w" "clean_mem w"
      "has_packet c WORKER_READ_SIZE (wire_msg 0 WRITE (MASTER_TKN B) (n @ CHR '';'' # x) @ lk) w"
      "writable_name w n" "\<And>j. 18 \<le> spare w j + room w j"
    and n: "CHR '';'' \<notin> set n"
  shows "wp (client_main B [p0, p1, p2, p3]) (\<lambda>r u. r = 0 \<and> (\<exists>g bs tr.
      effects (trace u) = effects (trace s) @ [Sent g (Host a prt) bs, Closed g] \<and>
      trace u = tr @ [Printed (''Wrote '' @ show_nat (length x) @ '' bytes'' @ [NL])] \<and>
      wp (worker_handle_client B sh c) (\<lambda>_ t. files t = (files w)(path_of w n \<mapsto> x) \<and>
        (\<exists>rep. effects (trace t) = effects (trace w) @ [Sent (fd c) Caller rep, Closed (fd c)] \<and>
          wp (handle_client B c') (\<lambda>_ z. \<exists>g lk. effects (trace z) = effects (trace m) @
              [Sent g (Host b (port v)) (wire_msg 0 WRITE (MASTER_TKN B) (n @ CHR '';'' # x) @ lk), Closed g,
               Sent 0 Caller (show_nat (length x) @ [NUL])])
            (m\<lparr>fds := [Some (carries bs)], net := [Opens (carries rep)]\<rparr>))) w)) s"
proof (rule wp_mono [OF write_command [OF ok argv cfg a net]])
  show "length n + length x + 2 < 2 ^ 31" using len by (simp add: READ_SZ_def)
  show "18 \<le> spare s j + room s j" for j by (rule room)
  fix r :: int and u :: "'x client_scheme"
  assume "r = 0 \<and> (\<exists>g leak tr. length leak = 19 \<and>
      effects (trace u) = effects (trace s) @ [Sent g (Host a prt) (wire_msg 0 WRITE 0 (n @ CHR '';'' # x) @ leak), Closed g] \<and>
      trace u = tr @ [Printed (''Wrote '' @ show_nat (length x) @ '' bytes'' @ [NL])])"
  then obtain g leak tr where u: "r = 0" "length leak = 19"
    "effects (trace u) = effects (trace s) @ [Sent g (Host a prt) (wire_msg 0 WRITE 0 (n @ CHR '';'' # x) @ leak), Closed g]"
    "trace u = tr @ [Printed (''Wrote '' @ show_nat (length x) @ '' bytes'' @ [NL])]" by blast
  let ?bs = "wire_msg 0 WRITE 0 (n @ CHR '';'' # x) @ leak"
  let ?m = "m\<lparr>fds := [Some (carries ?bs)]\<rparr>"
  have no: "NUL \<notin> set (n @ x)" using argv by (auto dest: cstring_no_nul)
  note req = request_arrives [OF m(8) len u(2)]
  have "wp (worker_handle_client B sh c) (\<lambda>_ t. files t = (files w)(path_of w n \<mapsto> x) \<and>
      (\<exists>rep. effects (trace t) = effects (trace w) @ [Sent (fd c) Caller rep, Closed (fd c)] \<and>
        wp (handle_client B c') (\<lambda>_ u. \<exists>g leak. g \<noteq> fd c' \<and> effects (trace u) = effects (trace ?m) @
            [Sent g (Host b (port v)) (wire_msg 0 WRITE (MASTER_TKN B) (n @ CHR '';'' # x) @ leak), Closed g,
             Sent (fd c') Caller (show_nat (length x) @ [NUL])])
          (?m\<lparr>net := [Opens (carries rep)]\<rparr>))) w"
    by (rule stored_then [OF w(1-3) n no w(4,5) _ _ _ _ req]) (use m in \<open>simp_all del: cstring.simps\<close>)
  then have "wp (worker_handle_client B sh c) (\<lambda>_ t. files t = (files w)(path_of w n \<mapsto> x) \<and>
      (\<exists>rep. effects (trace t) = effects (trace w) @ [Sent (fd c) Caller rep, Closed (fd c)] \<and>
        wp (handle_client B c') (\<lambda>_ z. \<exists>g lk. effects (trace z) = effects (trace m) @
            [Sent g (Host b (port v)) (wire_msg 0 WRITE (MASTER_TKN B) (n @ CHR '';'' # x) @ lk), Closed g,
             Sent 0 Caller (show_nat (length x) @ [NUL])])
          (?m\<lparr>net := [Opens (carries rep)]\<rparr>))) w"
    using m(8) by (auto elim!: wp_mono)
  with u show "r = 0 \<and> (\<exists>g bs tr.
      effects (trace u) = effects (trace s) @ [Sent g (Host a prt) bs, Closed g] \<and>
      trace u = tr @ [Printed (''Wrote '' @ show_nat (length x) @ '' bytes'' @ [NL])] \<and>
      wp (worker_handle_client B sh c) (\<lambda>_ t. files t = (files w)(path_of w n \<mapsto> x) \<and>
        (\<exists>rep. effects (trace t) = effects (trace w) @ [Sent (fd c) Caller rep, Closed (fd c)] \<and>
          wp (handle_client B c') (\<lambda>_ z. \<exists>g lk. effects (trace z) = effects (trace m) @
              [Sent g (Host b (port v)) (wire_msg 0 WRITE (MASTER_TKN B) (n @ CHR '';'' # x) @ lk), Closed g,
               Sent 0 Caller (show_nat (length x) @ [NUL])])
            (m\<lparr>fds := [Some (carries bs)], net := [Opens (carries rep)]\<rparr>))) w)"
    by blast
qed

section \<open>Properties\<close>

text \<open>Clients for examples: the words of a command line, the settings and what the master will do.\<close>

definition sample_caller :: "string list \<Rightarrow> outcome list \<Rightarrow> client" where
  "sample_caller ws script = (sample_client ws [''config'' \<mapsto> config ''10.0.0.1'' 4040])\<lparr>net := script\<rparr>"

lemma sample_client_more [simp]:
  "log_msg (sample_client ws fs) = Null" "parse_error_msg (sample_client ws fs) = Null"
  "spare (sample_client ws fs) j = 0" "room (sample_client ws fs) j = 64"
  by (simp_all add: sample_client_def sample_cli_def sample_fsys_def fsys.defs parse_state.defs client.defs)

lemma sample_caller_simps [simp]:
  "wf_mem (sample_caller ws script)" "log_ok (sample_caller ws script)" "msg_ok (sample_caller ws script)"
  "log_msg (sample_caller ws script) = Null" "parse_error_msg (sample_caller ws script) = Null"
  "net (sample_caller ws script) = script" "fds (sample_caller ws script) = []"
  "trace (sample_caller ws script) = []"
  "spare (sample_caller ws script) j = 0" "room (sample_caller ws script) j = 64"
  using sample_client_simps(1,7) [of ws "[''config'' \<mapsto> config ''10.0.0.1'' 4040]"]
  by (simp_all add: sample_caller_def log_ok_def msg_ok_def wf_mem_def)

lemma sample_caller_word:
  assumes "i < length ws" and "NUL \<notin> set (ws ! i)"
  shows "cstring (sample_caller ws script) (Ptr i 0) = Some (ws ! i)"
  using sample_client_simps(6) [OF assms(1), of "[''config'' \<mapsto> config ''10.0.0.1'' 4040]"] assms(2)
  by (simp add: sample_caller_def c_str_exact)

lemma sample_caller_settings: "holds_settings test_build (''10.0.0.1'', 4040) (sample_caller ws script)"
  by (simp add: sample_caller_def holds_settings_def CONFIG_FILE_def good_host_def ip_char_def is_digit_def)

text \<open>
  C39. A client reads an answer that comes in full reads of 1000 bytes and a shorter one as the
  text of all of them put together, in one buffer that has grown with it; what follows the short
  read is left on the connection, so an answer that is delivered in smaller pieces is cut there.
\<close>

theorem read_all_stream:
  assumes "wf_mem s" and "descriptor (fds s) (fd c) = Some k"
    and "incoming k = map Arrives (ds @ [y]) @ rest"
    and "\<forall>x \<in> set ds. length x = 1000" and "length y < 1000" and "(length ds + 2) * 1000 < 2 ^ 32"
  shows "wp (read_all B c) (\<lambda>p t. peek t p (length (concat ds @ y)) = Some (concat ds @ y) \<and>
    descriptor (fds t) (fd c) = Some (k\<lparr>incoming := rest\<rparr>) \<and> net t = net s \<and>
    effects (trace t) = effects (trace s)) s"
proof (rule read_all_then [OF assms])
  fix b m t assume t: "reading s (fd c) k m (concat ds @ y) rest b t"
  then show "peek t (Ptr b 0) (length (concat ds @ y)) = Some (concat ds @ y) \<and>
      descriptor (fds t) (fd c) = Some (k\<lparr>incoming := rest\<rparr>) \<and> net t = net s \<and>
      effects (trace t) = effects (trace s)"
    using readingD(3) [OF t] reading_descriptor [OF start_reading(1) [OF assms(1,2)] t]
    by (simp add: reading_def del: peek.simps)
qed

theorem read_all_stream_witness:
  "wp (read_all test_build sample_conn) (\<lambda>p t. peek t p 2 = Some ''ab'' \<and>
      descriptor (fds t) 0 = Some \<lparr>incoming = [Arrives ''c''], accepts = True, peer = Caller\<rparr>)
    (sample_master [] [Some \<lparr>incoming = [Arrives ''ab'', Arrives ''c''], accepts = True, peer = Caller\<rparr>] [])"
  by (rule wp_mono [OF read_all_stream [where ds = "[]" and y = "''ab''" and rest = "[Arrives ''c'']"
        and k = "\<lparr>incoming = [Arrives ''ab'', Arrives ''c''], accepts = True, peer = Caller\<rparr>"]])
    (auto simp: sample_conn_def descriptor_def simp flip: numeral_2_eq_2 simp del: peek.simps)

text \<open>
  A command line that the table of the operations does not allow ends with the code 1 and
  the message of the parser in red; no connection is opened and no file touched.
\<close>

theorem client_refuses:
  fixes s :: "'z client_scheme"
  assumes "log_ok s" and "log_msg s = Null" and "msg_ok s" and "parse_error_msg s = Null"
    and "list_all2 (\<lambda>p w. cstring s p = Some w) argv ws" and "length argv < 65536"
    and "check_words ws = (False, Some m)" and "NUL \<notin> set m" and "length m < 900"
  shows "wp (client_main B argv) (\<lambda>r t. r = 1 \<and> effects (trace t) = effects (trace s) \<and>
    files t = files s \<and> fds t = fds s \<and>
    trace t = trace s @ log_print ERROR (COMP_CLIENT @ '': '' @ m)) s"
  using assms by (rule refused_command)

theorem client_refuses_witness:
  "wp (client_main test_build [Ptr 0 0, Ptr 1 0, Ptr 2 0]) (\<lambda>r t. r = 1 \<and>
      trace t = log_print ERROR (COMP_CLIENT @ '': '' @ '''write' requires file name and data to write.''))
    (sample_caller [''pekar'', ''write'', ''f''] [])"
  by (rule wp_mono [OF client_refuses [where ws = "[''pekar'', ''write'', ''f'']"]])
    (auto simp: check_words_def operations_def check_count_def sample_caller_word simp del: cstring.simps)

text \<open>
  C2. A write from the command line to the worker and back: if the master answers with the number
  of bytes, the command \<^verbatim>\<open>write\<close> sends one request, to the address and port of the settings, and
  prints the number. If the request is what arrives at the master, and the worker gets the packet that the master makes of it, the worker
  stores the data under the name and nothing else; and if the worker's answer is what the master
  reads, then the master does forward that packet, to the address and port of the first worker of its
  table, and does answer the client with that number.
\<close>

theorem client_write_end_to_end:
  fixes s :: "'x client_scheme" and m :: "'z master_scheme" and w :: "'y worker_scheme"
  assumes "log_ok s" and "log_msg s = Null" and "msg_ok s"
    and "list_all2 (\<lambda>p w. cstring s p = Some w) [p0, p1, p2, p3] [w0, ''write'', n, x]"
    and "holds_settings B (a, prt) s" and "inet_pton4 a"
    and "net s = Opens d # rs" and "accepts d" and "incoming d = Arrives (show_nat (length x) @ [NUL]) # rest"
    and "42 + length n + length x \<le> READ_SZ" and "\<And>j. 18 \<le> spare s j + room s j"
    and "wf_mem m" and "clean_mem m" and "table_ok m" and "servers m = v # vs"
    and "cstring m (ip v) = Some b" and "inet_pton4 b" and "\<And>j. 18 \<le> spare m j + room m j" and "fd c' = 0"
    and "exec_ok w" and "clean_mem w"
    and "has_packet c WORKER_READ_SIZE (wire_msg 0 WRITE (MASTER_TKN B) (n @ CHR '';'' # x) @ lk) w"
    and "writable_name w n" and "\<And>j. 18 \<le> spare w j + room w j" and "CHR '';'' \<notin> set n"
  shows "wp (client_main B [p0, p1, p2, p3]) (\<lambda>r u. r = 0 \<and> (\<exists>g bs tr.
      effects (trace u) = effects (trace s) @ [Sent g (Host a prt) bs, Closed g] \<and>
      trace u = tr @ [Printed (''Wrote '' @ show_nat (length x) @ '' bytes'' @ [NL])] \<and>
      wp (worker_handle_client B sh c) (\<lambda>_ t. files t = (files w)(path_of w n \<mapsto> x) \<and>
        (\<exists>rep. effects (trace t) = effects (trace w) @ [Sent (fd c) Caller rep, Closed (fd c)] \<and>
          wp (handle_client B c') (\<lambda>_ z. \<exists>g lk. effects (trace z) = effects (trace m) @
              [Sent g (Host b (port v)) (wire_msg 0 WRITE (MASTER_TKN B) (n @ CHR '';'' # x) @ lk), Closed g,
               Sent 0 Caller (show_nat (length x) @ [NUL])])
            (m\<lparr>fds := [Some (carries bs)], net := [Opens (carries rep)]\<rparr>))) w)) s"
  using assms by (rule end_to_end)

theorem client_write_end_to_end_witness:
  "wp (client_main test_build [Ptr 0 0, Ptr 1 0, Ptr 2 0, Ptr 3 0]) (\<lambda>r u. r = 0 \<and> (\<exists>g bs tr.
      effects (trace u) = [Sent g (Host ''10.0.0.1'' 4040) bs, Closed g] \<and> trace u = tr @ [Printed (''Wrote 2 bytes'' @ [NL])] \<and>
      wp (worker_handle_client test_build (\<lambda>_ fs. fs) sample_conn) (\<lambda>_ t. files t ''dir/g'' = Some ''hi'' \<and>
        (\<exists>rep. effects (trace t) = [Sent 0 Caller rep, Closed 0] \<and>
          wp (handle_client test_build sample_conn) (\<lambda>_ z. Sent 0 Caller (''2'' @ [NUL]) \<in> set (effects (trace z)))
            ((sample_master [sample_worker] [] [])\<lparr>fds := [Some (carries bs)], net := [Opens (carries rep)]\<rparr>)))
        (sample_node [Some (carries (wire_msg 0 WRITE 2 ''g;hi''))] [] [])))
    (sample_caller [''pekar'', ''write'', ''g'', ''hi''] [Opens (carries (''2'' @ [NUL]))])"
proof -
  let ?ws = "[''pekar'', ''write'', ''g'', ''hi'']"
  let ?s = "sample_caller ?ws [Opens (carries (''2'' @ [NUL]))]"
  have p: "has_packet sample_conn WORKER_READ_SIZE
      (wire_msg 0 WRITE (MASTER_TKN test_build) (''g'' @ CHR '';'' # ''hi'') @ [])
      (sample_node [Some (carries (wire_msg 0 WRITE 2 ''g;hi''))] [] [])"
    using sample_node_packet [of WRITE "''g;hi''" 0 2 "[]" "[]"] by simp
  have two: "show_nat (Suc (Suc 0)) = ''2''" by (simp add: show_nat.simps digit_def char_of_def bit_iff_odd)
  have i: "inet_pton4 ''10.0.0.1''" by (simp add: inet_pton4_def octet_def is_digit_def Let_def)
  have ws: "list_all2 (\<lambda>p w. cstring ?s p = Some w) [Ptr 0 0, Ptr 1 0, Ptr 2 0, Ptr 3 0]
      [''pekar'', ''write'', ''g'', ''hi'']"
    by (simp add: sample_caller_word del: cstring.simps)
  show ?thesis
    by (rule wp_mono [OF client_write_end_to_end [OF _ _ _ ws sample_caller_settings i, where m = "sample_master [sample_worker] [] []"
          and v = sample_worker and vs = "[]" and b = "''127.0.0.1''" and c' = sample_conn and c = sample_conn
          and w = "sample_node [Some (carries (wire_msg 0 WRITE 2 ''g;hi''))] [] []" and lk = "[]" and sh = "\<lambda>_ fs. fs"]])
      (use p in \<open>auto simp: sample_address sample_conn_def two READ_SZ_def simp del: cstring.simps elim!: wp_mono\<close>)
qed

end
