(* ===== verification/Run_Facts.thy ===== *)
theory Run_Facts
  imports Evolution Client_Facts
begin

text \<open>
  The properties of whole runs that follow from what the single commands keep.
\<close>

lemma client_files_kept:
  fixes s :: "'z client_scheme"
  assumes "client_main B argv s = Inr (r, t)" and "q \<noteq> CONFIG_FILE B"
  shows "files t q = files s q"
  using fun_cong [OF obeysD [OF kept_client.program assms(1)], of q] assms(2) by (simp add: restrict_map_def)

lemma served_files_kept:
  fixes s :: "'z worker_scheme"
  assumes "token p \<noteq> MASTER_TKN B \<or> msg_type p \<in> {PING, LS, READ}"
    and "serve B sh c b p s = Inr (x, t)"
  shows "files t = files s"
  using obeysD [OF serve_keeps_files [OF assms(1), where A = UNIV] assms(2)]
  by (simp add: restrict_map_def fun_eq_iff)

section \<open>Properties\<close>

lemma sample_refused:
  "\<exists>r t. client_main test_build [Ptr 0 0, Ptr 1 0, Ptr 2 0] (sample_caller [''pekar'', ''write'', ''f''] []) =
     Inr (r, t)"
proof -
  have "wp (client_main test_build [Ptr 0 0, Ptr 1 0, Ptr 2 0]) (\<lambda>_ _. True)
      (sample_caller [''pekar'', ''write'', ''f''] [])"
    by (rule wp_mono [OF refused_command [where ws = "[''pekar'', ''write'', ''f'']"]])
      (auto simp: check_words_def operations_def check_count_def sample_caller_word simp del: cstring.simps)
  then show ?thesis by (auto simp: wp_runs)
qed

text \<open>
  C25. Whatever the command line and whatever the master answers, the client changes no file but
  the one with the settings.
\<close>

theorem client_files:
  fixes s :: "'z client_scheme"
  assumes "client_main B argv s = Inr (r, t)" and "q \<noteq> CONFIG_FILE B"
  shows "files t q = files s q"
  using assms by (rule client_files_kept)

theorem client_files_witness:
  "\<exists>r t. client_main test_build [Ptr 0 0, Ptr 1 0, Ptr 2 0] (sample_caller [''pekar'', ''write'', ''f''] []) =
     Inr (r, t) \<and> files t ''f'' = None"
proof -
  obtain r t where t: "client_main test_build [Ptr 0 0, Ptr 1 0, Ptr 2 0]
      (sample_caller [''pekar'', ''write'', ''f''] []) = Inr (r, t)"
    using sample_refused by blast
  show ?thesis using t client_files [OF t, of "''f''"] by (simp add: CONFIG_FILE_def sample_caller_def)
qed

text \<open>
  C26. A worker changes no file when it serves a packet without the master's token, or one that
  asks for a listing, for the contents of a file or for an answer to a ping, whatever its argument.
\<close>

theorem served_files:
  fixes s :: "'z worker_scheme"
  assumes "token p \<noteq> MASTER_TKN B \<or> msg_type p \<in> {PING, LS, READ}"
    and "serve B sh c b p s = Inr (x, t)"
  shows "files t = files s"
  using assms by (rule served_files_kept)

theorem served_files_witness:
  "\<exists>t. serve quiet_build (\<lambda>_ _ _. None) sample_conn (Ptr 0 0)
     \<lparr>seq_number = 0, arg = Ptr 1 0, msg_len = 3, pk_error = 0, token = 0, msg_type = DELETE\<rparr>
     (sample_node [Some unconnected] [] []) = Inr ((), t) \<and> files t = [''dir/f'' \<mapsto> ''x'']"
proof -
  let ?p = "\<lparr>seq_number = 0, arg = Ptr 1 0, msg_len = 3, pk_error = 0, token = 0, msg_type = DELETE\<rparr> :: packet"
  have "wp (serve quiet_build (\<lambda>_ _ _. None) sample_conn (Ptr 0 0) ?p) (\<lambda>_ _. True)
      (sample_node [Some unconnected] [] [])"
    by (simp add: serve_def log_text_def p_cleanup_def conn_close_def err_conn_def sample_conn_def
        sample_node_def str_block_def ERR_MSG_LEN_def wp_simps wp_free)
  then obtain x t where t: "serve quiet_build (\<lambda>_ _ _. None) sample_conn (Ptr 0 0) ?p
      (sample_node [Some unconnected] [] []) = Inr (x, t)" by (auto simp: wp_runs)
  show ?thesis using t served_files [OF _ t] by simp
qed

end
