(* ===== verification/Stable_Master.thy ===== *)
theory Stable_Master
  imports Stability Master
begin

text \<open>
  The master's commands: which of them leave the table of workers alone, and what its manager
  keeps when the removal of a worker does.
\<close>

section \<open>Commands that only read the table\<close>

locale table_readers = log_commands R for R :: "'z tables_scheme \<Rightarrow> 'z tables_scheme \<Rightarrow> bool" +
  assumes mutex: "R s (s\<lparr>mutex_held := m\<rparr>)"
begin

lemma locking [stable]: "obeys R mutex_lock" "obeys R mutex_unlock"
  by (auto simp: obeys_def mutex_lock_def mutex_unlock_def cmodify_def mutex split: if_splits)

lemma slots [stable]: "obeys R (read_slot i)" "obeys R (deref r)"
  by (cases r; auto simp: obeys_def read_slot_def refl split: option.splits if_splits)+

lemma searches [stable]: "obeys R (indexof_from sid n i)" "obeys R (find_from p n i)"
  by (induction "n - i" arbitrary: i) (subst indexof_from.simps find_from.simps, auto intro!: stable)+

lemma lookups [stable]:
  "obeys R table_count" "obeys R worker_count" "obeys R (getfs_index i)" "obeys R least_load"
  "obeys R (indexof sid)" "obeys R (getfs_id sid)" "obeys R (getfs_pred p)"
  unfolding table_count_def worker_count_def getfs_index_def least_load_def indexof_def getfs_id_def
    getfs_pred_def
  by (intro stable)+

lemma for_each [stable]: "(\<And>r. obeys R (f r)) \<Longrightarrow> obeys R (for_each_server f)"
  unfolding for_each_server_def for_each_body_def split_def by (intro stable)

lemma messages [stable]: "obeys R (say B n lt ps)" "obeys R (say_text B lt m)"
  unfolding say_def say_text_def by (intro stable)+

lemma listing [stable]: "obeys R (master_packet B p t)" "obeys R (worker_ls_index B i)"
  unfolding worker_ls_index_def master_packet_def by (intro stable)+

lemma searching [stable]: "obeys R (strstr p q)"
  unfolding strstr_def by (intro stable)

lemma listings [stable]: "obeys R (find_file_from B p n i)" "obeys R (ls_from B n i r)"
proof -
  show "obeys R (find_file_from B p n i)"
    by (induction "n - i" arbitrary: i) (subst find_file_from.simps, auto intro!: stable)+
  show "obeys R (ls_from B n i r)"
    by (induction "n - i" arbitrary: i r) (subst ls_from.simps, auto intro!: stable)+
qed

lemma workers [stable]:
  "obeys R (find_by_file B p)" "obeys R (worker_ls B)" "obeys R (written_bytes B c)"
  "obeys R (worker_write B p q)" "obeys R (worker_append p q)" "obeys R (worker_read p)"
  "obeys R (worker_delete B p)"
  unfolding find_by_file_def worker_ls_def written_bytes_def worker_write_def worker_append_def
    worker_read_def worker_delete_def
  by (intro stable)+

lemma parsing [stable]:
  "obeys R (char_at p c)" "obeys R (long2str i)" "obeys R (parse_ip p)" "obeys R (parse_port p)"
  unfolding char_at_def char_at_body_def long2str_def parse_ip_def parse_port_def
  by (intro stable)+

lemma requests [stable]:
  "obeys R (handle_request B t p)" "obeys R (service_available B c)" "obeys R (server_restart B c f)"
  unfolding handle_request_def exec_str_def exec_long_def service_available_def server_restart_def
  by (intro stable)+

end

section \<open>Commands that may remove workers\<close>

locale table_removers = table_readers R for R :: "'z tables_scheme \<Rightarrow> 'z tables_scheme \<Rightarrow> bool" +
  assumes removal: "obeys R (remove_server sid)"
begin

declare removal [stable]

lemma manager [stable]: "obeys R (admin_round B)"
  unfolding admin_round_def ping_server_def handle_ping_response_def by (intro stable)

end

end
