(* ===== verification/Worker_Ids.thy ===== *)
theory Worker_Ids
  imports Stable_Master Master_Facts
begin

text \<open>
  The identifiers of the workers over the whole life of the master: which operations leave
  the table and the counter alone, which keep the identifiers distinct, and the runs of the
  master as sequences of requests, rounds of the manager thread and events outside.
\<close>

section \<open>Operations that leave the table alone\<close>

definition view :: "'z master_scheme \<Rightarrow> file_server option list \<times> u16 \<times> u32" where
  "view s = (server_table s, server_count s, worker_id s)"

lemma view_beyond: "os.more t = os.more s \<Longrightarrow> view t = view s"
  by (cases s; cases t; simp add: view_def)

interpretation seen: beyond_os view
  by unfold_locales (rule view_beyond)

interpretation seen_log: log_commands "\<lambda>s t. view t = view s"
  by unfold_locales (simp add: view_def)

interpretation seen_table: table_readers "\<lambda>s t. view t = view s"
  by unfold_locales (simp add: view_def)

abbreviation quiet :: "('a, 'z) ccmd \<Rightarrow> bool" where
  "quiet \<equiv> obeys (\<lambda>s t. view t = view s)"

section \<open>Distinct identifiers\<close>

text \<open>
  After at most \<open>n\<close> requests: the array has as many cells as the count says, every cell is
  written, the identifiers are distinct and below the counter, and the counter, which
  starts at 1, is at most \<open>n + 1\<close>.
\<close>

definition ids_ok :: "nat \<Rightarrow> 'z master_scheme \<Rightarrow> bool" where
  "ids_ok n s \<longleftrightarrow>
     length (server_table s) = unat (server_count s) \<and> None \<notin> set (server_table s) \<and>
     distinct (server_ids s) \<and> (\<forall>i \<in> set (server_ids s). unat i < unat (worker_id s)) \<and>
     unat (worker_id s) \<le> n + 1"

lemma ids_ok_view:
  fixes s t :: "'z master_scheme"
  shows "view t = view s \<Longrightarrow> ids_ok n s \<Longrightarrow> ids_ok n t"
  by (simp add: ids_ok_def view_def server_ids_def servers_def)

lemma keeps_quiet: "quiet m \<Longrightarrow> keeps (ids_ok n) m"
  by (erule obeys_mono) (blast intro: ids_ok_view)

lemma keeps_remove: "keeps (ids_ok n) (remove_server sid)"
  proof (rule obeysI, rule impI)
  fix s t :: "'z master_scheme" and x :: unit
  assume run: "remove_server sid s = Inr (x, t)" and s: "ids_ok n s"
  show "ids_ok n t"
  proof (cases "mutex_held s")
    case True
    then show ?thesis using run by (simp add: remove_server_def cseq_def cbind_def mutex_lock_def)
  next
    case False
    then have ok: "table_ok s" using s by (simp add: ids_ok_def table_ok_def)
    have t: "t = (if \<exists>x \<in> set (servers s). srv_id x = sid
        then set_servers (remove_id sid (servers s)) s else s)"
      using run remove_server_run [OF ok] by simp
    have rm: "table_ok t" "servers t = remove_id sid (servers s)"
      using table_ok_remove [OF ok, of sid t] run by simp_all
    have "server_ids t = remove1 sid (server_ids s)"
      by (simp add: server_ids_def rm(2) st.ids_remove_id)
    moreover have "worker_id t = worker_id s" by (simp add: t)
    ultimately show ?thesis
      using s rm(1) set_remove1_subset [of sid "server_ids s"]
      by (auto simp: ids_ok_def table_ok_def)
  qed
qed

interpretation ids: table_removers "\<lambda>s t. ids_ok n s \<longrightarrow> ids_ok n t" for n
proof unfold_locales
  show "keeps (ids_ok n) (malloc i)" "keeps (ids_ok n) (literal t)" "keeps (ids_ok n) (free p)"
    "keeps (ids_ok n) (realloc p i)" "keeps (ids_ok n) (store p t)" for n i t p
    by (rule keeps_quiet, intro stable)+
  show "keeps (ids_ok n) (remove_server sid)" for n sid by (rule keeps_remove)
qed (auto elim: ids_ok_view [rotated] simp: view_def)

lemma quiet_view: "quiet m \<Longrightarrow> m s = Inr (x, t) \<Longrightarrow> view t = view s"
  by (simp add: obeys_def)

lemma register_runs:
  fixes s :: "'z master_scheme"
  assumes "register_worker p s = Inr (x, t)"
  obtains u srv where "view u = (server_table s, server_count s, worker_id s + 1)"
    "srv_id srv = ucast (worker_id s)" "add_server srv u = Inr (x, t)"
proof -
  obtain i a where a: "next_worker_id s = Inr (i, a)" and k1: "cbind (malloc 16) (\<lambda>ip.
      cbind (parse_port (arg p)) (\<lambda>port. cbind (parse_ip (arg p)) (\<lambda>parsed. cseq (strcpy ip parsed)
        (add_worker \<lparr>srv_id = i, srv_size = 0, ip = ip, port = port\<rparr>)))) a = Inr (x, t)"
    using assms unfolding register_worker_def by (rule cbind_runs)
  obtain ipp b where b: "malloc 16 a = Inr (ipp, b)" and k2: "cbind (parse_port (arg p)) (\<lambda>port.
      cbind (parse_ip (arg p)) (\<lambda>parsed. cseq (strcpy ipp parsed)
        (add_worker \<lparr>srv_id = i, srv_size = 0, ip = ipp, port = port\<rparr>))) b = Inr (x, t)"
    using k1 by (rule cbind_runs)
  obtain prt c where c: "parse_port (arg p) b = Inr (prt, c)" and k3: "cbind (parse_ip (arg p))
      (\<lambda>parsed. cseq (strcpy ipp parsed)
        (add_worker \<lparr>srv_id = i, srv_size = 0, ip = ipp, port = prt\<rparr>)) c = Inr (x, t)"
    using k2 by (rule cbind_runs)
  obtain q d where d: "parse_ip (arg p) c = Inr (q, d)" and k4: "cseq (strcpy ipp q)
        (add_worker \<lparr>srv_id = i, srv_size = 0, ip = ipp, port = prt\<rparr>) d = Inr (x, t)"
    using k3 by (rule cbind_runs)
  obtain y u where u: "strcpy ipp q d = Inr (y, u)"
    and add: "add_worker \<lparr>srv_id = i, srv_size = 0, ip = ipp, port = prt\<rparr> u = Inr (x, t)"
    using k4 by (rule cseq_runs)
  have i: "i = ucast (worker_id s)" "a = s\<lparr>worker_id := worker_id s + 1\<rparr>"
    using a by (auto simp: next_worker_id_def cbind_def cseq_def cget_def cmodify_def cret_def)
  have "view u = view a"
    using quiet_view [OF seen.allocation(1) b] quiet_view [OF seen_table.parsing(4) c]
      quiet_view [OF seen_table.parsing(3) d] quiet_view [OF seen.strings(3) u] by simp
  then show thesis
    by (intro that [OF _ _ add [unfolded add_worker_def]]) (simp_all add: i view_def)
qed

lemma register_ids:
  fixes s :: "'z master_scheme"
  assumes s: "ids_ok n s" and n: "n + 2 < 2 ^ 32" and run: "register_worker p s = Inr (x, t)"
  shows "ids_ok (Suc n) t"
proof -
  let ?w = "worker_id s"
  obtain u srv where u: "view u = (server_table s, server_count s, ?w + 1)"
    and srv: "srv_id srv = ucast ?w" and add: "add_server srv u = Inr (x, t)"
    using run by (rule register_runs)
  have free: "\<not> mutex_held u"
    using add by (auto simp: add_server_def cblock.simps cseq_def cbind_def mutex_lock_def)
  have same: "server_table u = server_table s" "server_count u = server_count s" "worker_id u = ?w + 1"
    using u by (simp_all add: view_def)
  have ok: "table_ok u" and xs: "servers u = servers s"
    using s free by (simp_all add: ids_ok_def table_ok_def same servers_def)
  have "length (servers u) \<noteq> 65535" using add add_server_full [OF ok] by auto
  then have room: "length (servers u) < 65535" using table_ok_count(3) [OF ok] by simp
  have t: "t = set_servers (servers u @ [srv]) u" using add add_server_run [OF ok room] by simp
  have ok': "table_ok t" using room free by (simp add: t table_ok_set_servers)
  have small: "unat ?w + 1 < 2 ^ 32" using s n by (simp add: ids_ok_def)
  have top: "?w \<noteq> - 1" using small by (auto simp: unsigned_minus_1_eq_mask mask_eq_exp_minus_1)
  have w: "unat (?w + 1) = unat ?w + 1" "unat (ucast ?w :: u64) = unat ?w"
    using small unat_plus_one [OF top] by (simp_all add: unsigned_ucast_eq take_bit_nat_eq_self)
  have "server_ids t = server_ids s @ [ucast ?w]"
    by (simp add: server_ids_def t xs srv)
  moreover have "worker_id t = ?w + 1" by (simp add: t same)
  moreover have "ucast ?w \<notin> set (server_ids s)" using s w(2) by (auto simp: ids_ok_def)
  ultimately show ?thesis
    using s ok' w by (auto simp: ids_ok_def table_ok_def)
qed

section \<open>Runs of the master\<close>

definition advances :: "('a, 'z) ccmd \<Rightarrow> bool" where
  "advances m \<longleftrightarrow>
     (\<forall>n s x t. n + 2 < 2 ^ 32 \<longrightarrow> ids_ok n s \<longrightarrow> m s = Inr (x, t) \<longrightarrow> ids_ok (Suc n) t)"

lemma ids_ok_Suc: "ids_ok n s \<Longrightarrow> ids_ok (Suc n) s"
  by (simp add: ids_ok_def)

lemma advances_quiet: "quiet m \<Longrightarrow> advances m"
  unfolding obeys_def advances_def by (blast intro: ids_ok_view ids_ok_Suc)

lemma advances_register: "advances (register_worker p)"
  unfolding advances_def by (blast intro: register_ids)

lemma advances_cbind: "quiet m \<Longrightarrow> (\<And>x. advances (f x)) \<Longrightarrow> advances (cbind m f)"
  unfolding obeys_def advances_def by (blast intro: ids_ok_view elim: cbind_runs)

lemma advances_cseq: "advances m \<Longrightarrow> quiet m' \<Longrightarrow> advances (cseq m m')"
  unfolding obeys_def advances_def by (blast intro: ids_ok_view elim: cseq_runs)

lemma advances_if: "advances m \<Longrightarrow> advances m' \<Longrightarrow> advances (if b then m else m')"
  by simp

lemmas advances_intros = advances_register advances_cseq advances_cbind advances_if

lemma advances_round: "advances (master_round B f)"
  unfolding master_round_def handle_client_def serve_packet_def
  by (rule advances_quiet, (intro stable; fail) | rule advances_intros | (intro stable; fail))+

text \<open>
  A run of the master: it starts without workers, serves requests, its manager thread makes
  rounds, and the peers may do what they like to the connections in between.
\<close>

inductive history :: "build \<Rightarrow> nat \<Rightarrow> 'z master_scheme \<Rightarrow> bool" for B where
  start: "server_table s = [] \<Longrightarrow> server_count s = 0 \<Longrightarrow> worker_id s = 1 \<Longrightarrow> history B 0 s"
| request: "history B n s \<Longrightarrow> master_round B f s = Inr (g, t) \<Longrightarrow> history B (Suc n) t"
| manager: "history B n s \<Longrightarrow> admin_round B s = Inr (x, t) \<Longrightarrow> history B n t"
| peers: "history B n s \<Longrightarrow> history B n (s\<lparr>fds := ds, net := script\<rparr>)"

inductive_cases request_cases: "history B (Suc n) s"

lemma ids_ok_peers: "ids_ok n s \<Longrightarrow> ids_ok n (s\<lparr>fds := ds, net := script\<rparr>)"
  by (rule ids_ok_view [of _ s]) (simp_all add: view_def)

lemma history_ids: "history B n s \<Longrightarrow> n + 1 < 2 ^ 32 \<Longrightarrow> ids_ok n s"
proof (induction rule: history.induct)
  case (start s)
  then show ?case by (simp add: ids_ok_def server_ids_def servers_def)
next
  case (request n s f g t)
  have "ids_ok n s" using request.IH request.prems by simp
  then show ?case
    using advances_round [of B f] request.hyps(2) request.prems unfolding advances_def by auto
next
  case (manager n s x t)
  then show ?case using ids.manager [of n B] unfolding obeys_def by blast
next
  case peers
  then show ?case by (simp add: ids_ok_peers)
qed

text \<open>A first registration, as an example.\<close>

lemma sample_registers:
  "\<exists>g t :: master. master_round test_build 0 (sample_master [] [Some unconnected] [Opens (carries sample_registration)])
     = Inr (g, t) \<and> server_ids t = [1]"
proof -
  let ?s = "sample_master [] [Some unconnected] [Opens (carries sample_registration)]"
  have "wp (master_round test_build 0) (\<lambda>_ t. server_ids t = [1]) ?s"
  proof (rule wp_mono [OF round_registers [where a = "''127.0.0.1''" and prt = 55443]])
    show "net ?s = Opens (carries sample_registration) # []" by simp
    show "incoming (carries sample_registration) = Arrives sample_registration # []" by simp
    show "descriptor (fds ?s) 0 = Some unconnected" by (simp add: descriptor_def)
  qed (auto simp: READ_SZ_def header_size_def server_ids_def)
  then show ?thesis by (auto simp: wp_runs)
qed

section \<open>Property\<close>

text \<open>
  C7. Through every history of the master, whatever clients, workers and peers send and
  whenever the manager thread makes its round, the identifiers in the table are pairwise
  distinct, below the counter that gives the next one, and never more than the requests
  served; the counter wraps around only after \<open>2 ^ 32 - 1\<close> requests.
\<close>

theorem worker_ids_distinct:
  assumes "history B n s" and "n + 1 < 2 ^ 32"
  shows "distinct (server_ids s) \<and> (\<forall>i \<in> set (server_ids s). unat i < unat (worker_id s)) \<and>
    unat (worker_id s) \<le> n + 1 \<and> length (server_table s) = unat (server_count s)"
  using history_ids [OF assms] by (simp add: ids_ok_def)

theorem worker_ids_distinct_witness:
  "\<exists>s :: master. history test_build 1 s \<and> server_ids s = [1] \<and> distinct (server_ids s)"
proof -
  let ?s = "sample_master [] [Some unconnected] [Opens (carries sample_registration)]"
  have start: "history test_build 0 ?s"
    by (rule history.start) (simp_all add: sample_master_def)
  obtain g t where t: "master_round test_build 0 ?s = Inr (g, t)" "server_ids t = [1]"
    using sample_registers by blast
  have h: "history test_build 1 t" using history.request [OF start t(1)] by simp
  then show ?thesis using worker_ids_distinct [OF h] t(2) by auto
qed

end
