(* ===== verification/Manager.thy ===== *)
theory Manager
  imports Ping_Facts
begin

text \<open>
  The manager thread of the master (\<^verbatim>\<open>start_admin\<close> and \<^verbatim>\<open>manager_thread\<close> of
  \<^verbatim>\<open>src/worker_admin.c\<close>): it waits until the update time is over and pings the workers, again and
  again. The clock is a parameter: \<open>clock i\<close> is the \<open>i\<close>-th reading of \<^verbatim>\<open>time(NULL)\<close>.
\<close>

section \<open>The thread\<close>

text \<open>
  The busy waiting: the index of the reading that ends it; no index when the clock stands still.
\<close>

partial_function (option) wait_from :: "(nat \<Rightarrow> int) \<Rightarrow> int \<Rightarrow> u32 \<Rightarrow> nat \<Rightarrow> nat option" where
  "wait_from clock start w i =
     (if clock i - start < int (unat w) then wait_from clock start w (Suc i) else Some i)"

text \<open>
  \<open>n\<close> rounds of the endless loop, from the start of the waiting and the next reading on. The start
  of the next waiting is read before the pings.
\<close>

fun manager_loop :: "build \<Rightarrow> (nat \<Rightarrow> int) \<Rightarrow> nat \<Rightarrow> int \<Rightarrow> nat \<Rightarrow> (int list, 'z) acmd" where
  "manager_loop B clock 0 start i = cret []"
| "manager_loop B clock (Suc n) start i =
     cbind (cget update_time) (\<lambda>w.
     case wait_from clock start w i of
       None \<Rightarrow> cfail Diverges
     | Some j \<Rightarrow>
         cseq (admin_round B)
         (cbind (manager_loop B clock n (clock (Suc j)) (Suc (Suc j))) (\<lambda>starts. cret (clock (Suc j) # starts))))"

definition manager_thread :: "build \<Rightarrow> (nat \<Rightarrow> int) \<Rightarrow> nat \<Rightarrow> (int list, 'z) acmd" where
  "manager_thread B clock n = manager_loop B clock n (clock 0) 1"

declare manager_loop.simps [simp del]

section \<open>Waiting\<close>

lemma wait_from_stops:
  assumes "clock j - start \<ge> int (unat w)" and "i \<le> j"
  shows "\<exists>k. wait_from clock start w i = Some k \<and> i \<le> k \<and> k \<le> j \<and> clock k - start \<ge> int (unat w)"
  using assms(2)
proof (induction "j - i" arbitrary: i)
  case 0
  then show ?case using assms(1) by (subst wait_from.simps) auto
next
  case (Suc d)
  show ?case
  proof (cases "clock i - start < int (unat w)")
    case True
    have "d = j - Suc i" "Suc i \<le> j" using Suc.hyps(2) by simp_all
    then obtain k where "wait_from clock start w (Suc i) = Some k" "Suc i \<le> k" "k \<le> j"
      "clock k - start \<ge> int (unat w)" using Suc.hyps(1) by blast
    then show ?thesis using True by (subst wait_from.simps) auto
  next
    case False
    then show ?thesis using Suc.prems by (subst wait_from.simps) auto
  qed
qed

text \<open>A clock that goes on and on.\<close>

definition ticking :: "(nat \<Rightarrow> int) \<Rightarrow> bool" where
  "ticking clock \<longleftrightarrow> mono clock \<and> (\<forall>v. \<exists>i. v \<le> clock i)"

lemma ticking_stops:
  assumes "ticking clock"
  shows "\<exists>k. wait_from clock start w i = Some k \<and> i \<le> k \<and> start + int (unat w) \<le> clock k"
proof -
  obtain j where j: "start + int (unat w) \<le> clock j" using assms unfolding ticking_def by blast
  have "clock j \<le> clock (max i j)" using assms by (auto simp: ticking_def mono_def)
  then have "clock (max i j) - start \<ge> int (unat w)" using j by simp
  then obtain k where "wait_from clock start w i = Some k" "i \<le> k" "clock k - start \<ge> int (unat w)"
    using wait_from_stops [where clock = clock and start = start and w = w and i = i and j = "max i j"] by auto
  then show ?thesis by (auto intro!: exI [of _ k])
qed

text \<open>The starts of the rounds are at least the update time apart.\<close>

fun spaced :: "int \<Rightarrow> int \<Rightarrow> int list \<Rightarrow> bool" where
  "spaced d start [] = True"
| "spaced d start (x # xs) = (start + d \<le> x \<and> spaced d x xs)"

section \<open>Rounds\<close>

lemma loop_rounds:
  fixes s :: "'z admin_scheme"
  assumes tick: "ticking clock" and step: "\<And>n u. I (Suc n) u \<Longrightarrow> wp (admin_round B) (\<lambda>_ t. I n t) u"
    and w: "\<And>n u. I n u \<Longrightarrow> update_time u = w"
  shows "I n s \<Longrightarrow> wp (manager_loop B clock n start i) (\<lambda>xs t. length xs = n \<and> spaced (int (unat w)) start xs \<and> I 0 t) s"
proof (induction n arbitrary: s start i)
  case 0
  then show ?case by (simp add: manager_loop.simps wp_cret)
next
  case (Suc n)
  obtain j where j: "wait_from clock start w i = Some j" "start + int (unat w) \<le> clock j"
    using ticking_stops [OF tick] by blast
  have "clock j \<le> clock (Suc j)" using tick by (simp add: ticking_def mono_def)
  then have le: "start + int (unat w) \<le> clock (Suc j)" using j(2) by simp
  have "wp (admin_round B) (\<lambda>_. wp (manager_loop B clock n (clock (Suc j)) (Suc (Suc j)))
      (\<lambda>xs t. length (clock (Suc j) # xs) = Suc n \<and>
        spaced (int (unat w)) start (clock (Suc j) # xs) \<and> I 0 t)) s"
  proof (rule wp_mono [OF step [OF Suc.prems]])
    fix t assume "I n t"
    show "wp (manager_loop B clock n (clock (Suc j)) (Suc (Suc j)))
      (\<lambda>xs t. length (clock (Suc j) # xs) = Suc n \<and>
        spaced (int (unat w)) start (clock (Suc j) # xs) \<and> I 0 t) t"
      by (rule wp_mono [OF Suc.IH [OF \<open>I n t\<close>]]) (use le in simp)
  qed
  then show ?case
    using w [OF Suc.prems] j(1) by (simp add: manager_loop.simps wp_cbind wp_cget wp_cseq wp_funs)
qed

text \<open>
  With workers that answer every ping: the script has an answer for every worker and round.
\<close>

lemma manager_keeps:
  fixes s :: "'z admin_scheme"
  assumes tick: "ticking clock" and ok: "wf_mem s" "table_ok s" and quiet: "\<not> verbose B"
    and ips: "\<And>w. w \<in> set (servers s) \<Longrightarrow> \<exists>a. cstring s (ip w) = Some a \<and> inet_pton4 a"
    and net: "net s = map Opens ds" "length ds = n * length (servers s)" "\<And>d. d \<in> set ds \<Longrightarrow> answers d"
    and room: "\<And>j. 27 \<le> spare s j + room s j"
  shows "wp (manager_thread B clock n) (\<lambda>starts t. length starts = n \<and>
    spaced (int (unat (update_time s))) (clock 0) starts \<and> servers t = servers s \<and> table_ok t \<and>
    opened (fds t) = opened (fds s) + n * length (servers s) \<and>
    (\<exists>es. effects (trace t) = effects (trace s) @ es \<and>
      list_all2 (pings B) (concat (replicate n (addresses s))) es)) s"
proof -
  let ?m = "length (servers s)"
  let ?I = "\<lambda>i u. i \<le> n \<and> mgrows s u \<and> table_ok u \<and> servers u = servers s \<and> update_time u = update_time s \<and>
      net u = map Opens (drop ((n - i) * ?m) ds) \<and> opened (fds u) = opened (fds s) + (n - i) * ?m \<and>
      (\<exists>es. effects (trace u) = effects (trace s) @ es \<and>
        list_all2 (pings B) (concat (replicate (n - i) (addresses s))) es)"
  have "wp (manager_loop B clock n (clock 0) 1) (\<lambda>xs t. length xs = n \<and>
      spaced (int (unat (update_time s))) (clock 0) xs \<and> ?I 0 t) s"
  proof (rule loop_rounds [OF tick, where I = ?I])
    fix i and u :: "'z admin_scheme"
    assume u: "?I (Suc i) u"
    let ?k = "(n - Suc i) * ?m"
    have ad: "addresses u = addresses s" using u by (intro addresses_kept [OF _ _ ips]) simp_all
    have rep: "replicate (n - i) x = replicate (n - Suc i) x @ [x]" for x :: "(string \<times> u16) list"
      using u replicate_append_same [of "n - Suc i" x] by (cases "n - i") simp_all
    have ni: "(n - i) * ?m = ?k + ?m"
    proof -
      have "Suc i \<le> n" using u by blast
      then have "n - i = Suc (n - Suc i)" by simp
      then show ?thesis by simp
    qed
    have kl: "?k + ?m \<le> length ds"
    proof -
      have "n - i \<le> n" by simp
      then have "(n - i) * ?m \<le> n * ?m" by (rule mult_le_mono1)
      then show ?thesis using net(2) ni by simp
    qed
    have sp: "drop ?k ds = take ?m (drop ?k ds) @ drop ((n - i) * ?m) ds"
      by (simp add: ni drop_drop add.commute flip: drop_drop)
    show "wp (admin_round B) (\<lambda>_ t. ?I i t) u"
    proof (rule wp_mono [OF round_runs [where ds = "take ?m (drop ?k ds)" and rs = "map Opens (drop ((n - i) * ?m) ds)"]])
      show "wf_mem u" using u mgrows_wf by blast
      show "table_ok u" using u by simp
      show "\<not> verbose B" by (rule quiet)
      show "\<exists>a. cstring u (ip w) = Some a \<and> inet_pton4 a" if "w \<in> set (servers u)" for w
        using ips [of w] that u mgrows_cstring [of s u] by auto
      show "net u = map Opens (take ?m (drop ?k ds)) @ map Opens (drop ((n - i) * ?m) ds)"
        using u sp by (metis map_append)
      show "length (take ?m (drop ?k ds)) = length (servers u)" using u kl by simp
      show "answers d" if "d \<in> set (take ?m (drop ?k ds))" for d
        using net(3) that by (meson in_set_takeD in_set_dropD)
      show "27 \<le> spare u j + room u j" for j using room [of j] u mgrows_oracles [of s u] by simp
      fix x and t :: "'z admin_scheme"
      assume t: "(table_ok t \<and> servers t = servers u \<and> net t = map Opens (drop ((n - i) * ?m) ds) \<and>
          opened (fds t) = opened (fds u) + length (servers u) \<and>
          (\<exists>es. effects (trace t) = effects (trace u) @ es \<and> list_all2 (pings B) (addresses u) es)) \<and>
        (\<exists>v. io_mem (u\<lparr>mutex_held := True\<rparr>) v \<and> t = v\<lparr>mutex_held := False\<rparr>)"
      obtain es es' where es: "effects (trace t) = effects (trace s) @ es @ es'"
          "list_all2 (pings B) (concat (replicate (n - Suc i) (addresses s))) es" "list_all2 (pings B) (addresses s) es'"
        using t u ad by auto
      have "\<exists>es. effects (trace t) = effects (trace s) @ es \<and>
          list_all2 (pings B) (concat (replicate (n - i) (addresses s))) es"
        using es by (intro exI [of _ "es @ es'"]) (simp add: rep list_all2_appendI)
      moreover obtain v where v: "io_mem (u\<lparr>mutex_held := True\<rparr>) v" "t = v\<lparr>mutex_held := False\<rparr>" using t by blast
      have "mgrows u t" using io_mem_mgrows [OF v(1)] by (simp add: v(2) mgrows_def wf_mem_def)
      moreover have "update_time t = update_time u"
        using logst_more(2) [of v "u\<lparr>mutex_held := True\<rparr>"] v by (cases u; cases v) (simp add: io_mem_def)
      ultimately show "?I i t" using u t ni mgrows_trans [of s u t] by simp
    qed
  qed (use ok net mgrows_refl in simp_all)
  then show ?thesis unfolding manager_thread_def by (rule wp_mono) simp
qed

section \<open>Property\<close>

text \<open>
  C18. In a build that is not verbose, with a clock that goes on and workers that answer every
  ping, the manager thread makes any number of rounds, each at least the update time after the one
  before. In every round each worker gets one ping, at its address and port and in the order of the
  table; nothing else is sent or closed, and the table stays as it is. Every ping leaves one
  more descriptor open: the model has no limit on descriptors, so a real process comes to the end of
  them. In a verbose build the first ping that is answered overflows a buffer
  (C19), so the theorem says nothing of such a build.
\<close>

theorem manager_never_stops:
  fixes s :: "'z admin_scheme"
  assumes "ticking clock" and "wf_mem s" and "table_ok s" and "\<not> verbose B"
    and "\<And>w. w \<in> set (servers s) \<Longrightarrow> \<exists>a. cstring s (ip w) = Some a \<and> inet_pton4 a"
    and "net s = map Opens ds" and "length ds = n * length (servers s)"
    and "\<And>d. d \<in> set ds \<Longrightarrow> answers d" and "\<And>j. 27 \<le> spare s j + room s j"
  shows "wp (manager_thread B clock n) (\<lambda>starts t. length starts = n \<and>
    spaced (int (unat (update_time s))) (clock 0) starts \<and> servers t = servers s \<and> table_ok t \<and>
    opened (fds t) = opened (fds s) + n * length (servers s) \<and>
    (\<exists>es. effects (trace t) = effects (trace s) @ es \<and>
      list_all2 (pings B) (concat (replicate n (addresses s))) es)) s"
  by (rule manager_keeps [OF assms])

lemma clock_ticks: "ticking int"
  by (auto simp: ticking_def mono_def intro!: exI [of _ "nat v" for v])

theorem manager_never_stops_witness:
  "wp (manager_thread quiet_build int 2) (\<lambda>starts t. length starts = 2 \<and> servers t = [sample_worker, other_worker] \<and>
      opened (fds t) = 4 \<and> (\<exists>e1 e2 e3 e4. effects (trace t) = [e1, e2, e3, e4] \<and>
        pings quiet_build (''127.0.0.1'', 55443) e3 \<and> pings quiet_build (''127.0.0.1'', 55444) e4))
    (sample_master [sample_worker, other_worker] [] (replicate 4 (Opens sample_ping)))"
proof (rule wp_mono [OF manager_never_stops [where ds = "replicate 4 sample_ping"]])
  let ?s = "sample_master [sample_worker, other_worker] [] (replicate 4 (Opens sample_ping))"
  fix starts :: "int list" and t
  assume "length starts = 2 \<and> spaced (int (unat (update_time ?s))) (int 0) starts \<and> servers t = servers ?s \<and>
    table_ok t \<and> opened (fds t) = opened (fds ?s) + 2 * length (servers ?s) \<and>
    (\<exists>es. effects (trace t) = effects (trace ?s) @ es \<and>
      list_all2 (pings quiet_build) (concat (replicate 2 (addresses ?s))) es)"
  moreover have "concat (replicate 2 (addresses ?s)) =
      [(''127.0.0.1'', 55443), (''127.0.0.1'', 55444), (''127.0.0.1'', 55443), (''127.0.0.1'', 55444)]"
    by (simp add: numeral_2_eq_2 sample_addresses)
  ultimately show "length starts = 2 \<and> servers t = [sample_worker, other_worker] \<and> opened (fds t) = 4 \<and>
    (\<exists>e1 e2 e3 e4. effects (trace t) = [e1, e2, e3, e4] \<and>
      pings quiet_build (''127.0.0.1'', 55443) e3 \<and> pings quiet_build (''127.0.0.1'', 55444) e4)"
    by (auto simp: opened_def list_all2_Cons1)
qed (auto simp: clock_ticks sample_ping_answers sample_address simp del: cstring.simps)

end
