(* ===== verification/Client_Reads.thy ===== *)
theory Client_Reads
  imports Client_Facts
begin

text \<open>
  The commands that read: what \<^verbatim>\<open>ls\<close> and \<^verbatim>\<open>read\<close> ask the master, and that they print its answer.
\<close>

section \<open>Asking\<close>

lemma asked_answer_then:
  assumes wf: "wf_mem s" and d: "descriptor (fds s) (fd c) = Some k"
    and inc: "incoming k = Arrives (t @ NUL # r) # rest" and t: "NUL \<notin> set t" "length (t @ NUL # r) < 1000"
    and Q: "\<And>b u. \<lbrakk>io_mem s u; net u = net s; cstring u (Ptr b 0) = Some t;
        effects (trace u) = effects (trace s) @ [Closed (fd c)]\<rbrakk> \<Longrightarrow> Q (Ptr b 0) u"
  shows "wp (cbind (read_all B c) (\<lambda>buffer. cbind (conn_close B c) (\<lambda>_. cret buffer))) Q s"
  unfolding wp_cbind [of "read_all _ _"]
proof (rule read_all_then [OF wf d, where ds = "[]" and rest = rest])
  show "incoming k = map Arrives ([] @ [t @ NUL # r]) @ rest" using inc by simp
  show "length (t @ NUL # r) < 1000" by (rule t(2))
  fix b m u assume "reading s (fd c) k m (concat [] @ t @ NUL # r) rest b u"
  then have u: "reading s (fd c) k m (t @ NUL # r) rest b u" by simp
  note rd = readingD [OF u]
  have str: "cstring u (Ptr b 0) = Some t" by (rule reading_text [OF u t(1)])
  have "wp (conn_close B c) (\<lambda>_. Q (Ptr b 0)) u"
  proof (rule conn_close_then [OF rd(1)])
    fix m' v assume v: "io_mem u v" "net v = net u" "effects (trace v) = effects (trace u) @ [Closed (fd c)]"
    show "Q (Ptr b 0) v"
      by (rule Q [OF io_mem_trans [OF rd(4) v(1)] _ mgrows_cstring [OF io_mem_mgrows [OF v(1)] str]])
        (use u v in \<open>simp_all add: reading_def\<close>)
  qed
  then show "wp (cbind (conn_close B c) (\<lambda>_. cret (Ptr b 0))) Q u" by (simp add: wp_cbind wp_funs)
qed simp_all

text \<open>The operations that are answered by a text.\<close>

definition take_text :: "build \<Rightarrow> conn \<Rightarrow> (ptr, 'z) ocmd" where
  "take_text B client = cbind (read_all B client) (\<lambda>buffer. cbind (conn_close B client) (\<lambda>_. cret buffer))"

lemma ls_talks:
  "ls B host prt = cbind (literal []) (\<lambda>e. talk B e LS (\<lambda>_. cret (sizeof_packet + 3)) host prt Null (take_text B))"
  unfolding ls_def talk_def take_text_def cbind_cret ..

lemma file_read_talks:
  "file_read B file host prt =
     talk B file READ (\<lambda>_. cbind (strlen file) (\<lambda>n. cret (sizeof_packet + n))) host prt Null (take_text B)"
  unfolding file_read_def talk_def take_text_def cbind_assoc cbind_cret ..

lemma text_then:
  assumes wf: "wf_mem s" and x: "cstring s a = Some x" and h: "cstring s host = Some h" "inet_pton4 h"
    and net: "net s = Opens d # rs" "accepts d" "incoming d = Arrives (t @ NUL # r) # rest"
    and t: "NUL \<notin> set t" "length (t @ NUL # r) < 1000"
    and len: "length x + 1 < 2 ^ 32" and n: "22 + length x \<le> n" "\<And>j. n \<le> 23 + length x + spare s j + room s j"
    and howmany: "\<And>p u. \<lbrakk>mgrows s u; cstring u (arg p) = Some x\<rbrakk> \<Longrightarrow> howmany p u = Inr (n, u)"
    and Q: "\<And>b leak u. \<lbrakk>io_mem s u; cstring u (Ptr b 0) = Some t; length leak = n - (22 + length x);
        effects (trace u) = effects (trace s) @ [Sent (int (lowest_free (fds s))) (Host h prt) (wire_msg 0 ty 0 x @ leak),
          Closed (int (lowest_free (fds s)))]\<rbrakk> \<Longrightarrow> Q (Ptr b 0) u"
  shows "wp (talk B a ty howmany host prt err (take_text B)) Q s"
proof (rule talk_then [OF wf x h net(1,2) len n howmany])
  fix c :: conn and leak y
  assume y: "io_mem s y" "descriptor (fds y) (fd c) = Some (d\<lparr>peer := Host h prt\<rparr>)" "length leak = n - (22 + length x)"
    "fd c = int (lowest_free (fds s))"
    "effects (trace y) = effects (trace s) @ [Sent (fd c) (Host h prt) (wire_msg 0 ty 0 x @ leak)]"
  show "wp (take_text B c) Q y"
    unfolding take_text_def
  proof (rule asked_answer_then [OF io_mem_wf [OF y(1)] y(2) _ t])
    show "incoming (d\<lparr>peer := Host h prt\<rparr>) = Arrives (t @ NUL # r) # rest" using net(3) by simp
    fix b z assume z: "io_mem y z" "cstring z (Ptr b 0) = Some t" "effects (trace z) = effects (trace y) @ [Closed (fd c)]"
    show "Q (Ptr b 0) z"
      by (rule Q [OF io_mem_trans [OF y(1) z(1)] z(2) y(3)]) (use z(3) y(4,5) in simp)
  qed
qed

section \<open>The commands\<close>

lemma printed_then:
  assumes "cstring u (Ptr b 0) = Some t"
  shows "wp (print_result (Ptr b 0)) Q u = Q () (u\<lparr>trace := trace u @ [Printed (t @ [NL])]\<rparr>)"
  using assms by (simp add: print_result_def print_def wp_cwhen wp_cbind wp_get_str wp_log_event del: cstring.simps)

text \<open>What both commands do: one packet to the master, and the answer on a line of its own.\<close>

definition asked :: "'z os_scheme \<Rightarrow> string \<times> u16 \<Rightarrow> ptype \<Rightarrow> string \<Rightarrow> nat \<Rightarrow> string \<Rightarrow> 'z os_scheme \<Rightarrow> bool" where
  "asked s h ty x extra t u \<longleftrightarrow> (\<exists>g leak tr. length leak = extra \<and>
     effects (trace u) = effects (trace s) @ [Sent g (Host (fst h) (snd h)) (wire_msg 0 ty 0 x @ leak), Closed g] \<and>
     trace u = tr @ [Printed (t @ [NL])])"

lemma asked_frame: "effects (trace t) = effects (trace s) \<Longrightarrow> asked t h ty x extra y u \<Longrightarrow> asked s h ty x extra y u"
  by (simp add: asked_def)

lemma ls_command:
  fixes s :: "'z client_scheme"
  assumes ok: "log_ok s" "log_msg s = Null" "msg_ok s"
    and argv: "list_all2 (\<lambda>p w. cstring s p = Some w) [p0, p1] [w0, ''ls'']"
    and cfg: "holds_settings B (a, prt) s" and a: "inet_pton4 a"
    and net: "net s = Opens d # rs" "accepts d" "incoming d = Arrives (t @ NUL # r) # rest"
    and t: "NUL \<notin> set t" "length (t @ NUL # r) < 1000" and room: "\<And>j. 20 \<le> spare s j + room s j"
  shows "wp (client_main B [p0, p1]) (\<lambda>c u. c = 0 \<and> asked s (a, prt) LS [] 21 t u) s" (is "wp _ ?Q s")
proof (rule main_then [OF ok(3) argv _ _ _ _ cfg])
  have c: "cstring s p1 = Some ''ls''" using argv by simp
  show "check_words [w0, ''ls''] = (True, None)"
    by (simp add: check_words_def operations_entries check_count_def)
  fix v assume v: "fs_frame s v" "files v = files s"
  note m = fs_frame_mgrows [OF v(1)]
  note l = log_ok_fs_frame [OF v(1) ok(2)]
  have fr: "net v = net s" "trace v = trace s" using v(1) by (simp_all add: fs_frame_def)
  have "wp (exec_ls B) (\<lambda>_. ?Q 0) v"
    unfolding exec_ls_def
  proof (rule settled_then [OF conjunct1 [OF l] conjunct2 [OF l]])
    show "holds_settings B (a, prt) v" using cfg v(2) by (simp add: holds_settings_def)
    fix h and u :: "'z client_scheme"
    assume u: "wf_mem u" "cstring u h = Some a" "net u = net v" "spare u = spare v" "room u = room v"
      "effects (trace u) = effects (trace v)"
    let ?e = "Ptr (next_id u) 0" and ?u = "add_block (lit_block [] u) u"
    have g: "grows u ?u" by (intro grows_add_block grows_refl u(1)) (simp add: lit_block_def)
    have "wp (talk B ?e LS (\<lambda>_. cret (sizeof_packet + 3)) h prt Null (take_text B)) (\<lambda>res. wp (print_result res) (\<lambda>_. ?Q 0)) ?u"
    proof (rule text_then [OF grows_wf [OF g] _ grows_cstring [OF g u(2)] a _ net(2,3) t, where x = "[]" and n = 43])
      show "cstring ?u ?e = Some []" by (simp add: lit_block_def)
      show "net ?u = Opens d # rs" using u(3) fr(1) net(1) by simp
      show "43 \<le> 23 + length ([] :: string) + spare ?u j + room ?u j" for j
        using room [of j] mgrows_oracles [OF m] by (simp add: u grows_oracles [OF g])
      fix b leak and z :: "'z client_scheme"
      assume z: "cstring z (Ptr b 0) = Some t" "length leak = 43 - (22 + length ([] :: string))"
        "effects (trace z) = effects (trace ?u) @ [Sent (int (lowest_free (fds ?u))) (Host a prt) (wire_msg 0 LS 0 [] @ leak),
          Closed (int (lowest_free (fds ?u)))]"
      have "effects (trace ?u) = effects (trace s)" using u(6) fr(2) by simp
      then show "wp (print_result (Ptr b 0)) (\<lambda>_. ?Q 0) z"
        using z(2,3) unfolding printed_then [OF z(1)] asked_def
        by (auto intro!: exI [of _ "int (lowest_free (fds ?u))"] exI [of _ leak])
    qed (simp_all add: cret_def sizeof_packet_def)
    then show "wp (cbind (ls B h prt) print_result) (\<lambda>_. ?Q 0) u"
      by (simp add: ls_talks wp_cbind wp_literal lit_block_def)
  qed simp_all
  then show "wp (operation_handler B ([p0, p1] ! 1) (if 3 \<le> length [p0, p1] then [p0, p1] ! 2 else Null)
      (if 4 \<le> length [p0, p1] then [p0, p1] ! 3 else Null)) (\<lambda>_. ?Q 0) v"
    using mgrows_cstring [OF m c] by (simp add: operation_handler_def wp_cbind wp_get_str del: cstring.simps)
qed simp_all

lemma read_command:
  fixes s :: "'z client_scheme"
  assumes ok: "log_ok s" "log_msg s = Null" "msg_ok s"
    and argv: "list_all2 (\<lambda>p w. cstring s p = Some w) [p0, p1, p2] [w0, ''read'', x]"
    and cfg: "holds_settings B (a, prt) s" and a: "inet_pton4 a"
    and net: "net s = Opens d # rs" "accepts d" "incoming d = Arrives (t @ NUL # r) # rest"
    and t: "NUL \<notin> set t" "length (t @ NUL # r) < 1000" and len: "length x + 1 < 2 ^ 32"
    and room: "\<And>j. 17 \<le> spare s j + room s j"
  shows "wp (client_main B [p0, p1, p2]) (\<lambda>c u. c = 0 \<and> asked s (a, prt) READ x 18 t u) s" (is "wp _ ?Q s")
proof (rule main_then [OF ok(3) argv _ _ _ _ cfg])
  have c: "cstring s p1 = Some ''read''" "cstring s p2 = Some x" using argv by simp_all
  show "check_words [w0, ''read'', x] = (True, None)"
    by (simp add: check_words_def operations_entries check_count_def)
  fix v assume v: "fs_frame s v" "files v = files s"
  note m = fs_frame_mgrows [OF v(1)]
  note l = log_ok_fs_frame [OF v(1) ok(2)]
  have fr: "net v = net s" "trace v = trace s" using v(1) by (simp_all add: fs_frame_def)
  have "wp (exec_read B p2) (\<lambda>_. ?Q 0) v"
    unfolding exec_read_def
  proof (rule settled_then [OF conjunct1 [OF l] conjunct2 [OF l]])
    show "holds_settings B (a, prt) v" using cfg v(2) by (simp add: holds_settings_def)
    fix h and u :: "'z client_scheme"
    assume u: "wf_mem u" "cstring u h = Some a" "net u = net v" "spare u = spare v" "room u = room v"
      "effects (trace u) = effects (trace v)" and keep: "\<And>p y. cstring v p = Some y \<Longrightarrow> cstring u p = Some y"
    have x: "cstring u p2 = Some x" by (rule keep [OF mgrows_cstring [OF m c(2)]])
    have "wp (talk B p2 READ (\<lambda>_. cbind (strlen p2) (\<lambda>n. cret (sizeof_packet + n))) h prt Null (take_text B))
        (\<lambda>res. wp (print_result res) (\<lambda>_. ?Q 0)) u"
    proof (rule text_then [OF u(1) x u(2) a _ net(2,3) t len, where n = "40 + length x"])
      show "net u = Opens d # rs" using u(3) fr(1) net(1) by simp
      show "40 + length x \<le> 23 + length x + spare u j + room u j" for j
        using room [of j] mgrows_oracles [OF m] by (simp add: u)
      show "cbind (strlen p2) (\<lambda>n. cret (sizeof_packet + n)) y = Inr (40 + length x, y)" if "mgrows u y" for y
        using mgrows_cstring [OF that x] unfolding runs_wp
        by (simp add: wp_cbind wp_strlen wp_cret sizeof_packet_def del: cstring.simps)
      fix b leak and z :: "'z client_scheme"
      assume z: "cstring z (Ptr b 0) = Some t" "length leak = 40 + length x - (22 + length x)"
        "effects (trace z) = effects (trace u) @ [Sent (int (lowest_free (fds u))) (Host a prt) (wire_msg 0 READ 0 x @ leak),
          Closed (int (lowest_free (fds u)))]"
      have "effects (trace u) = effects (trace s)" using u(6) fr(2) by simp
      then show "wp (print_result (Ptr b 0)) (\<lambda>_. ?Q 0) z"
        using z(2,3) unfolding printed_then [OF z(1)] asked_def
        by (auto intro!: exI [of _ "int (lowest_free (fds u))"] exI [of _ leak])
    qed simp
    then show "wp (cbind (file_read B p2 h prt) print_result) (\<lambda>_. ?Q 0) u"
      by (simp add: file_read_talks wp_cbind)
  qed simp_all
  then show "wp (operation_handler B ([p0, p1, p2] ! 1) (if 3 \<le> length [p0, p1, p2] then [p0, p1, p2] ! 2 else Null)
      (if 4 \<le> length [p0, p1, p2] then [p0, p1, p2] ! 3 else Null)) (\<lambda>_. ?Q 0) v"
    using mgrows_cstring [OF m c(1)]
    by (simp add: operation_handler_def wp_cbind wp_get_str numeral_2_eq_2 del: cstring.simps)
qed simp_all

section \<open>The master's side\<close>

lemma question_arrives:
  assumes "fd c = 0" and "known_type ty" and "22 + length x + length leak \<le> READ_SZ"
  shows "has_packet c READ_SZ (wire_msg 0 ty 0 x @ leak) (m\<lparr>fds := [Some (carries (wire_msg 0 ty 0 x @ leak))]\<rparr>)"
    "wire_type (wire_msg 0 ty 0 x @ leak) = ty"
proof -
  have l: "length x < 2 ^ 32" using assms(3) by (simp add: READ_SZ_def)
  show "has_packet c READ_SZ (wire_msg 0 ty 0 x @ leak) (m\<lparr>fds := [Some (carries (wire_msg 0 ty 0 x @ leak))]\<rparr>)"
    using assms unat_length [OF l] by (simp add: has_packet_def descriptor_def wire_msg_more header_size_def)
  show "wire_type (wire_msg 0 ty 0 x @ leak) = ty" using assms(2) by (simp add: wire_msg_more)
qed

lemma unavailable_end_to_end:
  fixes s :: "'x client_scheme" and m :: "'z master_scheme"
  assumes ok: "log_ok s" "log_msg s = Null" "msg_ok s"
    and argv: "list_all2 (\<lambda>p w. cstring s p = Some w) [p0, p1, p2] [w0, ''read'', x]"
    and cfg: "holds_settings B (a, prt) s" and a: "inet_pton4 a"
    and net: "net s = Opens d # rs" "accepts d" "incoming d = Arrives (''Service unavailable.'' @ [NUL]) # rest"
    and len: "40 + length x \<le> READ_SZ" and room: "\<And>j. 17 \<le> spare s j + room s j"
    and m: "wf_mem m" "table_ok m" "servers m = []" "fd c' = 0"
  shows "wp (client_main B [p0, p1, p2]) (\<lambda>r u. r = 0 \<and> (\<exists>g bs tr.
      effects (trace u) = effects (trace s) @ [Sent g (Host a prt) bs, Closed g] \<and>
      trace u = tr @ [Printed (''Service unavailable.'' @ [NL])] \<and>
      wp (handle_client B c') (\<lambda>_ z. effects (trace z) =
        effects (trace m) @ [Sent 0 Caller (''Service unavailable.'' @ [NUL])]) (m\<lparr>fds := [Some (carries bs)]\<rparr>))) s"
proof (rule wp_mono [OF read_command [OF ok argv cfg a net(1,2)]])
  show "incoming d = Arrives (''Service unavailable.'' @ NUL # []) # rest" by (rule net(3))
  show "length x + 1 < 2 ^ 32" using len by (simp add: READ_SZ_def)
  fix r :: int and u :: "'x client_scheme"
  assume "r = 0 \<and> asked s (a, prt) READ x 18 ''Service unavailable.'' u"
  then obtain g leak tr where u: "r = 0" "length leak = 18"
    "effects (trace u) = effects (trace s) @ [Sent g (Host a prt) (wire_msg 0 READ 0 x @ leak), Closed g]"
    "trace u = tr @ [Printed (''Service unavailable.'' @ [NL])]" by (auto simp: asked_def)
  let ?bs = "wire_msg 0 READ 0 x @ leak"
  let ?m = "m\<lparr>fds := [Some (carries ?bs)]\<rparr>"
  have l: "22 + length x + length leak \<le> READ_SZ" using len u(2) by simp
  note q = question_arrives(1) [OF m(4) known_types(4) l, where m = m] question_arrives(2) [OF m(4) known_types(4) l]
  have "wp (handle_client B c') (\<lambda>_ z. effects (trace z) =
      effects (trace m) @ [Sent 0 Caller (''Service unavailable.'' @ [NUL])]) ?m"
    by (rule wp_mono [OF unavailable_answer [OF _ _ _ q(1)]]) (use m q(2) in simp_all)
  with u show "r = 0 \<and> (\<exists>g bs tr.
      effects (trace u) = effects (trace s) @ [Sent g (Host a prt) bs, Closed g] \<and>
      trace u = tr @ [Printed (''Service unavailable.'' @ [NL])] \<and>
      wp (handle_client B c') (\<lambda>_ z. effects (trace z) =
        effects (trace m) @ [Sent 0 Caller (''Service unavailable.'' @ [NUL])]) (m\<lparr>fds := [Some (carries bs)]\<rparr>))"
    by blast
qed (use room in simp_all)

lemma read_kills_master:
  fixes s :: "'x client_scheme" and m :: "'z master_scheme"
  assumes ok: "log_ok s" "log_msg s = Null" "msg_ok s"
    and argv: "list_all2 (\<lambda>p w. cstring s p = Some w) [p0, p1, p2] [w0, ''read'', x]"
    and cfg: "holds_settings B (a, prt) s" and a: "inet_pton4 a"
    and net: "net s = Opens d # rs" "accepts d" "incoming d = Arrives (t @ NUL # r) # rest"
    and t: "NUL \<notin> set t" "length (t @ NUL # r) < 1000"
    and len: "40 + length x \<le> READ_SZ" and room: "\<And>j. 17 \<le> spare s j + room s j"
    and m: "wf_mem m" "table_ok m" "servers m \<noteq> []" "fd c' = 0"
  shows "wp (client_main B [p0, p1, p2]) (\<lambda>_ u. \<exists>g bs.
      effects (trace u) = effects (trace s) @ [Sent g (Host a prt) bs, Closed g] \<and>
      handle_client B c' (m\<lparr>fds := [Some (carries bs)]\<rparr>) = Inl NullDeref) s"
proof (rule wp_mono [OF read_command [OF ok argv cfg a net t]])
  show "length x + 1 < 2 ^ 32" using len by (simp add: READ_SZ_def)
  fix r' and u :: "'x client_scheme"
  assume "r' = 0 \<and> asked s (a, prt) READ x 18 t u"
  then obtain g leak where u: "length leak = 18"
    "effects (trace u) = effects (trace s) @ [Sent g (Host a prt) (wire_msg 0 READ 0 x @ leak), Closed g]"
    by (auto simp: asked_def)
  let ?bs = "wire_msg 0 READ 0 x @ leak"
  have l: "22 + length x + length leak \<le> READ_SZ" using len u(1) by simp
  note q = question_arrives(1) [OF m(4) known_types(4) l, where m = m] question_arrives(2) [OF m(4) known_types(4) l]
  have "handle_client B c' (m\<lparr>fds := [Some (carries ?bs)]\<rparr>) = Inl NullDeref"
    by (rule read_crashes [OF _ _ _ q]) (use m in simp_all)
  with u(2) show "\<exists>g bs. effects (trace u) = effects (trace s) @ [Sent g (Host a prt) bs, Closed g] \<and>
      handle_client B c' (m\<lparr>fds := [Some (carries bs)]\<rparr>) = Inl NullDeref" by blast
qed (use room in simp_all)

section \<open>Properties\<close>

text \<open>
  The command \<^verbatim>\<open>ls\<close> sends one packet to the address and port of the settings and prints the answer of the master up to its first
  NUL on a line; 21 of the bytes it sends are no part of the packet.
\<close>

theorem client_lists:
  fixes s :: "'z client_scheme"
  assumes "log_ok s" and "log_msg s = Null" and "msg_ok s"
    and "list_all2 (\<lambda>p w. cstring s p = Some w) [p0, p1] [w0, ''ls'']"
    and "holds_settings B (a, prt) s" and "inet_pton4 a"
    and "net s = Opens d # rs" and "accepts d" and "incoming d = Arrives (t @ NUL # r) # rest"
    and "NUL \<notin> set t" and "length (t @ NUL # r) < 1000" and "\<And>j. 20 \<le> spare s j + room s j"
  shows "wp (client_main B [p0, p1]) (\<lambda>c u. c = 0 \<and> asked s (a, prt) LS [] 21 t u) s"
  using assms by (rule ls_command)

lemma sample_words:
  "list_all2 (\<lambda>p y. cstring (sample_caller [v, w] script) p = Some y) [Ptr 0 0, Ptr 1 0] [v, w]"
  if "NUL \<notin> set v" "NUL \<notin> set w"
  using that by (simp add: sample_caller_word del: cstring.simps)

lemma sample_words3:
  "list_all2 (\<lambda>p y. cstring (sample_caller [v, w, x] script) p = Some y) [Ptr 0 0, Ptr 1 0, Ptr 2 0] [v, w, x]"
  if "NUL \<notin> set v" "NUL \<notin> set w" "NUL \<notin> set x"
  using that by (simp add: sample_caller_word del: cstring.simps)

lemma sample_master_address: "inet_pton4 ''10.0.0.1''"
  by (simp add: inet_pton4_def octet_def is_digit_def Let_def)

theorem client_lists_witness:
  "wp (client_main test_build [Ptr 0 0, Ptr 1 0]) (\<lambda>c u. c = 0 \<and> (\<exists>tr. trace u = tr @ [Printed (''a.txt'' @ [NL])]))
    (sample_caller [''pekar'', ''ls''] [Opens (carries (''a.txt'' @ [NUL]))])"
  by (rule wp_mono [OF client_lists [OF _ _ _ sample_words sample_caller_settings sample_master_address,
        where t = "''a.txt''" and r = "[]" and rest = "[]" and rs = "[]" and d = "carries (''a.txt'' @ [NUL])"]])
    (auto simp: asked_def)

text \<open>
  Reading while no worker is registered, from end to end: the packet that the command
  \<^verbatim>\<open>read\<close> sends makes the master answer \<^verbatim>\<open>Service unavailable.\<close>, and the client prints that.
\<close>

theorem client_read_unavailable:
  fixes s :: "'x client_scheme" and m :: "'z master_scheme"
  assumes "log_ok s" and "log_msg s = Null" and "msg_ok s"
    and "list_all2 (\<lambda>p w. cstring s p = Some w) [p0, p1, p2] [w0, ''read'', x]"
    and "holds_settings B (a, prt) s" and "inet_pton4 a"
    and "net s = Opens d # rs" and "accepts d" and "incoming d = Arrives (''Service unavailable.'' @ [NUL]) # rest"
    and "40 + length x \<le> READ_SZ" and "\<And>j. 17 \<le> spare s j + room s j"
    and "wf_mem m" and "table_ok m" and "servers m = []" and "fd c' = 0"
  shows "wp (client_main B [p0, p1, p2]) (\<lambda>r u. r = 0 \<and> (\<exists>g bs tr.
      effects (trace u) = effects (trace s) @ [Sent g (Host a prt) bs, Closed g] \<and>
      trace u = tr @ [Printed (''Service unavailable.'' @ [NL])] \<and>
      wp (handle_client B c') (\<lambda>_ z. effects (trace z) =
        effects (trace m) @ [Sent 0 Caller (''Service unavailable.'' @ [NUL])]) (m\<lparr>fds := [Some (carries bs)]\<rparr>))) s"
  using assms by (rule unavailable_end_to_end)

theorem client_read_unavailable_witness:
  "wp (client_main test_build [Ptr 0 0, Ptr 1 0, Ptr 2 0]) (\<lambda>r u. r = 0 \<and> (\<exists>g bs.
      effects (trace u) = [Sent g (Host ''10.0.0.1'' 4040) bs, Closed g] \<and>
      wp (handle_client test_build sample_conn) (\<lambda>_ z. effects (trace z) =
        [Sent 0 Caller (''Service unavailable.'' @ [NUL])]) ((sample_master [] [] [])\<lparr>fds := [Some (carries bs)]\<rparr>)))
    (sample_caller [''pekar'', ''read'', ''f''] [Opens (carries (''Service unavailable.'' @ [NUL]))])"
  by (rule wp_mono [OF client_read_unavailable [OF _ _ _ sample_words3 sample_caller_settings sample_master_address,
        where m = "sample_master [] [] []" and c' = sample_conn and rest = "[]" and rs = "[]"
          and d = "carries (''Service unavailable.'' @ [NUL])"]])
    (auto simp: sample_conn_def READ_SZ_def)

text \<open>
  C22. Every read from the command line kills a master that has workers: the packet that the
  command \<^verbatim>\<open>read\<close> sends, whatever the name, makes the handler of the master dereference null.
\<close>

theorem client_read_kills_master:
  fixes s :: "'x client_scheme" and m :: "'z master_scheme"
  assumes "log_ok s" and "log_msg s = Null" and "msg_ok s"
    and "list_all2 (\<lambda>p w. cstring s p = Some w) [p0, p1, p2] [w0, ''read'', x]"
    and "holds_settings B (a, prt) s" and "inet_pton4 a"
    and "net s = Opens d # rs" and "accepts d" and "incoming d = Arrives (t @ NUL # r) # rest"
    and "NUL \<notin> set t" and "length (t @ NUL # r) < 1000"
    and "40 + length x \<le> READ_SZ" and "\<And>j. 17 \<le> spare s j + room s j"
    and "wf_mem m" and "table_ok m" and "servers m \<noteq> []" and "fd c' = 0"
  shows "wp (client_main B [p0, p1, p2]) (\<lambda>_ u. \<exists>g bs.
      effects (trace u) = effects (trace s) @ [Sent g (Host a prt) bs, Closed g] \<and>
      handle_client B c' (m\<lparr>fds := [Some (carries bs)]\<rparr>) = Inl NullDeref) s"
  using assms by (rule read_kills_master)

theorem client_read_kills_master_witness:
  "wp (client_main test_build [Ptr 0 0, Ptr 1 0, Ptr 2 0]) (\<lambda>_ u. \<exists>g bs.
      effects (trace u) = [Sent g (Host ''10.0.0.1'' 4040) bs, Closed g] \<and>
      handle_client test_build sample_conn ((sample_master [sample_worker] [] [])\<lparr>fds := [Some (carries bs)]\<rparr>) =
        Inl NullDeref)
    (sample_caller [''pekar'', ''read'', ''f''] [Opens (carries [NUL])])"
  by (rule wp_mono [OF client_read_kills_master [OF _ _ _ sample_words3 sample_caller_settings sample_master_address,
        where m = "sample_master [sample_worker] [] []" and c' = sample_conn and rest = "[]" and rs = "[]"
          and t = "[]" and r = "[]" and d = "carries [NUL]"]])
    (auto simp: sample_conn_def READ_SZ_def)

end
