(* ===== verification/Listings.thy ===== *)
theory Listings
  imports Master_Facts
begin

text \<open>
  How the master lists the files (\<^verbatim>\<open>worker_ls\<close> and \<^verbatim>\<open>worker_ls_index\<close> of \<^verbatim>\<open>src/worker_admin.c\<close>): it
  asks every worker for its listing and joins those it gets.
\<close>

section \<open>Asking a worker for its listing\<close>

text \<open>An answer that holds the listing \<open>l\<close> and fits the buffer of the master.\<close>

definition lists :: "sock \<Rightarrow> string \<Rightarrow> bool" where
  "lists k l \<longleftrightarrow> accepts k \<and> NUL \<notin> set l \<and> (case incoming k of
     Arrives bs # q \<Rightarrow> length bs \<le> WORKER_READ_LEN + sizeof_packet \<and>
       header_size + unat (wire_len bs) \<le> length bs \<and> wire_body bs = l
   | _ \<Rightarrow> False)"

text \<open>
  The request for a listing to the worker at an address and a port, with what follows it in memory.
\<close>

definition asks_list :: "build \<Rightarrow> string \<times> u16 \<Rightarrow> event \<Rightarrow> bool" where
  "asks_list B h e \<longleftrightarrow> (\<exists>g leak. length leak = 19 \<and>
     e = Sent g (Host (fst h) (snd h)) (wire_msg 0 LS (MASTER_TKN B) [] @ leak))"

lemma lists_peer [simp]: "lists (d\<lparr>peer := p\<rparr>) l = lists d l"
  by (simp add: lists_def)

text \<open>Reading into a block that is there already.\<close>

lemma read_block_then:
  assumes wf: "wf_mem s" and u: "io_mem s u" and b: "next_id s \<le> b" "writable u (Ptr b 0) n" "live u (Ptr b 0)"
    and d: "descriptor (fds u) (fd c) = Some k" "incoming k = Arrives bs # q" "length bs \<le> n"
    and Q: "\<And>v. \<lbrakk>io_mem s v; live v (Ptr b 0); peek v (Ptr b 0) (length bs) = Some bs; net v = net u;
        effects (trace v) = effects (trace u); fds v = (fds u)[nat (fd c) := Some (k\<lparr>incoming := q\<rparr>)]\<rbrakk>
      \<Longrightarrow> Q (int (length bs)) v"
  shows "wp (conn_read B c (Ptr b 0) n) Q u"
proof -
  obtain x where x: "blocks u b = Some x" "n \<le> usable x" "on_heap x" using b(2,3) by (auto split: option.splits)
  have le: "usable x \<le> length (bytes x)" using io_mem_wf [OF u] x(1) by (auto simp: wf_mem_def)
  have t: "take n bs = bs" using d(3) by simp
  have new: "blocks s b = None" by (rule wf_mem_fresh [OF wf b(1)])
  have wr: "writable u (Ptr b 0) (length bs)" using x d(3) by simp
  have mg: "mgrows s (put (Ptr b 0) bs u)" by (rule mgrows_put [OF io_mem_mgrows [OF u] refl new wr])
  have "Q (int (length (take n bs))) v"
    if v: "same_mem (put (Ptr b 0) (take n bs) u) v" "os.more v = os.more u" "net v = net u"
      "effects (trace v) = effects (trace u)" "fds v = (fds u)[nat (fd c) := Some (k\<lparr>incoming :=
        (if length bs \<le> n then q else Arrives (drop n bs) # q)\<rparr>)]" for v
  proof -
    have bl: "blocks v b = Some (x\<lparr>bytes := overwrite 0 bs (bytes x)\<rparr>)"
      using v(1) x(1) by (simp add: same_mem_def t)
    have "io_mem s v" using mgrows_same_mem [OF mg, of v] v(1,2) u by (simp add: io_mem_def t)
    moreover have "peek v (Ptr b 0) (length bs) = Some bs"
      using bl x(2) le d(3) by (simp add: overwrite_zero)
    ultimately have "Q (int (length bs)) v" using bl x(3) v(3-5) d(3) by (intro Q) simp_all
    then show ?thesis by (simp add: t)
  qed
  then show ?thesis using wr by (intro conn_read_then [OF d(1,2)]) (simp_all add: t)
qed

lemma clean_body:
  assumes "clean_mem u" and "NUL \<notin> set x"
  shows "c_str (x @ after n u) = Some x"
proof -
  obtain r where "after n u = NUL # r" by (rule clean_after [OF assms(1)])
  then show ?thesis using c_str_nul [OF assms(2)] by simp
qed

text \<open>What is done once the request is out.\<close>

definition list_received :: "build \<Rightarrow> conn \<Rightarrow> ptr \<Rightarrow> (ptr, 'z) ocmd" where
  "list_received B client buffer =
     cbind (conn_read B client buffer (WORKER_READ_LEN + sizeof_packet)) (\<lambda>n.
     if n \<le> 0 then cseq (free buffer) (cret Null)
     else cbind (p_decode buffer) (\<lambda>p. cseq (free buffer) (cret (arg p))))"

lemma ls_index_sent_then:
  fixes s :: "'z tables_scheme"
  assumes wf: "wf_mem s" and ok: "table_ok s" and i: "i < length (servers s)"
    and a: "cstring s (ip (servers s ! i)) = Some a" "inet_pton4 a"
    and net: "net s = Opens k # rs" "accepts k" and room: "\<And>j. 18 \<le> spare s j + room s j"
    and K: "\<And>c b u e. \<lbrakk>io_mem s u; next_id s \<le> b; writable u (Ptr b 0) (WORKER_READ_LEN + sizeof_packet);
        live u (Ptr b 0); net u = rs;
        descriptor (fds u) (fd c) = Some (k\<lparr>peer := Host a (port (servers s ! i))\<rparr>); fd c = int (lowest_free (fds s));
        effects (trace u) = effects (trace s) @ [e]; asks_list B (a, port (servers s ! i)) e;
        \<And>i. i \<noteq> int (lowest_free (fds s)) \<Longrightarrow> descriptor (fds u) i = descriptor (fds s) i\<rbrakk> \<Longrightarrow>
      wp (list_received B c (Ptr b 0)) Q u"
  shows "wp (worker_ls_index B i) Q s"
proof -
  let ?n = "WORKER_READ_LEN + sizeof_packet" and ?w = "servers s ! i" and ?f = "lowest_free (fds s)"
  let ?send = "\<lambda>client buffer e. cbind (master_packet B e LS) (\<lambda>pk.
     cbind (conn_write B client pk (sizeof_packet + 1)) (\<lambda>n.
     if n \<le> 0 then cseq (free buffer) (cret Null) else list_received B client buffer))"
  have "wp (client_init (ip ?w) (port ?w)) (\<lambda>c. wp (cbind (malloc ?n) (\<lambda>buffer.
      cbind (literal '''') (?send c buffer))) Q) s"
  proof (rule client_init_then [OF wf a net(1)])
    let ?k = "k\<lparr>peer := Host a (port ?w)\<rparr>"
    fix m u assume u: "io_mem s u" "net u = rs" "trace u = trace s" "fds u = install ?f ?k (fds s)"
    let ?c = "\<lparr>c_error = 0, error_msg = m, fd = int ?f, max_bytes = 0\<rparr>" and ?b = "next_id u"
    let ?u1 = "add_block (fresh_block ?n u) u"
    let ?u2 = "add_block (lit_block [] ?u1) ?u1"
    have g: "grows u ?u2"
      by (intro grows_add_block grows_refl io_mem_wf [OF u(1)]) (simp_all add: lit_block_def)
    have s2: "io_mem s ?u2" by (rule io_mem_grows [OF u(1) g])
    have su: "next_id s \<le> ?b" using mgrows_next [OF io_mem_mgrows [OF u(1)]] .
    have du: "descriptor (fds ?u2) (fd ?c) = Some ?k" "accepts ?k" using net(2) by (simp_all add: u(4))
    have b: "writable ?u2 (Ptr ?b 0) ?n" "live ?u2 (Ptr ?b 0)" by simp_all
    have "wp (cbind (p_init 0 (Ptr (next_id ?u1) 0) LS) (\<lambda>p. cbind (p_encode (attach_token (MASTER_TKN B) p))
        (\<lambda>pk. conn_write B ?c pk (sizeof_packet + 1)))) (\<lambda>n. wp (if n \<le> 0 then cseq (free (Ptr ?b 0)) (cret Null)
          else list_received B ?c (Ptr ?b 0)) Q) ?u2"
    proof (rule send_new_then [OF grows_wf [OF g] _ _ du])
      show "cstring ?u2 (Ptr (next_id ?u1) 0) = Some []" by (simp add: lit_block_def)
      show "sizeof_packet + 1 \<le> 23 + length [] + spare ?u2 j + room ?u2 j" for j
        using room [of j] by (simp add: sizeof_packet_def mgrows_oracles [OF io_mem_mgrows [OF u(1)]])
      fix leak v
      assume v: "io_mem ?u2 v" "fds v = fds ?u2" "net v = net ?u2" "length leak = sizeof_packet + 1 - (22 + length [])"
        "effects (trace v) = effects (trace ?u2) @ [Sent (fd ?c) (peer ?k) (wire_msg 0 LS (MASTER_TKN B) [] @ leak)]"
      let ?e = "Sent (fd ?c) (peer ?k) (wire_msg 0 LS (MASTER_TKN B) [] @ leak)"
      have ae: "asks_list B (a, port ?w) ?e" using v(4) by (auto simp: asks_list_def sizeof_packet_def)
      have "wp (list_received B ?c (Ptr ?b 0)) Q v"
        by (rule K [OF io_mem_trans [OF s2 v(1)] su mgrows_writable [OF io_mem_mgrows [OF v(1)] b(1)]
              mgrows_live [OF io_mem_mgrows [OF v(1)] b(2)] _ _ _ _ ae])
          (use v(2,3,5) u(2-4) du in \<open>simp_all add: descriptor_install_other\<close>)
      then show "wp (if int (sizeof_packet + 1) \<le> 0 then cseq (free (Ptr ?b 0)) (cret Null)
          else list_received B ?c (Ptr ?b 0)) Q v" by (simp add: sizeof_packet_def)
    qed (simp_all add: sizeof_packet_def)
    then show "wp (cbind (malloc ?n) (\<lambda>buffer. cbind (literal '''') (?send ?c buffer))) Q u"
      by (simp add: wp_cbind [of "malloc _"] wp_malloc wp_cbind [of "literal _"] wp_literal master_packet_def
          cbind_assoc wp_cbind [of "cbind _ _"] wp_cbind wp_funs)
  qed
  then show ?thesis
    using getfs_index_run [OF ok, of i] deref_run [OF ok i] i
    by (simp add: worker_ls_index_def list_received_def [symmetric] wp_cbind wp_eq ref_of_def wp_cseq wp_cret wp_funs cong: if_cong)
qed

text \<open>A listing arrives: the answer is a new string.\<close>

lemma ls_index_then:
  fixes s :: "'z tables_scheme"
  assumes wf: "wf_mem s" and clean: "clean_mem s" and ok: "table_ok s" and i: "i < length (servers s)"
    and a: "cstring s (ip (servers s ! i)) = Some a" "inet_pton4 a"
    and net: "net s = Opens k # rs" and l: "lists k l" and room: "\<And>j. 18 \<le> spare s j + room s j"
    and Q: "\<And>r e u. \<lbrakk>io_mem s u; net u = rs; next_id s \<le> r; cstring u (Ptr r 0) = Some l;
        effects (trace u) = effects (trace s) @ [e]; asks_list B (a, port (servers s ! i)) e;
        \<And>i. i \<noteq> int (lowest_free (fds s)) \<Longrightarrow> descriptor (fds u) i = descriptor (fds s) i\<rbrakk> \<Longrightarrow> Q (Ptr r 0) u"
  shows "wp (worker_ls_index B i) Q s"
proof -
  let ?n = "WORKER_READ_LEN + sizeof_packet" and ?f = "lowest_free (fds s)"
    and ?k = "k\<lparr>peer := Host a (port (servers s ! i))\<rparr>"
  obtain bs q where k: "accepts k" "incoming k = Arrives bs # q" "length bs \<le> ?n"
    "header_size + unat (wire_len bs) \<le> length bs" "wire_body bs = l" "NUL \<notin> set l"
    using l by (auto simp: lists_def split: list.splits arrival.splits)
  have ne: "int (length bs) > 0" using k(4) by (cases bs) (simp_all add: header_size_def)
  show ?thesis
  proof (rule ls_index_sent_then [OF wf ok i a net k(1) room])
    fix c :: conn and b u e
    assume u: "io_mem s u" "next_id s \<le> b" "writable u (Ptr b 0) ?n" "live u (Ptr b 0)" "net u = rs"
      "descriptor (fds u) (fd c) = Some ?k" "fd c = int ?f" "effects (trace u) = effects (trace s) @ [e]"
      "asks_list B (a, port (servers s ! i)) e"
      "\<And>i. i \<noteq> int ?f \<Longrightarrow> descriptor (fds u) i = descriptor (fds s) i"
    show "wp (list_received B c (Ptr b 0)) Q u"
      unfolding list_received_def wp_cbind [of "conn_read _ _ _ _"]
    proof (rule read_block_then [OF wf u(1-4,6) _ k(3)])
      show "incoming ?k = Arrives bs # q" using k(2) by simp
      fix v assume v: "io_mem s v" "live v (Ptr b 0)" "peek v (Ptr b 0) (length bs) = Some bs" "net v = net u"
        "effects (trace v) = effects (trace u)" "fds v = (fds u)[nat (fd c) := Some (?k\<lparr>incoming := q\<rparr>)]"
      have "wp (p_decode (Ptr b 0)) (\<lambda>p. wp (cseq (free (Ptr b 0)) (cret (arg p))) Q) v"
      proof (rule decode_message_then [OF v(1,3) k(4)])
        fix e' t assume t: "grows v t" "io_mem s t" "next_id v \<le> e'" "live t (Ptr e' 0)"
          "cstring t (Ptr e' 0) = c_str (wire_body bs @ after (unat (wire_len bs)) v)"
        have c: "cstring t (Ptr e' 0) = Some l"
          using t(5) clean_body [OF clean_mgrows [OF io_mem_mgrows [OF v(1)] clean] k(6)] by (simp add: k(5))
        have lb: "live t (Ptr b 0)" by (rule grows_live [OF t(1) v(2)])
        have "b < next_id v" using v(2) by (auto dest: wf_mem_blocks [OF io_mem_wf [OF v(1)]])
        then have c': "cstring (del_block b t) (Ptr e' 0) = Some l" using c t(3) by simp
        have e': "next_id s \<le> e'" using mgrows_next [OF io_mem_mgrows [OF v(1)]] t(3) by simp
        have "Q (Ptr e' 0) (del_block b t)"
        proof (rule Q [OF io_mem_free [OF wf t(2) u(2)] _ e' c' _ u(9)])
          show "descriptor (fds (del_block b t)) j = descriptor (fds s) j" if "j \<noteq> int ?f" for j
            using u(10) [OF that] descriptor_update [of "int ?f" j "fds u"] that
            by (simp add: grows_os [OF t(1)] v(6) u(7))
        qed (use u(5,8) v(4,5) in \<open>simp_all add: grows_os [OF t(1)]\<close>)
        then show "wp (cseq (free (Ptr b 0)) (cret (arg (decoded bs (Ptr e' 0))))) Q t"
          using lb by (simp add: wp_cseq wp_free wp_cret decoded_def del: live.simps)
      qed
      then show "wp (if int (length bs) \<le> 0 then cseq (free (Ptr b 0)) (cret Null)
        else cbind (p_decode (Ptr b 0)) (\<lambda>p. cseq (free (Ptr b 0)) (cret (arg p)))) Q v"
        using ne by (simp add: wp_cbind)
    qed
  qed
qed

text \<open>A silent worker: the answer is null.\<close>

lemma ls_index_silent_then:
  fixes s :: "'z tables_scheme"
  assumes wf: "wf_mem s" and ok: "table_ok s" and i: "i < length (servers s)"
    and a: "cstring s (ip (servers s ! i)) = Some a" "inet_pton4 a"
    and net: "net s = Opens k # rs" and k: "silent k" and room: "\<And>j. 18 \<le> spare s j + room s j"
    and Q: "\<And>e u. \<lbrakk>io_mem s u; net u = rs; effects (trace u) = effects (trace s) @ [e]; asks_list B (a, port (servers s ! i)) e;
        \<And>i x. descriptor (fds s) i = Some x \<Longrightarrow> descriptor (fds u) i = Some x\<rbrakk> \<Longrightarrow> Q Null u"
  shows "wp (worker_ls_index B i) Q s"
proof (rule ls_index_sent_then [OF wf ok i a net _ room])
  let ?f = "lowest_free (fds s)"
  show "accepts k" using k by (simp add: silent_def)
  fix c :: conn and b u e
  assume u: "io_mem s u" "next_id s \<le> b" "live u (Ptr b 0)" "net u = rs"
    "descriptor (fds u) (fd c) = Some (k\<lparr>peer := Host a (port (servers s ! i))\<rparr>)"
    "fd c = int ?f" "effects (trace u) = effects (trace s) @ [e]" "asks_list B (a, port (servers s ! i)) e"
    "\<And>i. i \<noteq> int ?f \<Longrightarrow> descriptor (fds u) i = descriptor (fds s) i"
  show "wp (list_received B c (Ptr b 0)) Q u"
    unfolding list_received_def wp_cbind [of "conn_read _ _ _ _"]
  proof (rule conn_read_none)
    show "incoming k' = [] \<or> (\<exists>q. incoming k' = Timeout # q)" if "descriptor (fds u) (fd c) = Some k'" for k'
      using that u(5) k by (auto simp: silent_def)
    fix r v assume v: "r \<le> 0" "io u v" "net v = net u" "effects (trace v) = effects (trace u)"
      "\<And>i. i \<noteq> nat (fd c) \<Longrightarrow> i < length (fds u) \<Longrightarrow> fds v ! i = fds u ! i" "length (fds v) = length (fds u)"
    have sv: "io_mem s v" by (rule io_mem_io [OF u(1) v(2)])
    have lv: "live v (Ptr b 0)"
      by (rule mgrows_live [OF io_mem_mgrows [OF io_io_mem [OF io_mem_wf [OF u(1)] v(2)]] u(3)])
    have "Q Null (del_block b v)"
    proof (rule Q [OF io_mem_free [OF wf sv u(2)] _ _ u(8)])
      fix i x assume d: "descriptor (fds s) i = Some x"
      have "i \<noteq> int ?f" using d descriptor_lowest [of "fds s"] by auto
      then have "descriptor (fds u) i = Some x" using u(9) d by simp
      then show "descriptor (fds (del_block b v)) i = Some x"
        using v(5) [of "nat i"] v(6) u(6) \<open>i \<noteq> int ?f\<close> by (auto simp: descriptor_def split: if_splits)
    qed (use u(4,7) v(3,4) in simp_all)
    then show "wp (if r \<le> 0 then cseq (free (Ptr b 0)) (cret Null)
        else cbind (p_decode (Ptr b 0)) (\<lambda>p. cseq (free (Ptr b 0)) (cret (arg p)))) Q v"
      using v(1) lv by (simp add: wp_cseq wp_free wp_cret wp_funs del: live.simps)
  qed
qed

section \<open>Joining the listings\<close>

lemma tables_io:
  assumes "io_mem s t"
  shows "servers t = servers s" "table_ok t = table_ok s" "ref_of r t = ref_of r s"
  using table_ok_io [OF assms] tables_more(3) [OF logst_more(2), of t s] assms
  by (simp_all add: io_mem_def ref_of_def split: option.split)

lemma still_open:
  assumes "\<And>i. i \<noteq> int (lowest_free ds) \<Longrightarrow> descriptor es i = descriptor ds i" and "descriptor ds i = Some x"
  shows "descriptor es i = Some x"
  using assms descriptor_lowest [of ds] by (cases "i = int (lowest_free ds)") auto

lemma addresses_io:
  fixes s t :: "'z tables_scheme"
  assumes "io_mem s t" and "\<And>w. w \<in> set (servers s) \<Longrightarrow> \<exists>a. cstring s (ip w) = Some a \<and> P a"
  shows "addresses t = addresses s"
  by (rule addresses_kept [OF tables_io(1) [OF assms(1)] io_mem_mgrows [OF assms(1)] assms(2)])

lemma drop_addresses:
  assumes "i < length (servers s)" and "cstring s (ip (servers s ! i)) = Some a"
  shows "drop i (addresses s) = (a, port (servers s ! i)) # drop (Suc i) (addresses s)"
  using assms by (simp add: addresses_def Cons_nth_drop_Suc [symmetric])

text \<open>What the workers say, \<open>None\<close> for a silent one, and the text that the master makes of it.\<close>

fun says :: "sock \<Rightarrow> string option \<Rightarrow> bool" where
  "says k None = silent k"
| "says k (Some l) = lists k l"

fun joined :: "string option list \<Rightarrow> string" where
  "joined [] = []"
| "joined (None # as) = joined as"
| "joined (Some l # as) = CHR 0x0A # l @ joined as"

text \<open>A buffer that was allocated after the state \<open>s\<close> and holds the string \<open>t\<close>.\<close>

definition holding :: "'z os_scheme \<Rightarrow> 'z os_scheme \<Rightarrow> nat \<Rightarrow> string \<Rightarrow> bool" where
  "holding s u b t \<longleftrightarrow> io_mem s u \<and> next_id s \<le> b \<and> cstring u (Ptr b 0) = Some t \<and>
     live u (Ptr b 0) \<and> writable u (Ptr b 0) (Suc (length t))"

lemma holding_io: "holding s u b t \<Longrightarrow> io_mem u v \<Longrightarrow> holding s v b t"
  unfolding holding_def
  by (meson io_mem_trans io_mem_mgrows mgrows_cstring mgrows_live mgrows_writable)

lemma holding_no_nul: "holding s u b t \<Longrightarrow> NUL \<notin> set t"
  by (auto simp: holding_def simp del: cstring.simps dest: cstring_no_nul)

lemma regrow_then:
  assumes wf: "wf_mem s" and h: "holding s u b t" and n: "length t < n"
    and Q: "\<And>k v. \<lbrakk>holding s v (next_id u) t; writable v (Ptr (next_id u) 0) n; v = add_block k (del_block b u)\<rbrakk> \<Longrightarrow>
      Q (Ptr (next_id u) 0) v"
  shows "wp (realloc (Ptr b 0) n) Q u"
proof -
  let ?m = "Suc (length t)"
  have u: "io_mem s u" "next_id s \<le> b" using h by (simp_all add: holding_def)
  have nx: "next_id s \<le> next_id u" by (rule mgrows_next [OF io_mem_mgrows [OF u(1)]])
  obtain k where k: "blocks u b = Some k" "on_heap k" "?m \<le> usable k" "c_str (bytes k) = Some t"
    using h by (auto simp: holding_def split: option.splits)
  obtain r where r: "bytes k = t @ NUL # r" using c_str_SomeD [OF k(4)] by blast
  note no = c_str_no_nul [OF k(4)]
  show ?thesis
  proof (rule realloc_then [OF k(1,2)])
    show "0 < n" "?m \<le> n" using n by simp_all
    show "?m \<le> usable k" by (rule k(3))
    show "usable k \<le> length (bytes k)" by (rule wf_mem_usable [OF io_mem_wf [OF u(1)] k(1)])
    fix k' v assume v: "v = add_block k' (del_block b u)" "on_heap k'" "n \<le> usable k'"
      "usable k' \<le> length (bytes k')" "take ?m (bytes k') = take ?m (bytes k)"
    have "take ?m (bytes k') = t @ [NUL]" unfolding v(5) r by simp
    then have b': "t @ NUL # drop ?m (bytes k') = bytes k'"
      using append_take_drop_id [of ?m "bytes k'"] by simp
    have "c_str (bytes k') = Some t" using c_str_nul [OF no, of "drop ?m (bytes k')"] by (simp only: b')
    moreover have "mgrows s v" unfolding v(1)
      by (rule mgrows_move [OF io_mem_mgrows [OF u(1)] wf_mem_fresh [OF wf u(2)] v(4)])
    ultimately show "Q (Ptr (next_id u) 0) v"
      using u(1) v n nx by (intro Q) (simp_all add: holding_def io_mem_def)
  qed
qed

lemma print_into_then:
  assumes wf: "wf_mem s" and h: "holding s u b t" and x: "text_of u ps = Some x" and no: "NUL \<notin> set x"
    and w: "writable u (Ptr b 0) (Suc (length x))"
    and Q: "\<And>v. \<lbrakk>holding s v b x; fds v = fds u; net v = net u; trace v = trace u\<rbrakk> \<Longrightarrow> Q (length x) v"
  shows "wp (sprintf (Ptr b 0) ps) Q u"
proof -
  let ?v = "put (Ptr b 0) (x @ [NUL]) u"
  have u: "io_mem s u" "next_id s \<le> b" "live u (Ptr b 0)" using h by (simp_all add: holding_def)
  obtain k where k: "blocks u b = Some k" "on_heap k" "Suc (length x) \<le> usable k"
    using u(3) w by (auto split: option.splits)
  have le: "usable k \<le> length (bytes k)" by (rule wf_mem_usable [OF io_mem_wf [OF u(1)] k(1)])
  have "mgrows s ?v"
    using w by (intro mgrows_put [OF io_mem_mgrows [OF u(1)] refl wf_mem_fresh [OF wf u(2)]]) simp
  moreover have "cstring ?v (Ptr b 0) = Some x"
    using k le no by (simp add: overwrite_zero c_str_nul)
  ultimately have "Q (length x) ?v" using u k by (intro Q) (simp_all add: holding_def io_mem_def)
  with w x show ?thesis by (simp add: wp_sprintf wp_format del: put.simps writable.simps)
qed

text \<open>A listing is put behind what is there already, in a block that is made larger.\<close>

lemma add_listing_then:
  fixes s :: "'z tables_scheme"
  assumes wf: "wf_mem s" and h: "holding s v b t" and l: "cstring v (Ptr r 0) = Some l" and rb: "r \<noteq> b"
    and Q: "\<And>b' w. \<lbrakk>holding s w b' (t @ CHR 0x0A # l); fds w = fds v; net w = net v; trace w = trace v\<rbrakk> \<Longrightarrow>
      wp (c (Ptr b' 0)) Q w"
  shows "wp (cbind (strlen (Ptr b 0)) (\<lambda>n. cbind (strlen (Ptr r 0)) (\<lambda>m. cbind (realloc (Ptr b 0) (n + m + 2))
    (\<lambda>result. cseq (sprintf result [PStr result, Txt [CHR 0x0A], PStr (Ptr r 0)]) (c result))))) Q v"
proof -
  let ?x = "t @ CHR 0x0A # l" and ?b = "next_id v"
  have ct: "cstring v (Ptr b 0) = Some t" and "io_mem s v" using h by (simp_all add: holding_def)
  then have v: "wf_mem v" by (simp add: io_mem_wf)
  have "wp (realloc (Ptr b 0) (length t + length l + 2)) (\<lambda>result. wp (cseq
      (sprintf result [PStr result, Txt [CHR 0x0A], PStr (Ptr r 0)]) (c result)) Q) v"
  proof (rule regrow_then [OF wf h])
    fix k' z assume z: "holding s z ?b t" "writable z (Ptr ?b 0) (length t + length l + 2)"
      "z = add_block k' (del_block b v)"
    have "r < next_id v" using l v by (auto split: option.splits dest: wf_mem_blocks)
    then have cl: "cstring z (Ptr r 0) = Some l" using l rb by (simp add: z(3))
    have ctz: "cstring z (Ptr ?b 0) = Some t" using z(1) by (simp add: holding_def)
    have "wp (sprintf (Ptr ?b 0) [PStr (Ptr ?b 0), Txt [CHR 0x0A], PStr (Ptr r 0)]) (\<lambda>_. wp (c (Ptr ?b 0)) Q) z"
    proof (rule print_into_then [OF wf z(1)])
      show "text_of z [PStr (Ptr ?b 0), Txt [CHR 0x0A], PStr (Ptr r 0)] = Some ?x"
        using cl ctz by (simp del: cstring.simps)
      show "NUL \<notin> set ?x" using cstring_no_nul [OF cl] cstring_no_nul [OF ctz] by auto
      show "writable z (Ptr ?b 0) (Suc (length ?x))" using z(2) by (simp del: writable.simps)
    qed (rule Q, simp_all add: z(3))
    then show "wp (cseq (sprintf (Ptr ?b 0) [PStr (Ptr ?b 0), Txt [CHR 0x0A], PStr (Ptr r 0)]) (c (Ptr ?b 0))) Q z"
      by (simp add: wp_cseq)
  qed simp
  then show ?thesis using l ct by (simp add: wp_cbind [of "strlen _"] wp_strlen wp_cbind [of "realloc _ _"] del: cstring.simps)
qed

lemma ls_from_then:
  fixes s :: "'z tables_scheme"
  assumes wf: "wf_mem s" and clean: "clean_mem s" and ok: "table_ok s"
    and a: "\<And>w. w \<in> set (servers s) \<Longrightarrow> \<exists>a. cstring s (ip w) = Some a \<and> inet_pton4 a"
    and room: "\<And>j. 18 \<le> spare s j + room s j"
    and "holding s u b t" and "i + length as = length (servers s)"
    and "net u = map Opens ks @ rs" and "list_all2 says ks as"
    and "\<And>b' es v. \<lbrakk>holding s v b' (t @ joined as); net v = rs; effects (trace v) = effects (trace u) @ es;
        length es = length as; list_all2 (asks_list B) (drop i (addresses s)) es;
        \<And>i x. descriptor (fds u) i = Some x \<Longrightarrow> descriptor (fds v) i = Some x\<rbrakk> \<Longrightarrow> Q (Ptr b' 0) v"
  shows "wp (ls_from B (length (servers s)) i (Ptr b 0)) Q u"
  using assms(6-)
proof (induction as arbitrary: i u b t ks Q)
  case Nil
  have "Q (Ptr b 0) u" by (rule Nil.prems(5) [of u b "[]"]) (use Nil.prems in simp_all)
  then show ?case using Nil.prems(2) by (subst ls_from.simps) (simp add: wp_cret)
next
  case (Cons y as)
  note h = Cons.prems(1) and Q = Cons.prems(5)
  let ?w = "servers s ! i"
  have su: "io_mem s u" using h by (simp add: holding_def)
  note mu = io_mem_mgrows [OF su]
  have il: "i < length (servers s)" using Cons.prems(2) by simp
  obtain x where x: "cstring s (ip ?w) = Some x" "inet_pton4 x" using a [of ?w] il by auto
  obtain k ks' where ks: "ks = k # ks'" "says k y" "list_all2 says ks' as"
    using Cons.prems(4) by (auto simp: list_all2_Cons2)
  have net: "net u = Opens k # map Opens ks' @ rs" using Cons.prems(3) by (simp add: ks(1))
  have sv: "servers u = servers s" by (rule tables_io(1) [OF su])
  have ad: "drop i (addresses s) = (x, port (servers u ! i)) # drop (Suc i) (addresses s)"
    using drop_addresses [OF il x(1)] by (simp add: sv)
  have at: "table_ok u" "i < length (servers u)" "cstring u (ip (servers u ! i)) = Some x"
    using ok il mgrows_cstring [OF mu x(1)] by (simp_all add: tables_io(2) [OF su] sv)
  have rm: "18 \<le> spare u j + room u j" for j using room [of j] by (simp add: mgrows_oracles [OF mu])
  have again: "wp (ls_from B (length (servers s)) (i + 1) (Ptr b' 0)) Q v"
    if v: "holding s v b' t'" "t' @ joined as = t @ joined (y # as)" "net v = map Opens ks' @ rs"
      "effects (trace v) = effects (trace u) @ [e]" "asks_list B (x, port (servers u ! i)) e"
      "\<And>i x. descriptor (fds u) i = Some x \<Longrightarrow> descriptor (fds v) i = Some x" for v b' t' e
  proof (rule Cons.IH [OF v(1) _ v(3) ks(3)])
    show "i + 1 + length as = length (servers s)" using Cons.prems(2) by simp
    fix b'' es z
    assume "holding s z b'' (t' @ joined as)" "net z = rs" "effects (trace z) = effects (trace v) @ es"
      "length es = length as" "list_all2 (asks_list B) (drop (i + 1) (addresses s)) es"
      "\<And>i x. descriptor (fds v) i = Some x \<Longrightarrow> descriptor (fds z) i = Some x"
    then show "Q (Ptr b'' 0) z"
      by (intro Q [of z b'' "e # es"]) (use v ad in simp_all)
  qed
  have "wp (worker_ls_index B i) (\<lambda>ls. wp (if ls = Null then ls_from B (length (servers s)) (i + 1) (Ptr b 0)
      else cbind (strlen (Ptr b 0)) (\<lambda>n. cbind (strlen ls) (\<lambda>m. cbind (realloc (Ptr b 0) (n + m + 2)) (\<lambda>result.
        cseq (sprintf result [PStr result, Txt [CHR 0x0A], PStr ls])
          (ls_from B (length (servers s)) (i + 1) result))))) Q) u"
  proof (cases y)
    case None
    have k: "silent k" using ks(2) None by simp
    show ?thesis
    proof (rule ls_index_silent_then [OF io_mem_wf [OF su] at x(2) net k rm])
      fix e v
      assume v: "io_mem u v" "net v = map Opens ks' @ rs" "effects (trace v) = effects (trace u) @ [e]" "asks_list B (x, port (servers u ! i)) e"
        "\<And>i x. descriptor (fds u) i = Some x \<Longrightarrow> descriptor (fds v) i = Some x"
      have "wp (ls_from B (length (servers s)) (i + 1) (Ptr b 0)) Q v"
        by (rule again [OF holding_io [OF h v(1)] _ v(2-5)]) (simp add: None)
      then show "wp (if Null = Null then ls_from B (length (servers s)) (i + 1) (Ptr b 0)
        else cbind (strlen (Ptr b 0)) (\<lambda>n. cbind (strlen Null) (\<lambda>m. cbind (realloc (Ptr b 0) (n + m + 2)) (\<lambda>result.
          cseq (sprintf result [PStr result, Txt [CHR 0x0A], PStr Null])
            (ls_from B (length (servers s)) (i + 1) result))))) Q v" by simp
    qed
  next
    case (Some l)
    have l: "lists k l" using ks(2) Some by simp
    show ?thesis
    proof (rule ls_index_then [OF io_mem_wf [OF su] clean_mgrows [OF mu clean] at x(2) net l rm])
      fix r e v
      assume v: "io_mem u v" "net v = map Opens ks' @ rs" "next_id u \<le> r" "cstring v (Ptr r 0) = Some l"
        "effects (trace v) = effects (trace u) @ [e]" "asks_list B (x, port (servers u ! i)) e"
        and other: "\<And>i. i \<noteq> int (lowest_free (fds u)) \<Longrightarrow> descriptor (fds v) i = descriptor (fds u) i"
      have hv: "holding s v b t" by (rule holding_io [OF h v(1)])
      have "b < next_id u" using h by (auto simp: holding_def dest: wf_mem_blocks [OF io_mem_wf [OF su]])
      then have rb: "r \<noteq> b" using v(3) by simp
      have "wp (cbind (strlen (Ptr b 0)) (\<lambda>n. cbind (strlen (Ptr r 0)) (\<lambda>m. cbind (realloc (Ptr b 0) (n + m + 2)) (\<lambda>result.
        cseq (sprintf result [PStr result, Txt [CHR 0x0A], PStr (Ptr r 0)])
          (ls_from B (length (servers s)) (i + 1) result))))) Q v"
      proof (rule add_listing_then [OF wf hv v(4) rb])
        fix b' w assume w: "holding s w b' (t @ CHR 0x0A # l)" "fds w = fds v" "net w = net v" "trace w = trace v"
        show "wp (ls_from B (length (servers s)) (i + 1) (Ptr b' 0)) Q w"
        proof (rule again [OF w(1) _ _ _ v(6)])
          show "descriptor (fds w) i = Some x" if "descriptor (fds u) i = Some x" for i x
            using still_open [OF other that] w(2) by simp
        qed (use w v(2,5) Some in simp_all)
      qed
      then show "wp (if Ptr r 0 = Null then ls_from B (length (servers s)) (i + 1) (Ptr b 0)
        else cbind (strlen (Ptr b 0)) (\<lambda>n. cbind (strlen (Ptr r 0)) (\<lambda>m. cbind (realloc (Ptr b 0) (n + m + 2)) (\<lambda>result.
          cseq (sprintf result [PStr result, Txt [CHR 0x0A], PStr (Ptr r 0)])
            (ls_from B (length (servers s)) (i + 1) result))))) Q v" by simp
    qed
  qed
  then show ?case using il by (subst ls_from.simps) (simp add: wp_cbind)
qed

text \<open>The whole listing: it starts with the empty string of a clean byte.\<close>

lemma worker_ls_then:
  fixes s :: "'z tables_scheme"
  assumes wf: "wf_mem s" and clean: "clean_mem s" and ok: "table_ok s"
    and a: "\<And>w. w \<in> set (servers s) \<Longrightarrow> \<exists>a. cstring s (ip w) = Some a \<and> inet_pton4 a"
    and room: "\<And>j. 18 \<le> spare s j + room s j" and as: "length as = length (servers s)"
    and net: "net s = map Opens ks @ rs" "list_all2 says ks as"
    and Q: "\<And>b es u. \<lbrakk>io_mem s u; net u = rs; cstring u (Ptr b 0) = Some (joined as);
        effects (trace u) = effects (trace s) @ es; length es = length as; list_all2 (asks_list B) (addresses s) es;
        \<And>i x. descriptor (fds s) i = Some x \<Longrightarrow> descriptor (fds u) i = Some x\<rbrakk> \<Longrightarrow> Q (Ptr b 0) u"
  shows "wp (worker_ls B) Q s"
proof -
  let ?s = "add_block (fresh_block 1 s) s" and ?b = "next_id s"
  have "grows s ?s" by (intro grows_add_block grows_refl wf) simp
  then have io: "io_mem s ?s" by (rule grows_io_mem)
  obtain c r where b: "fresh_bytes 1 s = c # r" by (cases "fresh_bytes 1 s") (use length_fresh_bytes [of 1 s] in auto)
  have "c \<in> set (fresh_bytes 1 s)" using b by simp
  then have "c = NUL" using clean by (auto simp: fresh_bytes_def clean_mem_def)
  then have h: "holding s ?s ?b []" using io b by (simp add: holding_def)
  have n: "unat (of_nat (length (servers s)) :: u16) = length (servers s)"
    using table_ok_count [OF ok] by simp
  have as': "0 + length as = length (servers s)" using as by simp
  have "wp (ls_from B (length (servers s)) 0 (Ptr ?b 0)) (\<lambda>result. wp (cbind (strlen result) (\<lambda>m.
      cbind (realloc result (m + 1)) (\<lambda>result. cseq (sprintf result [PStr result]) (cret result)))) Q) ?s"
  proof (rule ls_from_then [OF wf clean ok a room h as' _ net(2)])
    show "net ?s = map Opens ks @ rs" using net(1) by simp
    fix b es u
    let ?t = "[] @ joined as"
    assume u: "holding s u b ?t" "net u = rs" "effects (trace u) = effects (trace ?s) @ es" "length es = length as"
      "list_all2 (asks_list B) (drop 0 (addresses s)) es" "\<And>i x. descriptor (fds ?s) i = Some x \<Longrightarrow> descriptor (fds u) i = Some x"
    have ct: "cstring u (Ptr b 0) = Some ?t" using u(1) by (simp add: holding_def)
    have "wp (realloc (Ptr b 0) (length ?t + 1)) (\<lambda>result. wp (cseq (sprintf result [PStr result]) (cret result)) Q) u"
    proof (rule regrow_then [OF wf u(1)])
      let ?c = "next_id u"
      fix k v assume v: "holding s v ?c ?t" "writable v (Ptr ?c 0) (length ?t + 1)" "v = add_block k (del_block b u)"
      have cv: "cstring v (Ptr ?c 0) = Some ?t" using v(1) by (simp add: holding_def)
      have "wp (sprintf (Ptr ?c 0) [PStr (Ptr ?c 0)]) (\<lambda>_. Q (Ptr ?c 0)) v"
      proof (rule print_into_then [OF wf v(1)])
        show "text_of v [PStr (Ptr ?c 0)] = Some ?t" using cv by (simp del: cstring.simps)
        show "NUL \<notin> set ?t" by (rule holding_no_nul [OF v(1)])
        show "writable v (Ptr ?c 0) (Suc (length ?t))" using v(2) by (simp del: writable.simps)
        fix w assume w: "holding s w ?c ?t" "fds w = fds v" "net w = net v" "trace w = trace v"
        show "Q (Ptr ?c 0) w"
          by (rule Q [of w ?c es]) (use w u v(3) in \<open>simp_all add: holding_def del: cstring.simps\<close>)
      qed
      then show "wp (cseq (sprintf (Ptr ?c 0) [PStr (Ptr ?c 0)]) (cret (Ptr ?c 0))) Q v"
        by (simp add: wp_cseq wp_cret wp_funs)
    qed simp
    then show "wp (cbind (strlen (Ptr b 0)) (\<lambda>m. cbind (realloc (Ptr b 0) (m + 1)) (\<lambda>result.
        cseq (sprintf result [PStr result]) (cret result)))) Q u"
      using ct by (simp add: wp_cbind [of "strlen _"] wp_strlen wp_cbind [of "realloc _ _"] del: cstring.simps)
  qed
  then show ?thesis
    using table_count_run [OF ok] n
    by (simp add: worker_ls_def worker_count_def wp_cbind [of "table_count"] wp_eq wp_cbind [of "malloc _"] wp_malloc
        wp_cbind [of "ls_from _ _ _ _"])
qed

section \<open>The request of a client\<close>

lemma list_answered:
  fixes s :: "'z master_scheme"
  assumes wf: "wf_mem s" and clean: "clean_mem s" and ok: "table_ok s" "servers s \<noteq> []"
    and p: "has_packet c READ_SZ bs s" and ty: "wire_type bs = LS"
    and a: "\<And>w. w \<in> set (servers s) \<Longrightarrow> \<exists>a. cstring s (ip w) = Some a \<and> inet_pton4 a"
    and as: "length as = length (servers s)"
    and net: "net s = map Opens ks @ rs" "list_all2 says ks as"
    and room: "\<And>j. 18 \<le> spare s j + room s j"
  shows "wp (handle_client B c) (\<lambda>_ t. io_mem s t \<and> net t = rs \<and>
      (\<exists>es. effects (trace t) = effects (trace s) @ es @ [Sent (fd c) Caller (joined as @ [NUL])] \<and>
        length es = length as \<and> list_all2 (asks_list B) (addresses s) es)) s" (is "wp _ ?Q s")
proof (rule request_served_then [OF wf ok p, unfolded ty])
  fix b y k and t :: "'z master_scheme"
  assume t: "io_mem s t" "net t = net s" "effects (trace t) = effects (trace s)" "next_id s \<le> b" "live t (Ptr b 0)"
    "descriptor (fds t) (fd c) = Some k" "accepts k" "peer k = Caller" "table_ok t" "servers t = servers s"
  note mt = io_mem_mgrows [OF t(1)]
  have ad: "addresses t = addresses s" by (rule addresses_io [OF t(1) a])
  have "wp (worker_ls B) (\<lambda>p. wp (cbind (strlen p) (\<lambda>m. cseq (conn_write B c p (m + 1)) (free (Ptr b 0)))) ?Q) t"
  proof (rule worker_ls_then [OF mgrows_wf [OF mt] clean_mgrows [OF mt clean] t(9) _ _ _ _ net(2)])
    show "\<exists>a. cstring t (ip w) = Some a \<and> inet_pton4 a" if "w \<in> set (servers t)" for w
      using a [of w] that mgrows_cstring [OF mt] by (auto simp: t(10))
    show "18 \<le> spare t j + room t j" for j using room [of j] by (simp add: mgrows_oracles [OF mt])
    show "length as = length (servers t)" "net t = map Opens ks @ rs" using as net(1) t(2,10) by simp_all
    fix r es and u :: "'z master_scheme"
    assume u: "io_mem t u" "net u = rs" "cstring u (Ptr r 0) = Some (joined as)" "effects (trace u) = effects (trace t) @ es"
      "length es = length as" "list_all2 (asks_list B) (addresses t) es"
      "\<And>i x. descriptor (fds t) i = Some x \<Longrightarrow> descriptor (fds u) i = Some x"
    show "wp (cbind (strlen (Ptr r 0)) (\<lambda>m. cseq (conn_write B c (Ptr r 0) (m + 1)) (free (Ptr b 0)))) ?Q u"
    proof (rule reply_then [OF io_mem_wf [OF u(1)] u(3) mgrows_live [OF io_mem_mgrows [OF u(1)] t(5)] u(7) [OF t(6)] t(7,8)])
      fix v :: "'z master_scheme"
      assume v: "io_mem u v" "net v = net u" "effects (trace v) = effects (trace u) @ [Sent (fd c) Caller (joined as @ [NUL])]"
      have "io_mem s (del_block b v)"
        by (rule io_mem_free [OF wf io_mem_trans [OF t(1) io_mem_trans [OF u(1) v(1)]] t(4)])
      then show "?Q () (del_block b v)" using v(2,3) u(2,4-6) t(3) ad by simp
    qed
  qed
  then show "wp (handle_request B LS (Ptr y 0))
      (\<lambda>p. wp (cbind (strlen p) (\<lambda>m. cseq (conn_write B c p (m + 1)) (free (Ptr b 0)))) ?Q) t"
    by (simp add: handle_request_def exec_str_def)
qed (simp add: ty)

lemma list_request:
  fixes s :: "'z master_scheme"
  assumes wf: "wf_mem s" and clean: "clean_mem s" and ok: "table_ok s" "servers s \<noteq> []"
    and p: "has_packet c READ_SZ bs s" and ty: "wire_type bs = LS"
    and a: "\<And>w. w \<in> set (servers s) \<Longrightarrow> \<exists>a. cstring s (ip w) = Some a \<and> inet_pton4 a"
    and as: "length as = length (servers s)"
    and net: "net s = map Opens ks @ rs" "list_all2 says ks as"
    and room: "\<And>j. 18 \<le> spare s j + room s j"
  shows "wp (handle_client B c) (\<lambda>_ t. servers t = servers s \<and> table_ok t \<and>
      (\<exists>es. effects (trace t) = effects (trace s) @ es @ [Sent (fd c) Caller (joined as @ [NUL])] \<and>
        length es = length as \<and> list_all2 (asks_list B) (addresses s) es)) s"
  by (rule wp_mono [OF list_answered [OF assms]]) (use ok in \<open>auto simp: master_io\<close>)

section \<open>Properties\<close>

text \<open>
  A client asks for a listing: every worker of the table is asked once, at its address and port
  and in the order of the table, and the answer is made of the listings that arrive, each with a line
  feed before it; a worker that says nothing is left out.
\<close>

theorem list_collects:
  fixes s :: "'z master_scheme"
  assumes "wf_mem s" and "clean_mem s" and "table_ok s" and "servers s \<noteq> []"
    and "has_packet c READ_SZ bs s" and "wire_type bs = LS"
    and "\<And>w. w \<in> set (servers s) \<Longrightarrow> \<exists>a. cstring s (ip w) = Some a \<and> inet_pton4 a"
    and "length as = length (servers s)" and "net s = map Opens ks @ rs" and "list_all2 says ks as"
    and "\<And>j. 18 \<le> spare s j + room s j"
  shows "wp (handle_client B c) (\<lambda>_ t. servers t = servers s \<and> table_ok t \<and>
      (\<exists>es. effects (trace t) = effects (trace s) @ es @ [Sent (fd c) Caller (joined as @ [NUL])] \<and>
        length es = length as \<and> list_all2 (asks_list B) (addresses s) es)) s"
  using assms by (rule list_request)

lemma sample_lists: "NUL \<notin> set l \<Longrightarrow> length l \<le> 1000 \<Longrightarrow> lists (carries (wire_msg 1 LS 1 l)) l"
  by (simp add: lists_def WORKER_READ_LEN_def sizeof_packet_def header_size_def unat_length)

theorem list_collects_witness:
  "wp (handle_client test_build sample_conn) (\<lambda>_ t. \<exists>e1 e2 e3.
      effects (trace t) = [e1, e2, e3, Sent 0 Caller (CHR 0x0A # ''a.txt'' @ CHR 0x0A # ''b.txt'' @ [NUL])] \<and>
      asks_list test_build (''127.0.0.1'', 55443) e1 \<and> asks_list test_build (''127.0.0.1'', 55444) e2 \<and>
      asks_list test_build (''127.0.0.1'', 55443) e3)
     (sample_master [sample_worker, other_worker, sample_worker] [Some (carries (wire_msg 0 LS 0 []))]
       [Opens (carries (wire_msg 1 LS 1 ''a.txt'')), Opens \<lparr>incoming = [], accepts = True, peer = Caller\<rparr>,
        Opens (carries (wire_msg 1 LS 1 ''b.txt''))])"
    (is "wp _ _ ?s")
proof (rule wp_mono [OF list_collects [OF _ _ _ _ sample_has_packet,
      where as = "[Some ''a.txt'', None, Some ''b.txt'']" and rs = "[]"
      and ks = "[carries (wire_msg 1 LS 1 ''a.txt''), \<lparr>incoming = [], accepts = True, peer = Caller\<rparr>, carries (wire_msg 1 LS 1 ''b.txt'')]"]])
  show "wire_type (wire_msg 0 LS 0 []) = LS" by (rule wire_msg_fields(5)) simp
  show "list_all2 says [carries (wire_msg 1 LS 1 ''a.txt''), \<lparr>incoming = [], accepts = True, peer = Caller\<rparr>,
      carries (wire_msg 1 LS 1 ''b.txt'')] [Some ''a.txt'', None, Some ''b.txt'']"
    by (simp add: silent_def sample_lists)
  fix x :: unit and t
  assume "servers t = servers ?s \<and> table_ok t \<and>
      (\<exists>es. effects (trace t) = effects (trace ?s) @ es @
          [Sent (fd sample_conn) Caller (joined [Some ''a.txt'', None, Some ''b.txt''] @ [NUL])] \<and>
        length es = length [Some ''a.txt'', None, Some ''b.txt''] \<and>
        list_all2 (asks_list test_build) (addresses ?s) es)"
  then show "\<exists>e1 e2 e3. effects (trace t) =
        [e1, e2, e3, Sent 0 Caller (CHR 0x0A # ''a.txt'' @ CHR 0x0A # ''b.txt'' @ [NUL])] \<and>
      asks_list test_build (''127.0.0.1'', 55443) e1 \<and> asks_list test_build (''127.0.0.1'', 55444) e2 \<and>
      asks_list test_build (''127.0.0.1'', 55443) e3"
    by (auto simp: sample_conn_def length_Suc_conv sample_addresses list_all2_Cons1)
qed (use sample_address in \<open>auto simp del: cstring.simps\<close>)

end
