(* ===== verification/Forwarding.thy ===== *)
theory Forwarding
  imports Listings
begin

text \<open>
  How the master deletes a file (\<^verbatim>\<open>worker_delete\<close>, \<^verbatim>\<open>find_by_file\<close> and \<^verbatim>\<open>worker_ls_index\<close> of
  \<^verbatim>\<open>src/worker_admin.c\<close>): it asks the workers for their listings, one after the other, and sends
  the request to the first whose listing has the name somewhere in it.
\<close>

section \<open>The search\<close>

text \<open>How many workers are asked for their listing.\<close>

definition asked_count :: "string \<Rightarrow> string list \<Rightarrow> nat" where
  "asked_count f ls = (case first_idx (occurs f) ls of None \<Rightarrow> length ls | Some j \<Rightarrow> Suc j)"

lemma asked_count_simps [simp]:
  "asked_count f [] = 0"
  "asked_count f (l # ls) = (if occurs f l then 1 else Suc (asked_count f ls))"
  by (simp_all add: asked_count_def split: option.split)

text \<open>The machine of the first worker whose listing has the name.\<close>

definition holder :: "string \<Rightarrow> string list \<Rightarrow> 'a list \<Rightarrow> 'a option" where
  "holder f ls hs = map_option ((!) hs) (first_idx (occurs f) ls)"

lemma holder_None [simp]: "holder f ls hs = None \<longleftrightarrow> first_idx (occurs f) ls = None"
  by (simp add: holder_def)

lemma find_from_then:
  fixes s :: "'z tables_scheme"
  assumes wf: "wf_mem s" and clean: "clean_mem s" and ok: "table_ok s"
    and a: "\<And>w. w \<in> set (servers s) \<Longrightarrow> \<exists>a. cstring s (ip w) = Some a \<and> inet_pton4 a"
    and f: "cstring s file = Some f" and room: "\<And>j. 18 \<le> spare s j + room s j"
    and i: "i + length ls = length (servers s)"
    and net: "net s = map Opens ks @ rs" "list_all2 lists ks (take (asked_count f ls) ls)"
    and Q: "\<And>es u. \<lbrakk>io_mem s u; net u = rs; effects (trace u) = effects (trace s) @ es;
        length es = asked_count f ls; list_all2 (asks_list B) (take (asked_count f ls) (drop i (addresses s))) es;
        \<And>i x. descriptor (fds s) i = Some x \<Longrightarrow> descriptor (fds u) i = Some x\<rbrakk> \<Longrightarrow>
      Q (ref_of (map_option ((+) i) (first_idx (occurs f) ls)) s) u"
  shows "wp (find_file_from B file (length (servers s)) i) Q s"
  using assms
proof (induction ls arbitrary: i s ks Q)
  case Nil
  then show ?case
    using Nil.prems(10) [of s "[]"]
    by (subst find_file_from.simps) (simp add: wp_cret io_mem_def mgrows_refl ref_of_def)
next
  case (Cons l ls)
  note wf = Cons.prems(1) and clean = Cons.prems(2) and ok = Cons.prems(3) and a = Cons.prems(4)
    and f = Cons.prems(5) and room = Cons.prems(6) and Q = Cons.prems(10)
  let ?w = "servers s ! i"
  have il: "i < length (servers s)" using Cons.prems(7) by simp
  obtain x where x: "cstring s (ip ?w) = Some x" "inet_pton4 x" using a [of ?w] il by auto
  obtain k ks' where ks: "ks = k # ks'" "lists k l"
    using Cons.prems(9) by (auto simp: list_all2_Cons2 split: if_splits)
  have net: "net s = Opens k # map Opens ks' @ rs" using Cons.prems(8) by (simp add: ks(1))
  have "wp (worker_ls_index B i) (\<lambda>p. wp (cbind (strstr p file) (\<lambda>found.
      if found then getfs_index i else find_file_from B file (length (servers s)) (i + 1))) Q) s"
  proof (rule ls_index_then [OF wf clean ok il x net ks(2) room])
    fix p e u
    assume u: "io_mem s u" "net u = map Opens ks' @ rs" "cstring u p = Some l"
      "effects (trace u) = effects (trace s) @ [e]" "asks_list B (x, port ?w) e"
      and other: "\<And>i. i \<noteq> int (lowest_free (fds s)) \<Longrightarrow> descriptor (fds u) i = descriptor (fds s) i"
    note tab = tables_io [OF u(1)] and mu = io_mem_mgrows [OF u(1)]
    have ad: "addresses u = addresses s" by (rule addresses_io [OF u(1) a])
    have dr: "drop i (addresses s) = (x, port ?w) # drop (Suc i) (addresses s)" by (rule drop_addresses [OF il x(1)])
    have open': "descriptor (fds s) i = Some x \<Longrightarrow> descriptor (fds u) i = Some x" for i x
      by (rule still_open [OF other])
    have fu: "cstring u file = Some f" by (rule mgrows_cstring [OF mu f])
    have "wp (if occurs f l then getfs_index i else find_file_from B file (length (servers s)) (i + 1)) Q u"
    proof (cases "occurs f l")
      case True
      then have "ks' = []" using Cons.prems(9) by (simp add: ks)
      then have "Q (ref_of (Some i) s) u"
        using Q [OF u(1) _ u(4) _ _ open'] u(2,5) True dr by simp
      then show ?thesis
        using True getfs_index_run [of u i] ok il by (simp add: tab wp_eq)
    next
      case False
      have "wp (find_file_from B file (length (servers u)) (i + 1)) Q u"
      proof (rule Cons.IH [OF io_mem_wf [OF u(1)] clean_mgrows [OF mu clean] _ _ fu _ _ u(2)])
        show "table_ok u" using ok by (simp add: tab)
        show "\<exists>a. cstring u (ip w) = Some a \<and> inet_pton4 a" if "w \<in> set (servers u)" for w
          using a [of w] that mgrows_cstring [OF mu] by (auto simp: tab)
        show "18 \<le> spare u j + room u j" for j using room [of j] by (simp add: mgrows_oracles [OF mu])
        show "i + 1 + length ls = length (servers u)" using Cons.prems(7) by (simp add: tab)
        show "list_all2 lists ks' (take (asked_count f ls) ls)" using Cons.prems(9) False by (simp add: ks)
        fix es y
        assume y: "io_mem u y" "net y = rs" "effects (trace y) = effects (trace u) @ es"
          "length es = asked_count f ls" "list_all2 (asks_list B) (take (asked_count f ls) (drop (i + 1) (addresses u))) es"
          "\<And>i x. descriptor (fds u) i = Some x \<Longrightarrow> descriptor (fds y) i = Some x"
        have r: "map_option ((+) i) (first_idx (occurs f) (l # ls)) = map_option ((+) (i + 1)) (first_idx (occurs f) ls)"
          using False by (cases "first_idx (occurs f) ls") simp_all
        have "Q (ref_of (map_option ((+) i) (first_idx (occurs f) (l # ls))) s) y"
          by (rule Q [of y "e # es", OF io_mem_trans [OF u(1) y(1)] y(2)])
            (use y u(4,5) False open' dr ad in simp_all)
        then show "Q (ref_of (map_option ((+) (i + 1)) (first_idx (occurs f) ls)) u) y"
          unfolding r by (simp add: tab)
      qed
      then show ?thesis using False by (simp add: tab)
    qed
    then show "wp (cbind (strstr p file) (\<lambda>found.
        if found then getfs_index i else find_file_from B file (length (servers s)) (i + 1))) Q u"
      using u(3) fu by (simp add: strstr_def wp_cbind wp_get_str wp_cret del: cstring.simps)
  qed
  then show ?case using il by (subst find_file_from.simps) (simp add: wp_cbind)
qed


text \<open>
  A worker that says nothing gives a null listing, and the search is ended by a null dereference.
\<close>

lemma find_from_faults:
  fixes s :: "'z tables_scheme"
  assumes wf: "wf_mem s" and clean: "clean_mem s" and ok: "table_ok s"
    and a: "\<And>w. w \<in> set (servers s) \<Longrightarrow> \<exists>a. cstring s (ip w) = Some a \<and> inet_pton4 a"
    and f: "cstring s file = Some f" and room: "\<And>j. 18 \<le> spare s j + room s j"
    and i: "i + length ls < length (servers s)"
    and net: "net s = map Opens ks @ Opens k # rs" "list_all2 lists ks ls" "silent k"
    and no: "\<forall>l \<in> set ls. \<not> occurs f l"
  shows "find_file_from B file (length (servers s)) i s = Inl NullDeref"
  using assms
proof (induction ls arbitrary: i s ks)
  case Nil
  let ?w = "servers s ! i"
  have il: "i < length (servers s)" using Nil.prems(7) by simp
  obtain x where x: "cstring s (ip ?w) = Some x" "inet_pton4 x" using Nil.prems(4) [of ?w] il by auto
  have net: "net s = Opens k # rs" using Nil.prems(8,9) by simp
  have "cbind (worker_ls_index B i) (\<lambda>l. cbind (strstr l file) (\<lambda>found.
      if found then getfs_index i else find_file_from B file (length (servers s)) (i + 1))) s = Inl NullDeref"
    by (rule wp_fault, rule ls_index_silent_then [OF Nil.prems(1,3) il x net Nil.prems(10,6)])
      (simp add: strstr_def cbind_def)
  then show ?case using il by (subst find_file_from.simps) simp
next
  case (Cons l ls)
  note prems = Cons.prems
  let ?w = "servers s ! i"
  have il: "i < length (servers s)" using prems(7) by simp
  obtain x where x: "cstring s (ip ?w) = Some x" "inet_pton4 x" using prems(4) [of ?w] il by auto
  obtain k1 ks' where ks: "ks = k1 # ks'" "lists k1 l" "list_all2 lists ks' ls"
    using prems(9) by (auto simp: list_all2_Cons2)
  have net: "net s = Opens k1 # map Opens ks' @ Opens k # rs" using prems(8) by (simp add: ks(1))
  have "cbind (worker_ls_index B i) (\<lambda>l. cbind (strstr l file) (\<lambda>found.
      if found then getfs_index i else find_file_from B file (length (servers s)) (i + 1))) s = Inl NullDeref"
  proof (rule wp_fault, rule ls_index_then [OF prems(1-3) il x net ks(2) prems(6)])
    fix r e u
    assume u: "io_mem s u" "net u = map Opens ks' @ Opens k # rs" "cstring u (Ptr r 0) = Some l"
    note tab = tables_io [OF u(1)] and mu = io_mem_mgrows [OF u(1)]
    have fu: "cstring u file = Some f" by (rule mgrows_cstring [OF mu prems(5)])
    have "find_file_from B file (length (servers u)) (i + 1) u = Inl NullDeref"
    proof (rule Cons.IH [OF io_mem_wf [OF u(1)] clean_mgrows [OF mu prems(2)] _ _ fu _ _ u(2) ks(3) prems(10)])
      show "table_ok u" using prems(3) by (simp add: tab)
      show "\<exists>a. cstring u (ip w) = Some a \<and> inet_pton4 a" if "w \<in> set (servers u)" for w
        using prems(4) [of w] that mgrows_cstring [OF mu] by (auto simp: tab)
      show "18 \<le> spare u j + room u j" for j using prems(6) [of j] by (simp add: mgrows_oracles [OF mu])
      show "i + 1 + length ls < length (servers u)" using prems(7) by (simp add: tab)
    qed (use prems(11) in simp)
    then have "(if occurs f l then getfs_index i else find_file_from B file (length (servers s)) (i + 1)) u =
        Inl NullDeref" using prems(11) by (simp add: tab)
    then show "cbind (strstr (Ptr r 0) file) (\<lambda>found.
      if found then getfs_index i else find_file_from B file (length (servers s)) (i + 1)) u = Inl NullDeref"
      using wp_eq [of "get_str (Ptr r 0)"] u(3) fu
      by (intro wp_fault) (simp add: strstr_def wp_cbind wp_get_str wp_cret del: cstring.simps)
  qed
  then show ?case using il by (subst find_file_from.simps) simp
qed

section \<open>The request to delete\<close>

lemma find_by_file_then:
  fixes s :: "'z tables_scheme"
  assumes wf: "wf_mem s" and clean: "clean_mem s" and ok: "table_ok s"
    and a: "\<And>w. w \<in> set (servers s) \<Longrightarrow> \<exists>a. cstring s (ip w) = Some a \<and> inet_pton4 a"
    and f: "cstring s file = Some f" and room: "\<And>j. 18 \<le> spare s j + room s j"
    and ls: "length ls = length (servers s)"
    and net: "net s = map Opens ks @ rs" "list_all2 lists ks (take (asked_count f ls) ls)"
    and Q: "\<And>es u. \<lbrakk>io_mem s u; net u = rs; effects (trace u) = effects (trace s) @ es;
        length es = asked_count f ls; list_all2 (asks_list B) (take (asked_count f ls) (addresses s)) es;
        \<And>i x. descriptor (fds s) i = Some x \<Longrightarrow> descriptor (fds u) i = Some x\<rbrakk> \<Longrightarrow>
      Q (ref_of (first_idx (occurs f) ls) s) u"
  shows "wp (find_by_file B file) Q s"
proof -
  have z: "map_option ((+) 0) r = r" for r :: "nat option" by (cases r) simp_all
  have i: "0 + length ls = length (servers s)" using ls by simp
  have n: "unat (of_nat (length (servers s)) :: u16) = length (servers s)"
    using table_ok_count [OF ok] by simp
  have "wp (find_file_from B file (length (servers s)) 0) Q s"
    by (rule find_from_then [OF wf clean ok a f room i net]) (use Q in \<open>simp_all add: z\<close>)
  then show ?thesis
    using table_count_run [OF ok] by (simp add: find_by_file_def worker_count_def wp_cbind wp_eq n)
qed

text \<open>The packet that asks the worker of a machine to delete; the 18 bytes behind it are not part of it.\<close>

definition deletes :: "build \<Rightarrow> string \<Rightarrow> string \<times> u16 \<Rightarrow> event list \<Rightarrow> bool" where
  "deletes B f h es \<longleftrightarrow> (\<exists>g leak. length leak = 18 \<and>
     es = [Sent g (Host (fst h) (snd h)) (wire_msg 0 DELETE (MASTER_TKN B) f @ leak), Closed g])"

lemma send_delete_then:
  fixes s :: "'z tables_scheme"
  assumes wf: "wf_mem s" and ok: "table_ok s" and j: "j < length (servers s)"
    and a: "cstring s (ip (servers s ! j)) = Some a" "inet_pton4 a"
    and f: "cstring s file = Some f" "length f + 1 < 2 ^ 32" and room: "\<And>j. 18 \<le> spare s j + room s j"
    and net: "net s = Opens d # rs" "accepts d"
    and Q: "\<And>es u. \<lbrakk>io_mem s u; net u = rs; effects (trace u) = effects (trace s) @ es; deletes B f (a, port (servers s ! j)) es;
        \<And>i x. descriptor (fds s) i = Some x \<Longrightarrow> descriptor (fds u) i = Some x\<rbrakk> \<Longrightarrow> Q () u"
  shows "wp (cbind (p_init 0 file DELETE) (\<lambda>p. cbind (deref (Slot (table_gen s) j)) (\<lambda>server.
    cbind (client_init (ip server) (port server)) (\<lambda>worker.
    cbind (p_encode (attach_token (MASTER_TKN B) p)) (\<lambda>pk. cbind (strlen file) (\<lambda>n.
    cseq (conn_write B worker pk (sizeof_packet + n)) (cbind (conn_close B worker) (\<lambda>_. cskip)))))))) Q s"
  unfolding wp_cbind [of "p_init _ _ _"]
proof (rule wp_p_init [OF wf f(1)])
  fix e t assume t: "grows s t" "peek t (Ptr e 0) (length f) = Some f"
  let ?p = "attach_token (MASTER_TKN B) \<lparr>seq_number = 0, arg = Ptr e 0, msg_len = of_nat (length f), pk_error = 0,
     token = 0, msg_type = DELETE\<rparr>"
  let ?w = "servers s ! j" and ?g = "lowest_free (fds s)"
  let ?d = "d\<lparr>peer := Host a (port ?w)\<rparr>"
  have st: "io_mem s t" by (rule grows_io_mem [OF t(1)])
  have n0: "unat (msg_len ?p) = length f" using unat_length [of f] f(2) by (simp add: attach_token_def)
  have top: "msg_len ?p \<noteq> - 1" using length_not_top [OF f(2)] by (simp add: attach_token_def)
  have wire: "wire ?p f = wire_msg 0 DELETE (MASTER_TKN B) f" by (simp add: wire_msg_def wire_def attach_token_def)
  have dr: "deref (Slot (table_gen s) j) t = Inr (?w, t)"
    using deref_run [of t j] tables_io [OF st] ok j tables_more(3) [OF logst_more(2), of t s] st
    by (simp add: io_mem_def)
  have "wp (client_init (ip ?w) (port ?w)) (\<lambda>c. wp (cbind (p_encode ?p) (\<lambda>pk. cbind (strlen file) (\<lambda>n.
      cseq (conn_write B c pk (sizeof_packet + n)) (cbind (conn_close B c) (\<lambda>_. cskip))))) Q) t"
  proof (rule client_init_then [OF grows_wf [OF t(1)] grows_cstring [OF t(1) a(1)] a(2)])
    show "net t = Opens d # rs" using net(1) by (simp add: grows_os [OF t(1)])
    fix m u assume u: "io_mem t u" "net u = rs" "trace u = trace t" "fds u = install (lowest_free (fds t)) ?d (fds t)"
    let ?c = "\<lparr>c_error = 0, error_msg = m, fd = int (lowest_free (fds t)), max_bytes = 0\<rparr> :: conn"
    have ft: "fds t = fds s" "trace t = trace s" by (simp_all add: grows_os [OF t(1)])
    have su: "io_mem s u" by (rule io_mem_trans [OF st u(1)])
    have "wp (p_encode ?p) (\<lambda>pk. wp (cbind (strlen file) (\<lambda>n. cseq (conn_write B ?c pk (sizeof_packet + n))
        (cbind (conn_close B ?c) (\<lambda>_. cskip)))) Q) u"
    proof (rule encoded_then [OF io_mem_wf [OF su] top, where body = f and n = "40 + length f"])
      show "peek u (arg ?p) (unat (msg_len ?p)) = Some f"
        unfolding n0 using mgrows_peek [OF io_mem_mgrows [OF u(1)] t(2)] by (simp add: attach_token_def)
      show "40 + length f \<le> 23 + unat (msg_len ?p) + spare u (next_id u) + room u (next_id u)"
        unfolding n0 using room [of "next_id u"] by (simp add: mgrows_oracles [OF io_mem_mgrows [OF su]])
      show "22 + unat (msg_len ?p) \<le> 40 + length f" unfolding n0 by simp
      fix leak b v assume v: "grows u v" "length leak = 40 + length f - (22 + unat (msg_len ?p))"
        "peek v (Ptr b 0) (40 + length f) = Some (wire ?p f @ leak)"
      have sv: "io_mem s v" by (rule io_mem_grows [OF su v(1)])
      have dv: "descriptor (fds v) (fd ?c) = Some ?d" "accepts ?d" using net(2) by (simp_all add: grows_os [OF v(1)] u(4))
      have "wp (conn_write B ?c (Ptr b 0) (40 + length f)) (\<lambda>_. wp (cbind (conn_close B ?c) (\<lambda>_. cskip)) Q) v"
      proof (rule conn_write_then [OF dv v(3)])
        fix y assume y: "io v y" "fds y = fds v" "net y = net v"
          "effects (trace y) = effects (trace v) @ [Sent (fd ?c) (peer ?d) (wire ?p f @ leak)]"
        have sy: "io_mem s y" by (rule io_mem_io [OF sv y(1)])
        show "wp (cbind (conn_close B ?c) (\<lambda>_. cskip)) Q y"
          unfolding wp_cbind
        proof (rule conn_close_then [OF io_mem_wf [OF sy]])
          fix m' z assume z: "io_mem y z" "net z = net y" "effects (trace z) = effects (trace y) @ [Closed (fd ?c)]"
            "fds z = (if 0 \<le> fd ?c then (fds y)[nat (fd ?c) := None] else fds y)"
          have other: "descriptor (fds z) i = descriptor (fds s) i" if "i \<noteq> int ?g" for i
            using that descriptor_update [of "int ?g" i] descriptor_install_other [of i "fds s" ?d]
            by (simp add: z(4) y(2) grows_os [OF v(1)] u(4) ft)
          let ?es = "[Sent (fd ?c) (peer ?d) (wire_msg 0 DELETE (MASTER_TKN B) f @ leak), Closed (fd ?c)]"
          have ll: "length leak = 18" using v(2) unfolding n0 by simp
          have "Q () z"
          proof (rule Q [where es = ?es, OF io_mem_trans [OF sy z(1)]])
            show "deletes B f (a, port ?w) ?es" using ll by (auto simp: deletes_def)
            show "effects (trace z) = effects (trace s) @ ?es"
              using z(3) y(4) [unfolded wire] by (simp add: grows_os [OF v(1)] u(3) ft)
            show "net z = rs" using z(2) y(3) u(2) by (simp add: grows_os [OF v(1)])
            show "descriptor (fds z) i = Some x" if "descriptor (fds s) i = Some x" for i x
              using still_open [OF other that] .
          qed
          then show "wp cskip Q z" by (simp add: wp_cskip)
        qed
      qed
      moreover have "cstring v file = Some f" by (rule mgrows_cstring [OF io_mem_mgrows [OF sv] f(1)])
      ultimately show "wp (cbind (strlen file) (\<lambda>n. cseq (conn_write B ?c (Ptr b 0) (sizeof_packet + n))
          (cbind (conn_close B ?c) (\<lambda>_. cskip)))) Q v"
        by (simp add: wp_cbind wp_strlen wp_cseq sizeof_packet_def del: cstring.simps)
    qed
    then show "wp (cbind (p_encode ?p) (\<lambda>pk. cbind (strlen file) (\<lambda>n.
      cseq (conn_write B ?c pk (sizeof_packet + n)) (cbind (conn_close B ?c) (\<lambda>_. cskip))))) Q u"
      unfolding wp_cbind [of "p_encode _"] .
  qed
  then show "wp (cbind (deref (Slot (table_gen s) j)) (\<lambda>server.
    cbind (client_init (ip server) (port server)) (\<lambda>worker.
    cbind (p_encode ?p) (\<lambda>pk. cbind (strlen file) (\<lambda>n.
    cseq (conn_write B worker pk (sizeof_packet + n)) (cbind (conn_close B worker) (\<lambda>_. cskip))))))) Q t"
    unfolding wp_cbind [of "deref _"] wp_eq [where m = "deref _", OF dr] wp_cbind [of "client_init _ _"] .
qed


section \<open>A request to delete at the master\<close>

lemma answer_literal_then:
  fixes s :: "'z master_scheme"
  assumes wf: "wf_mem s" and x: "NUL \<notin> set x" and b: "live s (Ptr b 0)"
    and d: "descriptor (fds s) (fd c) = Some k" "accepts k" "peer k = Caller"
    and Q: "\<And>u. \<lbrakk>io_mem s u; net u = net s; effects (trace u) = effects (trace s) @ [Sent (fd c) Caller (x @ [NUL])]\<rbrakk>
      \<Longrightarrow> Q () (del_block b u)"
  shows "wp (cbind (literal x) (\<lambda>p. cbind (strlen p) (\<lambda>m. cseq (conn_write B c p (m + 1)) (free (Ptr b 0))))) Q s"
proof -
  let ?s = "add_block (lit_block x s) s"
  have g: "grows s ?s" by (intro grows_add_block grows_refl wf) (simp add: lit_block_def)
  have p: "cstring ?s (Ptr (next_id s) 0) = Some x" using x by (simp add: lit_block_def c_str_nul)
  have "wp (cbind (strlen (Ptr (next_id s) 0)) (\<lambda>m. cseq (conn_write B c (Ptr (next_id s) 0) (m + 1))
      (free (Ptr b 0)))) Q ?s"
  proof (rule reply_then [OF grows_wf [OF g] p grows_live [OF g b] _ d(2,3)])
    show "descriptor (fds ?s) (fd c) = Some k" using d(1) by (simp add: grows_os [OF g])
    fix u :: "'z master_scheme"
    assume u: "io_mem ?s u" "net u = net ?s" "effects (trace u) = effects (trace ?s) @ [Sent (fd c) Caller (x @ [NUL])]"
    show "Q () (del_block b u)"
      by (rule Q [OF io_mem_trans [OF grows_io_mem [OF g] u(1)]]) (use u(2,3) in \<open>simp_all add: grows_os [OF g]\<close>)
  qed
  then show ?thesis by (simp add: wp_cbind [of "literal _"] wp_literal)
qed

text \<open>What is done with the result of the search: a message, or the request to the worker.\<close>

lemma pass_delete_then:
  fixes s :: "'z master_scheme"
  assumes wf: "wf_mem s" and ok: "table_ok s" and log: "log_ok s" and su: "io_mem s u"
    and a: "\<And>w. w \<in> set (servers s) \<Longrightarrow> \<exists>a. cstring s (ip w) = Some a \<and> inet_pton4 a"
    and j: "\<And>j. fi = Some j \<Longrightarrow> j < length (servers s)" and net: "net u = rs"
    and found: "fi \<noteq> None \<Longrightarrow> rs = Opens d # qs \<and> accepts d"
    and f: "cstring u (Ptr y 0) = Some f" "length f + 1 < 2 ^ 32" and room: "\<And>j. 18 \<le> spare s j + room s j"
    and Q: "\<And>ds v. \<lbrakk>retains s v; retains u v; servers v = servers s; table_ok v; worker_id v = worker_id s;
        net v = (if fi = None then rs else qs); effects (trace v) = effects (trace u) @ ds;
        case map_option ((!) (addresses s)) fi of None \<Rightarrow> ds = [] | Some h \<Rightarrow> deletes B f h ds;
        \<And>b. live u (Ptr b 0) \<Longrightarrow> log_msg u \<noteq> Ptr b 0 \<Longrightarrow> live v (Ptr b 0) \<and> log_msg v \<noteq> Ptr b 0;
        \<And>i x. descriptor (fds u) i = Some x \<Longrightarrow> descriptor (fds v) i = Some x\<rbrakk> \<Longrightarrow> Q () v"
  shows "wp (if ref_of fi u = NoServer then say_text B ERROR ''No workers with that file.''
      else cbind (p_init 0 (Ptr y 0) DELETE) (\<lambda>p. cbind (deref (ref_of fi u)) (\<lambda>server.
        cbind (client_init (ip server) (port server)) (\<lambda>worker.
        cbind (p_encode (attach_token (MASTER_TKN B) p)) (\<lambda>pk. cbind (strlen (Ptr y 0)) (\<lambda>n.
        cseq (conn_write B worker pk (sizeof_packet + n)) (cbind (conn_close B worker) (\<lambda>_. cskip)))))))) Q u"
proof (cases fi)
  case None
  have "wp (say_text B ERROR ''No workers with that file.'') Q u"
  proof (rule say_text_then [OF log_ok_io [OF log su]])
    fix v assume v: "log_frame u v" "effects (trace v) = effects (trace u)"
    note rv = retains_log [OF v(1)]
    show "Q () v"
    proof (rule Q [of v "[]"])
      show "retains s v" by (rule retains_trans [OF retains_io [OF log su] rv])
      show "live v (Ptr b 0) \<and> log_msg v \<noteq> Ptr b 0" if "live u (Ptr b 0)" "log_msg u \<noteq> Ptr b 0" for b
        using log_frame_live [OF v(1) that] by simp
    qed (use v rv net ok None in \<open>simp_all add: master_io [OF su] master_log_frame [OF v(1)] log_frame_def\<close>)
  qed simp_all
  then show ?thesis using None by (simp add: ref_of_def)
next
  case (Some j)
  note mu = io_mem_mgrows [OF su]
  obtain x where x: "cstring s (ip (servers s ! j)) = Some x" "inet_pton4 x" using a nth_mem j [OF Some] by blast
  have rs: "rs = Opens d # qs" "accepts d" using found Some by simp_all
  have "wp (cbind (p_init 0 (Ptr y 0) DELETE) (\<lambda>p. cbind (deref (Slot (table_gen u) j)) (\<lambda>server.
    cbind (client_init (ip server) (port server)) (\<lambda>worker.
    cbind (p_encode (attach_token (MASTER_TKN B) p)) (\<lambda>pk. cbind (strlen (Ptr y 0)) (\<lambda>n.
    cseq (conn_write B worker pk (sizeof_packet + n)) (cbind (conn_close B worker) (\<lambda>_. cskip)))))))) Q u"
  proof (rule send_delete_then [OF io_mem_wf [OF su] _ _ _ x(2) f _ _ rs(2)])
    show "table_ok u" "j < length (servers u)" using ok j [OF Some] by (simp_all add: master_io [OF su])
    show "cstring u (ip (servers u ! j)) = Some x" using mgrows_cstring [OF mu x(1)] by (simp add: master_io [OF su])
    show "18 \<le> spare u j + room u j" for j using room [of j] by (simp add: mgrows_oracles [OF mu])
    show "net u = Opens d # qs" using net rs(1) by simp
    fix ds and v :: "'z master_scheme"
    assume v: "io_mem u v" "effects (trace v) = effects (trace u) @ ds" "deletes B f (x, port (servers u ! j)) ds" "net v = qs"
      and still: "\<And>i x. descriptor (fds u) i = Some x \<Longrightarrow> descriptor (fds v) i = Some x"
    have sv: "io_mem s v" by (rule io_mem_trans [OF su v(1)])
    show "Q () v"
    proof (rule Q [OF retains_io [OF log sv] retains_io [OF log_ok_io [OF log su] v(1)]])
      show "live v (Ptr b 0) \<and> log_msg v \<noteq> Ptr b 0" if "live u (Ptr b 0)" "log_msg u \<noteq> Ptr b 0" for b
        using mgrows_live [OF io_mem_mgrows [OF v(1)] that(1)] that(2) by (simp add: master_io [OF v(1)] del: live.simps)
      have "addresses s ! j = (x, port (servers u ! j))"
        using x(1) j [OF Some] by (simp add: addresses_def master_io [OF su])
      then show "case map_option ((!) (addresses s)) fi of None \<Rightarrow> ds = [] | Some h \<Rightarrow> deletes B f h ds"
        using v(3) Some by simp
    qed (use v still ok Some in \<open>simp_all add: master_io [OF sv]\<close>)
  qed
  then show ?thesis using Some by (simp add: ref_of_def)
qed

lemma delete_performed:
  fixes s :: "'z master_scheme"
  assumes wf: "wf_mem s" and clean: "clean_mem s" and ok: "table_ok s" "servers s \<noteq> []" and log: "log_ok s"
    and p: "has_packet c READ_SZ bs s" and ty: "wire_type bs = DELETE"
    and f: "wire_body bs = f" "NUL \<notin> set f"
    and a: "\<And>w. w \<in> set (servers s) \<Longrightarrow> \<exists>a. cstring s (ip w) = Some a \<and> inet_pton4 a"
    and ls: "length ls = length (servers s)"
    and net: "net s = map Opens ks @ rs" "list_all2 lists ks (take (asked_count f ls) ls)"
    and found: "first_idx (occurs f) ls \<noteq> None \<Longrightarrow> rs = Opens d # qs \<and> accepts d"
    and room: "\<And>j. 18 \<le> spare s j + room s j"
  shows "wp (handle_client B c) (\<lambda>_ t. retains s t \<and> servers t = servers s \<and> table_ok t \<and>
      worker_id t = worker_id s \<and> net t = (if first_idx (occurs f) ls = None then rs else qs) \<and>
      (\<exists>es ds. effects (trace t) = effects (trace s) @ es @ ds @ [Sent (fd c) Caller (''1'' @ [NUL])] \<and>
        length es = asked_count f ls \<and> list_all2 (asks_list B) (take (asked_count f ls) (addresses s)) es \<and>
        (case holder f ls (addresses s) of None \<Rightarrow> ds = [] | Some h \<Rightarrow> deletes B f h ds))) s" (is "wp _ ?Q s")
proof (rule request_served_then [OF wf ok p, unfolded ty])
  fix b y k and t :: "'z master_scheme"
  assume t: "io_mem s t" "net t = net s" "effects (trace t) = effects (trace s)" "next_id s \<le> b" "live t (Ptr b 0)"
    and k: "descriptor (fds t) (fd c) = Some k" "accepts k" "peer k = Caller"
    and str: "clean_mem s \<Longrightarrow> NUL \<notin> set (wire_body bs) \<Longrightarrow> cstring t (Ptr y 0) = Some (wire_body bs)"
    and tab: "table_ok t" "servers t = servers s" and len: "length (wire_body bs) + 22 \<le> READ_SZ"
  have mt: "mgrows s t" by (rule io_mem_mgrows [OF t(1)])
  have ft: "cstring t (Ptr y 0) = Some f" using str [OF clean] f by simp
  have lenf: "length f + 1 < 2 ^ 32" using len by (simp add: f(1) READ_SZ_def)
  have ad: "addresses t = addresses s" by (rule addresses_io [OF t(1) a])
  have lb: "log_msg t \<noteq> Ptr b 0" using log_ok_below [OF log t(4)] by (simp add: master_io [OF t(1)])
  let ?answer = "cbind (literal ''1'') (\<lambda>p. cbind (strlen p) (\<lambda>m. cseq (conn_write B c p (m + 1)) (free (Ptr b 0))))"
  have "wp (find_by_file B (Ptr y 0)) (\<lambda>w. wp (if w = NoServer then say_text B ERROR ''No workers with that file.''
      else cbind (p_init 0 (Ptr y 0) DELETE) (\<lambda>p. cbind (deref w) (\<lambda>server.
        cbind (client_init (ip server) (port server)) (\<lambda>worker.
        cbind (p_encode (attach_token (MASTER_TKN B) p)) (\<lambda>pk. cbind (strlen (Ptr y 0)) (\<lambda>n.
        cseq (conn_write B worker pk (sizeof_packet + n)) (cbind (conn_close B worker) (\<lambda>_. cskip))))))))
      (\<lambda>_. wp ?answer ?Q)) t"
  proof (rule find_by_file_then [OF io_mem_wf [OF t(1)] clean_mgrows [OF mt clean] tab(1) _ ft])
    show "\<exists>a. cstring t (ip w) = Some a \<and> inet_pton4 a" if "w \<in> set (servers t)" for w
      using a [of w] that mgrows_cstring [OF mt] by (auto simp: tab(2))
    show "18 \<le> spare t j + room t j" for j using room [of j] by (simp add: mgrows_oracles [OF mt])
    show "length ls = length (servers t)" using ls by (simp add: tab(2))
    show "net t = map Opens ks @ rs" using net(1) t(2) by simp
    show "list_all2 lists ks (take (asked_count f ls) ls)" by (rule net(2))
    fix es and u :: "'z master_scheme"
    assume u: "io_mem t u" "net u = rs" "effects (trace u) = effects (trace t) @ es" "length es = asked_count f ls"
      "list_all2 (asks_list B) (take (asked_count f ls) (addresses t)) es" and open': "\<And>i x. descriptor (fds t) i = Some x \<Longrightarrow> descriptor (fds u) i = Some x"
    have su: "io_mem s u" by (rule io_mem_trans [OF t(1) u(1)])
    have mu: "mgrows s u" by (rule io_mem_mgrows [OF su])
    have ub: "live u (Ptr b 0)" by (rule mgrows_live [OF io_mem_mgrows [OF u(1)] t(5)])
    have gen: "ref_of (first_idx (occurs f) ls) t = ref_of (first_idx (occurs f) ls) u"
      using tables_more(3) [OF logst_more(2), of u t] u(1) by (simp add: io_mem_def ref_of_def split: option.split)
    show "wp (if ref_of (first_idx (occurs f) ls) t = NoServer then say_text B ERROR ''No workers with that file.''
      else cbind (p_init 0 (Ptr y 0) DELETE) (\<lambda>p. cbind (deref (ref_of (first_idx (occurs f) ls) t)) (\<lambda>server.
        cbind (client_init (ip server) (port server)) (\<lambda>worker.
        cbind (p_encode (attach_token (MASTER_TKN B) p)) (\<lambda>pk. cbind (strlen (Ptr y 0)) (\<lambda>n.
        cseq (conn_write B worker pk (sizeof_packet + n)) (cbind (conn_close B worker) (\<lambda>_. cskip))))))))
      (\<lambda>_. wp ?answer ?Q) u"
      unfolding gen
    proof (rule pass_delete_then [OF wf ok(1) log su a _ u(2) found mgrows_cstring [OF io_mem_mgrows [OF u(1)] ft] lenf room])
      show "j < length (servers s)" if "first_idx (occurs f) ls = Some j" for j using first_idx_Some [OF that] ls by simp
      fix ds and v :: "'z master_scheme"
      assume v: "retains s v" "servers v = servers s" "table_ok v" "worker_id v = worker_id s"
        "net v = (if first_idx (occurs f) ls = None then rs else qs)" "effects (trace v) = effects (trace u) @ ds"
        "case map_option ((!) (addresses s)) (first_idx (occurs f) ls) of None \<Rightarrow> ds = [] | Some h \<Rightarrow> deletes B f h ds"
        and kept: "\<And>b. live u (Ptr b 0) \<Longrightarrow> log_msg u \<noteq> Ptr b 0 \<Longrightarrow> live v (Ptr b 0) \<and> log_msg v \<noteq> Ptr b 0"
        and still: "\<And>i x. descriptor (fds u) i = Some x \<Longrightarrow> descriptor (fds v) i = Some x"
      have lv: "live v (Ptr b 0)" "log_msg v \<noteq> Ptr b 0" using kept [OF ub] lb by (simp_all add: master_io [OF u(1)])
      show "wp ?answer ?Q v"
      proof (rule answer_literal_then [OF retains_ok(2) [OF v(1)] _ lv(1) still [OF open' [OF k(1)]] k(2,3)])
        fix z :: "'z master_scheme"
        assume z: "io_mem v z" "net z = net v" "effects (trace z) = effects (trace v) @ [Sent (fd c) Caller (''1'' @ [NUL])]"
        have "retains s z" by (rule retains_trans [OF v(1) retains_io [OF retains_ok(1) [OF v(1)] z(1)]])
        then have "retains s (del_block b z)"
          by (rule retains_free [OF _ wf t(4)]) (use lv(2) in \<open>simp add: master_io [OF z(1)]\<close>)
        then show "?Q () (del_block b z)"
          using v(2-7) z(2,3) u(3-5) t(3) ad by (intro conjI exI [of _ es] exI [of _ ds]) (simp_all add: holder_def master_io [OF z(1)])
      qed simp
    qed
  qed
  then have "wp (worker_delete B (Ptr y 0)) (\<lambda>_. wp ?answer ?Q) t"
    unfolding worker_delete_def wp_cbind [of "find_by_file _ _"] .
  moreover have eq: "wp ?answer ?Q = wp (literal ''1'')
      (\<lambda>p. wp (cbind (strlen p) (\<lambda>m. cseq (conn_write B c p (m + 1)) (free (Ptr b 0)))) ?Q)"
    by (rule ext) (rule wp_cbind)
  ultimately show "wp (handle_request B DELETE (Ptr y 0))
      (\<lambda>p. wp (cbind (strlen p) (\<lambda>m. cseq (conn_write B c p (m + 1)) (free (Ptr b 0)))) ?Q) t"
    unfolding handle_request_def ptype.case wp_cseq eq by simp
qed (simp add: ty)

lemma delete_request:
  fixes s :: "'z master_scheme"
  assumes wf: "wf_mem s" and clean: "clean_mem s" and ok: "table_ok s" "servers s \<noteq> []" and log: "log_ok s"
    and p: "has_packet c READ_SZ bs s" and ty: "wire_type bs = DELETE"
    and f: "wire_body bs = f" "NUL \<notin> set f"
    and a: "\<And>w. w \<in> set (servers s) \<Longrightarrow> \<exists>a. cstring s (ip w) = Some a \<and> inet_pton4 a"
    and ls: "length ls = length (servers s)"
    and net: "net s = map Opens ks @ rs" "list_all2 lists ks (take (asked_count f ls) ls)"
    and found: "first_idx (occurs f) ls \<noteq> None \<Longrightarrow> rs = Opens d # qs \<and> accepts d"
    and room: "\<And>j. 18 \<le> spare s j + room s j"
  shows "wp (handle_client B c) (\<lambda>_ t. servers t = servers s \<and> table_ok t \<and>
      (\<exists>es ds. effects (trace t) = effects (trace s) @ es @ ds @ [Sent (fd c) Caller (''1'' @ [NUL])] \<and>
        length es = asked_count f ls \<and> list_all2 (asks_list B) (take (asked_count f ls) (addresses s)) es \<and>
        (case holder f ls (addresses s) of None \<Rightarrow> ds = [] | Some h \<Rightarrow> deletes B f h ds))) s"
  by (rule wp_mono [OF delete_performed [OF assms]]) auto

text \<open>A silent worker that is asked before the file is found.\<close>

lemma delete_faults:
  fixes s :: "'z master_scheme"
  assumes wf: "wf_mem s" and clean: "clean_mem s" and ok: "table_ok s" and p: "has_packet c READ_SZ bs s"
    and ty: "wire_type bs = DELETE" and f: "wire_body bs = f" "NUL \<notin> set f"
    and a: "\<And>w. w \<in> set (servers s) \<Longrightarrow> \<exists>a. cstring s (ip w) = Some a \<and> inet_pton4 a"
    and i: "length ls < length (servers s)"
    and net: "net s = map Opens ks @ Opens k # rs" "list_all2 lists ks ls" "silent k"
    and no: "\<forall>l \<in> set ls. \<not> occurs f l" and room: "\<And>j. 18 \<le> spare s j + room s j"
  shows "handle_client B c s = Inl NullDeref"
  unfolding handle_client_received
proof (rule wp_fault, rule received_then [OF wf p])
  fix b y and t :: "'z master_scheme"
  assume t: "io_mem s t" "net t = net s"
    and str: "clean_mem s \<Longrightarrow> NUL \<notin> set (wire_body bs) \<Longrightarrow> cstring t (Ptr y 0) = Some (wire_body bs)"
  note mt = io_mem_mgrows [OF t(1)]
  have ft: "cstring t (Ptr y 0) = Some f" using str [OF clean] f by simp
  have tab: "table_ok t" "servers t = servers s" using ok by (simp_all add: master_io [OF t(1)])
  have n0: "(of_nat (length (servers t)) :: u16) \<noteq> 0" "unat (of_nat (length (servers t)) :: u16) = length (servers t)"
    using i tab table_ok_count [OF tab(1)] by auto
  have "find_file_from B (Ptr y 0) (length (servers t)) 0 t = Inl NullDeref"
  proof (rule find_from_faults [OF io_mem_wf [OF t(1)] clean_mgrows [OF mt clean] tab(1) _ ft _ _ _ net(2,3) no])
    show "\<exists>a. cstring t (ip w) = Some a \<and> inet_pton4 a" if "w \<in> set (servers t)" for w
      using a [of w] that mgrows_cstring [OF mt] by (auto simp: tab(2))
    show "18 \<le> spare t j + room t j" for j using room [of j] by (simp add: mgrows_oracles [OF mt])
  qed (use i net(1) t(2) tab(2) in simp_all)
  then have "worker_delete B (Ptr y 0) t = Inl NullDeref"
    using n0(2) table_count_run [OF tab(1)]
    by (simp add: worker_delete_def find_by_file_def worker_count_def cbind_def)
  then show "(case Some (Ptr b 0, decoded bs (Ptr y 0)) of None \<Rightarrow> cskip
      | Some (b, p) \<Rightarrow> serve_packet B c b p) t = Inl NullDeref"
    using ty n0(1) table_count_run [OF tab(1)]
    by (simp add: serve_packet_def service_available_def worker_count_def decoded_def handle_request_def
        cseq_def cbind_def cret_def)
qed

section \<open>A request to append at the master\<close>

text \<open>
  \<^verbatim>\<open>worker_append\<close> is a stub: the argument is split as for a write, and \<^verbatim>\<open>-1\<close> is answered.
\<close>

lemma append_answered:
  fixes s :: "'z master_scheme"
  assumes wf: "wf_mem s" and clean: "clean_mem s" and ok: "table_ok s" "servers s \<noteq> []"
    and p: "has_packet c READ_SZ bs s" and ty: "wire_type bs = APPEND"
    and body: "wire_body bs = f @ CHR '';'' # x" and f: "CHR '';'' \<notin> set f" "NUL \<notin> set (f @ x)"
  shows "wp (handle_client B c) (\<lambda>_ t. io_mem s t \<and> net t = net s \<and>
      effects (trace t) = effects (trace s) @ [Sent (fd c) Caller (''-1'' @ [NUL])]) s"
    (is "wp _ ?Q s")
proof (rule request_served_then [OF wf ok p, unfolded ty])
  fix b y k and t :: "'z master_scheme"
  assume t: "io_mem s t" "effects (trace t) = effects (trace s)" "live t (Ptr b 0)" "net t = net s" "next_id s \<le> b"
    and k: "descriptor (fds t) (fd c) = Some k" "accepts k" "peer k = Caller"
    and str: "clean_mem s \<Longrightarrow> NUL \<notin> set (wire_body bs) \<Longrightarrow> cstring t (Ptr y 0) = Some (wire_body bs)"
    and tab: "table_ok t" "servers t = servers s" and len': "length (wire_body bs) + 22 \<le> READ_SZ"
  let ?t = "f @ CHR '';'' # x"
  have mt: "mgrows s t" by (rule io_mem_mgrows [OF t(1)])
  have str': "cstring t (Ptr y 0) = Some ?t" using str [OF clean] f(2) by (simp add: body)
  have len: "length ?t < 2 ^ 32" using len' by (simp add: body READ_SZ_def)
  have "wp (exec_long B (if True then APPEND else WRITE) (Ptr y 0))
      (\<lambda>p. wp (cbind (strlen p) (\<lambda>m. cseq (conn_write B c p (m + 1)) (free (Ptr b 0)))) ?Q) t"
  proof (rule exec_long_then [OF mgrows_wf [OF mt] clean_mgrows [OF mt clean] str' f(1) len])
    fix p1 p2 and u :: "'z master_scheme" assume u: "grows t u"
    have "wp (long2str (- 1)) (\<lambda>p. wp (cbind (strlen p) (\<lambda>m. cseq (conn_write B c p (m + 1)) (free (Ptr b 0)))) ?Q) u"
    proof (rule long2str_then [OF grows_wf [OF u]])
      show "length (show_int (- 1)) < 10" by (simp add: show_int_def show_nat.simps)
      fix p3 and z :: "'z master_scheme" assume z: "grows u z" "cstring z p3 = Some (show_int (- 1))"
      have g: "grows t z" by (rule grows_trans [OF u z(1)])
      show "wp (cbind (strlen p3) (\<lambda>m. cseq (conn_write B c p3 (m + 1)) (free (Ptr b 0)))) ?Q z"
      proof (rule reply_then [OF grows_wf [OF z(1)] z(2) grows_live [OF g t(3)] _ k(2,3)])
        show "descriptor (fds z) (fd c) = Some k" using k(1) by (simp add: grows_os [OF g])
        have m: "show_int (- 1) = ''-1''"
          by (simp add: show_int_def show_nat.simps digit_def char_of_def bit_iff_odd)
        fix e :: "'z master_scheme"
        assume e: "io_mem z e" "net e = net z" "effects (trace e) = effects (trace z) @ [Sent (fd c) Caller (show_int (- 1) @ [NUL])]"
        have "io_mem s (del_block b e)"
          by (rule io_mem_free [OF wf io_mem_trans [OF t(1) io_mem_trans [OF grows_io_mem [OF g] e(1)]] t(5)])
        then show "?Q () (del_block b e)" using e(2,3) t(2,4) by (simp add: m grows_os [OF g])
      qed
    qed
    then show "wp (cbind (if True then worker_append p1 p2 else worker_write B p1 p2) long2str)
        (\<lambda>p. wp (cbind (strlen p) (\<lambda>m. cseq (conn_write B c p (m + 1)) (free (Ptr b 0)))) ?Q) u"
      by (simp add: worker_append_def wp_cbind wp_cret wp_funs)
  qed
  then show "wp (handle_request B APPEND (Ptr y 0))
      (\<lambda>p. wp (cbind (strlen p) (\<lambda>m. cseq (conn_write B c p (m + 1)) (free (Ptr b 0)))) ?Q) t"
    by (simp add: handle_request_def)
qed (simp add: ty)

lemma append_request:
  fixes s :: "'z master_scheme"
  assumes wf: "wf_mem s" and clean: "clean_mem s" and ok: "table_ok s" "servers s \<noteq> []"
    and p: "has_packet c READ_SZ bs s" and ty: "wire_type bs = APPEND"
    and body: "wire_body bs = f @ CHR '';'' # x" and f: "CHR '';'' \<notin> set f" "NUL \<notin> set (f @ x)"
  shows "wp (handle_client B c) (\<lambda>_ t. table_ok t \<and> servers t = servers s \<and>
      effects (trace t) = effects (trace s) @ [Sent (fd c) Caller (''-1'' @ [NUL])]) s"
  by (rule wp_mono [OF append_answered [OF assms]]) (use ok in \<open>auto simp: master_io\<close>)

section \<open>Properties\<close>

text \<open>
  A client deletes a file: the master asks its workers for their listings, at their addresses and
  ports in the order of the table, up to the first whose listing has the name somewhere in it, and
  sends that worker, at its address and port, one packet with the name and the master's token (18 bytes of what follows in memory behind it). When
  no listing has the name no such packet is sent; \<^verbatim>\<open>1\<close> is answered in both cases.
\<close>

theorem delete_forwarded:
  fixes s :: "'z master_scheme"
  assumes "wf_mem s" and "clean_mem s" and "table_ok s" and "servers s \<noteq> []" and "log_ok s"
    and "has_packet c READ_SZ bs s" and "wire_type bs = DELETE" and "wire_body bs = f" and "NUL \<notin> set f"
    and "\<And>w. w \<in> set (servers s) \<Longrightarrow> \<exists>a. cstring s (ip w) = Some a \<and> inet_pton4 a"
    and "length ls = length (servers s)"
    and "net s = map Opens ks @ rs" and "list_all2 lists ks (take (asked_count f ls) ls)"
    and "first_idx (occurs f) ls \<noteq> None \<Longrightarrow> rs = Opens d # qs \<and> accepts d"
    and "\<And>j. 18 \<le> spare s j + room s j"
  shows "wp (handle_client B c) (\<lambda>_ t. servers t = servers s \<and> table_ok t \<and>
      (\<exists>es ds. effects (trace t) = effects (trace s) @ es @ ds @ [Sent (fd c) Caller (''1'' @ [NUL])] \<and>
        length es = asked_count f ls \<and> list_all2 (asks_list B) (take (asked_count f ls) (addresses s)) es \<and>
        (case holder f ls (addresses s) of None \<Rightarrow> ds = [] | Some h \<Rightarrow> deletes B f h ds))) s"
  using assms by (rule delete_request)

text \<open>The request for \<^verbatim>\<open>a\<close> is sent to a worker that only has \<^verbatim>\<open>bar\<close>, the second of the table.\<close>

theorem delete_forwarded_witness:
  "wp (handle_client test_build sample_conn) (\<lambda>_ t. \<exists>e1 e2 g leak. length leak = 18 \<and>
      effects (trace t) = [e1, e2, Sent g (Host ''127.0.0.1'' 55444) (wire_msg 0 DELETE 2 ''a'' @ leak), Closed g,
        Sent 0 Caller (''1'' @ [NUL])] \<and>
      asks_list test_build (''127.0.0.1'', 55443) e1 \<and> asks_list test_build (''127.0.0.1'', 55444) e2)
     (sample_master [sample_worker, other_worker] [Some (carries (wire_msg 0 DELETE 0 ''a''))]
       [Opens (carries (wire_msg 1 LS 1 ''x'')), Opens (carries (wire_msg 1 LS 1 ''bar'')), Opens (carries [])])"
    (is "wp _ _ ?s")
proof (rule wp_mono [OF delete_forwarded [OF _ _ _ _ _ sample_has_packet, where f = "''a''" and ls = "[''x'', ''bar'']"
      and ks = "[carries (wire_msg 1 LS 1 ''x''), carries (wire_msg 1 LS 1 ''bar'')]" and rs = "[Opens (carries [])]"
      and d = "carries []" and qs = "[]"]])
  show "wire_type (wire_msg 0 DELETE 0 ''a'') = DELETE" by (rule wire_msg_fields(5)) simp
  have o: "occurs ''a'' ''bar''" "\<not> occurs ''a'' ''x''" by simp_all
  show "list_all2 lists [carries (wire_msg 1 LS 1 ''x''), carries (wire_msg 1 LS 1 ''bar'')]
      (take (asked_count ''a'' [''x'', ''bar'']) [''x'', ''bar''])"
    using o by (simp add: sample_lists)
  fix x :: unit and t
  assume "servers t = servers ?s \<and> table_ok t \<and>
      (\<exists>es ds. effects (trace t) = effects (trace ?s) @ es @ ds @ [Sent (fd sample_conn) Caller (''1'' @ [NUL])] \<and>
        length es = asked_count ''a'' [''x'', ''bar''] \<and>
        list_all2 (asks_list test_build) (take (asked_count ''a'' [''x'', ''bar'']) (addresses ?s)) es \<and>
        (case holder ''a'' [''x'', ''bar''] (addresses ?s) of None \<Rightarrow> ds = []
         | Some h \<Rightarrow> deletes test_build ''a'' h ds))"
  then show "\<exists>e1 e2 g leak. length leak = 18 \<and>
      effects (trace t) = [e1, e2, Sent g (Host ''127.0.0.1'' 55444) (wire_msg 0 DELETE 2 ''a'' @ leak), Closed g,
        Sent 0 Caller (''1'' @ [NUL])] \<and>
      asks_list test_build (''127.0.0.1'', 55443) e1 \<and> asks_list test_build (''127.0.0.1'', 55444) e2"
    using o by (auto simp: deletes_def holder_def sample_conn_def length_Suc_conv sample_addresses list_all2_Cons1)
qed (use sample_address in \<open>auto simp del: cstring.simps\<close>)

text \<open>
  C23. One worker that accepts connections and says nothing is enough to crash the master: a
  request to delete that reaches it in the search, no earlier listing having the name, ends in a
  null dereference.
\<close>

theorem delete_crashes:
  fixes s :: "'z master_scheme"
  assumes "wf_mem s" and "clean_mem s" and "table_ok s" and "has_packet c READ_SZ bs s"
    and "wire_type bs = DELETE" and "wire_body bs = f" and "NUL \<notin> set f"
    and "\<And>w. w \<in> set (servers s) \<Longrightarrow> \<exists>a. cstring s (ip w) = Some a \<and> inet_pton4 a"
    and "length ls < length (servers s)"
    and "net s = map Opens ks @ Opens k # rs" and "list_all2 lists ks ls" and "silent k"
    and "\<forall>l \<in> set ls. \<not> occurs f l" and "\<And>j. 18 \<le> spare s j + room s j"
  shows "handle_client B c s = Inl NullDeref"
  using assms by (rule delete_faults)

theorem delete_crashes_witness:
  "handle_client test_build sample_conn
     (sample_master [sample_worker, sample_worker] [Some (carries (wire_msg 0 DELETE 0 ''a''))]
       [Opens (carries (wire_msg 1 LS 1 ''x'')), Opens \<lparr>incoming = [], accepts = True, peer = Caller\<rparr>]) = Inl NullDeref"
proof (rule delete_crashes [OF _ _ _ sample_has_packet, where f = "''a''" and ls = "[''x'']"
      and ks = "[carries (wire_msg 1 LS 1 ''x'')]" and k = "\<lparr>incoming = [], accepts = True, peer = Caller\<rparr>" and rs = "[]"])
  show "wire_type (wire_msg 0 DELETE 0 ''a'') = DELETE" by (rule wire_msg_fields(5)) simp
qed (use sample_address in \<open>simp_all add: sample_lists silent_def del: cstring.simps\<close>)

text \<open>
  A client appends to a file: \<^verbatim>\<open>-1\<close> is answered, no worker is contacted and nothing else is
  changed.
\<close>

theorem append_refused:
  fixes s :: "'z master_scheme"
  assumes "wf_mem s" and "clean_mem s" and "table_ok s" and "servers s \<noteq> []"
    and "has_packet c READ_SZ bs s" and "wire_type bs = APPEND"
    and "wire_body bs = f @ CHR '';'' # x" and "CHR '';'' \<notin> set f" and "NUL \<notin> set (f @ x)"
  shows "wp (handle_client B c) (\<lambda>_ t. table_ok t \<and> servers t = servers s \<and>
      effects (trace t) = effects (trace s) @ [Sent (fd c) Caller (''-1'' @ [NUL])]) s"
  using assms by (rule append_request)

theorem append_refused_witness:
  "wp (handle_client test_build sample_conn) (\<lambda>_ t. effects (trace t) = [Sent 0 Caller (''-1'' @ [NUL])])
     (sample_master [sample_worker] [Some (carries (wire_msg 0 APPEND 0 ''notes;more''))] [])"
proof (rule wp_mono [OF append_refused [OF _ _ _ _ sample_has_packet, where f = "''notes''" and x = "''more''"]])
  show "wire_type (wire_msg 0 APPEND 0 ''notes;more'') = APPEND" by (rule wire_msg_fields(5)) simp
qed (simp_all add: sample_conn_def)

end
