(* ===== verification/Service.thy ===== *)
theory Service
  imports Exchange
begin

text \<open>
  A program that serves the network, seen from outside: rounds of a loop against a function that
  gives, for each visit, the answers and the new contents.
\<close>

section \<open>The interface of a server\<close>

text \<open>
  A server makes rounds. What a round does to the store and what it answers is a function of
  the visit that waits next; the server says for which visits and stores it promises this.
\<close>

fun serve_all :: "('v \<Rightarrow> 'm \<Rightarrow> 'a list \<times> 'm) \<Rightarrow> 'v list \<Rightarrow> 'm \<Rightarrow> 'a list \<times> 'm" where
  "serve_all f [] m = ([], m)"
| "serve_all f (v # vs) m = (let (as, m1) = f v m; (bs, m2) = serve_all f vs m1 in (as @ bs, m2))"

fun accept_all :: "('v \<Rightarrow> 'm \<Rightarrow> bool) \<Rightarrow> ('v \<Rightarrow> 'm \<Rightarrow> 'a list \<times> 'm) \<Rightarrow> 'v list \<Rightarrow> 'm \<Rightarrow> bool" where
  "accept_all g f [] m = True"
| "accept_all g f (v # vs) m = (g v m \<and> accept_all g f vs (snd (f v m)))"

fun rounds :: "('h \<Rightarrow> ('h, 's) cmd) \<Rightarrow> nat \<Rightarrow> 'h \<Rightarrow> ('h, 's) cmd" where
  "rounds r 0 h = cret h"
| "rounds r (Suc n) h = cbind (r h) (rounds r n)"

locale network_service =
  fixes ok :: "'h \<Rightarrow> 's \<Rightarrow> bool" and round :: "'h \<Rightarrow> ('h, 's) cmd" and waits :: "'s \<Rightarrow> 'v list \<Rightarrow> bool"
    and stored :: "'s \<Rightarrow> 'm" and answers :: "'s \<Rightarrow> 'a list" and accept :: "'s \<Rightarrow> 'v \<Rightarrow> 'm \<Rightarrow> bool"
    and serve :: "'v \<Rightarrow> 'm \<Rightarrow> 'a list \<times> 'm"
  assumes round_law: "\<lbrakk>ok h s; waits s (v # vs); accept s v (stored s)\<rbrakk> \<Longrightarrow>
      wp (round h) (\<lambda>h' t. ok h' t \<and> waits t vs \<and> accept t = accept s \<and>
        answers t = answers s @ fst (serve v (stored s)) \<and> stored t = snd (serve v (stored s))) s"
begin

lemma rounds_refine:
  assumes "ok h s" and "waits s vs" and "accept_all (accept s) serve vs (stored s)"
  shows "wp (rounds round (length vs) h) (\<lambda>h' t. ok h' t \<and> waits t [] \<and>
      answers t = answers s @ fst (serve_all serve vs (stored s)) \<and>
      stored t = snd (serve_all serve vs (stored s))) s"
  using assms
proof (induction vs arbitrary: h s)
  case Nil
  then show ?case by (simp add: wp_cret)
next
  case (Cons v vs)
  have a: "accept s v (stored s)" "accept_all (accept s) serve vs (snd (serve v (stored s)))"
    using Cons.prems(3) by simp_all
  have "wp (round h) (\<lambda>h'. wp (rounds round (length vs) h') (\<lambda>h' t. ok h' t \<and> waits t [] \<and>
      answers t = answers s @ fst (serve_all serve (v # vs) (stored s)) \<and>
      stored t = snd (serve_all serve (v # vs) (stored s)))) s"
  proof (rule wp_mono [OF round_law [OF Cons.prems(1,2) a(1)]], elim conjE)
    fix h' t
    assume t: "ok h' t" "waits t vs" "accept t = accept s" "answers t = answers s @ fst (serve v (stored s))"
      "stored t = snd (serve v (stored s))"
    show "wp (rounds round (length vs) h') (\<lambda>h' t. ok h' t \<and> waits t [] \<and>
      answers t = answers s @ fst (serve_all serve (v # vs) (stored s)) \<and>
      stored t = snd (serve_all serve (v # vs) (stored s))) t"
      by (rule wp_mono [OF Cons.IH [OF t(1,2)]]) (use a(2) t in \<open>auto simp: split_def Let_def\<close>)
  qed
  then show ?case by (simp add: wp_cbind)
qed

end

lemma serve_all_append:
  "serve_all f (vs @ ws) m = (fst (serve_all f vs m) @ fst (serve_all f ws (snd (serve_all f vs m))),
     snd (serve_all f ws (snd (serve_all f vs m))))"
  by (induction vs arbitrary: m) (simp_all add: split_def Let_def)

section \<open>What comes\<close>

text \<open>
  A message as its receiver decodes it, and a connection that brings one of at most \<open>n\<close> bytes. The
  bytes that follow the packet in the message are not looked at; every sender of the program sends some.
\<close>

definition reads_as :: "u32 \<Rightarrow> ptype \<Rightarrow> u64 \<Rightarrow> string \<Rightarrow> string \<Rightarrow> bool" where
  "reads_as q ty tok x bs \<longleftrightarrow> header_size + unat (wire_len bs) \<le> length bs \<and>
     wire_seq bs = q \<and> wire_type bs = ty \<and> wire_token bs = tok \<and> wire_body bs = x"

definition brings :: "nat \<Rightarrow> u32 \<Rightarrow> ptype \<Rightarrow> u64 \<Rightarrow> string \<Rightarrow> outcome \<Rightarrow> bool" where
  "brings n q ty tok x r \<longleftrightarrow> (\<exists>d bs rest. r = Opens d \<and> accepts d \<and> incoming d = Arrives bs # rest \<and>
     length bs \<le> n \<and> reads_as q ty tok x bs)"

lemma reads_packet:
  "\<lbrakk>descriptor (fds u) (fd c) = Some (d\<lparr>peer := Caller\<rparr>); accepts d; incoming d = Arrives bs # rest; length bs \<le> n;
    reads_as q ty tok x bs\<rbrakk> \<Longrightarrow> has_packet c n bs u"
  by (simp add: has_packet_def reads_as_def)

lemma reads_as_wire:
  assumes "known_type ty" and "length x < 2 ^ 32"
  shows "reads_as q ty tok x (wire_msg q ty tok x @ leak)"
  using assms unat_length [OF assms(2)] by (simp add: reads_as_def wire_msg_more wire_msg_body header_size_def)

lemma brings_carries: "reads_as q ty tok x bs \<Longrightarrow> length bs \<le> n \<Longrightarrow> brings n q ty tok x (Opens (carries bs))"
  by (simp add: brings_def)

lemma brings_wire:
  assumes "known_type ty" and "header_size + length x + length leak \<le> n" and "length x < 2 ^ 32"
  shows "brings n q ty tok x (Opens (carries (wire_msg q ty tok x @ leak)))"
  using assms by (intro brings_carries reads_as_wire) (simp_all add: header_size_def)

section \<open>What was sent\<close>

text \<open>The messages of a trace, each with the peer of the connection that it was written to.\<close>

fun sent :: "event list \<Rightarrow> (peer \<times> string) list" where
  "sent [] = []"
| "sent (Sent f p bs # es) = (p, bs) # sent es"
| "sent (e # es) = sent es"

lemma sent_append [simp]: "sent (xs @ ys) = sent xs @ sent ys"
  by (induction xs rule: sent.induct) simp_all

lemma sent_effects: "sent (effects es) = sent es"
  by (induction es rule: sent.induct) (simp_all add: effects_def)

lemma sent_more:
  assumes "effects (trace t) = effects (trace s) @ es"
  shows "sent (trace t) = sent (trace s) @ sent es"
  using arg_cong [OF assms, of sent] by (simp add: sent_effects)

end
