(* ===== verification/Worker_Store.thy ===== *)
theory Worker_Store
  imports Worker_Facts Service
begin

text \<open>
  A worker as a store of files: what a sequence of requests of the master that it accepts does, and
  what it is answered, is given by a function on a map from names to contents. The requests come by the
  network, between them connections may be refused.
\<close>

section \<open>Requests\<close>

text \<open>A request of the master: to write or to append, to read, to delete.\<close>

datatype file_request = Put bool string string | Get string | Del string

fun req_type :: "file_request \<Rightarrow> ptype" where
  "req_type (Put a n x) = write_type a"
| "req_type (Get n) = READ"
| "req_type (Del n) = DELETE"

fun req_arg :: "file_request \<Rightarrow> string" where
  "req_arg (Put a n x) = n @ CHR '';'' # x"
| "req_arg (Get n) = n"
| "req_arg (Del n) = n"

fun reply_to :: "file_request \<Rightarrow> file_map \<Rightarrow> string \<times> file_map" where
  "reply_to (Put a n x) m = (let (r, m') = abs_write n x a m in (show_int r, m'))"
| "reply_to (Get n) m = (case m n of None \<Rightarrow> [] | Some x \<Rightarrow> x, m)"
| "reply_to (Del n) m = ([], m(n := None))"

text \<open>
  What a worker can serve: it can write under the name, the content that is read fits the buffer
  of the reading loop, and \<^verbatim>\<open>rm\<close> can be given the name.
\<close>

fun fine :: "(string \<Rightarrow> bool) \<Rightarrow> (string \<Rightarrow> bool) \<Rightarrow> file_request \<Rightarrow> file_map \<Rightarrow> bool" where
  "fine w d (Put a n x) m = (CHR '';'' \<notin> set n \<and> NUL \<notin> set (n @ x) \<and> w n)"
| "fine w d (Get n) m = (NUL \<notin> set n \<and>
     (case m n of None \<Rightarrow> False | Some x \<Rightarrow> fits READ_SIZE 0 x \<and> NUL \<notin> set x \<and> length x + 1 < 2 ^ 32))"
| "fine w d (Del n) m = (NUL \<notin> set n \<and> (m n = None \<or> d n))"

text \<open>A connection that comes and brings a request, or a failure of the system calls.\<close>

datatype visit = Refused stage | Asks u32 file_request

fun visit_comes :: "build \<Rightarrow> visit \<Rightarrow> outcome \<Rightarrow> bool" where
  "visit_comes B (Refused g) x = (x = Fails g)"
| "visit_comes B (Asks q r) x = brings WORKER_READ_SIZE q (req_type r) (MASTER_TKN B) (req_arg r) x"

text \<open>A message as its receiver decodes it, with the peer that it is sent to.\<close>

type_synonym answer = "peer \<times> u32 \<times> ptype \<times> u64 \<times> string"

fun serve_visit :: "build \<Rightarrow> visit \<Rightarrow> file_map \<Rightarrow> answer list \<times> file_map" where
  "serve_visit B (Refused g) m = ([], m)"
| "serve_visit B (Asks q r) m = ([(Caller, q + 1, req_type r, WORKER_TKN B, fst (reply_to r m))], snd (reply_to r m))"

definition answered :: "event list \<Rightarrow> answer list" where
  "answered es = map (\<lambda>(p, bs). (p, wire_seq bs, wire_type bs, wire_token bs, wire_body bs)) (sent es)"

lemma answered_effects:
  assumes "effects (trace t) = effects (trace s) @ es"
  shows "answered (trace t) = answered (trace s) @ answered es"
  using sent_more [OF assms] by (simp add: answered_def)

lemma known_req: "known_type (req_type r)"
  by (cases r) (simp_all add: write_type_def)

lemma answered_msg:
  assumes "length x < 2 ^ 32"
  shows "answered [Sent g pr (wire_msg q (req_type r) tok x @ leak), Closed g] = [(pr, q, req_type r, tok, x)]"
  using assms known_req by (simp add: answered_def wire_msg_more wire_msg_body)

section \<open>One request\<close>

lemma answered_then:
  assumes "effects (trace t) = effects (trace s) @ evs @ [Sent g pr (wire_msg q (req_type r) tok x @ leak), Closed g]"
    and "sent evs = []" and "length x < 2 ^ 32"
  shows "answered (trace t) = answered (trace s) @ [(pr, q, req_type r, tok, x)]"
  using answered_effects [OF assms(1)] answered_msg [OF assms(3), of g pr q r tok leak] assms(2)
  by (simp add: answered_def)

lemma removal_silent: "sent (removal s n) = []"
  by (simp add: removal_def)

lemma request_served:
  fixes s :: "'z worker_scheme"
  assumes ok: "exec_ok s" and clean: "clean_mem s"
    and p: "has_packet c WORKER_READ_SIZE bs s" and bs: "reads_as q (req_type r) (MASTER_TKN B) (req_arg r) bs"
    and fine: "fine (writable_name s) (\<lambda>n. rm_law sh \<and> plain (path_of s n)) r (content s)"
    and room: "\<And>j. 18 \<le> spare s j + room s j"
  shows "wp (worker_handle_client B sh c) (\<lambda>_ t. served c s t \<and> content t = snd (reply_to r (content s)) \<and>
      answered (trace t) = answered (trace s) @
        [(Caller, q + 1, req_type r, WORKER_TKN B, fst (reply_to r (content s)))]) s"
proof -
  have tok: "wire_token bs = MASTER_TKN B" and ty: "wire_type bs = req_type r"
    and body: "wire_body bs = req_arg r" and seq: "wire_seq bs = q"
    using bs by (simp_all add: reads_as_def)
  have po: "path_of t = path_of s" if "served c s t" for t by (rule served_ok(3) [OF ok that])
  show ?thesis
  proof (cases r)
    case (Put a n x)
    let ?r = "abs_write n x a (content s)"
    have e: "(fst (abs_write (path_of s n) x a (files s)), content t) = ?r"
      if "served c s t" "files t = snd (abs_write (path_of s n) x a (files s))" for t
      by (rule abs_write_content [OF po [OF that(1)]]) (simp add: that(2))
    have sh: "length (show_int (fst ?r)) < 2 ^ 32"
    proof -
      have "length x \<le> 10000" using body_short [OF p, unfolded body] by (simp add: Put)
      then have "length (show_nat (length x)) < 10" using length_show_nat [of "length x" 8] by simp
      then have "length (show_int (fst ?r)) < 10"
        by (intro abs_write_count [of _ "snd ?r" n x a "content s"]) simp_all
      then show ?thesis by simp
    qed
    show ?thesis
    proof (rule wp_mono [OF put_answered [OF ok clean p tok _ _ _ _ _ room, where n = n and x = x and a = a]])
      fix v t
      assume t: "served c s t \<and> files t = snd (abs_write (path_of s n) x a (files s)) \<and>
        (\<exists>leak. length leak = 19 \<and> effects (trace t) = effects (trace s) @ [] @
          [Sent (fd c) Caller (wire_msg (wire_seq bs + 1) (write_type a) (WORKER_TKN B)
             (show_int (fst (abs_write (path_of s n) x a (files s)))) @ leak), Closed (fd c)])"
      then obtain leak where l: "effects (trace t) = effects (trace s) @ [] @
          [Sent (fd c) Caller (wire_msg (q + 1) (req_type r) (WORKER_TKN B)
             (show_int (fst (abs_write (path_of s n) x a (files s)))) @ leak), Closed (fd c)]"
        unfolding seq Put req_type.simps by blast
      have "?r = (fst (abs_write (path_of s n) x a (files s)), content t)" using e t by simp
      then show "served c s t \<and> content t = snd (reply_to r (content s)) \<and>
        answered (trace t) = answered (trace s) @ [(Caller, q + 1, req_type r, WORKER_TKN B, fst (reply_to r (content s)))]"
        using answered_then [OF l] sh t by (simp add: Put)
    qed (use fine ty body in \<open>simp_all add: Put\<close>)
  next
    case (Get n)
    obtain x where x: "content s n = Some x" "fits READ_SIZE 0 x" "NUL \<notin> set x" "length x + 1 < 2 ^ 32"
      using fine by (auto simp: Get split: option.splits)
    show ?thesis
    proof (rule wp_mono [OF read_answered [OF ok clean p tok _ _ _ x(2-4) room]])
      fix v t
      assume t: "served c s t \<and> files t = files s \<and> (\<exists>leak. length leak = 19 \<and>
        effects (trace t) = effects (trace s) @ [] @
          [Sent (fd c) Caller (wire_msg (wire_seq bs + 1) READ (WORKER_TKN B) x @ leak), Closed (fd c)])"
      then obtain leak where l: "effects (trace t) = effects (trace s) @ [] @
          [Sent (fd c) Caller (wire_msg (q + 1) (req_type r) (WORKER_TKN B) x @ leak), Closed (fd c)]"
        unfolding seq Get req_type.simps by blast
      have "content t = content s" using po t by (simp add: fun_eq_iff content_def)
      then show "served c s t \<and> content t = snd (reply_to r (content s)) \<and>
        answered (trace t) = answered (trace s) @ [(Caller, q + 1, req_type r, WORKER_TKN B, fst (reply_to r (content s)))]"
        using answered_then [OF l] x t by (simp add: Get)
    qed (use fine ty body x in \<open>simp_all add: Get\<close>)
  next
    case (Del n)
    show ?thesis
    proof (rule wp_mono [OF delete_answered [OF ok clean p tok _ _ _ room]])
      fix v t
      assume t: "served c s t \<and> files t = (files s)(path_of s (wire_body bs) := None) \<and>
        (\<exists>leak. length leak = 19 \<and> effects (trace t) = effects (trace s) @ removal s (wire_body bs) @
          [Sent (fd c) Caller (wire_msg (wire_seq bs + 1) DELETE (WORKER_TKN B) [] @ leak), Closed (fd c)])"
      then obtain leak where l: "effects (trace t) = effects (trace s) @ removal s (wire_body bs) @
          [Sent (fd c) Caller (wire_msg (q + 1) (req_type r) (WORKER_TKN B) [] @ leak), Closed (fd c)]"
        unfolding seq Del req_type.simps by blast
      have "content t = (content s)(n := None)"
        using po t by (simp add: fun_eq_iff content_def body Del path_of_inject)
      then show "served c s t \<and> content t = snd (reply_to r (content s)) \<and>
        answered (trace t) = answered (trace s) @ [(Caller, q + 1, req_type r, WORKER_TKN B, fst (reply_to r (content s)))]"
        using answered_then [OF l removal_silent] t by (simp add: Del)
    qed (use fine ty body in \<open>auto simp: Del\<close>)
  qed
qed


section \<open>Rounds\<close>

text \<open>What holds between the rounds, and what a round leaves as it was.\<close>

definition ready :: "int \<Rightarrow> 'z worker_scheme \<Rightarrow> bool" where
  "ready f s \<longleftrightarrow> exec_ok s \<and> descriptor (fds s) f \<noteq> None \<and> (\<forall>j. 18 \<le> spare s j + room s j)"

definition steady :: "'z worker_scheme \<Rightarrow> 'z worker_scheme \<Rightarrow> bool" where
  "steady s t \<longleftrightarrow> exec_ok t \<and> junk t = junk s \<and> spare t = spare s \<and> room t = room s \<and>
     path_of t = path_of s \<and> may_write t = may_write s \<and> files t = files s"

lemma steady_trans [trans]: "steady s t \<Longrightarrow> steady t u \<Longrightarrow> steady s u"
  by (simp add: steady_def)

lemma steady_io:
  assumes "exec_ok s" and "io_mem s t"
  shows "steady s t"
proof -
  have "path_of t = path_of s" using exec_io(3) [OF assms] by (simp add: fun_eq_iff)
  moreover have "may_write t = may_write s" using os_fields(3) [of t s] assms(2) by (simp add: io_mem_def)
  ultimately show ?thesis
    using exec_io(1,2) [OF assms] mgrows_oracles [OF io_mem_mgrows [OF assms(2)]] assms(2)
    by (simp add: steady_def io_mem_def mgrows_def)
qed

lemma steady_log:
  assumes ok: "exec_ok s" and t: "log_frame s t"
  shows "steady s t"
proof -
  have e: "files t = files s" "work_dir t = work_dir s" "may_write t = may_write s" "exec_held t = exec_held s"
    using worker_more [of t s] t by (simp_all add: log_frame_def)
  have d: "log_msg t \<noteq> Ptr b 0 \<and> cstring t (Ptr b i) = cstring s (Ptr b i)"
    if w: "work_dir s = Ptr b i" for b i
  proof -
    obtain x where x: "cstring s (Ptr b i) = Some x" "log_msg s \<noteq> Ptr b 0"
      using ok w by (auto simp: exec_ok_def fs_ok_def simp del: cstring.simps)
    then obtain k where "blocks s b = Some k" by (auto split: option.splits)
    then show ?thesis using t x log_frame_cstring [OF t x] by (simp add: log_frame_def del: cstring.simps)
  qed
  have "exec_ok t"
    using ok t e d unfolding exec_ok_def fs_ok_def log_frame_def
    by (simp del: cstring.simps split: ptr.splits)
  moreover have "path_of t = path_of s"
    using e d by (simp add: fun_eq_iff path_of_def del: cstring.simps split: ptr.splits)
  ultimately show ?thesis using t e by (simp add: steady_def log_frame_def)
qed

lemma steady_free:
  assumes ok: "exec_ok s" and new: "log_msg s \<noteq> Ptr b 0" "\<And>i. work_dir s \<noteq> Ptr b i"
  shows "steady s (del_block b s)"
proof -
  have w: "cstring (del_block b s) (work_dir s) = cstring s (work_dir s)"
    using new(2) by (cases "work_dir s") auto
  have "log_ok (del_block b s)"
    using ok new(1) wf_del_block [of s b] by (auto simp: exec_ok_def fs_ok_def log_ok_def)
  moreover have "exec_held (del_block b s) = exec_held s" by (simp add: del_block_def)
  ultimately have "exec_ok (del_block b s)"
    using ok w unfolding exec_ok_def fs_ok_def by (simp del: cstring.simps split: ptr.splits)
  moreover have "path_of (del_block b s) = path_of s"
    using w by (cases "work_dir s") (simp_all add: fun_eq_iff path_of_def del: cstring.simps)
  ultimately show ?thesis by (simp add: steady_def)
qed

text \<open>A connection that is refused: a message, and the listening socket is made anew.\<close>

definition refusal :: "build \<Rightarrow> conn \<Rightarrow> (unit, 'z) wcmd" where
  "refusal B client = cwhen (verbose_2 B)
     (cbind (malloc 100) (\<lambda>msg.
      cseq (sprintf msg [Txt ''Client connection refused: '', PStr (error_msg client)])
      (cseq (logger WARNING COMP_WORKER (PStr msg)) (free msg))))"

lemma refusal_then:
  fixes s :: "'z worker_scheme"
  assumes ok: "exec_ok s" and c: "cstring s (error_msg c) = Some m" "length m < 50"
    and Q: "\<And>t. \<lbrakk>steady s t; effects (trace t) = effects (trace s); fds t = fds s; net t = net s\<rbrakk> \<Longrightarrow> Q () t"
  shows "wp (refusal B c) Q s"
  unfolding refusal_def
proof (rule wp_cwhenI)
  note wf = exec_ok_wf [OF ok]
  show "Q () s" by (rule Q) (simp_all add: steady_io [OF ok] io_mem_def mgrows_refl wf)
  let ?x = "''Client connection refused: '' @ m" and ?b = "next_id s"
  let ?s = "add_block (filled 100 (?x @ [NUL]) s) s"
  have g: "grows s ?s" using c(2) by (intro grows_filled wf) simp
  have x: "cstring ?s (Ptr ?b 0) = Some ?x"
    by (rule cstring_filled_nul) (use cstring_no_nul [OF c(1)] in simp)
  have st: "steady s ?s" by (rule steady_io [OF ok grows_io_mem [OF g]])
  have ok': "exec_ok ?s" using st by (simp add: steady_def)
  have new: "log_msg ?s \<noteq> Ptr ?b 0" "work_dir ?s \<noteq> Ptr ?b i" for i
  proof -
    have "log_msg s \<noteq> Ptr ?b 0" by (rule log_ok_below [OF exec_ok_log [OF ok]]) simp
    then show "log_msg ?s \<noteq> Ptr ?b 0" using logst_more(1) [of ?s s] by (simp add: add_block_def)
    have "work_dir s \<noteq> Ptr ?b i"
      using ok wf_mem_next [OF wf] by (auto simp: exec_ok_def fs_ok_def)
    then show "work_dir ?s \<noteq> Ptr ?b i" by (simp add: add_block_def)
  qed
  have "wp (logger WARNING COMP_WORKER (PStr (Ptr ?b 0))) (\<lambda>_. wp (free (Ptr ?b 0)) Q) ?s"
  proof (rule logger_then [OF exec_ok_log [OF ok'], where m = ?x])
    fix t assume t: "log_frame ?s t" "effects (trace t) = effects (trace ?s)"
    have l: "live t (Ptr ?b 0)" "log_msg t \<noteq> Ptr ?b 0"
      using log_frame_live [OF t(1) _ new(1)] by simp_all
    have st': "steady s t" by (rule steady_trans [OF st steady_log [OF ok' t(1)]])
    have wd: "work_dir t \<noteq> Ptr ?b i" for i
      using worker_more(2) [of t ?s] t(1) new(2) by (simp add: log_frame_def)
    have "steady s (del_block ?b t)"
      by (rule steady_trans [OF st' steady_free [OF _ l(2) wd]]) (use st' in \<open>simp add: steady_def\<close>)
    then show "wp (free (Ptr ?b 0)) Q t"
      using l(1) t(2) t(1) by (simp add: wp_free Q log_frame_def grows_os [OF g] del: live.simps)
  qed (use x c(2) cstring_no_nul [OF c(1)] in \<open>simp_all del: cstring.simps\<close>)
  then show "wp (cbind (malloc 100) (\<lambda>msg.
      cseq (sprintf msg [Txt ''Client connection refused: '', PStr (error_msg c)])
      (cseq (logger WARNING COMP_WORKER (PStr msg)) (free msg)))) Q s"
    using c cstring_add_block [OF wf c(1)]
    by (simp add: wp_cbind wp_malloc wp_cseq wp_sprintf wp_format filled_def wp_funs del: cstring.simps)
qed

text \<open>What a worker promises to serve.\<close>

definition servable :: "shell \<Rightarrow> 'z worker_scheme \<Rightarrow> visit \<Rightarrow> file_map \<Rightarrow> bool" where
  "servable sh s v m = (case v of Refused g \<Rightarrow> True
    | Asks q r \<Rightarrow> fine (writable_name s) (\<lambda>n. rm_law sh \<and> plain (path_of s n)) r m)"

lemma steady_servable:
  assumes "steady s t"
  shows "servable sh t = servable sh s" "content t = content s"
proof -
  have "writable_name t = writable_name s" "path_of t = path_of s"
    using assms by (simp_all add: steady_def fun_eq_iff writable_name_def)
  then show "servable sh t = servable sh s" by (intro ext) (simp add: servable_def split: visit.split)
  show "content t = content s" using assms by (simp add: fun_eq_iff content_def steady_def)
qed

lemma steady_ready: "ready f s \<Longrightarrow> steady s t \<Longrightarrow> descriptor (fds t) g \<noteq> None \<Longrightarrow> ready g t"
  by (simp add: ready_def steady_def)

lemma steady_clean: "steady s t \<Longrightarrow> clean_mem s \<Longrightarrow> clean_mem t"
  by (simp add: steady_def clean_mem_def)

lemma served_servable:
  assumes "exec_ok s" and "served c s t"
  shows "servable sh t = servable sh s"
  using served_ok(3,4) [OF assms] by (intro ext) (simp add: servable_def split: visit.split)

lemma answered_same: "effects (trace t) = effects (trace s) \<Longrightarrow> answered (trace t) = answered (trace s)"
  using answered_effects [of t s "[]"] by (simp add: answered_def)

lemma worker_round_parts:
  "worker_round B sh f = cbind (conn_listen B f get_port) (\<lambda>c. if c_error c \<noteq> 0
     then cseq (refusal B c) (cbind (conn_close B c) (\<lambda>_. cseq (sys_close f) sys_socket))
     else cseq (worker_handle_client B sh c) (cret f))"
  unfolding worker_round_def refusal_def ..

definition round_done :: "build \<Rightarrow> shell \<Rightarrow> outcome list \<Rightarrow> visit \<Rightarrow> 'z worker_scheme \<Rightarrow>
    int \<Rightarrow> 'z worker_scheme \<Rightarrow> bool" where
  "round_done B sh rs v s f t \<longleftrightarrow> ready f t \<and> clean_mem t \<and> net t = rs \<and>
     servable sh t = servable sh s \<and>
     answered (trace t) = answered (trace s) @ fst (serve_visit B v (content s)) \<and>
     content t = snd (serve_visit B v (content s))"

lemma round_refuses:
  fixes s :: "'z worker_scheme"
  assumes r: "ready f s" and clean: "clean_mem s" and net: "net s = Fails g # rs"
  shows "wp (worker_round B sh f) (round_done B sh rs (Refused g) s) s"
proof -
  have ok: "exec_ok s" and d: "\<exists>k. descriptor (fds s) f = Some k" using r by (auto simp: ready_def)
  obtain k where k: "descriptor (fds s) f = Some k" using d by blast
  have "wp (conn_listen B f get_port) (\<lambda>c. wp (if c_error c \<noteq> 0
      then cseq (refusal B c) (cbind (conn_close B c) (\<lambda>_. cseq (sys_close f) sys_socket))
      else cseq (worker_handle_client B sh c) (cret f)) (round_done B sh rs (Refused g) s)) s"
  proof (rule listen_fails_then [OF exec_ok_wf [OF ok] k])
    show "net s = Fails g # rs" by (rule net)
    fix c :: conn and m and u :: "'z worker_scheme"
    assume u: "io_mem s u" "net u = rs" "effects (trace u) = effects (trace s)"
      "fds u = fds s" "cstring u (error_msg c) = Some m" "length m < 50" and e: "c_error c = 1"
    have su: "steady s u" by (rule steady_io [OF ok u(1)])
    have oku: "exec_ok u" using su by (simp add: steady_def)
    have "wp (refusal B c) (\<lambda>_. wp (cbind (conn_close B c) (\<lambda>_. cseq (sys_close f) sys_socket))
        (round_done B sh rs (Refused g) s)) u"
    proof (rule refusal_then [OF oku u(5,6)])
      fix x assume x: "steady u x" "effects (trace x) = effects (trace u)" "net x = net u"
      have okx: "exec_ok x" using x(1) by (simp add: steady_def)
      show "wp (cbind (conn_close B c) (\<lambda>_. cseq (sys_close f) sys_socket)) (round_done B sh rs (Refused g) s) x"
        unfolding wp_cbind
      proof (rule conn_close_then [OF exec_ok_wf [OF okx]])
        fix e y assume y: "io_mem x y" "net y = net x" "effects (trace y) = effects (trace x) @ [Closed (fd c)]"
        let ?y = "y\<lparr>fds := if 0 \<le> f then (fds y)[nat f := None] else fds y, trace := trace y @ [Closed f]\<rparr>"
        let ?n = "lowest_free (fds ?y)" and ?z = "?y\<lparr>fds := install (lowest_free (fds ?y)) unconnected (fds ?y)\<rparr>"
        have "io_mem x ?z" using y(1) by (simp add: io_mem_def)
        then have st: "steady s ?z" by (intro steady_trans [OF su] steady_trans [OF x(1)] steady_io [OF okx])
        have "effects (trace ?z) = effects (trace s) @ [Closed (fd c), Closed f]"
          using y(3) x(2) u(3) by simp
        from answered_effects [OF this] have "answered (trace ?z) = answered (trace s)"
          by (simp add: answered_def)
        then have "round_done B sh rs (Refused g) s (int ?n) ?z"
          unfolding round_done_def steady_servable [OF st]
          using steady_ready [OF r st, of "int ?n"] steady_clean [OF st clean] y(2) x(3) u(2) by simp
        then show "wp (cseq (sys_close f) sys_socket) (round_done B sh rs (Refused g) s) y"
          by (simp add: wp_cseq wp_sys_close sys_socket_def wp_new_descriptor)
      qed
    qed
    then show "wp (if c_error c \<noteq> 0
      then cseq (refusal B c) (cbind (conn_close B c) (\<lambda>_. cseq (sys_close f) sys_socket))
      else cseq (worker_handle_client B sh c) (cret f)) (round_done B sh rs (Refused g) s) u"
      using e by (simp add: wp_cseq)
  qed
  then show ?thesis unfolding worker_round_parts wp_cbind [of "conn_listen _ _ _"] .
qed

lemma round_serves:
  fixes s :: "'z worker_scheme"
  assumes r: "ready f s" and clean: "clean_mem s" and net: "net s = x # rs" and v: "visit_comes B (Asks q a) x"
    and fine: "servable sh s (Asks q a) (content s)"
  shows "wp (worker_round B sh f) (round_done B sh rs (Asks q a) s) s"
proof -
  have ok: "exec_ok s" and room: "\<And>j. 18 \<le> spare s j + room s j"
    using r by (simp_all add: ready_def)
  obtain k where k: "descriptor (fds s) f = Some k" using r by (auto simp: ready_def)
  obtain d bs r where d: "x = Opens d" "accepts d" "incoming d = Arrives bs # r" "length bs \<le> WORKER_READ_SIZE"
      "reads_as q (req_type a) (MASTER_TKN B) (req_arg a) bs"
    using v by (auto simp: brings_def)
  have "wp (conn_listen B f get_port) (\<lambda>c. wp (if c_error c \<noteq> 0
      then cseq (refusal B c) (cbind (conn_close B c) (\<lambda>_. cseq (sys_close f) sys_socket))
      else cseq (worker_handle_client B sh c) (cret f)) (round_done B sh rs (Asks q a) s)) s"
  proof (rule listen_then [OF k])
    show "net s = Opens d # rs" using net d(1) by simp
    fix c :: conn and u :: "'z worker_scheme"
    assume io: "io s u" and u: "net u = rs" "effects (trace u) = effects (trace s)"
      "c_error c = 0" "fd c = int (lowest_free (fds s))" "descriptor (fds u) (fd c) = Some (d\<lparr>peer := Caller\<rparr>)"
      and other: "\<And>i. i \<noteq> fd c \<Longrightarrow> descriptor (fds u) i = descriptor (fds s) i"
    have m: "io_mem s u" by (rule io_io_mem [OF exec_ok_wf [OF ok] io])
    have su: "steady s u" by (rule steady_io [OF ok m])
    have oku: "exec_ok u" and cu: "clean_mem u" and ru: "\<And>j. 18 \<le> spare u j + room u j"
      using su clean room by (simp_all add: steady_def clean_mem_def)
    note p = reads_packet [OF u(5) d(2-5)]
    have fu: "fine (writable_name u) (\<lambda>n. rm_law sh \<and> plain (path_of u n)) a (content u)"
      using fine unfolding steady_servable(1) [OF su, of sh, symmetric] steady_servable(2) [OF su, symmetric]
      by (simp add: servable_def)
    have ne: "f \<noteq> fd c" using k descriptor_lowest [of "fds s"] by (auto simp: u(4))
    have "wp (worker_handle_client B sh c) (\<lambda>_. wp (cret f) (round_done B sh rs (Asks q a) s)) u"
    proof (rule wp_mono [OF request_served [OF oku cu p d(5) fu ru]], elim conjE)
      fix x t
      assume t: "served c u t" "content t = snd (reply_to a (content u))"
        "answered (trace t) = answered (trace u) @
           [(Caller, q + 1, req_type a, WORKER_TKN B, fst (reply_to a (content u)))]"
      note st = served_ok [OF oku t(1)]
      have "descriptor (fds t) f = Some k" "net t = net u" using t(1) ne other k by (simp_all add: served_def)
      then have "ready f t" "clean_mem t" using st cu ru by (simp_all add: ready_def)
      then show "wp (cret f) (round_done B sh rs (Asks q a) s) t"
        using t(2,3) u(1) \<open>net t = net u\<close> served_servable [OF oku t(1)] answered_same [OF u(2)]
        by (simp add: wp_cret round_done_def steady_servable [OF su])
    qed
    then show "wp (if c_error c \<noteq> 0
      then cseq (refusal B c) (cbind (conn_close B c) (\<lambda>_. cseq (sys_close f) sys_socket))
      else cseq (worker_handle_client B sh c) (cret f)) (round_done B sh rs (Asks q a) s) u"
      using u(3) by (simp add: wp_cseq)
  qed
  then show ?thesis unfolding worker_round_parts wp_cbind [of "conn_listen _ _ _"] .
qed

lemma visit_round:
  assumes "ready f s" and "clean_mem s" and "net s = x # rs" and "visit_comes B v x" and "servable sh s v (content s)"
  shows "wp (worker_round B sh f) (round_done B sh rs v s) s"
  using assms by (cases v) (auto intro: round_refuses round_serves simp del: visit_comes.simps(2))

interpretation shelf: network_service "\<lambda>f s. ready f s \<and> clean_mem s" "worker_round B sh"
    "\<lambda>s vs. \<exists>ns. list_all2 (visit_comes B) vs ns \<and> net s = ns @ rest"
    content "\<lambda>s. answered (trace s)" "servable sh" "serve_visit B" for B sh rest
proof unfold_locales
  fix f :: int and s :: "'a worker_scheme" and v vs
  assume s: "ready f s \<and> clean_mem s" and w: "\<exists>ns. list_all2 (visit_comes B) (v # vs) ns \<and> net s = ns @ rest"
    and ok: "servable sh s v (content s)"
  obtain x ns where n: "visit_comes B v x" "list_all2 (visit_comes B) vs ns" "net s = x # ns @ rest"
    using w by (auto simp: list_all2_Cons1 simp del: visit_comes.simps)
  show "wp (worker_round B sh f) (\<lambda>h' t. (ready h' t \<and> clean_mem t) \<and> (\<exists>ns. list_all2 (visit_comes B) vs ns \<and> net t = ns @ rest) \<and>
      servable sh t = servable sh s \<and>
      answered (trace t) = answered (trace s) @ fst (serve_visit B v (content s)) \<and>
      content t = snd (serve_visit B v (content s))) s"
    by (rule wp_mono [OF visit_round [OF conjunct1 [OF s] conjunct2 [OF s] n(3,1) ok]]) (use n(2) in \<open>auto simp: round_done_def\<close>)
qed

section \<open>What is read\<close>

fun writes_to :: "string \<Rightarrow> visit \<Rightarrow> bool" where
  "writes_to n (Asks q (Put a k x)) = (k = n)"
| "writes_to n (Asks q (Del k)) = (k = n)"
| "writes_to n v = False"

lemma serve_visit_other: "\<not> writes_to n v \<Longrightarrow> snd (serve_visit B v m) n = m n"
  by (cases "(n, v)" rule: writes_to.cases) (auto simp: abs_write_def Let_def split_def split: option.splits)

lemma serve_all_other:
  "\<forall>v \<in> set vs. \<not> writes_to n v \<Longrightarrow> snd (serve_all (serve_visit B) vs m) n = m n"
  by (induction vs arbitrary: m) (simp_all add: split_def Let_def serve_visit_other)

lemma last_write_read:
  assumes "\<forall>v \<in> set vs. \<not> writes_to n v"
  shows "last (as @ fst (serve_all (serve_visit B) (Asks q (Put False n x) # vs @ [Asks p (Get n)]) m)) =
    (Caller, p + 1, READ, WORKER_TKN B, x)"
  using serve_all_other [OF assms]
  by (simp add: serve_all_append split_def Let_def abs_write_def)

section \<open>Properties\<close>

text \<open>
  C4. A worker implements a store of files for the master: after a sequence of requests to write,
  append, read and delete that it accepts, with refused connections between them, the contents and
  the answers, as their receiver decodes them, are those of the same operations on a map from names
  to contents, and every answer goes to the caller. At its turn a write or an append is accepted
  when its name has no semicolon and can be written, a read when the file is there and its content
  fits the buffer of the reading loop, a delete when the file is missing or \<^verbatim>\<open>rm\<close> can be given its
  path; no name or content has a NUL. (A read of a missing file crashes the worker and one of a long
  file overflows its buffer: such requests are not in the sequence.) The memory that the worker
  allocates is zeroed, with a readable byte behind it.
\<close>

theorem worker_refines_store:
  fixes s :: "'z worker_scheme"
  assumes "ready f s" and "clean_mem s" and "list_all2 (visit_comes B) vs ns" and "net s = ns @ rest"
    and "accept_all (servable sh s) (serve_visit B) vs (content s)"
  shows "wp (rounds (worker_round B sh) (length vs) f) (\<lambda>g t. ready g t \<and> clean_mem t \<and> net t = rest \<and>
      answered (trace t) = answered (trace s) @ fst (serve_all (serve_visit B) vs (content s)) \<and>
      content t = snd (serve_all (serve_visit B) vs (content s))) s"
  by (rule wp_mono [OF shelf.rounds_refine [where rest = rest, OF conjI [OF assms(1,2)] _ assms(5)]]) (use assms(3,4) in auto)

lemma sample_shell_law: "rm_law sample_shell"
  by (simp add: rm_law_def sample_shell_def)

text \<open>Visits for examples.\<close>

definition sample_visits :: "visit list" where
  "sample_visits = [Asks 0 (Put False ''g'' ''hi''), Refused AtBind, Asks 1 (Put True ''g'' ''!''),
     Asks 2 (Get ''g''), Asks 3 (Del ''f'')]"

text \<open>What comes with them; behind every packet are 18 bytes of the sender's memory.\<close>

fun sample_outcome :: "visit \<Rightarrow> outcome" where
  "sample_outcome (Refused g) = Fails g"
| "sample_outcome (Asks q r) = Opens (carries (wire_msg q (req_type r) 2 (req_arg r) @ replicate 18 (CHR ''x'')))"

lemma sample_comes:
  assumes "\<forall>q r. v = Asks q r \<longrightarrow> length (req_arg r) \<le> 1000"
  shows "visit_comes test_build v (sample_outcome v)"
  using assms by (cases v) (auto intro!: brings_wire simp: known_req WORKER_READ_SIZE_def header_size_def)

lemma sample_node_ready: "ready 0 (sample_node [Some unconnected] script h)"
  by (auto simp: ready_def descriptor_def)

lemma sample_node_clean: "clean_mem (sample_node ds script h)"
  by simp

lemma sample_node_store:
  "content (sample_node ds script h) n = (if n = ''f'' then Some ''x'' else None)"
  by (simp add: content_def)

lemma sample_visits_served:
  "accept_all (servable sample_shell (sample_node ds script h)) (serve_visit B) sample_visits
     (content (sample_node ds script h))"
proof -
  have "fits READ_SIZE 0 ''hi!''" by (rule fits_short) (simp_all add: READ_SIZE_def)
  then show ?thesis
    by (simp add: sample_visits_def servable_def sample_node_store abs_write_def
        sample_shell_law plain_def plain_char_def)
qed

theorem worker_refines_store_witness:
  "wp (rounds (worker_round test_build sample_shell) 5 0) (\<lambda>g t. content t ''g'' = Some ''hi!'' \<and>
      content t ''f'' = None \<and> answered (trace t) = [(Caller, 1, WRITE, 1, ''2''), (Caller, 2, APPEND, 1, ''1''),
        (Caller, 3, READ, 1, ''hi!''), (Caller, 4, DELETE, 1, [])])
    (sample_node [Some unconnected] (map sample_outcome sample_visits) [])"
proof -
  have n: "length sample_visits = 5" by (simp add: sample_visits_def)
  let ?n = "sample_node [Some unconnected] (map sample_outcome sample_visits) []"
  have d: "show_int 2 = ''2''" "show_int 1 = ''1''"
    by (simp_all add: show_int_def show_nat.simps digit_def char_of_def bit_iff_odd)
  have r: "serve_all (serve_visit test_build) sample_visits (content ?n) = ([(Caller, 1, WRITE, 1, ''2''),
      (Caller, 2, APPEND, 1, ''1''), (Caller, 3, READ, 1, ''hi!''), (Caller, 4, DELETE, 1, [])], (content ?n)(''g'' \<mapsto> ''hi!'', ''f'' := None))"
    by (simp add: sample_visits_def abs_write_def write_type_def d)
  have c: "list_all2 (visit_comes test_build) sample_visits (map sample_outcome sample_visits)"
    unfolding list_all2_map2 by (intro list_all2_same [THEN iffD2] ballI sample_comes) (auto simp: sample_visits_def)
  show ?thesis
    by (rule wp_mono [OF worker_refines_store [where vs = sample_visits and rest = "[]", unfolded n,
          OF sample_node_ready sample_node_clean c _ sample_visits_served]])
      (auto simp: r answered_def)
qed

text \<open>
  C16. What is written under a name by the network is what a later read of the name answers the
  caller, with requests that do not write to the name or delete it between the two, and refused
  connections. The requests are those that the worker accepts (C4): the content fits the buffer of
  the reading loop, files that are read are there. The memory that the worker allocates is zeroed,
  with a readable byte behind it.
\<close>

theorem worker_reads_last_write:
  fixes s :: "'z worker_scheme"
  assumes "ready f s" and "clean_mem s" and "vs' = Asks q (Put False n x) # vs @ [Asks p (Get n)]"
    and "list_all2 (visit_comes B) vs' ns" and "net s = ns @ rest"
    and "accept_all (servable sh s) (serve_visit B) vs' (content s)" and "\<forall>v \<in> set vs. \<not> writes_to n v"
  shows "wp (rounds (worker_round B sh) (length vs') f)
    (\<lambda>g t. last (answered (trace t)) = (Caller, p + 1, READ, WORKER_TKN B, x)) s"
  by (rule wp_mono [OF shelf.rounds_refine [where rest = rest, OF conjI [OF assms(1,2)] _ assms(6)]])
    (use assms(4,5) in \<open>auto simp only: assms(3) last_write_read [OF assms(7)]\<close>)

theorem worker_reads_last_write_witness:
  "wp (rounds (worker_round test_build sample_shell) 3 0) (\<lambda>g t. last (answered (trace t)) = (Caller, 5, READ, 1, ''a;b''))
    (sample_node [Some unconnected]
       (map sample_outcome [Asks 0 (Put False ''g'' ''a;b''), Refused AtBind, Asks 4 (Get ''g'')]) [])"
proof -
  let ?v = "[Asks 0 (Put False ''g'' ''a;b''), Refused AtBind, Asks 4 (Get ''g'')]"
  let ?n = "sample_node [Some unconnected] (map sample_outcome ?v) []"
  have "fits READ_SIZE 0 ''a;b''" by (rule fits_short) (simp_all add: READ_SIZE_def)
  then have acc: "accept_all (servable sample_shell ?n) (serve_visit test_build) ?v (content ?n)"
    by (simp add: servable_def abs_write_def del: fits.simps)
  have c: "list_all2 (visit_comes test_build) ?v (map sample_outcome ?v)"
    unfolding list_all2_map2 by (intro list_all2_same [THEN iffD2] ballI sample_comes) auto
  have "wp (rounds (worker_round test_build sample_shell) (length ?v) 0)
      (\<lambda>g t. last (answered (trace t)) = (Caller, 4 + 1, READ, WORKER_TKN test_build, ''a;b'')) ?n"
    by (rule worker_reads_last_write [OF sample_node_ready sample_node_clean _ c _ acc, where vs = "[Refused AtBind]" and rest = "[]"])
      simp_all
  moreover have "length ?v = 3" by simp
  ultimately show ?thesis by (simp del: rounds.simps list.size)
qed

end
