(* ===== verification/End_To_End.thy ===== *)
theory End_To_End
  imports Client_Reads Forwarding Worker_Store
begin

text \<open>
  The commands \<^verbatim>\<open>ls\<close>, \<^verbatim>\<open>delete\<close> and \<^verbatim>\<open>append\<close> from end to end: what the client sends, what the
  master makes of it and what the user is told.
\<close>

section \<open>Putting the parts together\<close>

lemma worker_fds [simp]:
  fixes w :: "'z worker_scheme"
  shows "exec_ok (w\<lparr>fds := x\<rparr>) = exec_ok w" "path_of (w\<lparr>fds := x\<rparr>) n = path_of w n"
    "content (w\<lparr>fds := x\<rparr>) n = content w n"
  by (auto simp: exec_ok_def fs_ok_def log_ok_def path_of_def content_def split: ptr.splits)

text \<open>The packet that a peer sends is the one that arrives.\<close>

lemma forwarded_arrives:
  fixes w :: "'z os_scheme" and tok :: u64
  assumes "fd c = 0" and "known_type ty" and "22 + length x + length leak \<le> m" and "length x < 2 ^ 32"
  defines "bs \<equiv> wire_msg 0 ty tok x @ leak"
  shows "has_packet c m bs (w\<lparr>fds := [Some (carries bs)]\<rparr>)"
    "wire_type bs = ty" "wire_token bs = tok" "wire_body bs = x"
proof -
  show "has_packet c m bs (w\<lparr>fds := [Some (carries bs)]\<rparr>)"
    using assms(1,3) unat_length [OF assms(4)]
    by (simp add: bs_def has_packet_def descriptor_def wire_msg_more header_size_def)
  show "wire_type bs = ty" "wire_token bs = tok" using assms(2) by (simp_all add: bs_def wire_msg_more)
  show "wire_body bs = x" unfolding bs_def by (rule wire_msg_body [OF assms(4)])
qed

section \<open>Listing\<close>

lemma list_end_to_end:
  fixes s :: "'x client_scheme" and m :: "'z master_scheme"
  assumes ok: "log_ok s" "log_msg s = Null" "msg_ok s"
    and argv: "list_all2 (\<lambda>p w. cstring s p = Some w) [p0, p1] [w0, ''ls'']"
    and cfg: "holds_settings B (a, prt) s" and a: "inet_pton4 a"
    and net: "net s = Opens d # qs" "accepts d" "incoming d = Arrives (joined as @ [NUL]) # rest"
    and short: "NUL \<notin> set (joined as)" "length (joined as) < 999" and room: "\<And>j. 20 \<le> spare s j + room s j"
    and m: "wf_mem m" "clean_mem m" "table_ok m" "servers m \<noteq> []" "fd c' = 0"
      "\<And>w. w \<in> set (servers m) \<Longrightarrow> \<exists>a. cstring m (ip w) = Some a \<and> inet_pton4 a"
      "length as = length (servers m)" "net m = map Opens ks @ rs" "list_all2 says ks as"
      "\<And>j. 18 \<le> spare m j + room m j"
  shows "wp (client_main B [p0, p1]) (\<lambda>r u. r = 0 \<and> (\<exists>g bs tr.
      effects (trace u) = effects (trace s) @ [Sent g (Host a prt) bs, Closed g] \<and>
      trace u = tr @ [Printed (joined as @ [NL])] \<and>
      wp (handle_client B c') (\<lambda>_ z. servers z = servers m \<and>
          (\<exists>es. effects (trace z) = effects (trace m) @ es @ [Sent 0 Caller (joined as @ [NUL])] \<and>
            length es = length as \<and> list_all2 (asks_list B) (addresses m) es))
        (m\<lparr>fds := [Some (carries bs)]\<rparr>))) s"
proof (rule wp_mono [OF ls_command [OF ok argv cfg a net(1,2)]])
  show "incoming d = Arrives (joined as @ NUL # []) # rest" by (rule net(3))
  show "length (joined as @ NUL # []) < 1000" using short(2) by simp
  fix r :: int and u :: "'x client_scheme"
  assume "r = 0 \<and> asked s (a, prt) LS [] 21 (joined as) u"
  then obtain g leak tr where u: "r = 0" "length leak = 21"
    "effects (trace u) = effects (trace s) @ [Sent g (Host a prt) (wire_msg 0 LS 0 [] @ leak), Closed g]"
    "trace u = tr @ [Printed (joined as @ [NL])]" by (auto simp: asked_def)
  let ?bs = "wire_msg 0 LS 0 [] @ leak"
  let ?m = "m\<lparr>fds := [Some (carries ?bs)]\<rparr>"
  have "22 + length ([] :: string) + length leak \<le> READ_SZ" using u(2) by (simp add: READ_SZ_def)
  note p = forwarded_arrives(1) [OF m(5) known_types(2) this, of 0 m] forwarded_arrives(2) [OF m(5) known_types(2) this, of 0]
  have "wp (handle_client B c') (\<lambda>_ t. servers t = servers ?m \<and> table_ok t \<and>
      (\<exists>es. effects (trace t) = effects (trace ?m) @ es @ [Sent (fd c') Caller (joined as @ [NUL])] \<and>
        length es = length as \<and> list_all2 (asks_list B) (addresses ?m) es)) ?m"
    by (rule list_request [OF _ _ _ _ p(1,2)]) (use m in \<open>simp_all del: cstring.simps\<close>)
  then have "wp (handle_client B c') (\<lambda>_ z. servers z = servers m \<and>
      (\<exists>es. effects (trace z) = effects (trace m) @ es @ [Sent 0 Caller (joined as @ [NUL])] \<and>
        length es = length as \<and> list_all2 (asks_list B) (addresses m) es)) ?m"
    by (rule wp_mono) (use m(5) in simp)
  with u show "r = 0 \<and> (\<exists>g bs tr.
      effects (trace u) = effects (trace s) @ [Sent g (Host a prt) bs, Closed g] \<and>
      trace u = tr @ [Printed (joined as @ [NL])] \<and>
      wp (handle_client B c') (\<lambda>_ z. servers z = servers m \<and>
          (\<exists>es. effects (trace z) = effects (trace m) @ es @ [Sent 0 Caller (joined as @ [NUL])] \<and>
            length es = length as \<and> list_all2 (asks_list B) (addresses m) es))
        (m\<lparr>fds := [Some (carries bs)]\<rparr>))" by blast
qed (use short room in simp_all)

section \<open>Deleting\<close>

lemma delete_outcome_1: "delete_outcome ''1'' = ''File was deleted.''"
proof -
  have "show_int 1 = ''1''" by (simp add: show_int_def show_nat.simps digit_def char_of_def bit_iff_odd)
  then have "atoi ''1'' = 1" using atoi_show_int [of "[]" 1] by (simp add: stops_digits_def)
  then show ?thesis by (simp add: delete_outcome_def)
qed

text \<open>What a worker does with the packet that the master forwards.\<close>

lemma forwarded_delete:
  fixes w :: "'z worker_scheme"
  assumes ok: "exec_ok w" "clean_mem w" and c: "fd c = 0" and n: "NUL \<notin> set n" "40 + length n \<le> WORKER_READ_SIZE"
    and sh: "content w n = None \<or> rm_law sh \<and> plain (path_of w n)"
    and room: "\<And>j. 18 \<le> spare w j + room w j" and ds: "deletes B n h ds"
  shows "\<exists>g bs. ds = [Sent g (Host (fst h) (snd h)) bs, Closed g] \<and>
    wp (worker_handle_client B sh c) (\<lambda>_ t. files t = (files w)(path_of w n := None)) (w\<lparr>fds := [Some (carries bs)]\<rparr>)"
proof -
  obtain g leak where ds: "length leak = 18" "ds = [Sent g (Host (fst h) (snd h)) (wire_msg 0 DELETE (MASTER_TKN B) n @ leak), Closed g]"
    using ds by (auto simp: deletes_def)
  let ?bs = "wire_msg 0 DELETE (MASTER_TKN B) n @ leak"
  let ?w = "w\<lparr>fds := [Some (carries ?bs)]\<rparr>"
  have l: "22 + length n + length leak \<le> WORKER_READ_SIZE" using n(2) ds(1) by simp
  then have "length n < 2 ^ 32" by (simp add: WORKER_READ_SIZE_def)
  note p = forwarded_arrives(1) [OF c known_types(7) l this, of "MASTER_TKN B" w]
    forwarded_arrives(2-4) [OF c known_types(7) l this, of "MASTER_TKN B"]
  have "wp (worker_handle_client B sh c) (\<lambda>_ t. files t = (files w)(path_of w n := None)) ?w"
    by (rule wp_mono [OF delete_answered [OF _ _ p(1,3,2)]])
      (use ok n(1) sh room p(4) in simp_all)
  with ds(2) show ?thesis by blast
qed

lemma delete_end_to_end:
  fixes s :: "'x client_scheme" and m :: "'z master_scheme" and w :: "'y worker_scheme"
  assumes ok: "log_ok s" "log_msg s = Null" "msg_ok s"
    and argv: "list_all2 (\<lambda>p w. cstring s p = Some w) [p0, p1, p2] [w0, ''delete'', n]"
    and cfg: "holds_settings B (a, prt) s" and a: "inet_pton4 a"
    and net: "net s = Opens d # qs" "accepts d" "incoming d = Arrives (''1'' @ [NUL]) # rest"
    and len: "41 + length n \<le> READ_SZ" "40 + length n \<le> WORKER_READ_SIZE" and room: "\<And>j. 18 \<le> spare s j + room s j"
    and m: "wf_mem m" "clean_mem m" "table_ok m" "servers m \<noteq> []" "log_ok m" "fd c' = 0"
      "\<And>w. w \<in> set (servers m) \<Longrightarrow> \<exists>a. cstring m (ip w) = Some a \<and> inet_pton4 a"
      "length lt = length (servers m)" "net m = map Opens ks @ rs" "list_all2 lists ks (take (asked_count n lt) lt)"
      "first_idx (occurs n) lt \<noteq> None \<Longrightarrow> rs = Opens k # rs' \<and> accepts k" "\<And>j. 18 \<le> spare m j + room m j"
    and w: "exec_ok w" "clean_mem w" "fd c = 0" "content w n = None \<or> rm_law sh \<and> plain (path_of w n)"
      "\<And>j. 18 \<le> spare w j + room w j"
  shows "wp (client_main B [p0, p1, p2]) (\<lambda>r u. r = 0 \<and> (\<exists>g bs tr.
      effects (trace u) = effects (trace s) @ [Sent g (Host a prt) bs, Closed g] \<and>
      trace u = tr @ [Printed (''File was deleted.'' @ [NL])] \<and>
      wp (handle_client B c') (\<lambda>_ z. servers z = servers m \<and> (\<exists>es ds.
          effects (trace z) = effects (trace m) @ es @ ds @ [Sent 0 Caller (''1'' @ [NUL])] \<and>
          length es = asked_count n lt \<and> list_all2 (asks_list B) (take (asked_count n lt) (addresses m)) es \<and>
          (case holder n lt (addresses m) of None \<Rightarrow> ds = []
           | Some h \<Rightarrow> \<exists>g bs. ds = [Sent g (Host (fst h) (snd h)) bs, Closed g] \<and>
             wp (worker_handle_client B sh c) (\<lambda>_ t. files t = (files w)(path_of w n := None))
               (w\<lparr>fds := [Some (carries bs)]\<rparr>))))
        (m\<lparr>fds := [Some (carries bs)]\<rparr>))) s"
proof (rule wp_mono [OF delete_command [OF ok argv cfg a net(1,2)]])
  show "incoming d = Arrives (''1'' @ NUL # []) # rest" by (rule net(3))
  show "length n + 1 < 2 ^ 32" using len by (simp add: READ_SZ_def)
  fix r :: int and u :: "'x client_scheme"
  note one = delete_outcome_1
  have no: "NUL \<notin> set n" using argv by (auto dest: cstring_no_nul)
  assume "r = 0 \<and> (\<exists>g leak tr. length leak = 19 \<and>
      effects (trace u) = effects (trace s) @ [Sent g (Host a prt) (wire_msg 0 DELETE 0 n @ leak), Closed g] \<and>
      trace u = tr @ [Printed (delete_outcome ''1'' @ [NL])])"
  then obtain g leak tr where u: "r = 0" "length leak = 19"
    "effects (trace u) = effects (trace s) @ [Sent g (Host a prt) (wire_msg 0 DELETE 0 n @ leak), Closed g]"
    "trace u = tr @ [Printed (''File was deleted.'' @ [NL])]" unfolding one by blast
  let ?bs = "wire_msg 0 DELETE 0 n @ leak"
  let ?m = "m\<lparr>fds := [Some (carries ?bs)]\<rparr>"
  have l: "22 + length n + length leak \<le> READ_SZ" using len u(2) by simp
  then have "length n < 2 ^ 32" by (simp add: READ_SZ_def)
  note p = forwarded_arrives(1) [OF m(6) known_types(7) l this, of 0 m]
    forwarded_arrives(2-4) [OF m(6) known_types(7) l this, of 0]
  have "wp (handle_client B c') (\<lambda>_ t. servers t = servers ?m \<and> table_ok t \<and>
      (\<exists>es ds. effects (trace t) = effects (trace ?m) @ es @ ds @ [Sent (fd c') Caller (''1'' @ [NUL])] \<and>
        length es = asked_count n lt \<and> list_all2 (asks_list B) (take (asked_count n lt) (addresses ?m)) es \<and>
        (case holder n lt (addresses ?m) of None \<Rightarrow> ds = [] | Some h \<Rightarrow> deletes B n h ds))) ?m"
    by (rule delete_request [OF _ _ _ _ _ p(1,2,4) no])
      (use m in \<open>simp_all add: log_ok_def del: cstring.simps\<close>)
  then have "wp (handle_client B c') (\<lambda>_ z. servers z = servers m \<and> (\<exists>es ds.
      effects (trace z) = effects (trace m) @ es @ ds @ [Sent 0 Caller (''1'' @ [NUL])] \<and>
      length es = asked_count n lt \<and> list_all2 (asks_list B) (take (asked_count n lt) (addresses m)) es \<and>
      (case holder n lt (addresses m) of None \<Rightarrow> ds = []
       | Some h \<Rightarrow> \<exists>g bs. ds = [Sent g (Host (fst h) (snd h)) bs, Closed g] \<and>
         wp (worker_handle_client B sh c) (\<lambda>_ t. files t = (files w)(path_of w n := None))
           (w\<lparr>fds := [Some (carries bs)]\<rparr>)))) ?m"
  proof (rule wp_mono)
    fix z :: "'z master_scheme" assume "servers z = servers ?m \<and> table_ok z \<and>
      (\<exists>es ds. effects (trace z) = effects (trace ?m) @ es @ ds @ [Sent (fd c') Caller (''1'' @ [NUL])] \<and>
        length es = asked_count n lt \<and> list_all2 (asks_list B) (take (asked_count n lt) (addresses ?m)) es \<and>
        (case holder n lt (addresses ?m) of None \<Rightarrow> ds = [] | Some h \<Rightarrow> deletes B n h ds))"
    then obtain es ds where z: "servers z = servers m"
      "effects (trace z) = effects (trace m) @ es @ ds @ [Sent 0 Caller (''1'' @ [NUL])]"
      "length es = asked_count n lt" "list_all2 (asks_list B) (take (asked_count n lt) (addresses m)) es"
      "case holder n lt (addresses m) of None \<Rightarrow> ds = [] | Some h \<Rightarrow> deletes B n h ds" using m(6) by auto
    have "deletes B n h ds \<Longrightarrow> \<exists>g bs. ds = [Sent g (Host (fst h) (snd h)) bs, Closed g] \<and>
        wp (worker_handle_client B sh c) (\<lambda>_ t. files t = (files w)(path_of w n := None))
          (w\<lparr>fds := [Some (carries bs)]\<rparr>)" for h
      by (rule forwarded_delete [OF w(1-3) no len(2) w(4,5)])
    with z(5) have "case holder n lt (addresses m) of None \<Rightarrow> ds = []
       | Some h \<Rightarrow> \<exists>g bs. ds = [Sent g (Host (fst h) (snd h)) bs, Closed g] \<and>
         wp (worker_handle_client B sh c) (\<lambda>_ t. files t = (files w)(path_of w n := None))
           (w\<lparr>fds := [Some (carries bs)]\<rparr>)" by (cases "holder n lt (addresses m)") (simp_all del: holder_None)
    with z(1-4) show "servers z = servers m \<and> (\<exists>es ds.
      effects (trace z) = effects (trace m) @ es @ ds @ [Sent 0 Caller (''1'' @ [NUL])] \<and>
      length es = asked_count n lt \<and> list_all2 (asks_list B) (take (asked_count n lt) (addresses m)) es \<and>
      (case holder n lt (addresses m) of None \<Rightarrow> ds = []
       | Some h \<Rightarrow> \<exists>g bs. ds = [Sent g (Host (fst h) (snd h)) bs, Closed g] \<and>
         wp (worker_handle_client B sh c) (\<lambda>_ t. files t = (files w)(path_of w n := None))
           (w\<lparr>fds := [Some (carries bs)]\<rparr>)))" by blast
  qed
  with u show "r = 0 \<and> (\<exists>g bs tr.
      effects (trace u) = effects (trace s) @ [Sent g (Host a prt) bs, Closed g] \<and>
      trace u = tr @ [Printed (''File was deleted.'' @ [NL])] \<and>
      wp (handle_client B c') (\<lambda>_ z. servers z = servers m \<and> (\<exists>es ds.
          effects (trace z) = effects (trace m) @ es @ ds @ [Sent 0 Caller (''1'' @ [NUL])] \<and>
          length es = asked_count n lt \<and> list_all2 (asks_list B) (take (asked_count n lt) (addresses m)) es \<and>
          (case holder n lt (addresses m) of None \<Rightarrow> ds = []
           | Some h \<Rightarrow> \<exists>g bs. ds = [Sent g (Host (fst h) (snd h)) bs, Closed g] \<and>
             wp (worker_handle_client B sh c) (\<lambda>_ t. files t = (files w)(path_of w n := None))
               (w\<lparr>fds := [Some (carries bs)]\<rparr>))))
        (m\<lparr>fds := [Some (carries bs)]\<rparr>))" by blast
qed (use room in simp_all)

section \<open>Appending\<close>

lemma show_minus_1: "show_int (- 1) = ''-1''"
  by (simp add: show_int_def show_nat.simps digit_def char_of_def bit_iff_odd)

lemma append_end_to_end:
  fixes s :: "'x client_scheme" and m :: "'z master_scheme"
  assumes ok: "log_ok s" "log_msg s = Null" "msg_ok s"
    and argv: "list_all2 (\<lambda>p w. cstring s p = Some w) [p0, p1, p2, p3] [w0, ''append'', n, x]"
    and cfg: "holds_settings B (a, prt) s" and a: "inet_pton4 a"
    and net: "net s = Opens d # qs" "accepts d" "incoming d = Arrives (''-1'' @ [NUL]) # rest"
    and len: "42 + length n + length x \<le> READ_SZ" and n: "CHR '';'' \<notin> set n"
    and room: "\<And>j. 18 \<le> spare s j + room s j"
    and m: "wf_mem m" "clean_mem m" "table_ok m" "servers m \<noteq> []" "fd c' = 0"
  shows "wp (client_main B [p0, p1, p2, p3]) (\<lambda>r u. r = 0 \<and> (\<exists>g bs tr.
      effects (trace u) = effects (trace s) @ [Sent g (Host a prt) bs, Closed g] \<and>
      trace u = tr @ [Printed (''Wrote -1 bytes'' @ [NL])] \<and>
      wp (handle_client B c') (\<lambda>_ z. servers z = servers m \<and>
          effects (trace z) = effects (trace m) @ [Sent 0 Caller (''-1'' @ [NUL])])
        (m\<lparr>fds := [Some (carries bs)]\<rparr>))) s"
proof (rule wp_mono [OF put_command [where app = True and v = "- 1", OF ok _ cfg a net(1,2)]])
  show "list_all2 (\<lambda>p w. cstring s p = Some w) [p0, p1, p2, p3]
      [w0, if True then ''append'' else ''write'', n, x]" using argv by simp
  show "incoming d = Arrives (show_int (- 1) @ [NUL]) # rest" using net(3) by (simp add: show_minus_1)
  show "length n + length x + 2 < 2 ^ 31" using len by (simp add: READ_SZ_def)
  let ?x = "n @ CHR '';'' # x"
  fix r :: int and u :: "'x client_scheme"
  assume "r = 0 \<and> (\<exists>g leak tr. length leak = 19 \<and>
      effects (trace u) = effects (trace s) @
        [Sent g (Host a prt) (wire_msg 0 (if True then APPEND else WRITE) 0 ?x @ leak), Closed g] \<and>
      trace u = tr @ [Printed (''Wrote '' @ show_int (- 1) @ '' bytes'' @ [NL])])"
  then obtain g leak tr where u: "r = 0" "length leak = 19"
    "effects (trace u) = effects (trace s) @ [Sent g (Host a prt) (wire_msg 0 APPEND 0 ?x @ leak), Closed g]"
    "trace u = tr @ [Printed (''Wrote -1 bytes'' @ [NL])]" by (auto simp: show_minus_1)
  have no: "NUL \<notin> set (n @ x)" using argv by (auto dest: cstring_no_nul)
  have l: "22 + length ?x + length leak \<le> READ_SZ" using len u(2) by simp
  then have "length ?x < 2 ^ 32" by (simp add: READ_SZ_def)
  note p = forwarded_arrives(1) [OF m(5) known_types(5) l this, of 0 m]
    forwarded_arrives(2-4) [OF m(5) known_types(5) l this, of 0]
  let ?m = "m\<lparr>fds := [Some (carries (wire_msg 0 APPEND 0 ?x @ leak))]\<rparr>"
  have "wp (handle_client B c') (\<lambda>_ t. table_ok t \<and> servers t = servers ?m \<and>
      effects (trace t) = effects (trace ?m) @ [Sent (fd c') Caller (''-1'' @ [NUL])]) ?m"
    by (rule append_request [OF _ _ _ _ p(1,2,4) n no]) (use m in simp_all)
  then have "wp (handle_client B c') (\<lambda>_ z. servers z = servers m \<and>
      effects (trace z) = effects (trace m) @ [Sent 0 Caller (''-1'' @ [NUL])]) ?m"
    by (rule wp_mono) (use m(5) in simp)
  with u show "r = 0 \<and> (\<exists>g bs tr.
      effects (trace u) = effects (trace s) @ [Sent g (Host a prt) bs, Closed g] \<and>
      trace u = tr @ [Printed (''Wrote -1 bytes'' @ [NL])] \<and>
      wp (handle_client B c') (\<lambda>_ z. servers z = servers m \<and>
          effects (trace z) = effects (trace m) @ [Sent 0 Caller (''-1'' @ [NUL])])
        (m\<lparr>fds := [Some (carries bs)]\<rparr>))" by blast
qed (use room in simp_all)

section \<open>Properties\<close>

text \<open>
  C9. A listing from end to end: the command connects to the address and port of its settings, and
  the packet that it sends there makes the master connect to the address and port of every worker
  of its table, once to each and in the order of the table, ask it for its listing with the master's
  token, and answer with the listings that arrive; the user gets that text. The memory that the
  programs allocate is zeroed, the client's excepted.
\<close>

theorem client_lists_files:
  fixes s :: "'x client_scheme" and m :: "'z master_scheme"
  assumes "log_ok s" and "log_msg s = Null" and "msg_ok s"
    and "list_all2 (\<lambda>p w. cstring s p = Some w) [p0, p1] [w0, ''ls'']"
    and "holds_settings B (a, prt) s" and "inet_pton4 a"
    and "net s = Opens d # qs" and "accepts d" and "incoming d = Arrives (joined as @ [NUL]) # rest"
    and "NUL \<notin> set (joined as)" and "length (joined as) < 999" and "\<And>j. 20 \<le> spare s j + room s j"
    and "wf_mem m" and "clean_mem m" and "table_ok m" and "servers m \<noteq> []" and "fd c' = 0"
    and "\<And>w. w \<in> set (servers m) \<Longrightarrow> \<exists>a. cstring m (ip w) = Some a \<and> inet_pton4 a"
    and "length as = length (servers m)" and "net m = map Opens ks @ rs" and "list_all2 says ks as"
    and "\<And>j. 18 \<le> spare m j + room m j"
  shows "wp (client_main B [p0, p1]) (\<lambda>r u. r = 0 \<and> (\<exists>g bs tr.
      effects (trace u) = effects (trace s) @ [Sent g (Host a prt) bs, Closed g] \<and>
      trace u = tr @ [Printed (joined as @ [NL])] \<and>
      wp (handle_client B c') (\<lambda>_ z. servers z = servers m \<and>
          (\<exists>es. effects (trace z) = effects (trace m) @ es @ [Sent 0 Caller (joined as @ [NUL])] \<and>
            length es = length as \<and> list_all2 (asks_list B) (addresses m) es))
        (m\<lparr>fds := [Some (carries bs)]\<rparr>))) s"
  using assms by (rule list_end_to_end)

theorem client_lists_files_witness:
  "wp (client_main test_build [Ptr 0 0, Ptr 1 0]) (\<lambda>r u. r = 0 \<and> (\<exists>g bs tr.
      effects (trace u) = [Sent g (Host ''10.0.0.1'' 4040) bs, Closed g] \<and> trace u = tr @ [Printed (NL # ''a'' @ NL # ''b'' @ [NL])] \<and>
      wp (handle_client test_build sample_conn)
        (\<lambda>_ z. \<exists>e e'. effects (trace z) = [e, e', Sent 0 Caller (NL # ''a'' @ NL # ''b'' @ [NUL])] \<and>
          asks_list test_build (''127.0.0.1'', 55443) e \<and> asks_list test_build (''127.0.0.1'', 55444) e')
        ((sample_master [sample_worker, other_worker] []
          [Opens (carries (wire_msg 1 LS 1 ''a'')), Opens (carries (wire_msg 1 LS 1 ''b''))])
          \<lparr>fds := [Some (carries bs)]\<rparr>)))
    (sample_caller [''pekar'', ''ls''] [Opens (carries (NL # ''a'' @ NL # ''b'' @ [NUL]))])"
  by (rule wp_mono [OF client_lists_files [OF _ _ _ sample_words sample_caller_settings sample_master_address,
        where m = "sample_master [sample_worker, other_worker] []
            [Opens (carries (wire_msg 1 LS 1 ''a'')), Opens (carries (wire_msg 1 LS 1 ''b''))]"
          and as = "[Some ''a'', Some ''b'']" and rs = "[]" and c' = sample_conn
          and ks = "[carries (wire_msg 1 LS 1 ''a''), carries (wire_msg 1 LS 1 ''b'')]"
          and d = "carries (NL # ''a'' @ NL # ''b'' @ [NUL])" and qs = "[]" and rest = "[]"]])
    (use sample_address in \<open>auto simp: sample_conn_def sample_lists length_Suc_conv sample_addresses list_all2_Cons1
      simp del: cstring.simps elim!: wp_mono\<close>)

text \<open>
  C6. A delete from end to end, through all three programs: the packet that the command sends
  makes the master connect to the addresses and ports of its workers, in the order of its table, ask
  each for its listing up to the first that has the name in it, and connect to that worker's address
  and port again, with a packet on which a worker removes the file of that name. The master answers
  \<^verbatim>\<open>1\<close> and the user is told that the file was deleted, also when no worker has it and nothing is sent.
  Every worker that is asked answers (C23 is what happens when one is silent), and the memory that
  the master and the worker allocate is zeroed.
\<close>

theorem client_deletes:
  fixes s :: "'x client_scheme" and m :: "'z master_scheme" and w :: "'y worker_scheme"
  assumes "log_ok s" and "log_msg s = Null" and "msg_ok s"
    and "list_all2 (\<lambda>p w. cstring s p = Some w) [p0, p1, p2] [w0, ''delete'', n]"
    and "holds_settings B (a, prt) s" and "inet_pton4 a"
    and "net s = Opens d # qs" and "accepts d" and "incoming d = Arrives (''1'' @ [NUL]) # rest"
    and "41 + length n \<le> READ_SZ" and "40 + length n \<le> WORKER_READ_SIZE" and "\<And>j. 18 \<le> spare s j + room s j"
    and "wf_mem m" and "clean_mem m" and "table_ok m" and "servers m \<noteq> []" and "log_ok m" and "fd c' = 0"
    and "\<And>w. w \<in> set (servers m) \<Longrightarrow> \<exists>a. cstring m (ip w) = Some a \<and> inet_pton4 a"
    and "length lt = length (servers m)" and "net m = map Opens ks @ rs"
    and "list_all2 lists ks (take (asked_count n lt) lt)"
    and "first_idx (occurs n) lt \<noteq> None \<Longrightarrow> rs = Opens k # rs' \<and> accepts k" and "\<And>j. 18 \<le> spare m j + room m j"
    and "exec_ok w" and "clean_mem w" and "fd c = 0" and "content w n = None \<or> rm_law sh \<and> plain (path_of w n)"
    and "\<And>j. 18 \<le> spare w j + room w j"
  shows "wp (client_main B [p0, p1, p2]) (\<lambda>r u. r = 0 \<and> (\<exists>g bs tr.
      effects (trace u) = effects (trace s) @ [Sent g (Host a prt) bs, Closed g] \<and>
      trace u = tr @ [Printed (''File was deleted.'' @ [NL])] \<and>
      wp (handle_client B c') (\<lambda>_ z. servers z = servers m \<and> (\<exists>es ds.
          effects (trace z) = effects (trace m) @ es @ ds @ [Sent 0 Caller (''1'' @ [NUL])] \<and>
          length es = asked_count n lt \<and> list_all2 (asks_list B) (take (asked_count n lt) (addresses m)) es \<and>
          (case holder n lt (addresses m) of None \<Rightarrow> ds = []
           | Some h \<Rightarrow> \<exists>g bs. ds = [Sent g (Host (fst h) (snd h)) bs, Closed g] \<and>
             wp (worker_handle_client B sh c) (\<lambda>_ t. files t = (files w)(path_of w n := None))
               (w\<lparr>fds := [Some (carries bs)]\<rparr>))))
        (m\<lparr>fds := [Some (carries bs)]\<rparr>))) s"
  using assms by (rule delete_end_to_end)

text \<open>A worker that holds the file, and a shell that obeys \<^verbatim>\<open>rm\<close>: the file is gone.\<close>

theorem client_deletes_witness:
  "wp (client_main test_build [Ptr 0 0, Ptr 1 0, Ptr 2 0]) (\<lambda>r u. r = 0 \<and> (\<exists>g bs tr.
      effects (trace u) = [Sent g (Host ''10.0.0.1'' 4040) bs, Closed g] \<and> trace u = tr @ [Printed (''File was deleted.'' @ [NL])] \<and>
      wp (handle_client test_build sample_conn) (\<lambda>_ z. \<exists>e e' g bs.
          effects (trace z) = [e, e', Sent g (Host ''127.0.0.1'' 55444) bs, Closed g, Sent 0 Caller (''1'' @ [NUL])] \<and>
          asks_list test_build (''127.0.0.1'', 55443) e \<and> asks_list test_build (''127.0.0.1'', 55444) e' \<and>
          wp (worker_handle_client test_build sample_shell sample_conn) (\<lambda>_ t. files t = Map.empty)
            ((sample_node [] [] [])\<lparr>fds := [Some (carries bs)]\<rparr>))
        ((sample_master [sample_worker, other_worker] []
          [Opens (carries (wire_msg 1 LS 1 ''x'')), Opens (carries (wire_msg 1 LS 1 ''f'')), Opens (carries [])])
          \<lparr>fds := [Some (carries bs)]\<rparr>)))
    (sample_caller [''pekar'', ''delete'', ''f''] [Opens (carries (''1'' @ [NUL]))])"
proof -
  have l: "lists (carries (wire_msg 1 LS 1 ''f'')) ''f''" "lists (carries (wire_msg 1 LS 1 ''x'')) ''x''"
    by (simp_all add: lists_def WORKER_READ_LEN_def sizeof_packet_def header_size_def)
  have p: "plain ''dir/f''" by (simp add: plain_def plain_char_def)
  show ?thesis
    by (rule wp_mono [OF client_deletes [OF _ _ _ sample_words3 sample_caller_settings sample_master_address,
          where m = "sample_master [sample_worker, other_worker] []
              [Opens (carries (wire_msg 1 LS 1 ''x'')), Opens (carries (wire_msg 1 LS 1 ''f'')), Opens (carries [])]"
            and w = "sample_node [] [] []" and c = sample_conn and c' = sample_conn and sh = sample_shell
            and lt = "[''x'', ''f'']" and ks = "[carries (wire_msg 1 LS 1 ''x''), carries (wire_msg 1 LS 1 ''f'')]" and rs = "[Opens (carries [])]"
            and k = "carries []" and rs' = "[]" and d = "carries (''1'' @ [NUL])" and qs = "[]" and rest = "[]"]])
      (use l p sample_shell_law sample_address in
        \<open>auto simp: sample_conn_def READ_SZ_def WORKER_READ_SIZE_def length_Suc_conv holder_def sample_addresses list_all2_Cons1
        simp del: cstring.simps elim!: wp_mono\<close>)
qed

text \<open>
  C28. An append from end to end: the packet that the command sends makes the master answer
  \<^verbatim>\<open>-1\<close> without asking any worker, and the user is told that \<^verbatim>\<open>-1\<close> bytes were written.
\<close>

theorem client_append_fails:
  fixes s :: "'x client_scheme" and m :: "'z master_scheme"
  assumes "log_ok s" and "log_msg s = Null" and "msg_ok s"
    and "list_all2 (\<lambda>p w. cstring s p = Some w) [p0, p1, p2, p3] [w0, ''append'', n, x]"
    and "holds_settings B (a, prt) s" and "inet_pton4 a"
    and "net s = Opens d # qs" and "accepts d" and "incoming d = Arrives (''-1'' @ [NUL]) # rest"
    and "42 + length n + length x \<le> READ_SZ" and "CHR '';'' \<notin> set n" and "\<And>j. 18 \<le> spare s j + room s j"
    and "wf_mem m" and "clean_mem m" and "table_ok m" and "servers m \<noteq> []" and "fd c' = 0"
  shows "wp (client_main B [p0, p1, p2, p3]) (\<lambda>r u. r = 0 \<and> (\<exists>g bs tr.
      effects (trace u) = effects (trace s) @ [Sent g (Host a prt) bs, Closed g] \<and>
      trace u = tr @ [Printed (''Wrote -1 bytes'' @ [NL])] \<and>
      wp (handle_client B c') (\<lambda>_ z. servers z = servers m \<and>
          effects (trace z) = effects (trace m) @ [Sent 0 Caller (''-1'' @ [NUL])])
        (m\<lparr>fds := [Some (carries bs)]\<rparr>))) s"
  using assms by (rule append_end_to_end)

theorem client_append_fails_witness:
  "wp (client_main test_build [Ptr 0 0, Ptr 1 0, Ptr 2 0, Ptr 3 0]) (\<lambda>r u. r = 0 \<and> (\<exists>g bs tr.
      effects (trace u) = [Sent g (Host ''10.0.0.1'' 4040) bs, Closed g] \<and> trace u = tr @ [Printed (''Wrote -1 bytes'' @ [NL])] \<and>
      wp (handle_client test_build sample_conn) (\<lambda>_ z. effects (trace z) = [Sent 0 Caller (''-1'' @ [NUL])])
        ((sample_master [sample_worker] [] [])\<lparr>fds := [Some (carries bs)]\<rparr>)))
    (sample_caller [''pekar'', ''append'', ''f'', ''x''] [Opens (carries (''-1'' @ [NUL]))])"
proof -
  have ws: "list_all2 (\<lambda>p y. cstring (sample_caller [''pekar'', ''append'', ''f'', ''x''] script) p = Some y)
      [Ptr 0 0, Ptr 1 0, Ptr 2 0, Ptr 3 0] [''pekar'', ''append'', ''f'', ''x'']" for script
    by (simp add: sample_caller_word del: cstring.simps)
  show ?thesis
    by (rule wp_mono [OF client_append_fails [OF _ _ _ ws sample_caller_settings sample_master_address,
          where m = "sample_master [sample_worker] [] []" and c' = sample_conn
            and d = "carries (''-1'' @ [NUL])" and qs = "[]" and rest = "[]"]])
      (auto simp: sample_conn_def READ_SZ_def elim!: wp_mono)
qed

end
