(* ===== verification/Master_Service.thy ===== *)
theory Master_Service
  imports Forwarding Service
begin

text \<open>
  The master as a service: for a sequence of registrations and requests that it can serve, the
  table of the workers, what the clients are told and what is passed on to the workers are given by
  a function on a list of workers.
\<close>

section \<open>Visits\<close>

text \<open>
  A request with what the workers contribute to it: what each says when it is asked for its listing,
  the number that the first one reports for a write.
\<close>

datatype request =
    Lists "string option list"
  | Writes string string int
  | Appends string string
  | Deletes string "string list"

fun request_type :: "request \<Rightarrow> ptype" where
  "request_type (Lists as) = LS"
| "request_type (Writes n x v) = WRITE"
| "request_type (Appends n x) = APPEND"
| "request_type (Deletes f ls) = DELETE"

fun request_arg :: "request \<Rightarrow> string" where
  "request_arg (Lists as) = []"
| "request_arg (Writes n x v) = n @ CHR '';'' # x"
| "request_arg (Appends n x) = n @ CHR '';'' # x"
| "request_arg (Deletes f ls) = f"

text \<open>The connections to workers that a request opens, in their order.\<close>

fun helped :: "request \<Rightarrow> outcome list \<Rightarrow> bool" where
  "helped (Lists as) os = (\<exists>ks. os = map Opens ks \<and> list_all2 says ks as)"
| "helped (Writes n x v) os = (\<exists>d rep q. os = [Opens d] \<and> accepts d \<and> incoming d = Arrives rep # q \<and> reports rep v)"
| "helped (Appends n x) os = (os = [])"
| "helped (Deletes f ls) os = (\<exists>ks. list_all2 lists ks (take (asked_count f ls) ls) \<and>
     (if first_idx (occurs f) ls = None then os = map Opens ks else \<exists>d. accepts d \<and> os = map Opens ks @ [Opens d]))"

text \<open>
  A visit: the system calls fail; a worker joins; somebody without the token of the workers tries to; a
  request comes, before there is a worker or when there is one. The sequence number and the token
  of a request are not looked at.
\<close>

datatype call =
    Lost stage
  | Joins string nat
  | Stranger u64 string
  | Early u32 u64 ptype string
  | Calls u32 u64 request

fun arrives :: "build \<Rightarrow> call \<Rightarrow> outcome list \<Rightarrow> bool" where
  "arrives B (Lost g) os = (os = [Fails g])"
| "arrives B (Joins a p) os = (\<exists>r. os = [r] \<and> brings READ_SZ 0 REGISTER (WORKER_TKN B) (address a p) r)"
| "arrives B (Stranger tok x) os = (\<exists>r. os = [r] \<and> brings READ_SZ 0 REGISTER tok x r)"
| "arrives B (Early q tok ty x) os = (\<exists>r. os = [r] \<and> brings READ_SZ q ty tok x r)"
| "arrives B (Calls q tok r) os =
     (\<exists>n os'. os = n # os' \<and> brings READ_SZ q (request_type r) tok (request_arg r) n \<and> helped r os')"

section \<open>The workers, and what is said\<close>

text \<open>The counter of the identifiers, and for each worker its identifier, address and port.\<close>

type_synonym roster = "u32 \<times> (u64 \<times> string \<times> u16) list"

definition roster_of :: "'z master_scheme \<Rightarrow> roster" where
  "roster_of s = (worker_id s, map (\<lambda>w. (srv_id w, the (cstring s (ip w)), port w)) (servers s))"

text \<open>
  What is sent to a caller is a text with its NUL; what is sent to an address and port is a packet,
  whole, with the sequence number 0 and at most 19 bytes of memory behind it. \<^verbatim>\<open>Garbage\<close> is
  anything else, and no response has it.
\<close>

definition whole :: "string \<Rightarrow> bool" where
  "whole bs \<longleftrightarrow> header_size + unat (wire_len bs) \<le> length bs \<and> length bs \<le> header_size + unat (wire_len bs) + 19"

datatype said = Told string | Passed string u16 ptype u64 string | Garbage

definition heard :: "peer \<times> string \<Rightarrow> said" where
  "heard m = (case m of
       (Caller, bs) \<Rightarrow> if bs \<noteq> [] \<and> last bs = NUL then Told (butlast bs) else Garbage
     | (Host a p, bs) \<Rightarrow> if wire_seq bs = 0 \<and> whole bs
         then Passed a p (wire_type bs) (wire_token bs) (wire_body bs) else Garbage)"

definition told :: "event list \<Rightarrow> said list" where
  "told es = map heard (sent es)"

text \<open>
  What a request leads to, given the addresses and ports of the workers in the order of the table:
  a listing asks each of them, a write goes to the first, a delete asks them up to the first whose
  listing has the name and goes to that one.
\<close>

definition passed :: "ptype \<Rightarrow> u64 \<Rightarrow> string \<Rightarrow> string \<times> u16 \<Rightarrow> said" where
  "passed ty tok x h = Passed (fst h) (snd h) ty tok x"

fun response :: "build \<Rightarrow> request \<Rightarrow> (string \<times> u16) list \<Rightarrow> said list" where
  "response B (Lists as) hs = map (passed LS (MASTER_TKN B) []) hs @ [Told (joined as)]"
| "response B (Writes n x v) hs = [passed WRITE (MASTER_TKN B) (n @ CHR '';'' # x) (hd hs), Told (show_int v)]"
| "response B (Appends n x) hs = [Told ''-1'']"
| "response B (Deletes f ls) hs = map (passed LS (MASTER_TKN B) []) (take (asked_count f ls) hs) @
     (case holder f ls hs of None \<Rightarrow> [] | Some h \<Rightarrow> [passed DELETE (MASTER_TKN B) f h]) @ [Told ''1'']"

fun serve_call :: "build \<Rightarrow> call \<Rightarrow> roster \<Rightarrow> said list \<times> roster" where
  "serve_call B (Joins a p) (i, ws) = ([], (i + 1, ws @ [(ucast i, a, of_nat p)]))"
| "serve_call B (Early q tok ty x) m = ([Told ''Service unavailable.''], m)"
| "serve_call B (Calls q tok r) m = (response B r (map snd (snd m)), m)"
| "serve_call B v m = ([], m)"

text \<open>What the master can serve.\<close>

fun sound :: "request \<Rightarrow> nat \<Rightarrow> bool" where
  "sound (Lists as) n = (length as = n)"
| "sound (Writes f x v) n = (CHR '';'' \<notin> set f \<and> NUL \<notin> set (f @ x) \<and> length (show_int v) < 10)"
| "sound (Appends f x) n = (CHR '';'' \<notin> set f \<and> NUL \<notin> set (f @ x))"
| "sound (Deletes f ls) n = (NUL \<notin> set f \<and> length ls = n)"

fun acceptable :: "build \<Rightarrow> call \<Rightarrow> roster \<Rightarrow> bool" where
  "acceptable B (Lost g) m = True"
| "acceptable B (Joins a p) m = (inet_pton4 a \<and> CHR '';'' \<notin> set a \<and> NUL \<notin> set a \<and> length a < 16 \<and>
     p < 65536 \<and> length (snd m) < 65535)"
| "acceptable B (Stranger tok x) m = (tok \<noteq> WORKER_TKN B)"
| "acceptable B (Early q tok ty x) m = (snd m = [] \<and> ty \<noteq> REGISTER)"
| "acceptable B (Calls q tok r) m = (snd m \<noteq> [] \<and> sound r (length (snd m)))"

section \<open>States that can serve\<close>

definition standing :: "'z master_scheme \<Rightarrow> bool" where
  "standing s \<longleftrightarrow> log_ok s \<and> table_ok s \<and> (\<forall>j. 18 \<le> spare s j + room s j) \<and>
     (\<forall>w \<in> set (servers s). \<exists>i a. ip w = Ptr i 0 \<and> log_msg s \<noteq> Ptr i 0 \<and>
        cstring s (Ptr i 0) = Some a \<and> inet_pton4 a)"

definition hub :: "int \<Rightarrow> 'z master_scheme \<Rightarrow> bool" where
  "hub f s \<longleftrightarrow> standing s \<and> descriptor (fds s) f \<noteq> None"

lemma standingD:
  assumes "standing s"
  shows "log_ok s" "wf_mem s" "table_ok s" "18 \<le> spare s j + room s j"
    "w \<in> set (servers s) \<Longrightarrow> \<exists>a. cstring s (ip w) = Some a \<and> inet_pton4 a"
  using assms by (auto simp: standing_def log_ok_def simp del: cstring.simps)

lemma standing_retains:
  assumes s: "standing s" and t: "retains s t" "servers t = servers s" "table_ok t" "worker_id t = worker_id s"
  shows "standing t" "roster_of t = roster_of s"
proof -
  have k: "cstring t (Ptr i 0) = Some a" "log_msg t \<noteq> Ptr i 0"
    if "cstring s (Ptr i 0) = Some a" "log_msg s \<noteq> Ptr i 0" for i a
    using retains_cstring [OF t(1) that] .
  have "\<exists>i a. ip w = Ptr i 0 \<and> log_msg t \<noteq> Ptr i 0 \<and> cstring t (Ptr i 0) = Some a \<and> inet_pton4 a \<and>
      cstring s (ip w) = Some a" if "w \<in> set (servers s)" for w
    using s that k by (auto simp: standing_def simp del: cstring.simps)
  then show "standing t" "roster_of t = roster_of s"
    using s t retains_ok [OF t(1)]
    by (auto simp: standing_def roster_of_def simp del: cstring.simps) (metis option.sel)+
qed

lemma standing_io:
  assumes "standing s" and "io_mem s t"
  shows "standing t" "roster_of t = roster_of s" "clean_mem s \<Longrightarrow> clean_mem t"
  using standing_retains [OF assms(1) retains_io [OF standingD(1) [OF assms(1)] assms(2)]] standingD(3) [OF assms(1)]
    clean_mgrows [OF io_mem_mgrows [OF assms(2)]]
  by (simp_all add: master_io [OF assms(2)])

lemma told_effects:
  assumes "effects (trace t) = effects (trace s) @ es"
  shows "told (trace t) = told (trace s) @ told es"
  using sent_more [OF assms] by (simp add: told_def)

lemma told_simps [simp]:
  "told [] = []" "told (Sent g p bs # es) = heard (p, bs) # told es" "told (Closed g # es) = told es"
  "told (xs @ ys) = told xs @ told ys"
  by (simp_all add: told_def)

lemma heard_text [simp]: "heard (Caller, x @ [NUL]) = Told x"
  by (simp add: heard_def)

lemma heard_packet:
  assumes "known_type ty" and "length x < 2 ^ 32" and "length leak \<le> 19"
  shows "heard (Host a p, wire_msg 0 ty tok x @ leak) = Passed a p ty tok x"
proof -
  have "whole (wire_msg 0 ty tok x @ leak)"
    using assms(3) unat_length [OF assms(2)] by (simp add: whole_def wire_msg_more header_size_def)
  then show ?thesis using assms by (simp add: heard_def wire_msg_more wire_msg_body)
qed

lemma heard_passed:
  assumes "heard (p, bs) = Passed a prt ty tok x"
  shows "p = Host a prt" "reads_as 0 ty tok x bs" "length bs \<le> header_size + length x + 19"
proof -
  have w: "whole bs" and f: "wire_seq bs = 0" "wire_type bs = ty" "wire_token bs = tok" "wire_body bs = x"
    and p: "p = Host a prt"
    using assms by (auto simp: heard_def split: if_splits peer.splits)
  show "p = Host a prt" by (rule p)
  show "reads_as 0 ty tok x bs" using w f by (simp add: reads_as_def whole_def)
  have "length x = unat (wire_len bs)" using w f(4) by (auto simp: wire_body_def whole_def)
  then show "length bs \<le> header_size + length x + 19" using w by (simp add: whole_def)
qed

lemma told_asked: "list_all2 (asks_list B) hs es \<Longrightarrow> told es = map (passed LS (MASTER_TKN B) []) hs"
  by (induction rule: list_all2_induct) (auto simp: asks_list_def heard_packet passed_def)

lemma told_deletes: "deletes B f h ds \<Longrightarrow> length f < 2 ^ 32 \<Longrightarrow> told ds = [passed DELETE (MASTER_TKN B) f h]"
  by (auto simp: deletes_def heard_packet passed_def)

lemma roster_addresses [simp]: "map snd (snd (roster_of s)) = addresses s"
  by (simp add: roster_of_def addresses_def comp_def)

section \<open>One round\<close>

text \<open>What a handler has to do for a round to go as the function says.\<close>

definition handled :: "outcome list \<Rightarrow> said list \<Rightarrow> roster \<Rightarrow> 'z master_scheme \<Rightarrow> 'z master_scheme \<Rightarrow> bool" where
  "handled rs as m s t \<longleftrightarrow> standing t \<and> clean_mem t \<and> net t = rs \<and> roster_of t = m \<and> told (trace t) = told (trace s) @ as"

lemma restarted_then:
  fixes s t :: "'z master_scheme"
  assumes "handled rs as m s t"
  shows "wp (server_restart B c f) (\<lambda>g u. hub g u \<and> handled rs as m s u) t"
proof (rule restart_then)
  have st: "standing t" using assms by (simp add: handled_def)
  show "wf_mem t" by (rule standingD(2) [OF st])
  fix g and u :: "'z master_scheme"
  assume u: "io_mem t u" "net u = net t" "descriptor (fds u) g = Some unconnected"
    "effects (trace u) = effects (trace t) @ [Closed (fd c), Closed f]"
  then show "hub g u \<and> handled rs as m s u"
    using assms standing_io [OF st u(1)] told_effects [OF u(4)] by (simp add: hub_def handled_def)
qed

lemma serving_round:
  fixes s :: "'z master_scheme"
  assumes s: "hub f s" and clean: "clean_mem s" and net: "net s = n # rs" and n: "brings READ_SZ q ty tok x n"
    and H: "\<And>c bs (u :: 'z master_scheme). \<lbrakk>standing u; clean_mem u; has_packet c READ_SZ bs u; reads_as q ty tok x bs; net u = rs;
        roster_of u = roster_of s\<rbrakk> \<Longrightarrow>
      wp (handle_client B c) (\<lambda>_. handled rs' as m u) u"
  shows "wp (master_round B f) (\<lambda>g t. hub g t \<and> handled rs' as m s t) s"
proof -
  have st: "standing s" using s by (simp add: hub_def)
  obtain k where k: "descriptor (fds s) f = Some k" using s by (auto simp: hub_def)
  obtain d bs r where d: "n = Opens d" "accepts d" "incoming d = Arrives bs # r" "length bs \<le> READ_SZ"
      "reads_as q ty tok x bs"
    using n by (auto simp: brings_def)
  let ?Q = "\<lambda>g t. hub g t \<and> handled rs' as m s t"
  show ?thesis
    unfolding master_round_def wp_cbind
  proof (rule listen_then [OF k net [unfolded d(1)]])
    fix c :: conn and u :: "'z master_scheme"
    assume u: "io s u" "net u = rs" "effects (trace u) = effects (trace s)" "c_error c = 0"
      "descriptor (fds u) (fd c) = Some (d\<lparr>peer := Caller\<rparr>)"
    have m: "io_mem s u" by (rule io_io_mem [OF standingD(2) [OF st] u(1)])
    note p = reads_packet [OF u(5) d(2-5)]
    have "told (trace u) = told (trace s)" using told_effects [of u s "[]"] u(3) by simp
    then have e: "handled rs' as m u t \<Longrightarrow> handled rs' as m s t" for t by (simp add: handled_def)
    have "wp (handle_client B c) (\<lambda>_. wp (server_restart B c f) ?Q) u"
      by (rule wp_mono [OF H [OF standing_io(1) [OF st m] standing_io(3) [OF st m clean] p d(5) u(2) standing_io(2) [OF st m]]])
        (rule restarted_then [OF e])
    then show "wp (if c_error c \<noteq> 0
        then cseq (cwhen (verbose B) (cseq (logger ERROR COMP_MASTER (PStr (error_msg c))) cskip)) (server_restart B c f)
        else cseq (handle_client B c) (server_restart B c f)) ?Q u"
      using u(4) by (simp add: wp_cseq)
  qed
qed

text \<open>The system calls fail.\<close>

lemma lost_round:
  fixes s :: "'z master_scheme"
  assumes s: "hub f s" and clean: "clean_mem s" and net: "net s = Fails g # rs"
  shows "wp (master_round B f) (\<lambda>g t. hub g t \<and> handled rs [] (roster_of s) s t) s"
proof -
  have st: "standing s" using s by (simp add: hub_def)
  obtain k where k: "descriptor (fds s) f = Some k" using s by (auto simp: hub_def)
  let ?Q = "\<lambda>g t. hub g t \<and> handled rs [] (roster_of s) s t"
  show ?thesis
    unfolding master_round_def wp_cbind
  proof (rule listen_fails_then [OF standingD(2) [OF st] k net])
    fix c :: conn and m and u :: "'z master_scheme"
    assume u: "io_mem s u" "net u = rs" "effects (trace u) = effects (trace s)" "c_error c = 1"
      "cstring u (error_msg c) = Some m" "length m < 50"
    note su = standing_io [OF st u(1)]
    have h: "handled rs [] (roster_of s) s v" if "retains u v" "logst.more v = logst.more u" "net v = net u"
        "effects (trace v) = effects (trace u)" for v
      using standing_retains [OF su(1) that(1)] su(2) table_ok_more [OF that(2)] master_more [OF tables_more(5) [OF that(2)]]
        standingD(3) [OF su(1)] retains_ok(3) [OF that(1) su(3) [OF clean]] u(2,3) told_effects [of v s "[]"] that(3,4)
      by (simp add: handled_def)
    have "wp (cwhen (verbose B) (cseq (logger ERROR COMP_MASTER (PStr (error_msg c))) cskip))
        (\<lambda>_. wp (server_restart B c f) ?Q) u"
    proof (cases "verbose B")
      case True
      have "wp (logger ERROR COMP_MASTER (PStr (error_msg c))) (\<lambda>_. wp (server_restart B c f) ?Q) u"
      proof (rule logger_then [OF standingD(1) [OF su(1)], where m = m])
        show "text_of u [PStr (error_msg c)] = Some m" using u(5) by simp
        fix v assume v: "log_frame u v" "effects (trace v) = effects (trace u)"
        show "wp (server_restart B c f) ?Q v"
          by (rule restarted_then [OF h [OF retains_log [OF v(1)]]]) (use v in \<open>simp_all add: log_frame_def\<close>)
      qed (use u(6) cstring_no_nul [OF u(5)] in simp_all)
      then show ?thesis using True by (simp add: wp_cwhen wp_cseq wp_cskip wp_funs)
    next
      case False
      have "retains u u" by (rule retains_mgrows [OF standingD(1) [OF su(1)] mgrows_refl [OF standingD(2) [OF su(1)]]]) simp
      then have "wp (server_restart B c f) ?Q u" by (intro restarted_then h) simp_all
      then show ?thesis using False by (simp add: wp_cwhen)
    qed
    then show "wp (if c_error c \<noteq> 0
        then cseq (cwhen (verbose B) (cseq (logger ERROR COMP_MASTER (PStr (error_msg c))) cskip)) (server_restart B c f)
        else cseq (handle_client B c) (server_restart B c f)) ?Q u"
      using u(4) by (simp add: wp_cseq)
  qed
qed

section \<open>The visits\<close>

lemma handled_io:
  assumes "standing s" and "io_mem s t" and "clean_mem s" and "net t = rs" and "effects (trace t) = effects (trace s) @ es"
  shows "handled rs (told es) (roster_of s) s t"
  using standing_io [OF assms(1,2)] assms(3,4) told_effects [OF assms(5)] by (simp add: handled_def)

lemma joins_served:
  fixes s :: "'z master_scheme"
  assumes s: "standing s" and clean: "clean_mem s" and p: "has_packet c READ_SZ bs s"
    and bs: "reads_as 0 REGISTER (WORKER_TKN B) (address a prt) bs"
    and ok: "acceptable B (Joins a prt) (roster_of s)"
  shows "wp (handle_client B c) (\<lambda>_. handled (net s) [] (snd (serve_call B (Joins a prt) (roster_of s))) s) s"
proof -
  note st = standingD [OF s]
  have n: "length (servers s) < 65535" using ok by (simp add: roster_of_def)
  show ?thesis
  proof (rule wp_mono [OF registered [OF st(2) clean st(3) n p]]; (elim conjE exE)?)
    fix t :: "'z master_scheme" and j
    assume t: "mgrows s t" "log_msg t = log_msg s" "net t = net s" "table_ok t"
      "worker_id t = worker_id s + 1" "effects (trace t) = effects (trace s)" "next_id s \<le> j"
      "cstring t (Ptr j 0) = Some a"
      "servers t = servers s @ [\<lparr>srv_id = ucast (worker_id s), srv_size = 0, ip = Ptr j 0, port = of_nat prt\<rparr>]"
    have k: "retains s t" by (rule retains_mgrows [OF st(1) t(1,2)])
    have j: "log_msg t \<noteq> Ptr j 0" using log_ok_below [OF st(1) t(7)] t(2) by simp
    have old: "\<exists>i a. ip w = Ptr i 0 \<and> log_msg t \<noteq> Ptr i 0 \<and> cstring t (Ptr i 0) = Some a \<and> inet_pton4 a \<and>
        cstring s (ip w) = Some a" if "w \<in> set (servers s)" for w
      using s that retains_cstring [OF k] by (auto simp: standing_def simp del: cstring.simps)
    then have "map (\<lambda>w. (srv_id w, the (cstring t (ip w)), port w)) (servers s) =
        map (\<lambda>w. (srv_id w, the (cstring s (ip w)), port w)) (servers s)"
      by (intro map_cong) (auto simp del: cstring.simps, metis option.sel)
    then have "roster_of t = snd (serve_call B (Joins a prt) (roster_of s))"
      using t(5,8,9) by (simp add: roster_of_def del: cstring.simps)
    moreover have "\<exists>i a. ip w = Ptr i 0 \<and> log_msg t \<noteq> Ptr i 0 \<and> cstring t (Ptr i 0) = Some a \<and> inet_pton4 a"
      if "w \<in> set (servers t)" for w
    proof (cases "w \<in> set (servers s)")
      case True
      then show ?thesis using old by blast
    next
      case False
      then have "ip w = Ptr j 0" using that t(9) by simp
      then show ?thesis using j t(8) ok by simp
    qed
    then have "standing t"
      using t(4) st(4) retains_ok [OF k] by (simp add: standing_def)
    ultimately show "handled (net s) [] (snd (serve_call B (Joins a prt) (roster_of s))) s t"
      using t(3) told_effects [of t s "[]"] t(6) retains_ok(3) [OF k clean] by (simp add: handled_def)
  qed (use ok bs in \<open>simp_all add: reads_as_def\<close>)
qed

lemma stranger_served:
  fixes s :: "'z master_scheme"
  assumes s: "standing s" and clean: "clean_mem s" and p: "has_packet c READ_SZ bs s"
    and bs: "reads_as 0 REGISTER tok x bs" and tok: "tok \<noteq> WORKER_TKN B"
  shows "wp (handle_client B c) (\<lambda>_. handled (net s) [] (roster_of s) s) s"
proof (rule wp_mono [OF register_ignored [OF standingD(2,1) [OF s] p]])
  fix v t
  assume t: "retains s t \<and> servers t = servers s \<and> table_ok t = table_ok s \<and> worker_id t = worker_id s \<and>
    net t = net s \<and> effects (trace t) = effects (trace s)"
  then show "handled (net s) [] (roster_of s) s t"
    using standing_retains [OF s, of t] standingD(3) [OF s] told_effects [of t s "[]"] retains_ok(3) [of s t] clean by (simp add: handled_def)
qed (use tok bs in \<open>simp_all add: reads_as_def\<close>)

lemma early_served:
  fixes s :: "'z master_scheme"
  assumes s: "standing s" and clean: "clean_mem s" and p: "has_packet c READ_SZ bs s" and bs: "reads_as q ty tok x bs"
    and none: "servers s = []" and ty: "ty \<noteq> REGISTER"
  shows "wp (handle_client B c) (\<lambda>_. handled (net s) [Told ''Service unavailable.''] (roster_of s) s) s"
proof (rule wp_mono [OF unavailable_sent [OF standingD(2,3) [OF s] none p]])
  fix v t
  assume t: "io_mem s t \<and> net t = net s \<and>
    effects (trace t) = effects (trace s) @ [Sent (fd c) Caller (''Service unavailable.'' @ [NUL])]"
  have "heard (Caller, ''Service unavailable.'' @ [NUL]) = Told ''Service unavailable.''" by (rule heard_text)
  then show "handled (net s) [Told ''Service unavailable.''] (roster_of s) s t"
    using handled_io [OF s _ clean, of t "net s" "[Sent (fd c) Caller (''Service unavailable.'' @ [NUL])]"] t by simp
qed (use ty bs in \<open>simp add: reads_as_def\<close>)

lemma request_handled:
  fixes s :: "'z master_scheme"
  assumes s: "standing s" and clean: "clean_mem s" and p: "has_packet c READ_SZ bs s"
    and bs: "reads_as q (request_type r) tok (request_arg r) bs"
    and some: "servers s \<noteq> []" and r: "sound r (length (servers s))" and net: "net s = os @ rs" "helped r os"
  shows "wp (handle_client B c) (\<lambda>_. handled rs (response B r (addresses s)) (roster_of s) s) s"
proof -
  note st = standingD [OF s]
  have ty: "wire_type bs = request_type r" and body: "wire_body bs = request_arg r"
    using bs by (simp_all add: reads_as_def)
  have "length (wire_body bs) < 2 ^ 32" using p by (auto simp: has_packet_def wire_body_def READ_SZ_def)
  then have l: "length (request_arg r) < 2 ^ 32" by (simp add: body)
  have a: "\<And>w. w \<in> set (servers s) \<Longrightarrow> \<exists>a. cstring s (ip w) = Some a \<and> inet_pton4 a" by (rule st(5))
  show ?thesis
  proof (cases r)
    case (Lists as)
    obtain ks where ks: "os = map Opens ks" "list_all2 says ks as" using net(2) by (auto simp: Lists)
    show ?thesis
    proof (rule wp_mono [OF list_answered [OF st(2) clean st(3) some p _ a _ _ ks(2) st(4)]]; (elim conjE exE)?)
      fix t :: "'z master_scheme" and es
      assume t: "io_mem s t" "net t = rs" "length es = length as" "list_all2 (asks_list B) (addresses s) es"
        "effects (trace t) = effects (trace s) @ es @ [Sent (fd c) Caller (joined as @ [NUL])]"
      from handled_io [OF s t(1) clean t(2,5)] show "handled rs (response B r (addresses s)) (roster_of s) s t"
        using told_asked [OF t(4)] by (simp add: Lists)
    qed (use ty r net(1) ks(1) in \<open>simp_all add: Lists\<close>)
  next
    case (Writes n x v)
    obtain d rep k where d: "os = [Opens d]" "accepts d" "incoming d = Arrives rep # k" "reports rep v"
      using net(2) by (auto simp: Writes)
    obtain w ws where w: "servers s = w # ws" using some by (cases "servers s") auto
    obtain b where b: "cstring s (ip w) = Some b" "inet_pton4 b" using a [of w] w by auto
    show ?thesis
    proof (rule wp_mono [OF write_forwarded [OF st(2) clean st(3) w p _ _ _ _ b _ d(2,3) st(4) d(4), where f = n and x = x]]; (elim conjE exE)?)
      fix t :: "'z master_scheme" and g leak
      assume lk: "length leak = 19" and t: "io_mem s t" "net t = rs" "effects (trace t) = effects (trace s) @
          [Sent g (Host b (port w)) (wire_msg 0 WRITE (MASTER_TKN B) (n @ CHR '';'' # x) @ leak), Closed g,
           Sent (fd c) Caller (show_int v @ [NUL])]"
      have hd: "hd (addresses s) = (b, port w)" using b(1) by (simp add: addresses_def w del: cstring.simps)
      from handled_io [OF s t(1) clean t(2,3)] show "handled rs (response B r (addresses s)) (roster_of s) s t"
        using l lk by (simp add: Writes heard_packet passed_def hd)
    qed (use ty body r net(1) d(1) in \<open>simp_all add: Writes\<close>)
  next
    case (Appends n x)
    have h: "heard (Caller, ''-1'' @ [NUL]) = Told ''-1''" by (rule heard_text)
    show ?thesis
    proof (rule wp_mono [OF append_answered [OF st(2) clean st(3) some p, where f = n and x = x]]; (elim conjE exE)?)
      fix t :: "'z master_scheme"
      assume "io_mem s t" "net t = net s" "effects (trace t) = effects (trace s) @ [Sent (fd c) Caller (''-1'' @ [NUL])]"
      then show "handled rs (response B r (addresses s)) (roster_of s) s t"
        using handled_io [OF s _ clean, of t rs "[Sent (fd c) Caller (''-1'' @ [NUL])]"] net h by (simp add: Appends)
    qed (use ty body r in \<open>simp_all add: Appends\<close>)
  next
    case (Deletes f ls)
    have h: "heard (Caller, ''1'' @ [NUL]) = Told ''1''" by (rule heard_text)
    obtain ks where ks: "list_all2 lists ks (take (asked_count f ls) ls)"
      "if first_idx (occurs f) ls = None then os = map Opens ks else \<exists>d. accepts d \<and> os = map Opens ks @ [Opens d]"
      using net(2) by (auto simp: Deletes)
    obtain os' d where os: "os = map Opens ks @ os'" "first_idx (occurs f) ls = None \<Longrightarrow> os' = []"
      "first_idx (occurs f) ls \<noteq> None \<Longrightarrow> os' = [Opens d] \<and> accepts d"
      using ks(2) by (cases "first_idx (occurs f) ls") auto
    show ?thesis
    proof (rule wp_mono [OF delete_performed [OF st(2) clean st(3) some st(1) p _ _ _ a _ _ ks(1) _ st(4),
          where rs = "os' @ rs" and d = d and qs = rs]]; (elim conjE exE)?)
      fix t :: "'z master_scheme" and es ds
      assume t: "retains s t" "servers t = servers s" "table_ok t" "worker_id t = worker_id s"
        "net t = (if first_idx (occurs f) ls = None then os' @ rs else rs)"
        "effects (trace t) = effects (trace s) @ es @ ds @ [Sent (fd c) Caller (''1'' @ [NUL])]"
        "length es = asked_count f ls" "list_all2 (asks_list B) (take (asked_count f ls) (addresses s)) es"
        "case holder f ls (addresses s) of None \<Rightarrow> ds = [] | Some h \<Rightarrow> deletes B f h ds"
      have "told ds = (case holder f ls (addresses s) of None \<Rightarrow> [] | Some h \<Rightarrow> [passed DELETE (MASTER_TKN B) f h])"
        using t(9) told_deletes [of B f _ ds] l by (simp add: Deletes del: holder_None split: option.splits)
      then show "handled rs (response B r (addresses s)) (roster_of s) s t"
        using standing_retains [OF s t(1-4)] told_effects [OF t(6)] told_asked [OF t(8)] t(5,7) os(2) h
          retains_ok(3) [OF t(1) clean]
        by (simp add: handled_def Deletes)
    qed (use ty body r os net(1) in \<open>auto simp: Deletes\<close>)
  qed
qed

section \<open>The master serves\<close>

lemma call_round:
  fixes s :: "'z master_scheme"
  assumes s: "hub f s" and clean: "clean_mem s" and net: "net s = os @ rs" and v: "arrives B v os" and ok: "acceptable B v (roster_of s)"
  shows "wp (master_round B f) (\<lambda>g t. hub g t \<and>
    handled rs (fst (serve_call B v (roster_of s))) (snd (serve_call B v (roster_of s))) s t) s"
proof (cases v)
  case (Lost g)
  then show ?thesis using lost_round [OF s clean] net v by simp
next
  case (Joins a p)
  then obtain n where n: "os = [n]" "brings READ_SZ 0 REGISTER (WORKER_TKN B) (address a p) n" using v by auto
  have "wp (master_round B f) (\<lambda>g t. hub g t \<and> handled rs [] (snd (serve_call B v (roster_of s))) s t) s"
  proof (rule serving_round [OF s clean _ n(2)])
    show "net s = n # rs" using net n(1) by simp
    fix c bs and u :: "'z master_scheme"
    assume u: "standing u" "clean_mem u" "has_packet c READ_SZ bs u" "reads_as 0 REGISTER (WORKER_TKN B) (address a p) bs"
      "net u = rs" "roster_of u = roster_of s"
    show "wp (handle_client B c) (\<lambda>_. handled rs [] (snd (serve_call B v (roster_of s))) u) u"
      using joins_served [OF u(1-4)] ok Joins u(5,6) by simp
  qed
  then show ?thesis using Joins by (simp add: roster_of_def)
next
  case (Stranger tok x)
  then obtain n where n: "os = [n]" "brings READ_SZ 0 REGISTER tok x n" using v by auto
  have tok: "tok \<noteq> WORKER_TKN B" using ok Stranger by simp
  have "wp (master_round B f) (\<lambda>g t. hub g t \<and> handled rs [] (roster_of s) s t) s"
  proof (rule serving_round [OF s clean _ n(2)])
    show "net s = n # rs" using net n(1) by simp
    fix c bs and u :: "'z master_scheme"
    assume u: "standing u" "clean_mem u" "has_packet c READ_SZ bs u" "reads_as 0 REGISTER tok x bs" "net u = rs"
      "roster_of u = roster_of s"
    show "wp (handle_client B c) (\<lambda>_. handled rs [] (roster_of s) u) u"
      using stranger_served [OF u(1-4) tok] u(5,6) by simp
  qed
  then show ?thesis using Stranger by simp
next
  case (Early q tok ty x)
  then obtain n where n: "os = [n]" "brings READ_SZ q ty tok x n" using v by auto
  have ty: "ty \<noteq> REGISTER" and none: "snd (roster_of s) = []" using ok Early by simp_all
  have "wp (master_round B f) (\<lambda>g t. hub g t \<and> handled rs [Told ''Service unavailable.''] (roster_of s) s t) s"
  proof (rule serving_round [OF s clean _ n(2)])
    show "net s = n # rs" using net n(1) by simp
    fix c bs and u :: "'z master_scheme"
    assume u: "standing u" "clean_mem u" "has_packet c READ_SZ bs u" "reads_as q ty tok x bs" "net u = rs"
      "roster_of u = roster_of s"
    have "servers u = []" using none u(6) by (simp add: roster_of_def)
    then show "wp (handle_client B c) (\<lambda>_. handled rs [Told ''Service unavailable.''] (roster_of s) u) u"
      using early_served [OF u(1-4) _ ty] u(5,6) by simp
  qed
  then show ?thesis using Early by simp
next
  case (Calls q tok r)
  then obtain n os' where n: "os = n # os'" "brings READ_SZ q (request_type r) tok (request_arg r) n" "helped r os'"
    using v by auto
  have some: "snd (roster_of s) \<noteq> []" and r: "sound r (length (snd (roster_of s)))" using ok Calls by simp_all
  have "wp (master_round B f) (\<lambda>g t. hub g t \<and> handled rs (response B r (addresses s)) (roster_of s) s t) s"
  proof (rule serving_round [OF s clean _ n(2)])
    show "net s = n # os' @ rs" using net n(1) by simp
    fix c bs and u :: "'z master_scheme"
    assume u: "standing u" "clean_mem u" "has_packet c READ_SZ bs u" "reads_as q (request_type r) tok (request_arg r) bs"
      "net u = os' @ rs" "roster_of u = roster_of s"
    have "servers u \<noteq> []" "length (servers u) = length (snd (roster_of s))"
      using some unfolding u(6) [symmetric] by (simp_all add: roster_of_def)
    then show "wp (handle_client B c) (\<lambda>_. handled rs (response B r (addresses s)) (roster_of s) u) u"
      using request_handled [OF u(1-4) _ _ u(5) n(3)] r u(6) roster_addresses [of u] by simp
  qed
  then show ?thesis using Calls by simp
qed

interpretation master: network_service "\<lambda>f s. hub f s \<and> clean_mem s" "master_round B"
    "\<lambda>s vs. \<exists>oss. list_all2 (arrives B) vs oss \<and> net s = concat oss @ rest"
    roster_of "\<lambda>s. told (trace s)" "\<lambda>s. acceptable B" "serve_call B" for B rest
proof unfold_locales
  fix f :: int and s :: "'a master_scheme" and v vs
  assume s: "hub f s \<and> clean_mem s" and w: "\<exists>oss. list_all2 (arrives B) (v # vs) oss \<and> net s = concat oss @ rest"
    and ok: "acceptable B v (roster_of s)"
  obtain os oss where os: "arrives B v os" "list_all2 (arrives B) vs oss" "net s = os @ concat oss @ rest"
    using w by (auto simp: list_all2_Cons1)
  show "wp (master_round B f) (\<lambda>f' t. (hub f' t \<and> clean_mem t) \<and> (\<exists>oss. list_all2 (arrives B) vs oss \<and> net t = concat oss @ rest) \<and>
      acceptable B = acceptable B \<and> told (trace t) = told (trace s) @ fst (serve_call B v (roster_of s)) \<and>
      roster_of t = snd (serve_call B v (roster_of s))) s"
    by (rule wp_mono [OF call_round [OF conjunct1 [OF s] conjunct2 [OF s] os(3,1) ok]]) (use os(2) in \<open>auto simp: handled_def\<close>)
qed

section \<open>Properties\<close>

text \<open>
  C5. The master implements a roster of workers: for a sequence of visits that it can serve, the
  table of the workers with their identifiers, addresses and ports, every text that a caller is told
  and every packet that is passed on, with the address and port that it is passed to, are given by a
  function on that roster and on what the workers say. The visits are failed system calls,
  registrations with a well-formed address and with or without the token of the workers, any other
  request as long as there is no worker, and, when there is one, listings, appends, writes whose
  first worker reports a number, and deletes whose workers answer up to the first that has the name.
  (With workers, a read crashes the master, and so does a silent worker that a delete asks; a write
  to a silent worker and packets of other types are not among the visits either.) The memory that
  the master allocates is zeroed, with a readable byte behind it.
\<close>

theorem master_refines_roster:
  fixes s :: "'z master_scheme"
  assumes "hub f s" and "clean_mem s" and "list_all2 (arrives B) vs oss" and "net s = concat oss @ rest"
    and "accept_all (acceptable B) (serve_call B) vs (roster_of s)"
  shows "wp (rounds (master_round B) (length vs) f) (\<lambda>g t. hub g t \<and> clean_mem t \<and>
      told (trace t) = told (trace s) @ fst (serve_all (serve_call B) vs (roster_of s)) \<and>
      roster_of t = snd (serve_all (serve_call B) vs (roster_of s))) s"
  by (rule wp_mono [OF master.rounds_refine [where rest = rest, OF conjI [OF assms(1,2)] _ assms(5)]]) (use assms(3,4) in auto)

definition sample_calls :: "call list" where
  "sample_calls = [Early 7 0 LS [], Joins ''127.0.0.1'' 55443, Stranger 5 ''127.0.0.1;80'', Lost AtBind,
     Joins ''127.0.0.1'' 55444, Calls 8 0 (Lists [Some ''bar'', None]), Calls 9 0 (Deletes ''a'' [''x'', ''bar'']),
     Calls 10 0 (Appends ''f'' ''y'')]"

text \<open>A connection of a client or a worker, with 18 bytes of its memory behind the packet.\<close>

definition visitor :: "u32 \<Rightarrow> ptype \<Rightarrow> u64 \<Rightarrow> string \<Rightarrow> outcome" where
  "visitor q ty tok x = Opens (carries (wire_msg q ty tok x @ replicate 18 (CHR ''x'')))"

lemma visitor_brings: "known_type ty \<Longrightarrow> length x \<le> 1000 \<Longrightarrow> brings READ_SZ q ty tok x (visitor q ty tok x)"
  by (simp add: visitor_def brings_wire header_size_def READ_SZ_def)

definition sample_outcomes :: "outcome list list" where
  "sample_outcomes = [[visitor 7 LS 0 []], [visitor 0 REGISTER 1 (address ''127.0.0.1'' 55443)],
     [visitor 0 REGISTER 5 ''127.0.0.1;80''], [Fails AtBind], [visitor 0 REGISTER 1 (address ''127.0.0.1'' 55444)],
     [visitor 8 LS 0 [], Opens (carries (wire_msg 1 LS 1 ''bar'')), Opens \<lparr>incoming = [], accepts = True, peer = Caller\<rparr>],
     [visitor 9 DELETE 0 ''a'', Opens (carries (wire_msg 1 LS 1 ''x'')), Opens (carries (wire_msg 1 LS 1 ''bar'')),
        Opens (carries [])],
     [visitor 10 APPEND 0 ''f;y'']]"

theorem master_refines_roster_witness:
  "wp (rounds (master_round test_build) 8 0) (\<lambda>g t.
      roster_of t = (3, [(1, ''127.0.0.1'', 55443), (2, ''127.0.0.1'', 55444)]) \<and>
      told (trace t) = [Told ''Service unavailable.'', Passed ''127.0.0.1'' 55443 LS 2 [], Passed ''127.0.0.1'' 55444 LS 2 [], Told (CHR 0x0A # ''bar''),
        Passed ''127.0.0.1'' 55443 LS 2 [], Passed ''127.0.0.1'' 55444 LS 2 [],
        Passed ''127.0.0.1'' 55444 DELETE 2 ''a'', Told ''1'', Told ''-1''])
    (sample_master [] [Some unconnected] (concat sample_outcomes))"
proof -
  let ?s = "sample_master [] [Some unconnected] (concat sample_outcomes)"
  have l: "length (address ''127.0.0.1'' 55444) = 15" by (simp add: address_def show_nat.simps)
  have n: "length sample_calls = 8" by (simp add: sample_calls_def)
  have r: "roster_of ?s = (1, [])" by (simp add: roster_of_def)
  have h: "hub 0 ?s" by (simp add: hub_def standing_def descriptor_def)
  let ?bar = "carries (wire_msg 1 LS 1 ''bar'')" and ?mute = "\<lparr>incoming = [], accepts = True, peer = Caller\<rparr>"
  let ?x = "carries (wire_msg 1 LS 1 ''x'')"
  have "helped (Lists [Some ''bar'', None]) [Opens ?bar, Opens ?mute]"
    unfolding helped.simps by (intro exI [of _ "[?bar, ?mute]"]) (simp add: sample_lists silent_def)
  moreover have "helped (Deletes ''a'' [''x'', ''bar'']) [Opens ?x, Opens ?bar, Opens (carries [])]"
    unfolding helped.simps by (intro exI [of _ "[?x, ?bar]"]) (auto simp: sample_lists intro!: exI [of _ "carries []"])
  ultimately have a: "list_all2 (arrives test_build) sample_calls sample_outcomes"
    using visitor_brings length_sample_address l
    by (simp add: sample_calls_def sample_outcomes_def del: helped.simps(1,4))
  have ok: "accept_all (acceptable test_build) (serve_call test_build) sample_calls (roster_of ?s)"
    using sample_address by (simp add: r sample_calls_def READ_SZ_def)
  have e: "serve_all (serve_call test_build) sample_calls (roster_of ?s) =
      ([Told ''Service unavailable.'', Passed ''127.0.0.1'' 55443 LS 2 [], Passed ''127.0.0.1'' 55444 LS 2 [], Told (CHR 0x0A # ''bar''),
        Passed ''127.0.0.1'' 55443 LS 2 [], Passed ''127.0.0.1'' 55444 LS 2 [],
        Passed ''127.0.0.1'' 55444 DELETE 2 ''a'', Told ''1'', Told ''-1''],
       (3, [(1, ''127.0.0.1'', 55443), (2, ''127.0.0.1'', 55444)]))"
    by (simp add: r sample_calls_def passed_def holder_def)
  show ?thesis
    by (rule wp_mono [OF master_refines_roster [where rest = "[]" and vs = sample_calls and oss = sample_outcomes,
          OF h _ a _ ok, unfolded n e]]) simp_all
qed

end
