(* ===== verification/Programs.thy ===== *)
theory Programs
  imports Worker_Store Master_Service System Evolution
begin

text \<open>
  The programs from their start: a worker that is given the address of the master on its command line
  makes its directory, registers and serves; the master opens its socket and serves.
\<close>

section \<open>The programs\<close>

text \<open>
  \<^verbatim>\<open>main\<close> of the worker up to the end of its \<open>n\<close>-th round, with the exit code or the listening socket as
  the result; \<^verbatim>\<open>main\<close> of the master, without the creation of the manager thread.
\<close>

definition worker_main :: "build \<Rightarrow> shell \<Rightarrow> ptr list \<Rightarrow> nat \<Rightarrow> (int + int, 'z) wcmd" where
  "worker_main B sh argv n =
     cbind (worker_start B sh argv) (\<lambda>r.
     case r of Inl c \<Rightarrow> cret (Inl c)
     | Inr f \<Rightarrow> cbind (rounds (worker_round B sh) n f) (\<lambda>g. cret (Inr g)))"

definition master_main :: "build \<Rightarrow> nat \<Rightarrow> (int, 'z) ccmd" where
  "master_main B n = cbind sys_socket (rounds (master_round B) n)"

section \<open>The command line\<close>

text \<open>What the start of a worker leaves as it is.\<close>

definition launch :: "'z worker_scheme \<Rightarrow> 'z worker_scheme \<Rightarrow> bool" where
  "launch s t \<longleftrightarrow> retains s t \<and> files t = files s \<and> may_write t = may_write s \<and>
     exec_held t = exec_held s \<and> host_output t = host_output s"

lemma launch_trans [trans]: "launch s t \<Longrightarrow> launch t u \<Longrightarrow> launch s u"
  by (auto simp: launch_def intro: retains_trans)

lemma launch_io:
  assumes "log_ok s" and "io_mem s t"
  shows "launch s t"
  using retains_io [OF assms] worker_more [OF logst_more(2) [OF conjunct2 [OF assms(2) [unfolded io_mem_def]]]]
  by (simp add: launch_def)

lemma launch_log: "log_frame s t \<Longrightarrow> launch s t"
  using worker_more [of t s] by (simp add: launch_def retains_log log_frame_def)

lemma launch_refl: "log_ok s \<Longrightarrow> launch s s"
  by (rule launch_io) (simp_all add: io_mem_refl log_ok_def)

lemma launch_ok: "launch s t \<Longrightarrow> log_ok t"
  by (simp add: launch_def retains_def)

lemma launch_updates [simp]:
  "launch s (t\<lparr>arg_err := p\<rparr>) = launch s t" "launch s (t\<lparr>work_dir := p\<rparr>) = launch s t"
  "launch s (t\<lparr>fds := ds\<rparr>) = launch s t" "launch s (t\<lparr>trace := es\<rparr>) = launch s t"
  by (simp_all add: launch_def retains_def log_ok_def wf_mem_def)

lemma worker_updates [simp]:
  "cstring (s\<lparr>arg_err := p\<rparr>) q = cstring s q" "set_block b k (s\<lparr>arg_err := p\<rparr>) = (set_block b k s)\<lparr>arg_err := p\<rparr>"
  "set_block b k (s\<lparr>work_dir := p\<rparr>) = (set_block b k s)\<lparr>work_dir := p\<rparr>"
  by (cases q; simp add: set_block_def)+

lemma set_block_newest [simp]:
  "set_block (Suc (next_id s)) k (add_block j (add_block l s)) = add_block k (add_block l s)"
  using set_block_add_block [of "add_block l s" k j] by simp

text \<open>A text in a new block, as \<^verbatim>\<open>malloc\<close> and \<^verbatim>\<open>strcpy\<close> make it.\<close>

lemma new_text:
  assumes "wf_mem s" and "NUL \<notin> set m"
  shows "io_mem s (add_block (filled (Suc (length m)) (m @ [NUL]) s) s)"
    "cstring (add_block (filled (Suc (length m)) (m @ [NUL]) s) s) (Ptr (next_id s) 0) = Some m"
  using grows_io_mem [OF grows_filled [OF assms(1), of "m @ [NUL]" "Suc (length m)"]] cstring_filled_nul [OF assms(2)]
  by simp_all

lemma new_literal:
  assumes "wf_mem s" and "NUL \<notin> set m"
  shows "io_mem s (add_block (lit_block m s) s)" "cstring (add_block (lit_block m s) s) (Ptr (next_id s) 0) = Some m"
  using mgrows_add_block [OF mgrows_refl [OF assms(1)], of "lit_block m s"] assms(2)
  by (simp_all add: io_mem_def lit_block_def c_str_nul)

lemma reset_error_then:
  fixes s :: "'z worker_scheme"
  assumes log: "log_ok s" and none: "arg_err s = Null" and no: "NUL \<notin> set m"
    and Q: "\<And>t. \<lbrakk>launch s t; log_msg t = log_msg s; fds t = fds s; net t = net s; trace t = trace s;
        cstring t (arg_err t) = Some m\<rbrakk> \<Longrightarrow> Q () t"
  shows "wp (reset_error_msg m) Q s"
proof -
  have wf: "wf_mem s" using log by (simp add: log_ok_def)
  let ?l = "add_block (lit_block m s) s" and ?i = "Ptr (next_id s) 0"
  let ?t = "add_block (filled (Suc (length m)) (m @ [NUL]) ?l) ?l" and ?p = "Ptr (next_id ?l) 0"
  note l = new_literal [OF wf no]
  note t = new_text [OF io_mem_wf [OF l(1)] no]
  have i: "cstring (add_block (fresh_block (Suc (length m)) ?l) ?l) ?i = Some m"
    by (rule cstring_add_block [OF io_mem_wf [OF l(1)] l(2)])
  have io: "io_mem s ?t" by (rule io_mem_trans [OF l(1) t(1)])
  have "Q () (?t\<lparr>arg_err := ?p\<rparr>)"
  proof (rule Q)
    show "launch s (?t\<lparr>arg_err := ?p\<rparr>)" using launch_io [OF log io] by (simp only: launch_updates)
    show "cstring (?t\<lparr>arg_err := ?p\<rparr>) (arg_err (?t\<lparr>arg_err := ?p\<rparr>)) = Some m"
      using t(2) by (simp only: worker_updates) simp
    show "log_msg (?t\<lparr>arg_err := ?p\<rparr>) = log_msg s"
      using logst_more(1) [OF conjunct2 [OF io [unfolded io_mem_def]]] by simp
  qed simp_all
  then show ?thesis using l(2) i none
    by (simp add: reset_error_msg_def wp_simps filled_def del: cstring.simps)
qed

lemma parse_then:
  fixes s :: "'z worker_scheme"
  assumes log: "log_ok s" and none: "arg_err s = Null" and n: "2 \<le> length argv"
    and Q: "\<And>t. \<lbrakk>launch s t; log_msg t = log_msg s; fds t = fds s; net t = net s; trace t = trace s\<rbrakk> \<Longrightarrow>
      Q (argv ! 1) t"
  shows "wp (parse_to_ip argv) Q s"
proof (cases "2 < length argv")
  case True
  have "wp (reset_error_msg ''Only IP argument is required.'') (\<lambda>_. Q (argv ! 1)) s"
    by (rule reset_error_then [OF log none], simp, rule Q; assumption)
  then show ?thesis using True by (simp add: parse_to_ip_def wp_simps wp_funs)
next
  case False
  then show ?thesis using n Q [of s] launch_refl [OF log] by (simp add: parse_to_ip_def wp_simps)
qed

text \<open>Without the address the worker says so and ends; it does nothing else.\<close>

lemma start_refused:
  fixes s :: "'z worker_scheme"
  assumes log: "log_ok s" and none: "arg_err s = Null" and n: "length argv < 2"
  shows "wp (worker_start B sh argv) (\<lambda>r t. r = Inl 1 \<and> files t = files s \<and> fds t = fds s \<and> net t = net s \<and>
      trace t = trace s @ log_print ERROR (COMP_WORKER @ '': Missing IP argument.'')) s"
    (is "wp _ ?Q s")
proof -
  let ?m = "''Missing IP argument.''"
  have "wp (reset_error_msg ?m) (\<lambda>_. wp (cbind get_parse_error
      (\<lambda>e. cseq (logger ERROR COMP_WORKER (PStr e)) (cret (Inl 1)))) ?Q) s"
  proof (rule reset_error_then [OF log none])
    fix t :: "'z worker_scheme"
    assume t: "launch s t" "fds t = fds s" "net t = net s" "trace t = trace s" "cstring t (arg_err t) = Some ?m"
    have m: "text_of t [PStr (arg_err t)] = Some ?m" using t(5) by (simp del: cstring.simps)
    have "wp (logger ERROR COMP_WORKER (PStr (arg_err t))) (\<lambda>_. ?Q (Inl 1)) t"
    proof (rule wp_mono [OF logger_run [OF launch_ok [OF t(1)] m]]; (elim conjE)?)
      fix p u
      assume u: "log_frame t u" "trace u = trace t @ log_print ERROR (COMP_WORKER @ '': '' @ ?m)"
      have "launch s u" by (rule launch_trans [OF t(1) launch_log [OF u(1)]])
      then show "?Q (Inl 1) u" using t(2-4) u by (simp add: log_frame_def launch_def)
    qed simp_all
    then show "wp (cbind get_parse_error (\<lambda>e. cseq (logger ERROR COMP_WORKER (PStr e)) (cret (Inl 1)))) ?Q t"
      by (simp add: get_parse_error_def wp_cbind wp_cget wp_cseq wp_cret wp_funs)
  qed simp
  then show ?thesis using n by (simp add: worker_start_def parse_to_ip_def wp_cbind wp_cseq wp_cret wp_funs)
qed

section \<open>The directory\<close>

text \<open>Where the files of a worker are, and what the shell is trusted with: \<^verbatim>\<open>mkdir\<close> makes no file.\<close>

definition in_dir :: "build \<Rightarrow> string \<Rightarrow> string" where
  "in_dir B n = WORKER_DIR B @ CHR ''/'' # n"

definition mkdir_law :: "shell \<Rightarrow> bool" where
  "mkdir_law sh \<longleftrightarrow> (\<forall>d fs. sh (''mkdir '' @ d) fs = fs)"

lemma set_dir_then:
  fixes s :: "'z worker_scheme"
  assumes log: "log_ok s" and free: "\<not> exec_held s" and d: "cstring s p = Some d"
    and Q: "\<And>t. \<lbrakk>launch s t; exec_ok t; path_of t = (\<lambda>n. d @ CHR ''/'' # n); log_msg t = log_msg s;
        fds t = fds s; net t = net s; trace t = trace s\<rbrakk> \<Longrightarrow> Q () t"
  shows "wp (set_dir p) Q s"
proof -
  have wf: "wf_mem s" using log by (simp add: log_ok_def)
  let ?t = "add_block (filled (Suc (length d)) (d @ [NUL]) s) s" and ?p = "Ptr (next_id s) 0"
  note t = new_text [OF wf cstring_no_nul [OF d]]
  have d': "cstring (add_block (fresh_block (Suc (length d)) s) s) p = Some d" by (rule cstring_add_block [OF wf d])
  note la = launch_io [OF log t(1)]
  have msg: "log_msg ?t = log_msg s" using logst_more(1) [OF conjunct2 [OF t(1) [unfolded io_mem_def]]] .
  have "Q () (?t\<lparr>work_dir := ?p\<rparr>)"
  proof (rule Q)
    show l: "launch s (?t\<lparr>work_dir := ?p\<rparr>)" using la by (simp only: launch_updates)
    have c: "cstring (?t\<lparr>work_dir := ?p\<rparr>) ?p = Some d" using t(2) by (simp only: fsys_updates)
    have "log_msg (?t\<lparr>work_dir := ?p\<rparr>) \<noteq> ?p" using log_ok_below [OF log le_refl] msg by simp
    then show "exec_ok (?t\<lparr>work_dir := ?p\<rparr>)"
      using launch_ok [OF l] c free la by (simp add: exec_ok_def fs_ok_def launch_def del: cstring.simps)
    show "path_of (?t\<lparr>work_dir := ?p\<rparr>) = (\<lambda>n. d @ CHR ''/'' # n)"
      using c by (simp add: path_of_def fun_eq_iff del: cstring.simps)
    show "log_msg (?t\<lparr>work_dir := ?p\<rparr>) = log_msg s" using msg by simp
  qed simp_all
  then show ?thesis using d d' by (simp add: set_dir_def wp_simps filled_def del: cstring.simps)
qed

lemma files_same: "files t = x \<Longrightarrow> t\<lparr>files := x\<rparr> = t"
  by (cases t) simp

lemma data_init_then:
  fixes s :: "'z worker_scheme"
  assumes log: "log_ok s" and free: "\<not> exec_held s" and sh: "mkdir_law sh"
    and Q: "\<And>t. \<lbrakk>launch s t; exec_ok t; path_of t = in_dir B; fds t = fds s; net t = net s;
        trace t = trace s @ [Ran (''mkdir '' @ WORKER_DIR B)]\<rbrakk> \<Longrightarrow> Q () t"
  shows "wp (data_init B sh) Q s"
proof -
  have wf: "wf_mem s" using log by (simp add: log_ok_def)
  let ?d = "WORKER_DIR B" and ?i = "Ptr (next_id s) 0"
  let ?c = "''mkdir '' @ ?d"
  let ?l = "add_block (lit_block ?d s) s"
  let ?k = "filled (length ?d + 10) (?c @ [NUL]) ?l"
  let ?u = "add_block ?k ?l" and ?b = "next_id ?l"
  have no: "NUL \<notin> set ?d" by (simp add: WORKER_DIR_def)
  note l = new_literal [OF wf no]
  have u: "grows ?l ?u" by (rule grows_filled [OF io_mem_wf [OF l(1)]]) simp
  have c: "cstring ?u (Ptr ?b 0) = Some ?c" by (rule cstring_filled_nul) (simp add: no)
  have su: "io_mem s ?u" by (rule io_mem_grows [OF l(1) u])
  have q: "cstring (add_block (fresh_block (length ?d + 10) ?l) ?l) ?i = Some ?d"
    by (rule cstring_add_block [OF io_mem_wf [OF l(1)] l(2)])
  let ?v = "?u\<lparr>trace := trace s @ [Ran ?c]\<rparr>"
  have same: "?v\<lparr>files := files s\<rparr> = ?v" by (rule files_same) simp
  let ?w = "del_block ?b ?v"
  have "launch s ?v" using launch_io [OF log su] by (simp only: launch_updates)
  have msg: "log_msg ?w = log_msg s" using logst_more(1) [of ?w s] su by (simp add: io_mem_def)
  have fresh: "log_msg s \<noteq> Ptr ?b 0" by (rule log_ok_below [OF log]) simp
  have w: "launch s ?w"
  proof -
    have "retains s ?w"
    proof (rule retains_free [OF _ wf])
      show "retains s ?v" using \<open>launch s ?v\<close> by (simp add: launch_def)
      show "log_msg ?v \<noteq> Ptr ?b 0" using fresh logst_more(1) [of ?v s] su by (simp add: io_mem_def)
    qed simp
    then show ?thesis using worker_more [of ?w s] logst_more(2) [of ?w s] su by (simp add: launch_def io_mem_def)
  qed
  have i: "cstring ?w ?i = Some ?d" using l(2) by simp
  have fin: "wp (set_dir ?i) Q ?w"
  proof (rule set_dir_then [OF launch_ok [OF w] _ i])
    show "\<not> exec_held ?w" using free w by (simp add: launch_def)
    fix t assume t: "launch ?w t" "exec_ok t" "path_of t = (\<lambda>n. ?d @ CHR ''/'' # n)" "fds t = fds ?w" "net t = net ?w"
      "trace t = trace ?w"
    show "Q () t"
      by (rule Q) (use t in \<open>simp_all add: launch_trans [OF w] in_dir_def fun_eq_iff\<close>)
  qed
  show ?thesis
    unfolding data_init_def
    using fin l(2) c q sh same
    by (simp add: wp_cbind wp_literal wp_strlen wp_malloc wp_cseq wp_sprintf wp_format wp_get_str wp_log_event
        wp_cmodify wp_free wp_funs run_shell_def mkdir_law_def filled_def del: cstring.simps)
qed

section \<open>The start of a worker\<close>

lemma launch_cstring:
  assumes "launch s t" and "log_msg s = Null" and "cstring s p = Some x"
  shows "cstring t p = Some x"
  using assms retains_cstring(1) [of s t] by (cases p) (auto simp: launch_def simp del: cstring.simps(2))

lemma launch_address: "launch s t \<Longrightarrow> own_address B t = own_address B s"
  by (simp add: launch_def own_address_def)

lemma launch_message: "launch s t \<Longrightarrow> own_message B t = own_message B s"
  by (simp add: own_message_def launch_address)

definition started :: "build \<Rightarrow> 'z worker_scheme \<Rightarrow> 'z worker_scheme \<Rightarrow> bool" where
  "started B s t \<longleftrightarrow> launch s t \<and> exec_ok t \<and> path_of t = in_dir B"

lemma started_io:
  assumes "started B s t" and "io_mem t u"
  shows "started B s u"
  using assms exec_io [of t u] launch_trans [OF _ launch_io [OF exec_ok_log]] by (auto simp: started_def fun_eq_iff)

text \<open>The bytes of a registration: the first 40 of the packet and of the memory behind it.\<close>

definition registration :: "build \<Rightarrow> 'z worker_scheme \<Rightarrow> string \<Rightarrow> string" where
  "registration B s leak = take 40 (wire_msg 0 REGISTER (WORKER_TKN B) (own_message B s) @ leak)"

lemma boot_then:
  fixes s :: "'z worker_scheme"
  assumes log: "log_ok s" "log_msg s = Null" and free: "\<not> exec_held s" and sh: "mkdir_law sh"
    and host: "cstring s h = Some master" "inet_pton4 master" and net: "net s = Opens d # rs"
    and a: "own_address B s \<noteq> []" "length (own_address B s) \<le> 14" and room: "\<And>j. 10 \<le> spare s j + room s j"
    and Q: "\<And>leak u. \<lbrakk>started B s u; net u = rs; length leak = 12 - length (own_address B s);
        effects (trace u) = effects (trace s) @ [Ran (''mkdir '' @ WORKER_DIR B)] @ asks_host B @
          (if accepts d then [Sent (int (lowest_free (fds s))) (Host master (BOOT_MASTER_PORT B)) (registration B s leak)] else []) @
          [Closed (int (lowest_free (fds s)))];
        fds u = (install (lowest_free (fds s)) (d\<lparr>peer := Host master (BOOT_MASTER_PORT B)\<rparr>) (fds s))[lowest_free (fds s) := None]\<rbrakk> \<Longrightarrow> Q True u"
  shows "wp (boot B sh h) Q s"
proof -
  have "wp (log_text B MESSAGE COMP_WORKER ''Worker booting...'')
      (\<lambda>_. wp (data_init B sh) (\<lambda>_. wp (boot_register B h) Q)) s"
  proof (rule log_text_then [OF log(1)])
    fix t assume t: "log_frame s t" "effects (trace t) = effects (trace s)"
    note l = launch_log [OF t(1)]
    show "wp (data_init B sh) (\<lambda>_. wp (boot_register B h) Q) t"
    proof (rule data_init_then [OF launch_ok [OF l] _ sh])
      show "\<not> exec_held t" using free l by (simp add: launch_def)
      fix u :: "'z worker_scheme"
      assume u: "launch t u" "exec_ok u" "path_of u = in_dir B" "fds u = fds t" "net u = net t"
        "trace u = trace t @ [Ran (''mkdir '' @ WORKER_DIR B)]"
      have su: "launch s u" by (rule launch_trans [OF l u(1)])
      note ad = launch_address [OF su, of B]
      have st: "started B s u" using su u(2,3) by (simp add: started_def)
      show "wp (boot_register B h) Q u"
      proof (rule boot_register_then [OF exec_ok_wf [OF u(2)] launch_cstring [OF su log(2) host(1)] host(2)])
        show "net u = Opens d # rs" using u(5) t(1) net by (simp add: log_frame_def)
        fix leak v
        assume v: "io_mem u v" "net v = rs" "length leak = 12 - length (own_address B u)"
          "effects (trace v) = effects (trace u) @ asks_host B @
            (if accepts d then [Sent (int (lowest_free (fds u))) (Host master (BOOT_MASTER_PORT B))
               (take 40 (wire_msg 0 REGISTER (WORKER_TKN B) (own_message B u) @ leak))] else []) @
            [Closed (int (lowest_free (fds u)))]"
          "fds v = (install (lowest_free (fds u)) (d\<lparr>peer := Host master (BOOT_MASTER_PORT B)\<rparr>) (fds u))[lowest_free (fds u) := None]"
        have f: "fds u = fds s" using u(4) t(1) by (simp add: log_frame_def)
        have bs: "take 40 (wire_msg 0 REGISTER (WORKER_TKN B) (own_message B u) @ leak) = registration B s leak"
          by (simp only: registration_def launch_message [OF su])
        show "Q True v"
          by (rule Q [OF started_io [OF st v(1)] v(2)])
            (use v(3) v(4) [unfolded bs f] v(5) u(6) t(2) in \<open>simp_all add: f ad\<close>)
      qed (use a room su ad in \<open>simp_all add: launch_def retains_def\<close>)
    qed
  qed simp_all
  then show ?thesis by (simp add: boot_def wp_cseq wp_funs)
qed

text \<open>
  A worker that has just been started: its static variables are null, the standard input is open and
  the allocator has some bytes behind every block.
\<close>

definition fresh_worker :: "'z worker_scheme \<Rightarrow> bool" where
  "fresh_worker s \<longleftrightarrow> log_ok s \<and> log_msg s = Null \<and> arg_err s = Null \<and> \<not> exec_held s \<and>
     (\<forall>j. 18 \<le> spare s j + room s j) \<and> descriptor (fds s) 0 \<noteq> None"

lemma opened_and_closed:
  assumes "descriptor ds 0 \<noteq> None"
  shows "int (lowest_free ((install (lowest_free ds) d ds)[lowest_free ds := None])) \<noteq> 0"
proof -
  let ?n = "lowest_free ds" and ?e = "(install (lowest_free ds) d ds)[lowest_free ds := None]"
  have n: "0 \<noteq> int ?n" using assms descriptor_lowest [of ds] by metis
  have "descriptor ?e 0 = descriptor ds 0"
    using descriptor_update [of "int ?n" 0 "install ?n d ds" None] descriptor_install_other [OF n] n by simp
  then show ?thesis using assms descriptor_lowest [of ?e] by metis
qed

lemma worker_start_then:
  fixes s :: "'z worker_scheme"
  assumes s: "fresh_worker s" and sh: "mkdir_law sh" and n: "2 \<le> length argv"
    and host: "cstring s (argv ! 1) = Some master" "inet_pton4 master" and net: "net s = Opens d # rs"
    and a: "own_address B s \<noteq> []" "length (own_address B s) \<le> 14"
    and Q: "\<And>leak f u. \<lbrakk>started B s u; ready f u; net u = rs; length leak = 12 - length (own_address B s);
        effects (trace u) = effects (trace s) @ [Ran (''mkdir '' @ WORKER_DIR B)] @ asks_host B @
          (if accepts d then [Sent (int (lowest_free (fds s))) (Host master (BOOT_MASTER_PORT B)) (registration B s leak)] else []) @
          [Closed (int (lowest_free (fds s)))]\<rbrakk> \<Longrightarrow> Q (Inr f) u"
  shows "wp (worker_start B sh argv) Q s"
  unfolding worker_start_def wp_cbind [of "parse_to_ip _"]
proof (rule parse_then [OF _ _ n])
  fix t :: "'z worker_scheme"
  assume t: "launch s t" "log_msg t = log_msg s" "fds t = fds s" "net t = net s" "trace t = trace s"
  have h: "cstring t (argv ! 1) = Some master"
    by (rule launch_cstring [OF t(1) _ host(1)]) (use s in \<open>simp add: fresh_worker_def\<close>)
  have room: "10 \<le> spare t j + room t j" for j
  proof -
    have "18 \<le> spare s j + room s j" using s by (simp add: fresh_worker_def)
    then show ?thesis using t(1) by (simp add: launch_def retains_def)
  qed
  note ad = launch_address [OF t(1), of B]
  let ?K = "\<lambda>ok. wp (if \<not> ok then cret (Inl 1) else cbind sys_socket (\<lambda>f.
      if f = 0 then cseq (log_text B ERROR COMP_WORKER ''Connection setup failed.'') (cret (Inl 1))
      else cret (Inr f))) Q"
  have "wp (boot B sh (argv ! 1)) ?K t"
  proof (rule boot_then [OF launch_ok [OF t(1)] _ _ sh h host(2) _ _ _ room])
    fix leak u
    assume u: "started B t u" "net u = rs" "length leak = 12 - length (own_address B t)"
      "effects (trace u) = effects (trace t) @ [Ran (''mkdir '' @ WORKER_DIR B)] @ asks_host B @
        (if accepts d then [Sent (int (lowest_free (fds t))) (Host master (BOOT_MASTER_PORT B)) (registration B t leak)] else []) @
        [Closed (int (lowest_free (fds t)))]"
      "fds u = (install (lowest_free (fds t)) (d\<lparr>peer := Host master (BOOT_MASTER_PORT B)\<rparr>) (fds t))[lowest_free (fds t) := None]"
    let ?f = "lowest_free (fds u)"
    let ?v = "u\<lparr>fds := install ?f unconnected (fds u)\<rparr>"
    have io: "io_mem u ?v" using u(1) by (simp add: started_def exec_ok_wf io_mem_def mgrows_refl)
    have st: "started B s ?v" using started_io [OF u(1) io] launch_trans [OF t(1)] by (simp add: started_def)
    have nz: "int ?f \<noteq> 0"
      unfolding u(5) by (rule opened_and_closed) (use s t(3) in \<open>simp add: fresh_worker_def\<close>)
    have re: "registration B t leak = registration B s leak"
      by (simp only: registration_def launch_message [OF t(1)])
    have "ready (int ?f) ?v"
      using st s by (simp add: ready_def started_def launch_def retains_def fresh_worker_def)
    then have "Q (Inr (int ?f)) ?v"
      by (intro Q [where leak = leak, OF st]) (use u(2,3,4) t(3,5) ad re in simp_all)
    then show "?K True u" using nz by (simp add: wp_cbind sys_socket_def wp_new_descriptor wp_cret)
  qed (use s t a ad net in \<open>simp_all add: fresh_worker_def launch_def\<close>)
  moreover have "argv ! 1 \<noteq> Null" using h by auto
  ultimately show "wp (if argv ! 1 = Null then cbind get_parse_error (\<lambda>e. cseq (logger ERROR COMP_WORKER (PStr e))
      (cret (Inl 1))) else cbind (boot B sh (argv ! 1)) (\<lambda>ok. if \<not> ok then cret (Inl 1)
      else cbind sys_socket (\<lambda>f. if f = 0 then
        cseq (log_text B ERROR COMP_WORKER ''Connection setup failed.'') (cret (Inl 1)) else cret (Inr f)))) Q t"
    by (simp add: wp_cbind [of "boot _ _ _"])
qed (use s in \<open>simp_all add: fresh_worker_def\<close>)

section \<open>A worker that runs\<close>

text \<open>What a worker with its files in that directory can serve.\<close>

definition hosted :: "build \<Rightarrow> shell \<Rightarrow> (string \<Rightarrow> bool) \<Rightarrow> visit \<Rightarrow> file_map \<Rightarrow> bool" where
  "hosted B sh w v m = (case v of Refused g \<Rightarrow> True
    | Asks q r \<Rightarrow> fine (\<lambda>n. w (in_dir B n)) (\<lambda>n. rm_law sh \<and> plain (in_dir B n)) r m)"

lemma started_store:
  assumes "started B s t"
  shows "servable sh t = hosted B sh (may_write s)" "content t = (\<lambda>n. files s (in_dir B n))"
proof -
  have p: "path_of t = in_dir B" "files t = files s" "may_write t = may_write s"
    using assms by (simp_all add: started_def launch_def)
  have "writable_name t = (\<lambda>n. may_write s (in_dir B n))" by (simp add: fun_eq_iff writable_name_def p)
  then show "servable sh t = hosted B sh (may_write s)"
    by (intro ext) (simp add: servable_def hosted_def p split: visit.split)
  show "content t = (\<lambda>n. files s (in_dir B n))" by (simp add: fun_eq_iff content_def p)
qed

lemma registration_whole:
  assumes "length (own_address B s) \<le> 12" and "length leak = 12 - length (own_address B s)"
  shows "registration B s leak = wire_msg 0 REGISTER (WORKER_TKN B) (address (own_address B s) 55443) @ leak"
proof -
  have "own_message B s = address (own_address B s) 55443" by (simp add: own_message_def address_def)
  then show ?thesis
    using assms own_message_length [of B s] by (simp add: registration_def header_size_def)
qed

lemma address_short: "length a \<le> 12 \<Longrightarrow> length (address a 55443) < 2 ^ 32"
  by (simp add: address_def show_nat.simps)

lemma registration_answered:
  assumes "length (own_address B s) \<le> 12" and "length leak = 12 - length (own_address B s)"
  shows "answered ([Ran c] @ asks_host B @ [Sent g pr (registration B s leak)] @ [Closed g]) =
    [(pr, 0, REGISTER, WORKER_TKN B, address (own_address B s) 55443)]"
  using address_short [OF assms(1)]
  by (simp add: answered_def asks_host_def registration_whole [OF assms] wire_msg_more wire_msg_body)

text \<open>The rounds of a worker take no event back.\<close>

lemma rounds_extend: "obeys extends (rounds (worker_round B sh) n f)"
  by (induction n arbitrary: f) (simp_all, (intro stable ext_worker.rounds(3) | assumption)+)

lemma worker_runs:
  fixes s :: "'z worker_scheme"
  assumes s: "fresh_worker s" "mkdir_law sh" and clean: "clean_mem s" and n: "2 \<le> length argv"
    and host: "cstring s (argv ! 1) = Some master" "inet_pton4 master"
    and net: "net s = Opens d # ns @ rest" "accepts d"
    and a: "own_address B s \<noteq> []" "length (own_address B s) \<le> 12"
    and vs: "list_all2 (visit_comes B) vs ns"
      "accept_all (hosted B sh (may_write s)) (serve_visit B) vs (\<lambda>n. files s (in_dir B n))"
  shows "wp (worker_main B sh argv (length vs)) (\<lambda>r t. (\<exists>f. r = Inr f \<and> ready f t) \<and> clean_mem t \<and> net t = rest \<and>
      (\<exists>es. effects (trace t) = effects (trace s) @ [Ran (''mkdir '' @ WORKER_DIR B)] @ asks_host B @ es) \<and>
      answered (trace t) = answered (trace s) @
        (Host master (BOOT_MASTER_PORT B), 0, REGISTER, WORKER_TKN B, address (own_address B s) 55443) #
        fst (serve_all (serve_visit B) vs (\<lambda>n. files s (in_dir B n))) \<and>
      content t = snd (serve_all (serve_visit B) vs (\<lambda>n. files s (in_dir B n)))) s"
    (is "wp _ ?Q s")
  unfolding worker_main_def wp_cbind [of "worker_start _ _ _"]
proof (rule worker_start_then [OF s n host net(1) a(1)])
  show "length (own_address B s) \<le> 14" using a(2) by simp
  fix leak f u
  assume u: "started B s u" "ready f u" "net u = ns @ rest" "length leak = 12 - length (own_address B s)"
    "effects (trace u) = effects (trace s) @ [Ran (''mkdir '' @ WORKER_DIR B)] @ asks_host B @
      (if accepts d then [Sent (int (lowest_free (fds s))) (Host master (BOOT_MASTER_PORT B)) (registration B s leak)] else []) @
      [Closed (int (lowest_free (fds s)))]"
  note st = started_store [OF u(1)]
  have an: "answered (trace u) = answered (trace s) @
      [(Host master (BOOT_MASTER_PORT B), 0, REGISTER, WORKER_TKN B, address (own_address B s) 55443)]"
    using answered_effects [OF u(5)] registration_answered [OF a(2) u(4)] net(2) by simp
  have cl: "clean_mem u" using u(1) clean by (simp add: started_def launch_def retains_def clean_mem_def)
  have "wp (rounds (worker_round B sh) (length vs) f) (\<lambda>g. ?Q (Inr g)) u"
  proof (rule wp_mono [OF obeys_wp [OF rounds_extend shelf.rounds_refine [where rest = rest, OF conjI [OF u(2) cl]]]])
    show "\<exists>ns. list_all2 (visit_comes B) vs ns \<and> net u = ns @ rest" using vs(1) u(3) by blast
    show "accept_all (servable sh u) (serve_visit B) vs (content u)" using vs(2) by (simp only: st)
  qed (use extends_effects [of u] u(5) in \<open>fastforce simp: st an\<close>)
  then show "wp (case Inr f of Inl c \<Rightarrow> cret (Inl c)
      | Inr f \<Rightarrow> cbind (rounds (worker_round B sh) (length vs) f) (\<lambda>g. cret (Inr g))) ?Q u"
    by (simp add: wp_cbind wp_cret wp_funs)
qed

section \<open>A master that runs\<close>

lemma master_runs:
  fixes m :: "'z master_scheme"
  assumes m: "standing m" "clean_mem m" and vs: "list_all2 (arrives B) vs oss" "net m = concat oss @ rest"
    "accept_all (acceptable B) (serve_call B) vs (roster_of m)"
  shows "wp (master_main B (length vs)) (\<lambda>g t. hub g t \<and> clean_mem t \<and>
      told (trace t) = told (trace m) @ fst (serve_all (serve_call B) vs (roster_of m)) \<and>
      roster_of t = snd (serve_all (serve_call B) vs (roster_of m))) m"
proof -
  let ?n = "lowest_free (fds m)"
  let ?m = "m\<lparr>fds := install ?n unconnected (fds m)\<rparr>"
  have io: "io_mem m ?m" using standingD(2) [OF m(1)] by (simp add: io_mem_def mgrows_refl)
  note st = standing_io [OF m(1) io]
  have h: "hub (int ?n) ?m" using st(1) by (simp add: hub_def)
  have "wp (rounds (master_round B) (length vs) (int ?n)) (\<lambda>g t. hub g t \<and> clean_mem t \<and>
      told (trace t) = told (trace m) @ fst (serve_all (serve_call B) vs (roster_of m)) \<and>
      roster_of t = snd (serve_all (serve_call B) vs (roster_of m))) ?m"
    by (rule wp_mono [OF master.rounds_refine [where rest = rest and vs = vs, OF conjI [OF h st(3) [OF m(2)]]]])
      (use vs st(2) in auto)
  then show ?thesis by (simp add: master_main_def wp_cbind sys_socket_def wp_new_descriptor)
qed

text \<open>What a worker sends to register is a call of the master.\<close>

lemma registration_arrives:
  assumes "length (own_address B s) \<le> 12" and "length leak = 12 - length (own_address B s)"
  shows "arrives B (Joins (own_address B s) 55443) [Opens (carries (registration B s leak))]"
  using assms address_short [OF assms(1)] own_message_length [of B s]
  by (auto simp: registration_whole [OF assms] own_message_def address_def READ_SZ_def header_size_def intro!: brings_wire)

lemma master_net [simp]:
  "standing (m\<lparr>net := os\<rparr>) = standing m" "clean_mem (m\<lparr>net := os\<rparr>) = clean_mem m" "roster_of (m\<lparr>net := os\<rparr>) = roster_of m"
  by (simp_all add: standing_def roster_of_def log_ok_def wf_mem_def clean_mem_def table_ok_def servers_def)

lemma roster_grows:
  fixes m :: "'z master_scheme"
  assumes m: "standing m" "clean_mem m" and vs: "list_all2 (arrives B) vs oss" "arrives B (Joins a p) os"
    and ok: "accept_all (acceptable B) (serve_call B) (vs @ [Joins a p]) (roster_of m)"
    and fin: "snd (serve_all (serve_call B) vs (roster_of m)) = (i, ws)"
  shows "wp (master_main B (Suc (length vs))) (\<lambda>_ t. roster_of t = (i + 1, ws @ [(ucast i, a, of_nat p)]))
    (m\<lparr>net := concat oss @ os\<rparr>)"
proof -
  have l: "length (vs @ [Joins a p]) = Suc (length vs)" by simp
  have "list_all2 (arrives B) (vs @ [Joins a p]) (oss @ [os])" using vs by (intro list_all2_appendI) simp_all
  then have "wp (master_main B (length (vs @ [Joins a p]))) (\<lambda>g t. hub g t \<and> clean_mem t \<and>
      told (trace t) = told (trace (m\<lparr>net := concat oss @ os\<rparr>)) @
        fst (serve_all (serve_call B) (vs @ [Joins a p]) (roster_of (m\<lparr>net := concat oss @ os\<rparr>))) \<and>
      roster_of t = snd (serve_all (serve_call B) (vs @ [Joins a p]) (roster_of (m\<lparr>net := concat oss @ os\<rparr>))))
    (m\<lparr>net := concat oss @ os\<rparr>)"
    by (intro master_runs [where oss = "oss @ [os]" and rest = "[]"]) (use m ok in simp_all)
  then show ?thesis unfolding l by (rule wp_mono) (simp add: serve_all_append fin)
qed

lemma accept_all_append:
  "accept_all g f (vs @ ws) m = (accept_all g f vs m \<and> accept_all g f ws (snd (serve_all f vs m)))"
  by (induction vs arbitrary: m) (simp_all add: split_def Let_def)

lemma worker_enters:
  fixes s :: "'z worker_scheme" and m :: "'y master_scheme"
  assumes s: "fresh_worker s" "mkdir_law sh" and n: "2 \<le> length argv"
    and host: "cstring s (argv ! 1) = Some master" "inet_pton4 master" and net: "net s = Opens d # rs" "accepts d"
    and a: "own_address B s \<noteq> []" "length (own_address B s) \<le> 12" "inet_pton4 (own_address B s)"
    and m: "standing m" "clean_mem m" "list_all2 (arrives B) vs oss" "accept_all (acceptable B) (serve_call B) vs (roster_of m)"
    and ws: "snd (serve_all (serve_call B) vs (roster_of m)) = (i, ws)" "length ws < 65535"
  shows "wp (worker_start B sh argv) (\<lambda>r u. (\<exists>f. r = Inr f) \<and> (\<exists>g bs.
      effects (trace u) = effects (trace s) @ [Ran (''mkdir '' @ WORKER_DIR B)] @ asks_host B @
        [Sent g (Host master (BOOT_MASTER_PORT B)) bs, Closed g] \<and>
      wp (master_main B (Suc (length vs))) (\<lambda>_ t. roster_of t = (i + 1, ws @ [(ucast i, own_address B s, 55443)]))
        (m\<lparr>net := concat oss @ [Opens (carries bs)]\<rparr>))) s"
proof (rule worker_start_then [OF s n host net(1) a(1)])
  show "length (own_address B s) \<le> 14" using a(2) by simp
  fix leak f u
  assume u: "length leak = 12 - length (own_address B s)"
    "effects (trace u) = effects (trace s) @ [Ran (''mkdir '' @ WORKER_DIR B)] @ asks_host B @
      (if accepts d then [Sent (int (lowest_free (fds s))) (Host master (BOOT_MASTER_PORT B)) (registration B s leak)] else []) @
      [Closed (int (lowest_free (fds s)))]"
  have ok: "accept_all (acceptable B) (serve_call B) (vs @ [Joins (own_address B s) 55443]) (roster_of m)"
    using m(4) ws a own_address_no_nul [of B s] by (simp add: accept_all_append)
  have "wp (master_main B (Suc (length vs)))
      (\<lambda>_ t. roster_of t = (i + 1, ws @ [(ucast i, own_address B s, of_nat 55443)]))
      (m\<lparr>net := concat oss @ [Opens (carries (registration B s leak))]\<rparr>)"
    by (rule roster_grows [OF m(1-3) registration_arrives [OF a(2) u(1)] ok ws(1)])
  then show "(\<exists>f'. (Inr f :: int + int) = Inr f') \<and> (\<exists>g bs.
      effects (trace u) = effects (trace s) @ [Ran (''mkdir '' @ WORKER_DIR B)] @ asks_host B @
        [Sent g (Host master (BOOT_MASTER_PORT B)) bs, Closed g] \<and>
      wp (master_main B (Suc (length vs))) (\<lambda>_ t. roster_of t = (i + 1, ws @ [(ucast i, own_address B s, 55443)]))
        (m\<lparr>net := concat oss @ [Opens (carries bs)]\<rparr>))"
    using u(2) net(2) by auto
qed

section \<open>Properties\<close>

text \<open>A worker for examples that has just been started, with one file in its directory.\<close>

definition sample_start :: "outcome list \<Rightarrow> worker" where
  "sample_start script = (sample_node [Some unconnected] script [])\<lparr>work_dir := Null, files := [''./f'' \<mapsto> ''x'']\<rparr>"

lemma sample_start_simps [simp]:
  "fresh_worker (sample_start script)" "clean_mem (sample_start script)" "net (sample_start script) = script" "trace (sample_start script) = []"
  "cstring (sample_start script) (Ptr 0 0) = Some ''10.0.0.1''" "may_write (sample_start script) = (\<lambda>_. True)"
  "own_address test_build (sample_start script) = ''127.0.0.1''" "files (sample_start script) = [''./f'' \<mapsto> ''x'']"
  by (auto simp: sample_start_def fresh_worker_def sample_node_def log_ok_def wf_mem_def clean_mem_def
      str_block_def c_str_exact descriptor_def own_address_def split: if_splits)

lemma sample_mkdir: "mkdir_law sample_shell"
  by (simp add: mkdir_law_def sample_shell_def)

lemma sample_host: "inet_pton4 ''10.0.0.1''"
  by (simp add: inet_pton4_def octet_def is_digit_def Let_def)

text \<open>
  C3. The program of a worker, from its command line on: before anything else that is seen it runs
  \<^verbatim>\<open>mkdir\<close> for its directory and asks for its address, it registers with that address and its port at
  the master's address and port, and then answers its callers as a map from names to contents does,
  starting from the files that are in the directory; refused connections change nothing. Its address
  has at most 12 characters (C40 is about longer ones), the requests are those that a worker
  accepts at their turn (C4), the master accepts its connection, and the memory that it allocates is
  zeroed, with a readable byte behind it.
\<close>

theorem worker_serves:
  fixes s :: "'z worker_scheme"
  assumes "fresh_worker s" and "mkdir_law sh" and "clean_mem s" and "2 \<le> length argv"
    and "cstring s (argv ! 1) = Some master" and "inet_pton4 master"
    and "net s = Opens d # ns @ rest" and "accepts d"
    and "own_address B s \<noteq> []" and "length (own_address B s) \<le> 12"
    and "list_all2 (visit_comes B) vs ns"
    and "accept_all (hosted B sh (may_write s)) (serve_visit B) vs (\<lambda>n. files s (in_dir B n))"
  shows "wp (worker_main B sh argv (length vs)) (\<lambda>r t. (\<exists>f. r = Inr f \<and> ready f t) \<and> clean_mem t \<and> net t = rest \<and>
      (\<exists>es. effects (trace t) = effects (trace s) @ [Ran (''mkdir '' @ WORKER_DIR B)] @ asks_host B @ es) \<and>
      answered (trace t) = answered (trace s) @
        (Host master (BOOT_MASTER_PORT B), 0, REGISTER, WORKER_TKN B, address (own_address B s) 55443) #
        fst (serve_all (serve_visit B) vs (\<lambda>n. files s (in_dir B n))) \<and>
      content t = snd (serve_all (serve_visit B) vs (\<lambda>n. files s (in_dir B n)))) s"
  using assms by (rule worker_runs)

theorem worker_serves_witness:
  "wp (worker_main test_build sample_shell [Ptr 1 0, Ptr 0 0] 5) (\<lambda>r t. content t ''g'' = Some ''hi!'' \<and>
      content t ''f'' = None \<and> (\<exists>es. effects (trace t) = Ran ''mkdir .'' # es) \<and>
      answered (trace t) = [(Host ''10.0.0.1'' 55442, 0, REGISTER, 1, address ''127.0.0.1'' 55443),
        (Caller, 1, WRITE, 1, ''2''), (Caller, 2, APPEND, 1, ''1''), (Caller, 3, READ, 1, ''hi!''),
        (Caller, 4, DELETE, 1, [])])
    (sample_start (Opens (carries []) # map sample_outcome sample_visits))"
proof -
  let ?s = "sample_start (Opens (carries []) # map sample_outcome sample_visits)"
  let ?m = "\<lambda>n. files ?s (in_dir test_build n)"
  have m: "?m = [''f'' \<mapsto> ''x'']" by (simp add: fun_eq_iff in_dir_def WORKER_DIR_def)
  have n: "length sample_visits = 5" by (simp add: sample_visits_def)
  have d: "show_int 2 = ''2''" "show_int 1 = ''1''"
    by (simp_all add: show_int_def show_nat.simps digit_def char_of_def bit_iff_odd)
  have r: "serve_all (serve_visit test_build) sample_visits ?m = ([(Caller, 1, WRITE, 1, ''2''),
      (Caller, 2, APPEND, 1, ''1''), (Caller, 3, READ, 1, ''hi!''), (Caller, 4, DELETE, 1, [])], ?m(''g'' \<mapsto> ''hi!'', ''f'' := None))"
    by (simp add: m sample_visits_def abs_write_def write_type_def d)
  have "fits READ_SIZE 0 ''hi!''" by (rule fits_short) (simp_all add: READ_SIZE_def)
  then have ok: "accept_all (hosted test_build sample_shell (may_write ?s)) (serve_visit test_build) sample_visits ?m"
    by (simp add: m sample_visits_def hosted_def abs_write_def sample_shell_law plain_def plain_char_def
        in_dir_def WORKER_DIR_def)
  have c: "list_all2 (visit_comes test_build) sample_visits (map sample_outcome sample_visits)"
    unfolding list_all2_map2 by (intro list_all2_same [THEN iffD2] ballI sample_comes) (auto simp: sample_visits_def)
  have "wp (worker_main test_build sample_shell [Ptr 1 0, Ptr 0 0] (length sample_visits)) (\<lambda>r t.
      (\<exists>f. r = Inr f \<and> ready f t) \<and> clean_mem t \<and> net t = [] \<and>
      (\<exists>es. effects (trace t) = effects (trace ?s) @ [Ran (''mkdir '' @ WORKER_DIR test_build)] @
        asks_host test_build @ es) \<and>
      answered (trace t) = answered (trace ?s) @
        (Host ''10.0.0.1'' (BOOT_MASTER_PORT test_build), 0, REGISTER, WORKER_TKN test_build, address (own_address test_build ?s) 55443) #
        fst (serve_all (serve_visit test_build) sample_visits ?m) \<and>
      content t = snd (serve_all (serve_visit test_build) sample_visits ?m)) ?s"
    by (rule worker_serves [OF _ sample_mkdir _ _ _ sample_host _ _ _ _ c ok, where d = "carries []"])
      (simp_all del: cstring.simps)
  then show ?thesis unfolding n r by (rule wp_mono) (auto simp: m answered_def WORKER_DIR_def BOOT_MASTER_PORT_def get_dbg_port_def)
qed

text \<open>
  C8. The start of a worker whose address has at most 12 characters (C40 is about longer ones) brings
  it into the cluster: it runs \<^verbatim>\<open>mkdir\<close> for its directory, and the bytes that it sends to the master's
  address and port make the program of the master, after a sequence of visits that it can serve (C5),
  list it behind the workers that came before, with the next identifier, its address and its port.
  There are fewer than 65535 workers, and the memory that the master allocates is zeroed, with a
  readable byte behind it.
\<close>

theorem worker_joins_roster:
  fixes s :: "'z worker_scheme" and m :: "'y master_scheme"
  assumes "fresh_worker s" and "mkdir_law sh" and "2 \<le> length argv"
    and "cstring s (argv ! 1) = Some master" and "inet_pton4 master" and "net s = Opens d # rs" and "accepts d"
    and "own_address B s \<noteq> []" and "length (own_address B s) \<le> 12" and "inet_pton4 (own_address B s)"
    and "standing m" and "clean_mem m" and "list_all2 (arrives B) vs oss"
    and "accept_all (acceptable B) (serve_call B) vs (roster_of m)"
    and "snd (serve_all (serve_call B) vs (roster_of m)) = (i, ws)" and "length ws < 65535"
  shows "wp (worker_start B sh argv) (\<lambda>r u. (\<exists>f. r = Inr f) \<and> (\<exists>g bs.
      effects (trace u) = effects (trace s) @ [Ran (''mkdir '' @ WORKER_DIR B)] @ asks_host B @
        [Sent g (Host master (BOOT_MASTER_PORT B)) bs, Closed g] \<and>
      wp (master_main B (Suc (length vs))) (\<lambda>_ t. roster_of t = (i + 1, ws @ [(ucast i, own_address B s, 55443)]))
        (m\<lparr>net := concat oss @ [Opens (carries bs)]\<rparr>))) s"
  using assms by (rule worker_enters)

theorem worker_joins_roster_witness:
  "wp (worker_start test_build sample_shell [Ptr 1 0, Ptr 0 0]) (\<lambda>r u. \<exists>g bs.
      effects (trace u) = [Ran ''mkdir .'', Sent g (Host ''10.0.0.1'' 55442) bs, Closed g] \<and>
      wp (master_main test_build 2) (\<lambda>_ t. roster_of t = (2, [(1, ''127.0.0.1'', 55443)]))
        ((sample_master [] [] [])\<lparr>net := [visitor 7 LS 0 [], Opens (carries bs)]\<rparr>))
    (sample_start [Opens (carries [])])"
proof -
  let ?s = "sample_start [Opens (carries [])]" and ?m = "sample_master [] [] []"
  let ?vs = "[Early 7 0 LS []]"
  have r: "roster_of ?m = (1, [])" by (simp add: roster_of_def)
  have st: "standing ?m" by (simp add: standing_def)
  have i: "inet_pton4 (own_address test_build ?s)" using sample_address by simp
  have "wp (worker_start test_build sample_shell [Ptr 1 0, Ptr 0 0]) (\<lambda>r u. (\<exists>f. r = Inr f) \<and> (\<exists>g bs.
      effects (trace u) = effects (trace ?s) @ [Ran (''mkdir '' @ WORKER_DIR test_build)] @ asks_host test_build @
        [Sent g (Host ''10.0.0.1'' (BOOT_MASTER_PORT test_build)) bs, Closed g] \<and>
      wp (master_main test_build (Suc (length ?vs)))
        (\<lambda>_ t. roster_of t = (1 + 1, [] @ [(ucast (1 :: u32), own_address test_build ?s, 55443)]))
        (?m\<lparr>net := concat [[visitor 7 LS 0 []]] @ [Opens (carries bs)]\<rparr>))) ?s"
    by (rule worker_joins_roster [OF _ sample_mkdir _ _ sample_host _ _ _ _ i st, where d = "carries []"])
      (simp_all add: r visitor_brings del: cstring.simps)
  moreover have "Suc (length ?vs) = 2" by simp
  ultimately show ?thesis by (elim wp_mono) (simp add: WORKER_DIR_def asks_host_def numeral_2_eq_2
      BOOT_MASTER_PORT_def get_dbg_port_def)
qed

end
