(* ===== verification/Cluster.thy ===== *)
theory Cluster
  imports Programs Client_Facts
begin

text \<open>
  A client, a running master and a running worker: what the client sends is a call of the master, after
  anything that the master has served, and what the master passes on is a visit of the worker, after
  anything that the worker has served.
\<close>

section \<open>From one program to the next\<close>

text \<open>What a client sends is a call of the master.\<close>

lemma request_calls:
  assumes "known_type (request_type r)" and "header_size + length (request_arg r) + length leak \<le> READ_SZ"
    and "helped r os"
  shows "arrives B (Calls q tok r) (Opens (carries (wire_msg q (request_type r) tok (request_arg r) @ leak)) # os)"
  using assms by (auto intro!: brings_wire simp: READ_SZ_def header_size_def simp del: helped.simps)

text \<open>What the master passes on to write is a visit of the worker.\<close>

lemma passed_visits:
  assumes "heard (h, bs) = Passed a p WRITE (MASTER_TKN B) (n @ CHR '';'' # x)"
    and "header_size + length n + length x + 20 \<le> WORKER_READ_SIZE"
  shows "visit_comes B (Asks 0 (Put False n x)) (Opens (carries bs))"
  using heard_passed [OF assms(1)] assms(2) by (auto intro!: brings_carries simp: write_type_def)

lemma heard_told: "heard y = Told x \<Longrightarrow> y = (Caller, x @ [NUL])"
  by (auto simp: heard_def split: prod.splits peer.splits if_splits) (metis append_butlast_last_id)

lemma map_last_two:
  assumes "map f ts = as @ [a, b]"
  obtains us u v where "ts = us @ [u, v]" "map f us = as" "f u = a" "f v = b"
proof -
  obtain us vs where "ts = us @ vs" "map f us = as" "map f vs = [a, b]"
    using assms by (auto simp: map_eq_append_conv)
  then show ?thesis using that by (auto simp: map_eq_Cons_conv)
qed

text \<open>A write that comes to the running master, and what it sends last.\<close>

lemma master_passes:
  fixes m :: "'z master_scheme"
  assumes m: "standing m" "clean_mem m" and vs: "list_all2 (arrives B) vs oss" "arrives B (Calls q tok (Writes n x v)) os"
    and ok: "accept_all (acceptable B) (serve_call B) (vs @ [Calls q tok (Writes n x v)]) (roster_of m)"
    and fin: "snd (serve_all (serve_call B) vs (roster_of m)) = (i, (k, h, p) # ws)"
  shows "wp (master_main B (Suc (length vs))) (\<lambda>_ u. \<exists>ts bs. sent (trace u) = ts @ [(Host h p, bs), (Caller, show_int v @ [NUL])] \<and>
      heard (Host h p, bs) = Passed h p WRITE (MASTER_TKN B) (n @ CHR '';'' # x))
    (m\<lparr>net := concat oss @ os\<rparr>)"
proof -
  let ?vs = "vs @ [Calls q tok (Writes n x v)]" and ?m = "m\<lparr>net := concat oss @ os\<rparr>"
  have l: "length ?vs = Suc (length vs)" by simp
  have "list_all2 (arrives B) ?vs (oss @ [os])" using vs by (intro list_all2_appendI) simp_all
  then have "wp (master_main B (length ?vs)) (\<lambda>g t. hub g t \<and> clean_mem t \<and>
      told (trace t) = told (trace ?m) @ fst (serve_all (serve_call B) ?vs (roster_of ?m)) \<and>
      roster_of t = snd (serve_all (serve_call B) ?vs (roster_of ?m))) ?m"
    by (intro master_runs [where oss = "oss @ [os]" and rest = "[]"]) (use m ok in simp_all)
  then show ?thesis unfolding l
  proof (rule wp_mono, elim conjE)
    fix g and t :: "'z master_scheme"
    assume "told (trace t) = told (trace ?m) @ fst (serve_all (serve_call B) ?vs (roster_of ?m))"
    then have "map heard (sent (trace t)) = (told (trace ?m) @ fst (serve_all (serve_call B) vs (roster_of m))) @
        [Passed h p WRITE (MASTER_TKN B) (n @ CHR '';'' # x), Told (show_int v)]"
      using fin by (simp add: told_def serve_all_append split_def passed_def)
    then obtain ts bs y where t: "sent (trace t) = ts @ [bs, y]"
        "heard bs = Passed h p WRITE (MASTER_TKN B) (n @ CHR '';'' # x)" "heard y = Told (show_int v)"
      by (rule map_last_two) blast
    obtain b where b: "bs = (Host h p, b)" using heard_passed(1) [of "fst bs" "snd bs"] t(2) by (cases bs) auto
    show "\<exists>ts bs. sent (trace t) = ts @ [(Host h p, bs), (Caller, show_int v @ [NUL])] \<and>
        heard (Host h p, bs) = Passed h p WRITE (MASTER_TKN B) (n @ CHR '';'' # x)"
      using t(1,2) heard_told [OF t(3)] b by blast
  qed
qed

text \<open>The write at the running worker.\<close>

lemma worker_net [simp]:
  "ready f (w\<lparr>net := os\<rparr>) = ready f w" "content (w\<lparr>net := os\<rparr>) = content w"
  "servable sh (w\<lparr>net := os\<rparr>) = servable sh w"
proof -
  have p: "path_of (w\<lparr>net := os\<rparr>) = path_of w" by (simp add: path_of_def fun_eq_iff split: ptr.split)
  show "ready f (w\<lparr>net := os\<rparr>) = ready f w"
    by (simp add: ready_def exec_ok_def fs_ok_def log_ok_def wf_mem_def clean_mem_def split: ptr.split)
  show "content (w\<lparr>net := os\<rparr>) = content w" by (simp add: content_def p fun_eq_iff)
  have "writable_name (w\<lparr>net := os\<rparr>) = writable_name w" by (simp add: writable_name_def p fun_eq_iff)
  then show "servable sh (w\<lparr>net := os\<rparr>) = servable sh w" by (intro ext) (simp add: servable_def p split: visit.split)
qed

lemma worker_stores:
  fixes w :: "'y worker_scheme"
  assumes w: "ready f w" "clean_mem w" and us: "list_all2 (visit_comes B) us ns" "visit_comes B (Asks q (Put False n x)) k"
    and ok: "accept_all (servable sh w) (serve_visit B) us (content w)"
    and n: "CHR '';'' \<notin> set n" "NUL \<notin> set (n @ x)" "writable_name w n"
  shows "wp (rounds (worker_round B sh) (Suc (length us)) f) (\<lambda>_ z.
      content z = (snd (serve_all (serve_visit B) us (content w)))(n \<mapsto> x) \<and>
      last (answered (trace z)) = (Caller, q + 1, WRITE, WORKER_TKN B, show_nat (length x))) (w\<lparr>net := ns @ [k]\<rparr>)"
proof -
  let ?us = "us @ [Asks q (Put False n x)]" and ?w = "w\<lparr>net := ns @ [k]\<rparr>"
  have l: "length ?us = Suc (length us)" by simp
  have c: "list_all2 (visit_comes B) ?us (ns @ [k])" using us by (intro list_all2_appendI) simp_all
  have ok': "accept_all (servable sh ?w) (serve_visit B) ?us (content ?w)"
    using ok n by (simp add: accept_all_append) (simp add: servable_def)
  have r: "ready f ?w \<and> clean_mem ?w" using w by simp
  show ?thesis unfolding l [symmetric]
    by (rule wp_mono [OF shelf.rounds_refine [where rest = "[]", OF r _ ok']])
      (use c in \<open>auto simp: serve_all_append split_def abs_write_def write_type_def show_int_def\<close>)
qed

section \<open>A write through the cluster\<close>

lemma cluster_stores:
  fixes s :: "'x client_scheme" and m :: "'z master_scheme" and w :: "'y worker_scheme"
  assumes client: "log_ok s" "log_msg s = Null" "msg_ok s"
      "list_all2 (\<lambda>p w. cstring s p = Some w) [p0, p1, p2, p3] [w0, ''write'', n, x]"
      "holds_settings B (a, prt) s" "inet_pton4 a"
      "net s = Opens d # rs" "accepts d" "incoming d = Arrives (show_nat (length x) @ [NUL]) # rest"
      "\<And>j. 18 \<le> spare s j + room s j"
    and len: "42 + length n + length x \<le> READ_SZ" and n: "CHR '';'' \<notin> set n"
    and m: "standing m" "clean_mem m" "list_all2 (arrives B) vs oss" "accept_all (acceptable B) (serve_call B) vs (roster_of m)"
      "snd (serve_all (serve_call B) vs (roster_of m)) = (i, (k, h, p) # ws)"
    and e: "accepts e" "incoming e = Arrives rep # q" "reports rep v" "length (show_int v) < 10"
    and w: "ready f w" "clean_mem w" "list_all2 (visit_comes B) us ns"
      "accept_all (servable sh w) (serve_visit B) us (content w)" "writable_name w n"
  shows "wp (client_main B [p0, p1, p2, p3]) (\<lambda>r t. r = 0 \<and> (\<exists>g bs.
      effects (trace t) = effects (trace s) @ [Sent g (Host a prt) bs, Closed g] \<and>
      wp (master_main B (Suc (length vs))) (\<lambda>_ u. \<exists>ts bs'.
          sent (trace u) = ts @ [(Host h p, bs'), (Caller, show_int v @ [NUL])] \<and>
          wp (rounds (worker_round B sh) (Suc (length us)) f) (\<lambda>_ z.
              content z = (snd (serve_all (serve_visit B) us (content w)))(n \<mapsto> x) \<and>
              last (answered (trace z)) = (Caller, 1, WRITE, WORKER_TKN B, show_nat (length x)))
            (w\<lparr>net := ns @ [Opens (carries bs')]\<rparr>))
        (m\<lparr>net := concat oss @ [Opens (carries bs), Opens e]\<rparr>))) s"
    (is "wp _ (\<lambda>r t. r = 0 \<and> (\<exists>g bs. ?sent t g bs \<and> ?M bs)) s")
proof -
  have no: "NUL \<notin> set (n @ x)" using client(4) by (auto dest: cstring_no_nul)
  let ?c = "Calls 0 0 (Writes n x v)"
  have ok: "accept_all (acceptable B) (serve_call B) (vs @ [?c]) (roster_of m)"
    using m(4,5) n no e(4) by (simp add: accept_all_append)
  have h: "helped (Writes n x v) [Opens e]" using e(1-3) by simp
  have small: "length n + length x + 2 < 2 ^ 31" using len by (simp add: READ_SZ_def)
  show ?thesis
  proof (rule wp_mono [OF write_command [OF client(1-9) small client(10)]]; (elim conjE exE)?)
    fix r :: int and t :: "'x client_scheme" and g leak tr
    assume r: "r = 0" and lk: "length leak = 19"
      and sent: "effects (trace t) = effects (trace s) @ [Sent g (Host a prt) (wire_msg 0 WRITE 0 (n @ CHR '';'' # x) @ leak), Closed g]"
    let ?bs = "wire_msg 0 WRITE 0 (n @ CHR '';'' # x) @ leak"
    have c: "arrives B ?c [Opens (carries ?bs), Opens e]"
      using request_calls [OF _ _ h, of leak B 0 0] len lk by (simp add: header_size_def)
    have "?M ?bs"
    proof (rule wp_mono [OF master_passes [OF m(1-3) c ok m(5)]]; elim exE conjE)
      fix u :: "'z master_scheme" and ts bs
      assume u: "sent (trace u) = ts @ [(Host h p, bs), (Caller, show_int v @ [NUL])]"
        "heard (Host h p, bs) = Passed h p WRITE (MASTER_TKN B) (n @ CHR '';'' # x)"
      have "visit_comes B (Asks 0 (Put False n x)) (Opens (carries bs))"
        by (rule passed_visits [OF u(2)]) (use len in \<open>simp add: header_size_def READ_SZ_def WORKER_READ_SIZE_def\<close>)
      from worker_stores [OF w(1-3) this w(4) n no w(5)] u(1)
      show "\<exists>ts bs'. sent (trace u) = ts @ [(Host h p, bs'), (Caller, show_int v @ [NUL])] \<and>
        wp (rounds (worker_round B sh) (Suc (length us)) f) (\<lambda>_ z.
            content z = (snd (serve_all (serve_visit B) us (content w)))(n \<mapsto> x) \<and>
            last (answered (trace z)) = (Caller, 1, WRITE, WORKER_TKN B, show_nat (length x)))
          (w\<lparr>net := ns @ [Opens (carries bs')]\<rparr>)" by auto
    qed
    then show "r = 0 \<and> (\<exists>g bs. ?sent t g bs \<and> ?M bs)" using r sent by blast
  qed
qed

section \<open>Properties\<close>

text \<open>
  C1. A write from the command line goes through a running cluster: the client sends its request to
  the address and port of its settings; there it makes the master, after a sequence of visits that it
  can serve (C5), send its last packet to the address and port of the first worker of the roster that
  those visits lead to, and tell its caller the number that the worker reports; that packet makes a
  worker, after a sequence of requests that it accepts (C4), store the data under the name, with no
  other change to its files, and report the length of the data to its caller. The memory that the
  master and the worker allocate is zeroed, with a readable byte behind it.
\<close>

theorem cluster_write:
  fixes s :: "'x client_scheme" and m :: "'z master_scheme" and w :: "'y worker_scheme"
  assumes "log_ok s" "log_msg s = Null" "msg_ok s"
      "list_all2 (\<lambda>p w. cstring s p = Some w) [p0, p1, p2, p3] [w0, ''write'', n, x]"
      "holds_settings B (a, prt) s" "inet_pton4 a"
      "net s = Opens d # rs" "accepts d" "incoming d = Arrives (show_nat (length x) @ [NUL]) # rest"
      "\<And>j. 18 \<le> spare s j + room s j"
    and "42 + length n + length x \<le> READ_SZ" and "CHR '';'' \<notin> set n"
    and "standing m" "clean_mem m" "list_all2 (arrives B) vs oss" "accept_all (acceptable B) (serve_call B) vs (roster_of m)"
      "snd (serve_all (serve_call B) vs (roster_of m)) = (i, (k, h, p) # ws)"
    and "accepts e" "incoming e = Arrives rep # q" "reports rep v" "length (show_int v) < 10"
    and "ready f w" "clean_mem w" "list_all2 (visit_comes B) us ns"
      "accept_all (servable sh w) (serve_visit B) us (content w)" "writable_name w n"
  shows "wp (client_main B [p0, p1, p2, p3]) (\<lambda>r t. r = 0 \<and> (\<exists>g bs.
      effects (trace t) = effects (trace s) @ [Sent g (Host a prt) bs, Closed g] \<and>
      wp (master_main B (Suc (length vs))) (\<lambda>_ u. \<exists>ts bs'.
          sent (trace u) = ts @ [(Host h p, bs'), (Caller, show_int v @ [NUL])] \<and>
          wp (rounds (worker_round B sh) (Suc (length us)) f) (\<lambda>_ z.
              content z = (snd (serve_all (serve_visit B) us (content w)))(n \<mapsto> x) \<and>
              last (answered (trace z)) = (Caller, 1, WRITE, WORKER_TKN B, show_nat (length x)))
            (w\<lparr>net := ns @ [Opens (carries bs')]\<rparr>))
        (m\<lparr>net := concat oss @ [Opens (carries bs), Opens e]\<rparr>))) s"
  using assms by (rule cluster_stores)

theorem cluster_write_witness:
  "wp (client_main test_build [Ptr 0 0, Ptr 1 0, Ptr 2 0, Ptr 3 0]) (\<lambda>r t. \<exists>g bs. effects (trace t) =
        [Sent g (Host ''10.0.0.1'' 4040) bs, Closed g] \<and>
      wp (master_main test_build 2) (\<lambda>_ u. \<exists>ts bs'.
          sent (trace u) = ts @ [(Host ''127.0.0.1'' 55443, bs'), (Caller, ''5'' @ [NUL])] \<and>
          wp (rounds (worker_round test_build sample_shell) 2 0)
            (\<lambda>_ z. content z = [''f'' \<mapsto> ''x'', ''g'' \<mapsto> ''hi''])
            ((sample_node [Some unconnected] [] [])\<lparr>net := [Fails AtBind, Opens (carries bs')]\<rparr>))
        ((sample_master [] [] [])\<lparr>net := [visitor 0 REGISTER 1 (address ''127.0.0.1'' 55443), Opens (carries bs),
          Opens (carries sample_answer)]\<rparr>))
    (sample_caller [''pekar'', ''write'', ''g'', ''hi''] [Opens (carries (''2'' @ [NUL]))])"
proof -
  let ?s = "sample_caller [''pekar'', ''write'', ''g'', ''hi''] [Opens (carries (''2'' @ [NUL]))]"
  let ?m = "sample_master [] [] []" and ?w = "sample_node [Some unconnected] [] []"
  have two: "show_nat (Suc (Suc 0)) = ''2''" by (simp add: show_nat.simps digit_def char_of_def bit_iff_odd)
  have ws: "list_all2 (\<lambda>p w. cstring ?s p = Some w) [Ptr 0 0, Ptr 1 0, Ptr 2 0, Ptr 3 0]
      [''pekar'', ''write'', ''g'', ''hi'']"
    by (simp add: sample_caller_word del: cstring.simps)
  have st: "standing ?m" by (simp add: standing_def)
  have r: "roster_of ?m = (1, [])" by (simp add: roster_of_def)
  have c: "content ?w = [''f'' \<mapsto> ''x'']" by (simp add: fun_eq_iff sample_node_store)
  have br: "brings READ_SZ 0 REGISTER 1 (address ''127.0.0.1'' 55443) (visitor 0 REGISTER 1 (address ''127.0.0.1'' 55443))"
    by (simp add: visitor_brings length_sample_address)
  show ?thesis
    by (rule wp_mono [OF cluster_write [OF _ _ _ ws sample_caller_settings sample_host, where d = "carries (''2'' @ [NUL])"
          and e = "carries sample_answer" and v = 5 and vs = "[Joins ''127.0.0.1'' 55443]" and m = ?m and w = ?w
          and oss = "[[visitor 0 REGISTER 1 (address ''127.0.0.1'' 55443)]]" and us = "[Refused AtBind]"
          and ns = "[Fails AtBind]" and f = 0 and sh = sample_shell]])
      (use sample_address br [unfolded READ_SZ_def] in \<open>auto simp: two READ_SZ_def st r c sample_answer_reports
        show_int_5 sample_node_ready servable_def numeral_2_eq_2 simp del: cstring.simps elim!: wp_mono\<close>)
qed

end
