(* ===== verification/Spec2Isabelle.thy ===== *)
theory Spec2Isabelle
  imports Pp Run_Facts Worker_Ids Manager End_To_End Cluster
begin

text \<open>
  PekarDrive is a distributed file store in C. A client (\<^verbatim>\<open>src/client\<close>, with the library
  \<^verbatim>\<open>lib/interface.c\<close>) sends a packet to the master (\<^verbatim>\<open>src/master.c\<close>). The master keeps a table of workers
  (\<^verbatim>\<open>src/server_table.c\<close>), forwards the request to one of them (\<^verbatim>\<open>src/worker_admin.c\<close>) and
  pings them from a second thread. A worker (\<^verbatim>\<open>src/server\<close>) registers at the master when it
  starts and performs the operations on the files of its directory (\<^verbatim>\<open>src/fs\<close>). All of them talk
  over sockets (\<^verbatim>\<open>lib/comm.c\<close>) in packets (\<^verbatim>\<open>lib/PP/packet.c\<close>). The newer layer of transmissions and
  messages (\<^verbatim>\<open>lib/PP/transmission.c\<close>, \<^verbatim>\<open>lib/PP/pp.c\<close>) has no user in the programs yet.
\<close>

section \<open>How the program is modelled\<close>

text \<open>
  A C function is a command: a function from a state to an error or to a result and a new state
  (C\_Command). The errors are what C leaves undefined or never ends: \<open>NullDeref\<close>,
  \<open>Overflow\<close> of a block, use or release of a dead block, reading what is no text, \<open>Deadlock\<close>,
  \<open>Diverges\<close>. What the code itself reports is a value, as in the code: the error field of a connection, \<open>-1\<close>,
  a null pointer.

  The state is a chain of records, each the state of one layer: \<open>mem\<close> (the blocks of memory),
  \<open>os\<close> (descriptors, the network, the trace of what was sent, closed and printed), \<open>logst\<close> (the static
  buffer of \<^verbatim>\<open>logger.c\<close>); on top of that for the master \<open>tables\<close> (\<^verbatim>\<open>server_table\<close>,
  \<^verbatim>\<open>server_count\<close>, the mutex), \<open>admin\<close> (\<^verbatim>\<open>update_time\<close>) and \<open>master\<close> (\<^verbatim>\<open>worker_id\<close>), for a worker
  \<open>fsys\<close> (the files, \<^verbatim>\<open>work_dir\<close>), \<open>execs\<close> (the mutex of \<^verbatim>\<open>file_exec.c\<close>) and \<open>worker\<close>, for the client
  \<open>fsys\<close>, \<open>parse_state\<close> and \<open>client\<close>. An operation is written over the record of its own layer and is used
  unchanged by the layers above.

  Memory: a block has the bytes the program asked for and the bytes behind them that the allocator leaves
  usable (\<open>spare\<close>) or readable (\<open>room\<close>); new memory holds any bytes (\<open>junk\<close>). So a read behind
  a block gives foreign bytes and is seen in what is sent, and a write behind it is
  the error \<open>Overflow\<close>. The code itself relies on more than that: it takes texts for terminated that it has
  not terminated (the argument that \<^verbatim>\<open>lib/PP/packet.c\<close> line 44 copies, the address of
  \<^verbatim>\<open>src/master.c\<close> line 138, the content that \<^verbatim>\<open>src/fs/fs.c\<close> line 77 returns, the answer that
  \<^verbatim>\<open>src/worker_admin.c\<close> line 196 reads a number from). What such a text is depends on what the allocator
  gives out. The assumption \<open>clean_mem\<close> is that all memory that is given out later is zero and has a
  readable byte behind it, which \<^verbatim>\<open>malloc\<close> does not promise, least of all after a \<^verbatim>\<open>free\<close>. It is a
  hypothesis of its own in every property that needs it, and part of no other predicate on states: the
  properties of the whole cluster, of the loops of the servers and of what the master forwards are under
  this hypothesis, those whose statement does not mention \<open>clean_mem\<close> hold for any memory.

  Connections: the system calls follow a script in the state (\<open>net\<close>), which says whether the next connection
  fails and what the peer sends. The peer itself is part of the connection and of the trace: \<open>Host a p\<close>
  is the address and port that \<^verbatim>\<open>connect\<close> was given, \<open>Caller\<close> is whoever was accepted, and every event
  \<open>Sent\<close> has the peer that the bytes go to. So the properties say which worker is asked, by its
  address and port in the table (\<open>addresses\<close>), and where a client or a worker finds the master.

  \<^verbatim>\<open>unsigned\<close> is \<open>32 word\<close>, \<^verbatim>\<open>unsigned short\<close> \<open>16 word\<close>, the counters wrap around.
  The macros of the build (\<^verbatim>\<open>DEBUG\<close>, \<^verbatim>\<open>VERBOSE_1\<close>, \<^verbatim>\<open>VERBOSE_2\<close>, the tokens) are the
  fields of the record \<open>build\<close>, an argument of the functions that depend on them.
\<close>

section \<open>Theories\<close>

text \<open>
  Foundations: Prelude (lists, words, decimal numbers), C\_Command (commands and their weakest
  preconditions), C\_Memory and Memory\_Laws (blocks, C strings, \<^verbatim>\<open>sprintf\<close>), Posix (sockets as scripts
  in the state), Streams (running a command on a connection that holds given bytes).

  \<^item> Packet: \<^verbatim>\<open>lib/PP/packet.c\<close>. The wire format, \<open>p_encode\<close> against it, the round trip, and what the
    decoder does with a length field that lies. Locale \<open>codec\<close>.
  \<^item> Comm, Logger: \<^verbatim>\<open>lib/comm.c\<close>, \<^verbatim>\<open>src/util/logger.c\<close>.
  \<^item> Transmission, Transfers, Pp: \<^verbatim>\<open>lib/PP/transmission.c\<close>, \<^verbatim>\<open>lib/PP/transmission_serializer.c\<close>,
    \<^verbatim>\<open>lib/PP/pp.c\<close>. Serialisation, what \<open>transmit\<close> sends, what \<open>receive\<close> puts together.
  \<^item> Server\_Table: \<^verbatim>\<open>src/server_table.c\<close>, refined from a list of servers; locale \<open>server_registry\<close>.
  \<^item> Exchange: an encoded message that is sent, or received and decoded, as the callers do it.
  \<^item> Worker\_Admin, Admin\_Facts, Ping\_Facts, Manager: \<^verbatim>\<open>src/balance.c\<close>, \<^verbatim>\<open>src/worker_admin.c\<close>.
    Forwarded requests, rounds of pings, the thread with its waiting.
  \<^item> Master, Master\_Facts, Worker\_Ids: \<^verbatim>\<open>src/master.c\<close>. Registration, forwarding, the error answers, and the
    invariant of the identifiers over every history of requests and rounds.
  \<^item> Listings, Forwarding: the requests that ask the workers one after the other. A listing joins what
    they say; a delete goes to the first that lists the name, an append to none, and a worker
    that says nothing ends the search in a null dereference.
  \<^item> Service: what it means that an endless loop over a listening socket implements a function on an
    abstract state, visit by visit, as long as the visits are such that the server promises to serve
    them (\<open>accept_all\<close>). Locale \<open>network_service\<close>, interpreted on the bodies of both loops, in
    Master\_Service and Worker\_Store.
  \<^item> Master\_Service: runs of the master's loop, with registrations, requests and failed system calls that
    it can serve (\<open>acceptable\<close>: no read, no unknown type, no worker that is silent when it has to
    answer), against a roster: the counter of the identifiers and a list of workers. What is passed on is
    compared with its recipient.
  \<^item> Programs: both server programs from their \<^verbatim>\<open>main\<close> on. A worker from its command line to a
    sequence of visits that it accepts, and the registration that it sends as a call of the running
    master, for addresses of at most 12 characters; longer ones are cut (System).
  \<^item> Cluster: a write from the command line through the running master to a running worker, after
    what either could serve.
  \<^item> Fs, File\_Exec: \<^verbatim>\<open>src/fs/fs.c\<close>, \<^verbatim>\<open>src/server/file_exec.c\<close>, refined from a map of names to
    contents; locale \<open>file_store\<close>.
  \<^item> Worker, Worker\_Facts, Worker\_Store: \<^verbatim>\<open>src/server/argument.c\<close>, \<^verbatim>\<open>boot.c\<close>, \<^verbatim>\<open>server.c\<close>. Whom a
    worker answers, and what; runs of its loop with requests that it accepts (\<open>servable\<close>: what is read is
    there and fits the buffer), connections that are refused included, against a map from names to
    contents.
  \<^item> Arg\_Parser, Settings, Interface, Client: \<^verbatim>\<open>src/client\<close> and \<^verbatim>\<open>lib/interface.c\<close>. The parser against a table of
    the operations, the settings against a pair of host and port.
  \<^item> System, Client\_Facts, Client\_Reads, End\_To\_End: what one program sends is given to the next.
    Worker and master, master and worker, and each command of the client from the command line to the
    file and back. All operations of \<^verbatim>\<open>lib/interface.c\<close> are instances of one exchange (\<open>talk\<close>).
  \<^item> Stability, Stable\_Master, Stable\_Worker, Stable\_Client: what holds of every run of a program
    when it holds of the primitive steps. The locales \<open>transition\<close>, \<open>os_commands\<close>,
    \<open>log_commands\<close>, \<open>table_readers\<close>, \<open>table_removers\<close>, \<open>file_readers\<close>,
    \<open>worker_readers\<close>, \<open>worker_commands\<close>, \<open>client_commands\<close> go from a preorder on states that the
    primitives obey to one that all of the layer obeys. Evolution, Run\_Facts and Worker\_Ids
    interpret them: events are not taken back, files stay unless written, identifiers stay distinct.
\<close>

section \<open>Bounds\<close>

text \<open>
  Loops over memory are \<open>cloop\<close> with fuel; running out is the error \<open>Diverges\<close>. \<open>for_each_server\<close> has
  65537 rounds, the count is a 16-bit number; \<open>char_at\<close>, \<open>find_sep\<close> and \<open>trim_padding\<close> have \<open>2 ^ 32\<close>, they
  run over a 32-bit index; the registration has 2, its condition is false after the first;
  \<open>receive\<close> and \<open>read_all\<close> have two more than there are pieces pending on the connection, each round
  takes one. The waiting of the manager thread is a partial function, which is proved to end when the clock
  goes on. The endless loops of the servers are their bodies: \<open>rounds\<close> and
  \<open>manager_loop\<close> run them any number of times; \<open>master_main\<close> and \<open>worker_main\<close> end after a given
  number of rounds.

  Refinements state the preconditions that the code needs and does not check: a message must be shorter
  than its buffer, a text must have no NUL, an index must be in the table. Where such a precondition
  fails on an input that a peer can send, a lemma or property shows what happens.
\<close>

section \<open>Not modelled\<close>

text \<open>
  \<^item> The creation of threads (\<^verbatim>\<open>start_admin\<close> only calls \<^verbatim>\<open>pthread_create\<close>; \<^verbatim>\<open>THREADING\<close> is not
    defined in the default build). Requests and rounds of the manager interleave as wholes, in any
    order; a mutex that is held when it is taken is a \<open>Deadlock\<close>.
  \<^item> The limit on open descriptors: \<^verbatim>\<open>socket\<close> and \<^verbatim>\<open>accept\<close> fail only when the script says so, and the
    socket that \<^verbatim>\<open>main\<close> opens is always made. The connections that the master leaves open (one per worker
    and round of pings, and per listing) are counted in \<open>answering_workers_stay\<close>, but never run out.
  \<^item> The port that a server binds: \<open>conn_listen\<close> is given it and only prints it.
  \<^item> \<^verbatim>\<open>atoi\<close> and \<^verbatim>\<open>atol\<close> stop at the first character that is no digit; the model first takes the whole text
    and faults when it has no NUL.
  \<^item> Failure of \<^verbatim>\<open>malloc\<close>, sends of only a part of the bytes, signals. \<^verbatim>\<open>realloc\<close> always moves the block.
    \<^verbatim>\<open>sprintf\<close> forms its text before it writes it. Arguments of a call are evaluated in
    the order written.
  \<^item> The float division in \<open>transmit\<close> is exact, as it is below \<open>2 ^ 53\<close>.
  \<^item> A stream is the path it was opened with; directories are no files. A path is taken as the text
    it is: \<^verbatim>\<open>~\<close> and \<^verbatim>\<open>..\<close> are not resolved.
  \<^item> Parameters of the states and functions: the entries of a directory (\<open>dirs\<close>), which paths can be written
    (\<open>may_write\<close>), the shell that \<^verbatim>\<open>rm\<close> and \<^verbatim>\<open>mkdir\<close> are given to, the output of \<^verbatim>\<open>hostname -I\<close>, the clock, and
    the contents of local variables that the code reads before it writes them (\<open>stack_out\<close>, \<open>stack_op\<close>,
    \<open>stack_port\<close>).
  \<^item> Test programs and build files.
\<close>

end
